(* ===== verification/Prelude.thy ===== *)
theory Prelude
  imports Main "HOL-Library.Word"
begin

text \<open>
  Shared vocabulary of the development: the machine integer types of the C++ code, the
  word lemmas that move a 64-bit computation to natural numbers when it does not wrap, and
  the interface locales of the components that are driven by a stream of events.
\<close>

unbundle bit_operations_syntax

section \<open>Machine integers\<close>

type_synonym u8 = "8 word"
type_synonym u16 = "16 word"
type_synonym u32 = "32 word"
type_synonym u64 = "64 word"

text \<open>A byte buffer (\<open>std::vector<uint8_t>\<close>, or a pointer and a size).\<close>

type_synonym bytes = "8 word list"

named_theorems u64_simps \<open>64-bit operations as natural numbers, where they do not wrap\<close>

lemma u64_add [u64_simps]:
  fixes a b :: u64
  assumes "unat a + unat b < 2 ^ 64"
  shows "unat (a + b) = unat a + unat b"
  using assms by (simp add: unat_word_ariths)

lemma u64_sub [u64_simps]:
  fixes a b :: u64
  assumes "unat b \<le> unat a"
  shows "unat (a - b) = unat a - unat b"
  using assms by (simp add: unat_sub word_le_nat_alt)

lemma u64_less [u64_simps]: "(a :: u64) < b \<longleftrightarrow> unat a < unat b"
  by (rule word_less_nat_alt)

lemma u64_le [u64_simps]: "(a :: u64) \<le> b \<longleftrightarrow> unat a \<le> unat b"
  by (rule word_le_nat_alt)

lemma unat_u64_less [simp]: "unat (a :: u64) < 18446744073709551616"
  using unsigned_less [of a, where 'a = nat] by simp

text \<open>Reading a word below half its range as signed changes nothing.\<close>

lemma sint_u64_small [u64_simps]:
  fixes a :: u64
  assumes "unat a < 2 ^ 63"
  shows "sint a = int (unat a)"
proof -
  have "int (unat a) < int (2 ^ 63)" using assms by (simp only: of_nat_less_iff)
  then have "uint a < 2 ^ 63" by simp
  moreover have "- (2 ^ 63) \<le> uint a"
    by (rule order_trans [of _ 0]) simp_all
  ultimately have "signed_take_bit 63 (uint a) = uint a"
    by (rule signed_take_bit_int_eq_self [rotated])
  then show ?thesis by (simp add: sint_uint)
qed

section \<open>Machines driven by events\<close>

text \<open>
  Every component is a state and operations on it. \<open>run\<close> feeds a list of events to a
  step function and collects what each one returns. A component promises an invariant
  (\<open>machine\<close>) and, where it counts what it does, that a counter grows by the weight of
  each answer (\<open>accounting_machine\<close>).
\<close>

fun run :: "('s \<Rightarrow> 'e \<Rightarrow> 's \<times> 'o) \<Rightarrow> 's \<Rightarrow> 'e list \<Rightarrow> 's \<times> 'o list" where
  "run step s [] = (s, [])"
| "run step s (e # es) =
     (let (s', out) = step s e; (t, outs) = run step s' es in (t, out # outs))"

locale machine =
  fixes step :: "'s \<Rightarrow> 'e \<Rightarrow> 's \<times> 'o"
    and admissible :: "'e \<Rightarrow> bool"
    and inv :: "'s \<Rightarrow> bool"
  assumes step_inv: "inv s \<Longrightarrow> admissible e \<Longrightarrow> inv (fst (step s e))"
begin

lemma run_inv: "inv s \<Longrightarrow> list_all admissible es \<Longrightarrow> inv (fst (run step s es))"
proof (induction es arbitrary: s)
  case Nil
  then show ?case by simp
next
  case (Cons e es)
  then have "inv (fst (step s e))" by (simp add: step_inv)
  then have "inv (fst (run step (fst (step s e)) es))" using Cons by simp
  then show ?case by (simp add: split_beta)
qed

lemma run_append:
  "run step s (es @ fs) =
     (let (s', os) = run step s es; (t, ps) = run step s' fs in (t, os @ ps))"
  by (induction es arbitrary: s) (simp_all add: split_beta)

lemma run_every:
  assumes "inv s" and "list_all admissible es"
    and each: "\<And>s e. inv s \<Longrightarrow> admissible e \<Longrightarrow> P (snd (step s e))"
  shows "list_all P (snd (run step s es))"
  using assms(1,2)
proof (induction es arbitrary: s)
  case Nil
  then show ?case by simp
next
  case (Cons e es)
  then have "list_all P (snd (run step (fst (step s e)) es))"
    using step_inv [of s e] by simp
  moreover have "P (snd (step s e))" using Cons.prems each by simp
  ultimately show ?case by (simp add: split_beta)
qed

end

locale accounting_machine = machine +
  fixes counter :: "'a \<Rightarrow> 'm :: comm_monoid_add"
    and weight :: "'c \<Rightarrow> 'm"
  assumes step_counter:
    "inv s \<Longrightarrow> admissible e \<Longrightarrow> counter (fst (step s e)) = counter s + weight (snd (step s e))"
begin

lemma run_counter:
  "inv s \<Longrightarrow> list_all admissible es \<Longrightarrow>
     counter (fst (run step s es)) = counter s + sum_list (map weight (snd (run step s es)))"
proof (induction es arbitrary: s)
  case Nil
  then show ?case by simp
next
  case (Cons e es)
  let ?s' = "fst (step s e)"
  have "counter (fst (run step ?s' es)) = counter ?s' + sum_list (map weight (snd (run step ?s' es)))"
    using Cons step_inv [of s e] by simp
  moreover have "counter ?s' = counter s + weight (snd (step s e))"
    using Cons.prems step_counter by simp
  ultimately show ?case by (simp add: split_beta add.assoc)
qed

end

end
