(* ===== verification/Cpp_Strings.thy ===== *)
theory Cpp_Strings
  imports Prelude
begin

text \<open>
  What the code uses of \<open>std::string\<close> and of the C library on strings. A string is a list of
  characters (bytes); a search returns \<open>None\<close> where C++ returns \<open>npos\<close>.
\<close>

section \<open>Searching and cutting\<close>

primrec index_of :: "('a \<Rightarrow> bool) \<Rightarrow> 'a list \<Rightarrow> nat option" where
  "index_of P [] = None"
| "index_of P (x # xs) = (if P x then Some 0 else map_option Suc (index_of P xs))"

definition find_from :: "(char \<Rightarrow> bool) \<Rightarrow> string \<Rightarrow> nat \<Rightarrow> nat option" where
  "find_from P s pos = map_option (\<lambda>k. pos + k) (index_of P (drop pos s))"

definition find_char :: "char \<Rightarrow> string \<Rightarrow> nat \<Rightarrow> nat option" where
  "find_char c s pos = find_from (\<lambda>d. d = c) s pos"

definition find_first_of :: "string \<Rightarrow> string \<Rightarrow> nat \<Rightarrow> nat option" where
  "find_first_of cs s pos = find_from (\<lambda>d. d \<in> set cs) s pos"

definition starts_with :: "string \<Rightarrow> string \<Rightarrow> bool" where
  "starts_with s pre = (take (length pre) s = pre)"

primrec index_of_str :: "string \<Rightarrow> string \<Rightarrow> nat option" where
  "index_of_str needle [] = (if needle = [] then Some 0 else None)"
| "index_of_str needle (c # cs) =
     (if starts_with (c # cs) needle then Some 0 else map_option Suc (index_of_str needle cs))"

definition find_str :: "string \<Rightarrow> string \<Rightarrow> nat \<Rightarrow> nat option" where
  "find_str needle s pos = map_option (\<lambda>k. pos + k) (index_of_str needle (drop pos s))"

definition contains_str :: "string \<Rightarrow> string \<Rightarrow> bool" where
  "contains_str s needle = (find_str needle s 0 \<noteq> None)"

text \<open>The last position of a character (\<open>rfind\<close>).\<close>

definition rfind_char :: "char \<Rightarrow> string \<Rightarrow> nat option" where
  "rfind_char c s = map_option (\<lambda>k. length s - 1 - k) (index_of (\<lambda>d. d = c) (rev s))"

text \<open>\<open>substr\<close> with a length; the code calls it with positions inside the string only.\<close>

definition substr :: "string \<Rightarrow> nat \<Rightarrow> nat \<Rightarrow> string" where
  "substr s pos len = take len (drop pos s)"

text \<open>\<open>c_str()\<close> as a C function sees it: up to the first NUL.\<close>

definition c_str :: "string \<Rightarrow> string" where
  "c_str s = takeWhile (\<lambda>c. c \<noteq> CHR 0x00) s"

section \<open>Character classes and case (the "C" locale)\<close>

definition char_code :: "char \<Rightarrow> nat" where
  "char_code c = of_char c"

definition is_digit :: "char \<Rightarrow> bool" where
  "is_digit c = (48 \<le> char_code c \<and> char_code c \<le> 57)"

definition is_xdigit :: "char \<Rightarrow> bool" where
  "is_xdigit c = (is_digit c \<or> 65 \<le> char_code c \<and> char_code c \<le> 70 \<or>
     97 \<le> char_code c \<and> char_code c \<le> 102)"

definition is_space :: "char \<Rightarrow> bool" where
  "is_space c = (char_code c = 32 \<or> 9 \<le> char_code c \<and> char_code c \<le> 13)"

definition to_lower :: "char \<Rightarrow> char" where
  "to_lower c = (if 65 \<le> char_code c \<and> char_code c \<le> 90 then char_of (char_code c + 32) else c)"

definition to_upper :: "char \<Rightarrow> char" where
  "to_upper c = (if 97 \<le> char_code c \<and> char_code c \<le> 122 then char_of (char_code c - 32) else c)"

definition starts_with_ci :: "string \<Rightarrow> string \<Rightarrow> bool" where
  "starts_with_ci s pre = (map to_lower (take (length pre) s) = map to_lower pre)"

section \<open>Numbers\<close>

definition digit_char :: "nat \<Rightarrow> char" where
  "digit_char n = char_of (48 + n)"

definition digit_value :: "char \<Rightarrow> int" where
  "digit_value c = int (char_code c) - 48"

fun nat_string :: "nat \<Rightarrow> string" where
  "nat_string n = (if n < 10 then [digit_char n] else nat_string (n div 10) @ [digit_char (n mod 10)])"

declare nat_string.simps [simp del]

definition to_string :: "int \<Rightarrow> string" where
  "to_string i = (if i < 0 then CHR ''-'' # nat_string (nat (- i)) else nat_string (nat i))"

definition digits_value :: "string \<Rightarrow> int" where
  "digits_value ds = foldl (\<lambda>v d. 10 * v + digit_value d) 0 ds"

text \<open>The number \<open>strtoll(s, nullptr, 10)\<close> reads before it is clamped to the type.\<close>

definition strtol_value :: "string \<Rightarrow> int" where
  "strtol_value s =
     (case dropWhile is_space (c_str s) of
        [] \<Rightarrow> 0
      | c # cs \<Rightarrow>
          if c = CHR ''-'' then - digits_value (takeWhile is_digit cs)
          else if c = CHR ''+'' then digits_value (takeWhile is_digit cs)
          else digits_value (takeWhile is_digit (c # cs)))"

definition strtoll :: "string \<Rightarrow> int" where
  "strtoll s = max (- (2 ^ 63)) (min (2 ^ 63 - 1) (strtol_value s))"

text \<open>
  \<open>atoi\<close> is \<open>(int)strtol\<close> in the C library of macOS: the low 32 bits of the clamped value,
  read as signed.
\<close>

definition atoi :: "string \<Rightarrow> int" where
  "atoi s = signed_take_bit 31 (strtoll s)"

section \<open>Lemmas\<close>

lemma index_of_None_iff: "index_of P xs = None \<longleftrightarrow> (\<forall>x\<in>set xs. \<not> P x)"
  by (induction xs) auto

lemma index_of_Some_iff:
  "index_of P xs = Some k \<longleftrightarrow> k < length xs \<and> P (xs ! k) \<and> (\<forall>x\<in>set (take k xs). \<not> P x)"
proof (induction xs arbitrary: k)
  case Nil
  then show ?case by simp
next
  case (Cons x xs)
  show ?case by (cases k) (auto simp: Cons.IH)
qed

lemma index_of_append_first [simp]:
  assumes "\<forall>x\<in>set xs. \<not> P x"
  shows "index_of P (xs @ ys) = map_option (\<lambda>k. length xs + k) (index_of P ys)"
  using assms by (induction xs) (cases "index_of P ys"; simp)+

lemma index_of_takeWhile:
  "index_of P xs = Some k \<Longrightarrow> take k xs = takeWhile (\<lambda>x. \<not> P x) xs"
  by (induction xs arbitrary: k) (auto split: if_splits)

lemma index_of_less: "index_of P xs = Some k \<Longrightarrow> k < length xs"
  by (simp add: index_of_Some_iff)

lemma starts_with_append [simp]: "starts_with (pre @ s) pre"
  by (simp add: starts_with_def)

lemma starts_with_iff: "starts_with s pre \<longleftrightarrow> (\<exists>rest. s = pre @ rest)"
  by (auto simp: starts_with_def) (metis append_take_drop_id)

lemma char_code_less [simp]: "char_code c < 256"
  by (simp add: char_code_def)

lemma char_code_digit: "n < 10 \<Longrightarrow> char_code (digit_char n) = 48 + n"
  by (simp add: char_code_def digit_char_def)

lemma is_digit_digit_char: "n < 10 \<Longrightarrow> is_digit (digit_char n)"
  by (simp add: is_digit_def char_code_digit)

lemma digit_value_digit_char: "n < 10 \<Longrightarrow> digit_value (digit_char n) = int n"
  by (simp add: digit_value_def char_code_digit)

lemma nat_string_nonempty: "nat_string n \<noteq> []"
  by (subst nat_string.simps) simp

lemma nat_string_digits: "list_all is_digit (nat_string n)"
proof (induction n rule: nat_string.induct)
  case (1 n)
  show ?case
  proof (cases "n < 10")
    case True
    then show ?thesis by (subst nat_string.simps) (simp add: is_digit_digit_char)
  next
    case False
    with 1 have "list_all is_digit (nat_string (n div 10))" by simp
    with False show ?thesis by (subst nat_string.simps) (simp add: is_digit_digit_char)
  qed
qed

lemma digits_value_snoc: "digits_value (ds @ [d]) = 10 * digits_value ds + digit_value d"
  by (simp add: digits_value_def)

lemma digits_value_nat_string: "digits_value (nat_string n) = int n"
proof (induction n rule: nat_string.induct)
  case (1 n)
  show ?case
  proof (cases "n < 10")
    case True
    then show ?thesis
      by (subst nat_string.simps) (simp add: digits_value_def digit_value_digit_char)
  next
    case False
    with 1 have "digits_value (nat_string (n div 10)) = int (n div 10)" by simp
    moreover have "10 * int (n div 10) + int (n mod 10) = int n"
      by (simp add: zdiv_int zmod_int)
    ultimately show ?thesis using False
      by (subst nat_string.simps) (simp add: digits_value_snoc digit_value_digit_char)
  qed
qed

lemma is_digit_not:
  assumes "is_digit c"
  shows "c \<noteq> CHR 0x00" "c \<noteq> CHR ''-''" "c \<noteq> CHR ''+''" "\<not> is_space c" "c \<noteq> CHR '',''"
    "c \<noteq> CHR '':''" "c \<noteq> CHR ''/''" "c \<noteq> CHR '' ''"
  using assms by (auto simp: is_digit_def is_space_def char_code_def)

lemma strtol_value_digits:
  assumes "list_all is_digit ds" and "ds \<noteq> []"
  shows "strtol_value ds = digits_value ds"
proof -
  have c: "c_str ds = ds"
    using assms(1) is_digit_not(1) by (auto simp: c_str_def list_all_iff takeWhile_eq_all_conv)
  obtain d ds' where d: "ds = d # ds'" using assms(2) by (cases ds) auto
  have "takeWhile is_digit ds' = ds'"
    using assms(1) d by (simp add: takeWhile_eq_all_conv list_all_iff)
  then show ?thesis
    using assms(1) c is_digit_not [of d] d
    by (simp add: strtol_value_def del: takeWhile_eq_all_conv)
qed

lemma strtoll_to_string:
  assumes "0 \<le> i" and "i < 2 ^ 63"
  shows "strtoll (to_string i) = i"
  using assms strtol_value_digits [OF nat_string_digits nat_string_nonempty, of "nat i"]
  by (simp add: strtoll_def to_string_def digits_value_nat_string)

lemma to_string_digits:
  assumes "0 \<le> i"
  shows "to_string i \<noteq> []" "list_all is_digit (to_string i)"
  using assms by (simp_all add: to_string_def nat_string_nonempty nat_string_digits)

lemma atoi_to_string:
  assumes "0 \<le> i" and "i < 2 ^ 31"
  shows "atoi (to_string i) = i"
  using assms strtoll_to_string [of i] by (simp add: atoi_def signed_take_bit_int_eq_self)

end
