(* ===== verification/Hls_Playlist.thy ===== *)
theory Hls_Playlist
  imports Cpp_Strings
begin

text \<open>
  \<^verbatim>\<open>src/hls-playlist.hpp\<close> and \<^verbatim>\<open>src/hls-playlist.cpp\<close>: reading an HLS multivariant
  playlist, choosing the rendition to play, and resolving its URI. A position in a string that
  the code keeps as a cursor is here the rest of the string from that position on.
\<close>

section \<open>Data\<close>

definition kTargetBitrate :: int where "kTargetBitrate = 1500000"

record variant =
  uri :: string
  bandwidth :: int
  supported_video :: bool

section \<open>Attribute lists and lines\<close>

definition is_http_url :: "string \<Rightarrow> bool" where
  "is_http_url v = (map to_lower (take 7 v) = ''http://'' \<or> map to_lower (take 8 v) = ''https://'')"

definition trim_line :: "string \<Rightarrow> string" where
  "trim_line line =
     dropWhile (\<lambda>c. c = CHR '' '' \<or> c = CHR 0x09)
       (rev (dropWhile (\<lambda>c. c = CHR 0x0D \<or> c = CHR 0x0A \<or> c = CHR '' '' \<or> c = CHR 0x09) (rev line)))"

text \<open>One turn of the loop reads a value: the value, and what follows it.\<close>

definition attribute_value :: "string \<Rightarrow> (string \<times> string) option" where
  "attribute_value after =
     (case after of
        c # quoted \<Rightarrow>
          if c = CHR 0x22 then
            (case index_of (\<lambda>d. d = CHR 0x22) quoted of
               None \<Rightarrow> None
             | Some close \<Rightarrow> Some (take close quoted, drop (close + 1) quoted))
          else Some (takeWhile (\<lambda>d. d \<noteq> CHR '','') after, dropWhile (\<lambda>d. d \<noteq> CHR '','') after)
      | [] \<Rightarrow> Some ([], []))"

lemma attribute_value_shorter:
  "attribute_value after = Some (val, tail) \<Longrightarrow> length tail \<le> length after"
  by (auto simp: attribute_value_def simp del: dropWhile.simps
      intro: le_SucI order_trans [OF length_dropWhile_le] split: list.splits if_splits option.splits)

function hls_attribute :: "string \<Rightarrow> string \<Rightarrow> string" where
  "hls_attribute attributes name =
     (if attributes = [] then []
      else case index_of (\<lambda>d. d = CHR ''='') attributes of
        None \<Rightarrow> []
      | Some equals \<Rightarrow>
          (case attribute_value (drop (equals + 1) attributes) of
             None \<Rightarrow> []
           | Some (val, tail) \<Rightarrow>
               if take equals attributes = name then val
               else (case index_of (\<lambda>d. d = CHR '','') tail of
                       None \<Rightarrow> []
                     | Some comma \<Rightarrow>
                         hls_attribute (dropWhile (\<lambda>d. d = CHR '' '') (drop (comma + 1) tail)) name)))"
  by pat_completeness auto

termination
proof (relation "measure (\<lambda>(attributes, name). length attributes)", simp, clarsimp)
  fix attributes name :: string and equals val tail comma
  assume "attributes \<noteq> []" and "attribute_value (drop (Suc equals) attributes) = Some (val, tail)"
  then have "length tail < length attributes"
    using attribute_value_shorter [of "drop (Suc equals) attributes" val tail]
    by (cases attributes) auto
  then show "length (dropWhile (\<lambda>d. d = CHR '' '') (drop (Suc comma) tail)) < length attributes"
    using length_dropWhile_le [of "\<lambda>d. d = CHR '' ''" "drop (Suc comma) tail"] by simp
qed

declare hls_attribute.simps [simp del]

section \<open>Resolving a URI\<close>

definition push_part :: "string list \<Rightarrow> string \<Rightarrow> string list" where
  "push_part parts part =
     (if part = ''..'' then butlast parts
      else if part \<noteq> [] \<and> part \<noteq> ''.'' then parts @ [part] else parts)"

text \<open>The pieces of a path between slashes, as the loop over \<open>cursor\<close> visits them.\<close>

function split_on :: "char \<Rightarrow> string \<Rightarrow> string list" where
  "split_on c s =
     (case index_of (\<lambda>d. d = c) s of None \<Rightarrow> [s] | Some k \<Rightarrow> take k s # split_on c (drop (k + 1) s))"
  by pat_completeness auto
termination
  by (relation "measure (\<lambda>(c, s). length s)") (auto dest: index_of_less)

declare split_on.simps [simp del]

fun join_with :: "char \<Rightarrow> string list \<Rightarrow> string" where
  "join_with c [] = []"
| "join_with c [p] = p"
| "join_with c (p # q # ps) = p @ c # join_with c (q # ps)"

definition normalize_url_path :: "string \<Rightarrow> string" where
  "normalize_url_path url =
     (case find_str ''://'' url 0 of
        None \<Rightarrow> url
      | Some scheme \<Rightarrow>
          (case find_char (CHR ''/'') url (scheme + 3) of
             None \<Rightarrow> url
           | Some path_start \<Rightarrow>
               (let suffix_start = find_first_of ''?#'' url path_start;
                    origin = take path_start url;
                    path = (case suffix_start of None \<Rightarrow> drop path_start url
                            | Some k \<Rightarrow> substr url path_start (k - path_start));
                    suffix = (case suffix_start of None \<Rightarrow> [] | Some k \<Rightarrow> drop k url);
                    parts = foldl push_part [] (split_on (CHR ''/'') (drop 1 path));
                    normalized = origin @ ''/'' @ join_with (CHR ''/'') parts
                in (if path \<noteq> [] \<and> last path = CHR ''/'' \<and> last normalized \<noteq> CHR ''/''
                    then normalized @ ''/'' else normalized) @ suffix)))"

definition resolveUrl :: "string \<Rightarrow> string \<Rightarrow> string" where
  "resolveUrl base reference =
     (if is_http_url reference then reference
      else case find_str ''://'' base 0 of
        None \<Rightarrow> []
      | Some scheme \<Rightarrow>
          if starts_with reference ''//'' then take scheme base @ '':'' @ reference
          else
            (let authority_end = find_char (CHR ''/'') base (scheme + 3);
                 origin = (case authority_end of None \<Rightarrow> base | Some k \<Rightarrow> take k base)
             in if reference \<noteq> [] \<and> hd reference = CHR ''/''
                then normalize_url_path (origin @ reference)
                else
                  (let clean_base = (case find_first_of ''?#'' base 0 of None \<Rightarrow> base
                                     | Some k \<Rightarrow> take k base)
                   in case rfind_char (CHR ''/'') clean_base of
                        None \<Rightarrow> []
                      | Some slash \<Rightarrow>
                          if slash < scheme + 3 then []
                          else normalize_url_path (take (slash + 1) clean_base @ reference))))"

section \<open>The renditions\<close>

definition make_variant :: "string \<Rightarrow> string \<Rightarrow> variant" where
  "make_variant line attributes =
     (let bw = hls_attribute attributes ''BANDWIDTH'';
          codecs = hls_attribute attributes ''CODECS''
      in \<lparr>uri = line,
          bandwidth = (if bw = [] then 0 else strtoll bw),
          supported_video = (codecs = [] \<or> contains_str codecs ''avc1'' \<or>
            contains_str codecs ''avc3'' \<or> contains_str codecs ''hvc1'' \<or>
            contains_str codecs ''hev1'')\<rparr>)"

text \<open>One line of the playlist: \<open>pending_attributes\<close> and the renditions so far.\<close>

definition parse_line :: "string \<times> variant list \<Rightarrow> string \<Rightarrow> string \<times> variant list" where
  "parse_line st raw =
     (case st of (pending, variants) \<Rightarrow>
        let line = trim_line raw
        in if starts_with line ''#EXT-X-STREAM-INF:''
           then (drop (length ''#EXT-X-STREAM-INF:'') line, variants)
           else if pending \<noteq> [] \<and> line \<noteq> [] \<and> hd line \<noteq> CHR ''#''
           then ([], variants @ [make_variant line pending])
           else (pending, variants))"

definition parseVariants :: "string \<Rightarrow> variant list" where
  "parseVariants playlist = snd (foldl parse_line ([], []) (split_on (CHR 0x0A) playlist))"

definition choose_step ::
    "variant option \<times> variant option \<Rightarrow> variant \<Rightarrow> variant option \<times> variant option" where
  "choose_step st v =
     (case st of (best_under, lowest_over) \<Rightarrow>
        if \<not> supported_video v then (best_under, lowest_over)
        else if bandwidth v > 0 \<and> bandwidth v \<le> kTargetBitrate \<and>
            (case best_under of None \<Rightarrow> True | Some b \<Rightarrow> bandwidth v > bandwidth b)
          then (Some v, lowest_over)
        else if bandwidth v > kTargetBitrate \<and>
            (case lowest_over of None \<Rightarrow> True | Some l \<Rightarrow> bandwidth v < bandwidth l)
          then (best_under, Some v)
        else if bandwidth v = 0 \<and> best_under = None then (Some v, lowest_over)
        else (best_under, lowest_over))"

definition chooseVariant :: "variant list \<Rightarrow> variant option" where
  "chooseVariant variants =
     (case foldl choose_step (None, None) variants of
        (Some b, _) \<Rightarrow> Some b
      | (None, lowest_over) \<Rightarrow> lowest_over)"


section \<open>Lemmas on attribute lists\<close>

text \<open>An attribute list as a playlist writes it, with \<open>k\<close> blanks after each comma.\<close>

datatype attribute_content = Plain string | Quoted string

fun content_of :: "attribute_content \<Rightarrow> string" where
  "content_of (Plain v) = v"
| "content_of (Quoted v) = v"

fun render_value :: "attribute_content \<Rightarrow> string" where
  "render_value (Plain v) = v"
| "render_value (Quoted v) = CHR 0x22 # v @ [CHR 0x22]"

fun render_attributes :: "nat \<Rightarrow> (string \<times> attribute_content) list \<Rightarrow> string" where
  "render_attributes k [] = []"
| "render_attributes k [(n, v)] = n @ CHR ''='' # render_value v"
| "render_attributes k ((n, v) # a # as) =
     n @ CHR ''='' # render_value v @ CHR '','' # replicate k (CHR '' '') @ render_attributes k (a # as)"

fun wf_value :: "attribute_content \<Rightarrow> bool" where
  "wf_value (Plain v) = (CHR '','' \<notin> set v \<and> (v = [] \<or> hd v \<noteq> CHR 0x22))"
| "wf_value (Quoted v) = (CHR 0x22 \<notin> set v)"

definition wf_attribute :: "string \<times> attribute_content \<Rightarrow> bool" where
  "wf_attribute a = (fst a \<noteq> [] \<and> hd (fst a) \<noteq> CHR '' '' \<and> CHR ''='' \<notin> set (fst a) \<and> wf_value (snd a))"

lemma index_of_first [simp]: "c \<notin> set xs \<Longrightarrow> index_of (\<lambda>d. d = c) (xs @ c # ys) = Some (length xs)"
  by (subst index_of_append_first) auto

lemma index_of_absent: "c \<notin> set xs \<Longrightarrow> index_of (\<lambda>d. d = c) xs = None"
  by (auto simp: index_of_None_iff)

lemma attribute_value_render:
  assumes "wf_value v" and "tail = [] \<or> hd tail = CHR '',''"
  shows "attribute_value (render_value v @ tail) = Some (content_of v, tail)"
proof (cases v)
  case (Quoted w)
  with assms(1) show ?thesis by (simp add: attribute_value_def)
next
  case (Plain w)
  have tail: "takeWhile (\<lambda>d. d \<noteq> CHR '','') tail = []" "dropWhile (\<lambda>d. d \<noteq> CHR '','') tail = tail"
    using assms(2) by (cases tail; simp)+
  have "takeWhile (\<lambda>d. d \<noteq> CHR '','') (w @ tail) = w" "dropWhile (\<lambda>d. d \<noteq> CHR '','') (w @ tail) = tail"
    using assms(1) Plain tail by (auto simp: takeWhile_append dropWhile_append)
  then show ?thesis
    using assms Plain
    by (auto simp: attribute_value_def split: list.split)
qed

lemma render_attributes_head:
  assumes "wf_attribute a"
  shows "render_attributes k (a # as) \<noteq> []" "hd (render_attributes k (a # as)) \<noteq> CHR '' ''"
  using assms by (cases a; cases as; cases "fst a"; auto simp: wf_attribute_def)+

lemma drop_blanks:
  "wf_attribute a \<Longrightarrow>
     dropWhile (\<lambda>d. d = CHR '' '') (replicate k (CHR '' '') @ render_attributes j (a # as)) =
       render_attributes j (a # as)"
  using render_attributes_head [of a j as]
  by (cases "render_attributes j (a # as)") (auto simp: dropWhile_append)

lemma hls_attribute_cons:
  assumes "wf_attribute (n, v)" and "tail = [] \<or> hd tail = CHR '',''"
  shows "hls_attribute (n @ CHR ''='' # render_value v @ tail) name =
     (if n = name then content_of v
      else if tail = [] then []
      else hls_attribute (dropWhile (\<lambda>d. d = CHR '' '') (tl tail)) name)"
proof -
  have "CHR ''='' \<notin> set n" "wf_value v" using assms(1) by (auto simp: wf_attribute_def)
  moreover have "tail \<noteq> [] \<Longrightarrow> \<exists>rest. tail = CHR '','' # rest"
    using assms(2) by (cases tail) auto
  ultimately show ?thesis
    using attribute_value_render [of v tail] assms(2)
    by (subst hls_attribute.simps) (auto simp: drop_Suc)
qed

lemma hls_attribute_render:
  "list_all wf_attribute as \<Longrightarrow>
     hls_attribute (render_attributes k as) name =
       (case map_of as name of None \<Rightarrow> [] | Some v \<Rightarrow> content_of v)"
proof (induction k as rule: render_attributes.induct)
  case (1 k)
  show ?case by (simp add: hls_attribute.simps)
next
  case (2 k n v)
  then show ?case using hls_attribute_cons [of n v "[]" name] by simp
next
  case (3 k n v a as)
  then show ?case
    using hls_attribute_cons
      [of n v "CHR '','' # replicate k (CHR '' '') @ render_attributes k (a # as)" name]
    by (simp add: drop_blanks)
qed

section \<open>Lemmas on the choice of a rendition\<close>

definition first_max :: "('a \<Rightarrow> int) \<Rightarrow> 'a list \<Rightarrow> 'a option" where
  "first_max f xs = (if xs = [] then None else find (\<lambda>x. f x = Max (f ` set xs)) xs)"

lemma find_append: "find P (xs @ ys) = (case find P xs of None \<Rightarrow> find P ys | Some x \<Rightarrow> Some x)"
  by (induction xs) auto

lemma find_Some_mem: "find P xs = Some x \<Longrightarrow> x \<in> set xs \<and> P x"
  by (induction xs) (auto split: if_splits)

lemma first_max_Some: "xs \<noteq> [] \<Longrightarrow> \<exists>x. first_max f xs = Some x \<and> x \<in> set xs \<and> f x = Max (f ` set xs)"
proof -
  assume "xs \<noteq> []"
  then have "Max (f ` set xs) \<in> f ` set xs" by (intro Max_in) auto
  then have "find (\<lambda>x. f x = Max (f ` set xs)) xs \<noteq> None"
    by (metis (mono_tags, lifting) find_None_iff imageE)
  then obtain x where "find (\<lambda>x. f x = Max (f ` set xs)) xs = Some x" by auto
  with \<open>xs \<noteq> []\<close> show ?thesis using find_Some_mem by (fastforce simp: first_max_def)
qed

lemma first_max_snoc:
  "first_max f (xs @ [x]) =
     (case first_max f xs of None \<Rightarrow> Some x | Some b \<Rightarrow> if f x > f b then Some x else Some b)"
proof (cases "xs = []")
  case True
  then show ?thesis by (simp add: first_max_def)
next
  case False
  then obtain b where b: "first_max f xs = Some b" "b \<in> set xs" "f b = Max (f ` set xs)"
    using first_max_Some by metis
  have m: "Max (f ` set (xs @ [x])) = max (f x) (f b)"
    using False b by simp
  show ?thesis
  proof (cases "f x > f b")
    case True
    then have "find (\<lambda>y. f y = f x) xs = None"
      using b(3) by (auto simp: find_None_iff) (metis Max_ge finite_imageI finite_set image_eqI linorder_not_less)
    with True b m show ?thesis by (simp add: first_max_def find_append)
  next
    case False
    then have "Max (f ` set (xs @ [x])) = Max (f ` set xs)" using b m by simp
    moreover have "find (\<lambda>y. f y = Max (f ` set xs)) xs = Some b"
      using b(1) \<open>xs \<noteq> []\<close> by (simp add: first_max_def)
    ultimately have "find (\<lambda>y. f y = Max (f ` set (xs @ [x]))) (xs @ [x]) = Some b"
      by (simp only: find_append option.case)
    with False b show ?thesis by (simp add: first_max_def del: set_append)
  qed
qed

text \<open>The rendition playback should use: the best one within the target, else the smallest.\<close>

definition best_rendition :: "variant list \<Rightarrow> variant option" where
  "best_rendition variants =
     (let ok = filter supported_video variants;
          within = filter (\<lambda>v. bandwidth v \<le> kTargetBitrate) ok
      in if within \<noteq> [] then first_max bandwidth within else first_max (\<lambda>v. - bandwidth v) ok)"

lemma choose_fold:
  "list_all (\<lambda>v. 0 \<le> bandwidth v) vs \<Longrightarrow>
     foldl choose_step (None, None) vs =
       (first_max bandwidth (filter (\<lambda>v. supported_video v \<and> bandwidth v \<le> kTargetBitrate) vs),
        first_max (\<lambda>v. - bandwidth v) (filter (\<lambda>v. supported_video v \<and> bandwidth v > kTargetBitrate) vs))"
proof (induction vs rule: rev_induct)
  case Nil
  then show ?case by (simp add: first_max_def)
next
  case (snoc v vs)
  let ?under = "filter (\<lambda>v. supported_video v \<and> bandwidth v \<le> kTargetBitrate) vs"
  have "first_max bandwidth ?under = Some b \<Longrightarrow> 0 \<le> bandwidth b" for b
    using first_max_Some [of ?under bandwidth] snoc.prems
    by (cases "?under = []") (auto simp: first_max_def list_all_iff)
  moreover have "0 < kTargetBitrate" by (simp add: kTargetBitrate_def)
  ultimately show ?case
    using snoc
    by (auto simp: choose_step_def first_max_snoc Let_def not_le split: option.splits)
qed

lemma choose_best:
  assumes "list_all (\<lambda>v. 0 \<le> bandwidth v) vs"
  shows "chooseVariant vs = best_rendition vs"
proof -
  let ?under = "filter (\<lambda>v. supported_video v \<and> bandwidth v \<le> kTargetBitrate) vs"
  have f: "foldl choose_step (None, None) vs =
      (first_max bandwidth ?under,
       first_max (\<lambda>v. - bandwidth v) (filter (\<lambda>v. supported_video v \<and> bandwidth v > kTargetBitrate) vs))"
    by (rule choose_fold [OF assms])
  have u: "filter (\<lambda>v. bandwidth v \<le> kTargetBitrate) (filter supported_video vs) = ?under"
    by (simp add: conj_commute)
  show ?thesis
  proof (cases "?under = []")
    case True
    then have "filter (\<lambda>v. supported_video v \<and> bandwidth v > kTargetBitrate) vs = filter supported_video vs"
      by (intro filter_cong) (auto simp: filter_empty_conv)
    with True f u show ?thesis
      by (simp add: chooseVariant_def best_rendition_def first_max_def split: option.split)
  next
    case False
    with f u first_max_Some [OF False, of bandwidth] show ?thesis
      by (auto simp: chooseVariant_def best_rendition_def)
  qed
qed

section \<open>Lemmas on whole playlists\<close>

lemma split_on_join:
  "list_all (\<lambda>p. c \<notin> set p) ps \<Longrightarrow> ps \<noteq> [] \<Longrightarrow> split_on c (join_with c ps) = ps"
proof (induction c ps rule: join_with.induct)
  case (1 c)
  then show ?case by simp
next
  case (2 c p)
  then show ?case by (subst split_on.simps) (simp add: index_of_absent)
next
  case (3 c p q ps)
  then show ?case by (subst split_on.simps) simp
qed

lemma split_on_parts: "list_all (\<lambda>p. c \<notin> set p) (split_on c s)"
proof (induction c s rule: split_on.induct)
  case (1 c s)
  show ?case
  proof (cases "index_of (\<lambda>d. d = c) s")
    case None
    then have "split_on c s = [s]" by (subst split_on.simps) simp
    with None show ?thesis by (auto simp: index_of_None_iff)
  next
    case (Some k)
    then have "split_on c s = take k s # split_on c (drop (k + 1) s)" by (subst split_on.simps) simp
    with 1 [OF Some] Some show ?thesis by (auto simp: index_of_Some_iff)
  qed
qed

definition is_blank :: "char \<Rightarrow> bool" where
  "is_blank c = (c = CHR 0x0D \<or> c = CHR 0x0A \<or> c = CHR '' '' \<or> c = CHR 0x09)"

definition clean_line :: "string \<Rightarrow> bool" where
  "clean_line l = (l \<noteq> [] \<and> CHR 0x0A \<notin> set l \<and> \<not> is_blank (hd l) \<and> \<not> is_blank (last l))"

lemma trim_clean:
  assumes "clean_line l" and "list_all is_blank eol"
  shows "trim_line (l @ eol) = l"
proof -
  let ?P = "\<lambda>c. c = CHR 0x0D \<or> c = CHR 0x0A \<or> c = CHR '' '' \<or> c = CHR 0x09"
  have e: "\<And>c. c \<in> set (rev eol) \<Longrightarrow> ?P c" using assms(2) by (auto simp: is_blank_def list_all_iff)
  obtain l' c where l: "l = l' @ [c]" using assms(1) by (cases l rule: rev_cases) (auto simp: clean_line_def)
  have c: "\<not> ?P c" using assms(1) l by (simp add: clean_line_def is_blank_def)
  have "dropWhile ?P (rev eol @ rev l) = dropWhile ?P (rev l)"
    by (rule dropWhile_append2) (rule e)
  then have r: "rev (dropWhile ?P (rev (l @ eol))) = l" using c l by simp
  have "\<not> (hd l = CHR '' '' \<or> hd l = CHR 0x09)" "l \<noteq> []"
    using assms(1) by (auto simp: clean_line_def is_blank_def)
  then have "dropWhile (\<lambda>c. c = CHR '' '' \<or> c = CHR 0x09) l = l" by (cases l) simp_all
  then show ?thesis unfolding trim_line_def r .
qed

type_synonym playlist_entry = "(string \<times> attribute_content) list \<times> string"

definition wf_entry :: "nat \<Rightarrow> playlist_entry \<Rightarrow> bool" where
  "wf_entry k e = (fst e \<noteq> [] \<and> list_all wf_attribute (fst e) \<and>
     clean_line (render_attributes k (fst e)) \<and> clean_line (snd e) \<and> hd (snd e) \<noteq> CHR ''#'')"

definition entry_lines :: "nat \<Rightarrow> string \<Rightarrow> playlist_entry \<Rightarrow> string list" where
  "entry_lines k eol e =
     [''#EXT-X-STREAM-INF:'' @ render_attributes k (fst e) @ eol, snd e @ eol]"

text \<open>A playlist with these entries, its lines ended by \<open>eol\<close> and a line feed.\<close>

definition render_playlist :: "nat \<Rightarrow> string \<Rightarrow> playlist_entry list \<Rightarrow> string" where
  "render_playlist k eol es =
     join_with (CHR 0x0A) ((''#EXTM3U'' @ eol) # concat (map (entry_lines k eol) es))"

definition attribute_of :: "playlist_entry \<Rightarrow> string \<Rightarrow> string" where
  "attribute_of e name = (case map_of (fst e) name of None \<Rightarrow> [] | Some v \<Rightarrow> content_of v)"

definition entry_variant :: "playlist_entry \<Rightarrow> variant" where
  "entry_variant e =
     \<lparr>uri = snd e, bandwidth = strtoll (attribute_of e ''BANDWIDTH''),
      supported_video = (attribute_of e ''CODECS'' = [] \<or>
        list_ex (contains_str (attribute_of e ''CODECS'')) [''avc1'', ''avc3'', ''hvc1'', ''hev1''])\<rparr>"

lemma strtoll_Nil [simp]: "strtoll [] = 0"
  by (simp add: strtoll_def strtol_value_def c_str_def)

lemma make_variant_entry:
  "wf_entry k e \<Longrightarrow> make_variant (snd e) (render_attributes k (fst e)) = entry_variant e"
  by (simp add: make_variant_def entry_variant_def wf_entry_def hls_attribute_render attribute_of_def Let_def)

lemma clean_stream_inf:
  assumes "clean_line l"
  shows "clean_line (''#EXT-X-STREAM-INF:'' @ l)"
  using assms by (auto simp: clean_line_def is_blank_def)

lemma parse_entry:
  assumes "wf_entry k e" and "list_all is_blank eol"
  shows "foldl parse_line ([], vs) (entry_lines k eol e) = ([], vs @ [entry_variant e])"
proof -
  let ?a = "render_attributes k (fst e)"
  have a: "clean_line ?a" "clean_line (snd e)" "hd (snd e) \<noteq> CHR ''#''"
    using assms(1) by (auto simp: wf_entry_def)
  have inf: "trim_line (''#EXT-X-STREAM-INF:'' @ ?a @ eol) = ''#EXT-X-STREAM-INF:'' @ ?a"
    using trim_clean [OF clean_stream_inf [OF a(1)] assms(2)] by simp
  have u: "trim_line (snd e @ eol) = snd e" by (rule trim_clean [OF a(2) assms(2)])
  have first: "parse_line ([], vs) (''#EXT-X-STREAM-INF:'' @ ?a @ eol) = (?a, vs)"
    unfolding parse_line_def inf by (simp add: starts_with_def)
  have "\<not> starts_with (snd e) ''#EXT-X-STREAM-INF:''"
    using a by (auto simp: starts_with_iff)
  then have "parse_line (?a, vs) (snd e @ eol) = ([], vs @ [make_variant (snd e) ?a])"
    unfolding parse_line_def u using a by (simp add: clean_line_def)
  with first show ?thesis by (simp add: entry_lines_def make_variant_entry [OF assms(1)])
qed

lemma parse_entries:
  assumes "list_all is_blank eol"
  shows "list_all (wf_entry k) es \<Longrightarrow>
     foldl parse_line ([], vs) (concat (map (entry_lines k eol) es)) = ([], vs @ map entry_variant es)"
  by (induction es arbitrary: vs) (simp_all add: parse_entry [OF _ assms])

lemma parse_rendered:
  assumes "list_all (wf_entry k) es" and "eol = [] \<or> eol = [CHR 0x0D]"
  shows "parseVariants (render_playlist k eol es) = map entry_variant es"
proof -
  let ?ls = "(''#EXTM3U'' @ eol) # concat (map (entry_lines k eol) es)"
  have e: "list_all is_blank eol" "CHR 0x0A \<notin> set eol" using assms(2) by (auto simp: is_blank_def)
  have "list_all (\<lambda>p. CHR 0x0A \<notin> set p) ?ls"
    using assms(1) e(2) by (auto simp: list_all_iff entry_lines_def wf_entry_def clean_line_def)
  then have "split_on (CHR 0x0A) (render_playlist k eol es) = ?ls"
    unfolding render_playlist_def by (rule split_on_join) simp
  moreover have "trim_line (''#EXTM3U'' @ eol) = ''#EXTM3U''"
    by (rule trim_clean [OF _ e(1)]) (simp add: clean_line_def is_blank_def)
  then have "parse_line ([], []) (''#EXTM3U'' @ eol) = ([], [])"
    by (simp add: parse_line_def starts_with_def)
  ultimately show ?thesis
    using parse_entries [OF e(1) assms(1), of "[]"] by (simp add: parseVariants_def)
qed

section \<open>Lemmas on resolved URLs\<close>

definition clean_part :: "string \<Rightarrow> bool" where
  "clean_part p = (p \<noteq> [] \<and> p \<noteq> ''.'' \<and> p \<noteq> ''..'' \<and> CHR ''/'' \<notin> set p)"

lemma list_all_butlast: "list_all P xs \<Longrightarrow> list_all P (butlast xs)"
  by (induction xs) auto

lemma push_parts_clean:
  "list_all (\<lambda>p. CHR ''/'' \<notin> set p) raw \<Longrightarrow> list_all clean_part parts \<Longrightarrow>
     list_all clean_part (foldl push_part parts raw)"
  by (induction raw arbitrary: parts) (auto simp: push_part_def clean_part_def list_all_butlast)

text \<open>
  A URL below \<open>origin\<close>: a path of parts that do not lead out of it again, which ends with a slash
  or not (and is one slash when there are no parts), and perhaps a query or fragment.
\<close>

definition below_origin :: "string \<Rightarrow> string \<Rightarrow> bool" where
  "below_origin origin url =
     (\<exists>parts trail suffix. url = origin @ ''/'' @ join_with (CHR ''/'') parts @ trail @ suffix \<and>
        list_all clean_part parts \<and> (trail = [] \<or> trail = ''/'' \<and> parts \<noteq> []) \<and>
        (suffix = [] \<or> hd suffix \<in> {CHR ''?'', CHR ''#''}))"

lemma index_of_str_length: "index_of_str needle a = Some k \<Longrightarrow> length needle \<le> length a"
proof (induction a arbitrary: k)
  case Nil
  then show ?case by (auto split: if_splits)
next
  case (Cons c a)
  show ?case
  proof (cases "starts_with (c # a) needle")
    case True
    then obtain rest where "c # a = needle @ rest" by (auto simp: starts_with_iff)
    then show ?thesis by (metis length_append le_add1)
  next
    case False
    with Cons show ?thesis by fastforce
  qed
qed

lemma index_of_str_append:
  "index_of_str needle a = Some k \<Longrightarrow> index_of_str needle (a @ b) = Some k"
proof (induction a arbitrary: k)
  case Nil
  then show ?case by (cases b) (auto split: if_splits simp: starts_with_def)
next
  case (Cons c a)
  show ?case
  proof (cases "starts_with (c # a) needle")
    case True
    then have "starts_with ((c # a) @ b) needle" unfolding starts_with_iff by (metis append.assoc)
    with True Cons.prems show ?thesis by simp
  next
    case False
    with Cons.prems obtain j where j: "index_of_str needle a = Some j" "k = Suc j" by auto
    have "length needle \<le> length (c # a)" using index_of_str_length [OF j(1)] by simp
    with False have "\<not> starts_with ((c # a) @ b) needle"
      by (metis starts_with_def take_append diff_is_0_eq take_0 append_Nil2)
    with Cons.IH [OF j(1)] j show ?thesis by simp
  qed
qed

lemma find_from_Some:
  "find_from P s pos = Some k \<Longrightarrow> pos \<le> k \<and> k < length s \<and> P (s ! k)"
  by (auto simp: find_from_def index_of_Some_iff)

lemma normalize_below:
  assumes "find_str ''://'' url 0 = Some scheme" and "find_char (CHR ''/'') url (scheme + 3) = Some e"
  shows "below_origin (take e url) (normalize_url_path url)"
proof -
  define sfx where "sfx = find_first_of ''?#'' url e"
  define path where "path = (case sfx of None \<Rightarrow> drop e url | Some k \<Rightarrow> substr url e (k - e))"
  define suffix where "suffix = (case sfx of None \<Rightarrow> [] | Some k \<Rightarrow> drop k url)"
  define parts where "parts = foldl push_part [] (split_on (CHR ''/'') (drop 1 path))"
  define normalized where "normalized = take e url @ ''/'' @ join_with (CHR ''/'') parts"
  have "normalize_url_path url =
      (if path \<noteq> [] \<and> last path = CHR ''/'' \<and> last normalized \<noteq> CHR ''/'' then normalized @ ''/''
       else normalized) @ suffix"
    by (simp add: normalize_url_path_def assms Let_def sfx_def [symmetric] path_def [symmetric]
        suffix_def [symmetric] parts_def [symmetric] normalized_def del: One_nat_def)
  then have "normalize_url_path url = take e url @ ''/'' @ join_with (CHR ''/'') parts @
      (if path \<noteq> [] \<and> last path = CHR ''/'' \<and> last normalized \<noteq> CHR ''/'' then ''/'' else []) @ suffix"
    by (simp add: normalized_def)
  moreover have "list_all clean_part parts"
    unfolding parts_def by (rule push_parts_clean [OF split_on_parts]) simp
  moreover have "suffix = [] \<or> hd suffix \<in> {CHR ''?'', CHR ''#''}"
  proof (cases sfx)
    case None
    then show ?thesis by (simp add: suffix_def)
  next
    case (Some k)
    then have "k < length url \<and> url ! k \<in> set ''?#''"
      using find_from_Some [of "\<lambda>d. d \<in> set ''?#''" url e k] by (simp add: sfx_def find_first_of_def)
    with Some show ?thesis by (simp add: suffix_def hd_drop_conv_nth)
  qed
  moreover have "parts = [] \<Longrightarrow> last normalized = CHR ''/''" by (simp add: normalized_def)
  ultimately show ?thesis
    unfolding below_origin_def
    by (intro exI [of _ parts] exI [of _ "if path \<noteq> [] \<and> last path = CHR ''/'' \<and>
          last normalized \<noteq> CHR ''/'' then ''/'' else []"] exI [of _ suffix]) auto
qed

lemma find_str_take:
  assumes "find_str needle s 0 = Some k" and "k + length needle \<le> j"
  shows "find_str needle (take j s @ t) 0 = Some k"
proof -
  have "index_of_str needle s = Some k \<Longrightarrow> k + length needle \<le> j \<Longrightarrow>
      index_of_str needle (take j s @ t) = Some k"
  proof (induction s arbitrary: j k)
    case Nil
    then show ?case by (cases t) (auto simp: starts_with_def split: if_splits)
  next
    case (Cons c s)
    show ?case
    proof (cases "starts_with (c # s) needle")
      case True
      then have "k = 0" using Cons.prems by simp
      with True Cons.prems have "starts_with (take j (c # s) @ t) needle"
        by (auto simp: starts_with_iff)
      then show ?thesis
        using \<open>k = 0\<close> by (cases "take j (c # s) @ t") (auto simp: starts_with_def)
    next
      case False
      with Cons.prems(1) obtain i where i: "index_of_str needle s = Some i" "k = Suc i" by auto
      with Cons.prems(2) obtain j' where j': "j = Suc j'" "i + length needle \<le> j'" by (cases j) auto
      have "length needle \<le> j" using Cons.prems(2) by simp
      moreover have "length needle \<le> length (c # s)" using index_of_str_length [OF i(1)] by simp
      ultimately have "take (length needle) (take j (c # s) @ t) = take (length needle) (c # s)"
        by (simp add: min_def)
      with False have "\<not> starts_with (take j (c # s) @ t) needle" by (simp add: starts_with_def)
      with Cons.IH [OF i(1) j'(2)] i j' show ?thesis by simp
    qed
  qed
  with assms show ?thesis by (simp add: find_str_def)
qed

lemma find_from_prefix:
  assumes "find_from P s pos = Some k" and "k < j"
  shows "find_from P (take j s @ t) pos = Some k"
proof -
  have k: "pos \<le> k" "k < length s" using find_from_Some [OF assms(1)] by auto
  have "index_of P (drop pos s) = Some (k - pos)" using assms(1) by (auto simp: find_from_def)
  moreover have "drop pos (take j s @ t) = take (j - pos) (drop pos s) @ t"
    using k assms(2) by (simp add: drop_take)
  ultimately have "index_of P (drop pos (take j s @ t)) = Some (k - pos)"
    using k assms(2) by (auto simp: index_of_Some_iff nth_append)
  then show ?thesis using k by (simp add: find_from_def)
qed

lemma rfind_char_ge:
  assumes "k < length s" and "s ! k = c"
  shows "\<exists>j. rfind_char c s = Some j \<and> k \<le> j \<and> j < length s"
proof -
  have "rev s ! (length s - 1 - k) = c" "length s - 1 - k < length (rev s)"
    using assms by (auto simp: rev_nth)
  then obtain i where i: "index_of (\<lambda>d. d = c) (rev s) = Some i" "i \<le> length s - 1 - k"
  proof (atomize_elim, cases "index_of (\<lambda>d. d = c) (rev s)")
    case None
    then show "\<exists>i. index_of (\<lambda>d. d = c) (rev s) = Some i \<and> i \<le> length s - 1 - k"
      using assms by (auto simp: index_of_None_iff)
  next
    case (Some i)
    have "\<not> length s - 1 - k < i"
    proof
      assume "length s - 1 - k < i"
      then have "rev s ! (length s - 1 - k) \<in> set (take i (rev s))"
        using assms(1) nth_mem [of "length s - 1 - k" "take i (rev s)"] by simp
      then show False using Some \<open>rev s ! (length s - 1 - k) = c\<close> by (auto simp: index_of_Some_iff)
    qed
    then show "\<exists>i. index_of (\<lambda>d. d = c) (rev s) = Some i \<and> i \<le> length s - 1 - k" using Some by auto
  qed
  then have "rfind_char c s = Some (length s - 1 - i)" "i < length s"
    using index_of_less [OF i(1)] by (auto simp: rfind_char_def)
  with i assms(1) show ?thesis by auto
qed

text \<open>A URL with a path: where its scheme and its authority end.\<close>

definition url_with_path :: "string \<Rightarrow> nat \<Rightarrow> nat \<Rightarrow> bool" where
  "url_with_path base s e = (find_str ''://'' base 0 = Some s \<and>
     find_char (CHR ''/'') base (s + 3) = Some e \<and> (\<forall>c\<in>set (take e base). c \<noteq> CHR ''?'' \<and> c \<noteq> CHR ''#''))"

lemma below_extended:
  assumes "url_with_path base s e" and "e < j"
  shows "below_origin (take e base) (normalize_url_path (take j base @ t))"
proof -
  have e: "find_str ''://'' base 0 = Some s" "find_char (CHR ''/'') base (s + 3) = Some e" "s + 3 \<le> e"
    using assms(1) find_from_Some [of "\<lambda>d. d = CHR ''/''" base "s + 3" e]
    by (auto simp: url_with_path_def find_char_def)
  have "find_str ''://'' (take j base @ t) 0 = Some s"
    using e assms(2) by (intro find_str_take) auto
  moreover have "find_char (CHR ''/'') (take j base @ t) (s + 3) = Some e"
    using e(2) assms(2) unfolding find_char_def by (rule find_from_prefix)
  ultimately have "below_origin (take e (take j base @ t)) (normalize_url_path (take j base @ t))"
    by (rule normalize_below)
  moreover have "e < length base"
    using e(2) find_from_Some [of "\<lambda>d. d = CHR ''/''" base "s + 3" e] by (simp add: find_char_def)
  ultimately show ?thesis using assms(2) by simp
qed

lemma resolve_below:
  assumes u: "url_with_path base s e" and r: "\<not> is_http_url reference" "\<not> starts_with reference ''//''"
  shows "below_origin (take e base) (resolveUrl base reference)"
proof -
  have e: "find_str ''://'' base 0 = Some s" "find_char (CHR ''/'') base (s + 3) = Some e"
    using u by (auto simp: url_with_path_def)
  have at: "s + 3 \<le> e" "e < length base" "base ! e = CHR ''/''"
    using find_from_Some [of "\<lambda>d. d = CHR ''/''" base "s + 3" e] e(2) by (auto simp: find_char_def)
  show ?thesis
  proof (cases "reference \<noteq> [] \<and> hd reference = CHR ''/''")
    case True
    then obtain rest where rest: "reference = CHR ''/'' # rest" by (cases reference) auto
    have "take e base @ reference = take (e + 1) base @ rest"
      using at rest by (simp add: take_Suc_conv_app_nth)
    then have "resolveUrl base reference = normalize_url_path (take (e + 1) base @ rest)"
      using e r True by (simp add: resolveUrl_def)
    then show ?thesis using below_extended [OF u, of "e + 1" rest] by simp
  next
    case False
    define clean where
      "clean = (case find_first_of ''?#'' base 0 of None \<Rightarrow> base | Some k \<Rightarrow> take k base)"
    define n where "n = (case find_first_of ''?#'' base 0 of None \<Rightarrow> length base | Some k \<Rightarrow> k)"
    have n: "clean = take n base" "e < n" "n \<le> length base"
    proof -
      show "clean = take n base" by (simp add: clean_def n_def split: option.split)
      show "n \<le> length base"
        using find_from_Some [of "\<lambda>d. d \<in> set ''?#''" base 0]
        by (auto simp: n_def find_first_of_def split: option.split dest: less_imp_le)
      show "e < n"
      proof (cases "find_first_of ''?#'' base 0")
        case None
        then show ?thesis using at by (simp add: n_def)
      next
        case (Some k)
        then have k: "k < length base" "base ! k = CHR ''?'' \<or> base ! k = CHR ''#''"
          using find_from_Some [of "\<lambda>d. d \<in> set ''?#''" base 0 k] by (auto simp: find_first_of_def)
        have "\<not> k < e"
        proof
          assume "k < e"
          then have "base ! k \<in> set (take e base)"
            using k nth_mem [of k "take e base"] by simp
          then show False using u k by (auto simp: url_with_path_def)
        qed
        moreover have "k \<noteq> e" using k at by auto
        ultimately show ?thesis using Some by (simp add: n_def)
      qed
    qed
    then obtain j where j: "rfind_char (CHR ''/'') clean = Some j" "e \<le> j" "j < n"
      using rfind_char_ge [of e clean "CHR ''/''"] at by auto
    have "resolveUrl base reference = normalize_url_path (take (j + 1) clean @ reference)"
      using e r False j at unfolding resolveUrl_def clean_def [symmetric] by auto
    also have "take (j + 1) clean = take (j + 1) base" using n j by (simp add: min_def)
    finally show ?thesis using below_extended [OF u, of "j + 1" reference] j by simp
  qed
qed

section \<open>Properties\<close>

text \<open>
  Reading an attribute of a well-formed attribute list (blanks after commas or not, values
  quoted or plain, commas and other names inside quotes) gives the value of the first attribute
  of exactly that name, and nothing when there is none.
\<close>

theorem hls_attribute_round_trip:
  assumes "list_all wf_attribute as"
  shows "hls_attribute (render_attributes k as) name =
     (case map_of as name of None \<Rightarrow> [] | Some v \<Rightarrow> content_of v)"
  using assms by (rule hls_attribute_render)

theorem hls_attribute_round_trip_witness:
  "hls_attribute
     (render_attributes 1 [(''AVERAGE-BANDWIDTH'', Plain ''9''), (''CODECS'', Quoted ''avc1,mp4a''), (''BANDWIDTH'', Plain ''7'')])
     ''BANDWIDTH'' = ''7''"
  using hls_attribute_round_trip [of "[(''AVERAGE-BANDWIDTH'', Plain ''9''),
      (''CODECS'', Quoted ''avc1,mp4a''), (''BANDWIDTH'', Plain ''7'')]" 1 "''BANDWIDTH''"]
  by (simp add: wf_attribute_def)

text \<open>
  C22. A playlist written with these renditions, with either kind of line end, parses back to
  exactly those renditions in their order: the URI, the \<open>BANDWIDTH\<close> and whether the
  \<open>CODECS\<close> are ones the player can show.
\<close>

theorem playlist_round_trip:
  assumes "list_all (wf_entry k) es" and "eol = [] \<or> eol = [CHR 0x0D]"
  shows "parseVariants (render_playlist k eol es) = map entry_variant es"
  using assms by (rule parse_rendered)

theorem playlist_round_trip_witness:
  "parseVariants (render_playlist 0 [CHR 0x0D] [([(''BANDWIDTH'', Plain ''7'')], ''a.m3u8'')]) =
     map entry_variant [([(''BANDWIDTH'', Plain ''7'')], ''a.m3u8'')]"
  by (rule playlist_round_trip)
    (simp_all add: wf_entry_def wf_attribute_def clean_line_def is_blank_def)

text \<open>
  The choice of a rendition refines its specification: among the renditions with video the
  player supports it is the highest bandwidth within 1.5 Mbit/s (one without a bandwidth counts
  as 0), the first of equals; the smallest when all are above; none when there is none.
\<close>

theorem choose_variant_is_best:
  assumes "list_all (\<lambda>v. 0 \<le> bandwidth v) vs"
  shows "chooseVariant vs = best_rendition vs"
  using assms by (rule choose_best)

theorem choose_variant_is_best_witness:
  "chooseVariant [\<lparr>uri = ''a'', bandwidth = 2000000, supported_video = True\<rparr>,
       \<lparr>uri = ''b'', bandwidth = 800000, supported_video = True\<rparr>] =
     best_rendition [\<lparr>uri = ''a'', bandwidth = 2000000, supported_video = True\<rparr>,
       \<lparr>uri = ''b'', bandwidth = 800000, supported_video = True\<rparr>]"
  by (rule choose_variant_is_best) simp



end
