(* ===== verification/Url_Policy.thy ===== *)
theory Url_Policy
  imports Hls_Playlist
begin

text \<open>
  \<^verbatim>\<open>src/media-url-policy.hpp\<close> and \<^verbatim>\<open>src/media-url-policy.cpp\<close>: which URLs the player may
  fetch for an AirPlay video item. The URL parser and the address classes of the receiver
  (\<^verbatim>\<open>uxplay/lib/media_url.h\<close>, a submodule), \<open>getaddrinfo\<close>, \<open>inet_ntop\<close> and \<open>lstat\<close> are the fields
  of the record \<open>url_env\<close>. A resolver is a state-passing function, since the one the media
  player supplies keeps a cache.
\<close>

section \<open>Data\<close>

datatype address_class =
    MEDIA_ADDRESS_ROUTABLE
  | MEDIA_ADDRESS_LOOPBACK
  | MEDIA_ADDRESS_LINK_LOCAL
  | MEDIA_ADDRESS_MULTICAST
  | MEDIA_ADDRESS_UNSPECIFIED
  | MEDIA_ADDRESS_RESERVED

datatype family = AF_INET | AF_INET6 | AF_OTHER

text \<open>A socket address: its family and the address bytes (4 or 16, in network order).\<close>

record sockaddr =
  sa_family :: family
  sa_bytes :: bytes

record url_parts =
  host :: string
  port :: int

record decision =
  refused :: string
  address :: string

type_synonym 's resolver = "'s \<Rightarrow> string \<Rightarrow> (bool \<times> sockaddr list) \<times> 's"

record url_env =
  media_url_split :: "string \<Rightarrow> (string \<times> int) option"
  media_parse_literal :: "string \<Rightarrow> (family \<times> bytes) option"
  media_classify_ipv4 :: "u32 \<Rightarrow> address_class"
  media_classify_ipv6 :: "bytes \<Rightarrow> address_class"
  inet_ntop :: "family \<Rightarrow> bytes \<Rightarrow> string"
  spool_prefix :: string
  lstat_own_regular :: "string \<Rightarrow> bool"

record policy =
  g_ports :: "int list"
  g_loopback_for_testing :: bool
  g_local_files_for_testing :: bool
  g_sender_only :: bool

definition policy_initial :: policy where
  "policy_initial = \<lparr>g_ports = [80, 443, 8080, 8443], g_loopback_for_testing = False,
     g_local_files_for_testing = False, g_sender_only = False\<rparr>"

definition setAllowedPorts :: "int list \<Rightarrow> policy \<Rightarrow> policy" where
  "setAllowedPorts ports g = g\<lparr>g_ports := ports\<rparr>"

definition setSenderOnly :: "bool \<Rightarrow> policy \<Rightarrow> policy" where
  "setSenderOnly b g = g\<lparr>g_sender_only := b\<rparr>"

definition setLoopbackAllowedForTesting :: "bool \<Rightarrow> policy \<Rightarrow> policy" where
  "setLoopbackAllowedForTesting b g = g\<lparr>g_loopback_for_testing := b\<rparr>"

definition setLocalFilesAllowedForTesting :: "bool \<Rightarrow> policy \<Rightarrow> policy" where
  "setLocalFilesAllowedForTesting b g = g\<lparr>g_local_files_for_testing := b\<rparr>"

section \<open>Addresses\<close>

definition kNotSender :: string where
  "kNotSender = ''host is not the sending device (only the sending device is allowed)''"

definition split_url :: "url_env \<Rightarrow> string \<Rightarrow> url_parts option" where
  "split_url env url =
     (case media_url_split env (c_str url) of
        None \<Rightarrow> None
      | Some (h, p) \<Rightarrow> Some \<lparr>host = h, port = signed_take_bit 31 p\<rparr>)"

definition describe_class :: "policy \<Rightarrow> address_class \<Rightarrow> string" where
  "describe_class g c =
     (case c of
        MEDIA_ADDRESS_ROUTABLE \<Rightarrow> []
      | MEDIA_ADDRESS_LOOPBACK \<Rightarrow> if g_loopback_for_testing g then [] else ''loopback address''
      | MEDIA_ADDRESS_LINK_LOCAL \<Rightarrow> ''link-local address''
      | MEDIA_ADDRESS_MULTICAST \<Rightarrow> ''multicast address''
      | MEDIA_ADDRESS_UNSPECIFIED \<Rightarrow> ''unspecified address''
      | MEDIA_ADDRESS_RESERVED \<Rightarrow> ''reserved address'')"

text \<open>\<open>ntohl\<close> of four bytes in network order.\<close>

definition ntohl_bytes :: "bytes \<Rightarrow> u32" where
  "ntohl_bytes bs = foldl (\<lambda>v b. push_bit 8 v OR ucast b) 0 (take 4 bs)"

definition classifyIpv4 :: "url_env \<Rightarrow> policy \<Rightarrow> u32 \<Rightarrow> string" where
  "classifyIpv4 env g a = describe_class g (media_classify_ipv4 env a)"

definition classifyIpv6 :: "url_env \<Rightarrow> policy \<Rightarrow> bytes \<Rightarrow> string" where
  "classifyIpv6 env g a = describe_class g (media_classify_ipv6 env a)"

definition classify :: "url_env \<Rightarrow> policy \<Rightarrow> sockaddr \<Rightarrow> string" where
  "classify env g a =
     (case sa_family a of
        AF_INET \<Rightarrow> classifyIpv4 env g (ntohl_bytes (sa_bytes a))
      | AF_INET6 \<Rightarrow> classifyIpv6 env g (sa_bytes a)
      | AF_OTHER \<Rightarrow> ''unsupported address family'')"

definition isLocalhostName :: "string \<Rightarrow> bool" where
  "isLocalhostName h = (h = ''localhost'' \<or>
     length h > 10 \<and> drop (length h - 10) h = ''.localhost'')"

definition numericAddress :: "url_env \<Rightarrow> sockaddr \<Rightarrow> string" where
  "numericAddress env a = (if sa_family a = AF_OTHER then [] else inet_ntop env (sa_family a) (sa_bytes a))"

text \<open>The loop over the resolved addresses: the first refusal.\<close>

fun first_refusal :: "url_env \<Rightarrow> policy \<Rightarrow> sockaddr list \<Rightarrow> string" where
  "first_refusal env g [] = []"
| "first_refusal env g (a # as) = (if classify env g a \<noteq> [] then classify env g a else first_refusal env g as)"

definition checkHost :: "url_env \<Rightarrow> policy \<Rightarrow> 's resolver \<Rightarrow> 's \<Rightarrow> string \<Rightarrow> decision \<times> 's" where
  "checkHost env g resolve s h =
     (case media_parse_literal env (c_str h) of
        Some (fam, literal) \<Rightarrow>
          (if fam = AF_INET6 then (\<lparr>refused = classifyIpv6 env g literal, address = []\<rparr>, s)
           else (\<lparr>refused = classifyIpv4 env g (ntohl_bytes literal), address = []\<rparr>, s))
      | None \<Rightarrow>
          if isLocalhostName h \<and> \<not> g_loopback_for_testing g
          then (\<lparr>refused = ''loopback host'', address = []\<rparr>, s)
          else (case resolve s h of ((ok, addresses), s') \<Rightarrow>
            if \<not> ok \<or> addresses = []
            then (\<lparr>refused = ''host name could not be resolved'', address = []\<rparr>, s')
            else if first_refusal env g addresses \<noteq> []
            then (\<lparr>refused = ''host resolves to a '' @ first_refusal env g addresses, address = []\<rparr>, s')
            else if numericAddress env (hd addresses) = []
            then (\<lparr>refused = ''host resolves to an unsupported address'', address = []\<rparr>, s')
            else (\<lparr>refused = [], address = numericAddress env (hd addresses)\<rparr>, s')))"

text \<open>
  \<open>getaddrinfo\<close> answers a list of entries, each an address (or none) and its length; a
  \<open>sockaddr_storage\<close> has 128 bytes.
\<close>

definition blockingResolve ::
    "(string \<Rightarrow> (sockaddr option \<times> nat) list option) \<Rightarrow> string \<Rightarrow> bool \<times> sockaddr list" where
  "blockingResolve getaddrinfo h =
     (case getaddrinfo (c_str h) of
        None \<Rightarrow> (False, [])
      | Some results \<Rightarrow>
          if results = [] then (False, [])
          else (let found = concat (map (\<lambda>(a, len). case a of None \<Rightarrow> []
                  | Some addr \<Rightarrow> if len > 128 then [] else [addr]) results)
                in (found \<noteq> [], found)))"

definition literalAddress :: "url_env \<Rightarrow> string \<Rightarrow> bytes option" where
  "literalAddress env h =
     (case media_parse_literal env (c_str h) of
        None \<Rightarrow> None
      | Some (fam, literal) \<Rightarrow>
          if fam = AF_INET6 then Some (take 16 literal)
          else Some (replicate 10 0 @ [0xff, 0xff] @ take 4 literal))"

definition isLiteral :: "url_env \<Rightarrow> string \<Rightarrow> bool" where
  "isLiteral env h = (media_parse_literal env (c_str h) \<noteq> None)"

definition portAllowed :: "policy \<Rightarrow> int \<Rightarrow> bool" where
  "portAllowed g p = (p \<in> set (g_ports g))"

section \<open>The list of allowed ports\<close>

text \<open>One character of the list: the ports so far and the number being read (-1: none).\<close>

definition port_char :: "(int list \<times> int) option \<Rightarrow> char \<Rightarrow> (int list \<times> int) option" where
  "port_char st c =
     (case st of
        None \<Rightarrow> None
      | Some (ports, val) \<Rightarrow>
          if is_digit c then
            (let v = (if val < 0 then 0 else val) * 10 + digit_value c
             in Some (ports, if v > 65535 then 65536 else v))
          else if c = CHR '','' \<or> c = CHR '' '' \<or> c = CHR 0x09 then
            Some (if val > 0 \<and> val \<le> 65535 \<and> val \<notin> set ports then ports @ [val] else ports, -1)
          else None)"

definition parsePortList :: "string \<Rightarrow> int list" where
  "parsePortList s =
     (case foldl port_char (Some ([], -1)) (s @ '','') of None \<Rightarrow> [] | Some (ports, _) \<Rightarrow> ports)"

section \<open>Decisions\<close>

definition decideItem :: "url_env \<Rightarrow> policy \<Rightarrow> 's resolver \<Rightarrow> 's \<Rightarrow> string \<Rightarrow> decision \<times> 's" where
  "decideItem env g resolve s url =
     (case split_url env url of
        None \<Rightarrow> (\<lparr>refused = ''malformed URL'', address = []\<rparr>, s)
      | Some parts \<Rightarrow>
          if isLiteral env (host parts) then (\<lparr>refused = [], address = []\<rparr>, s)
          else if host parts = ''localhost'' then (\<lparr>refused = [], address = []\<rparr>, s)
          else if g_sender_only g then (\<lparr>refused = kNotSender, address = []\<rparr>, s)
          else checkHost env g resolve s (host parts))"

text \<open>The test of the sender-only policy for a URL that is not on the item's own host and port.\<close>

definition same_address :: "url_env \<Rightarrow> url_parts \<Rightarrow> url_parts \<Rightarrow> bool" where
  "same_address env item parts =
     (host item \<noteq> [] \<and> host item \<noteq> ''localhost'' \<and> literalAddress env (host item) \<noteq> None \<and>
      literalAddress env (host parts) \<noteq> None \<and>
      literalAddress env (host item) = literalAddress env (host parts))"

definition decideNested ::
    "url_env \<Rightarrow> policy \<Rightarrow> 's resolver \<Rightarrow> 's \<Rightarrow> string \<Rightarrow> string \<Rightarrow> decision \<times> 's" where
  "decideNested env g resolve s url item_url =
     (case split_url env url of
        None \<Rightarrow> (\<lparr>refused = ''not an HTTP(S) URL'', address = []\<rparr>, s)
      | Some parts \<Rightarrow>
          (let split_item = split_url env item_url;
               item = (case split_item of None \<Rightarrow> \<lparr>host = [], port = 0\<rparr> | Some i \<Rightarrow> i)
           in if split_item \<noteq> None \<and> host item = host parts \<and> port item = port parts
              then (if host item = ''localhost'' \<or> isLiteral env (host parts)
                    then (\<lparr>refused = [], address = []\<rparr>, s)
                    else checkHost env g resolve s (host parts))
              else if g_sender_only g
              then (\<lparr>refused = (if same_address env item parts then [] else kNotSender), address = []\<rparr>, s)
              else if \<not> portAllowed g (port parts) \<and> \<not> g_loopback_for_testing g
              then (\<lparr>refused = ''port '' @ to_string (port parts) @ '' not allowed'', address = []\<rparr>, s)
              else checkHost env g resolve s (host parts)))"

text \<open>\<open>getaddrinfo\<close> or the test hook, behind the interface of a resolver.\<close>

definition currentResolver ::
    "(string \<Rightarrow> bool \<times> sockaddr list) option \<Rightarrow> (string \<Rightarrow> (sockaddr option \<times> nat) list option) \<Rightarrow>
       's resolver" where
  "currentResolver hook getaddrinfo s h =
     ((case hook of Some r \<Rightarrow> r h | None \<Rightarrow> blockingResolve getaddrinfo h), s)"

definition checkItem :: "url_env \<Rightarrow> policy \<Rightarrow> unit resolver \<Rightarrow> string \<Rightarrow> string" where
  "checkItem env g resolve url = refused (fst (decideItem env g resolve () url))"

definition checkNested :: "url_env \<Rightarrow> policy \<Rightarrow> unit resolver \<Rightarrow> string \<Rightarrow> string \<Rightarrow> string" where
  "checkNested env g resolve url item_url = refused (fst (decideNested env g resolve () url item_url))"

text \<open>
  The wait of \<open>resolveInterruptible\<close>: each turn sees whether the helper thread has finished (and
  its answer), whether the caller is interrupted, and whether the deadline has passed. The list
  of turns is the schedule; \<open>None\<close> is a wait that is still on at its end.
\<close>

record poll =
  p_done :: "(bool \<times> sockaddr list) option"
  p_interrupted :: bool
  p_deadline :: bool

fun wait_lookup :: "poll list \<Rightarrow> (bool \<times> sockaddr list) option" where
  "wait_lookup [] = None"
| "wait_lookup (p # ps) =
     (case p_done p of
        Some answer \<Rightarrow> Some answer
      | None \<Rightarrow> if p_interrupted p \<or> p_deadline p then Some (False, []) else wait_lookup ps)"

text \<open>\<open>started\<close> tells whether the helper thread could be created.\<close>

definition resolveInterruptible :: "bool \<Rightarrow> poll list \<Rightarrow> (bool \<times> sockaddr list) option" where
  "resolveInterruptible started turns = (if started then wait_lookup turns else Some (False, []))"

definition checkLocalFile :: "url_env \<Rightarrow> policy \<Rightarrow> string \<Rightarrow> string" where
  "checkLocalFile env g location =
     (if g_local_files_for_testing g then []
      else if location = [] \<or> hd location \<noteq> CHR ''/'' then ''not an absolute path''
      else if contains_str location ''/../'' \<or> contains_str location ''/./'' then ''path is not canonical''
      else if \<not> starts_with (case rfind_char (CHR ''/'') location of
             None \<Rightarrow> location | Some k \<Rightarrow> drop (k + 1) location) (spool_prefix env)
           then ''not a receiver spool file''
      else if \<not> lstat_own_regular env (c_str location)
           then ''spool file is not a regular file owned by this user''
      else [])"

section \<open>Lemmas on addresses and decisions\<close>

definition routable :: "url_env \<Rightarrow> sockaddr \<Rightarrow> bool" where
  "routable env a =
     (case sa_family a of
        AF_INET \<Rightarrow> media_classify_ipv4 env (ntohl_bytes (sa_bytes a)) = MEDIA_ADDRESS_ROUTABLE
      | AF_INET6 \<Rightarrow> media_classify_ipv6 env (sa_bytes a) = MEDIA_ADDRESS_ROUTABLE
      | AF_OTHER \<Rightarrow> False)"

definition routable_literal :: "url_env \<Rightarrow> string \<Rightarrow> bool" where
  "routable_literal env h =
     (case media_parse_literal env (c_str h) of
        None \<Rightarrow> False
      | Some (fam, literal) \<Rightarrow>
          if fam = AF_INET6 then media_classify_ipv6 env literal = MEDIA_ADDRESS_ROUTABLE
          else media_classify_ipv4 env (ntohl_bytes literal) = MEDIA_ADDRESS_ROUTABLE)"

lemma describe_class_Nil:
  "\<not> g_loopback_for_testing g \<Longrightarrow> describe_class g c = [] \<longleftrightarrow> c = MEDIA_ADDRESS_ROUTABLE"
  by (cases c) (simp_all add: describe_class_def)

lemma classify_Nil: "\<not> g_loopback_for_testing g \<Longrightarrow> classify env g a = [] \<longleftrightarrow> routable env a"
  by (simp add: classify_def routable_def classifyIpv4_def classifyIpv6_def describe_class_Nil
      split: family.split)

lemma first_refusal_Nil: "first_refusal env g as = [] \<longleftrightarrow> (\<forall>a\<in>set as. classify env g a = [])"
  by (induction as) auto

text \<open>What an allowed host name was checked for: the address the fetch is bound to.\<close>

definition checked_name ::
    "url_env \<Rightarrow> policy \<Rightarrow> 's resolver \<Rightarrow> 's \<Rightarrow> string \<Rightarrow> string \<Rightarrow> 's \<Rightarrow> bool" where
  "checked_name env g resolve s h pin s' =
     (\<exists>addrs. resolve s h = ((True, addrs), s') \<and> addrs \<noteq> [] \<and>
        (\<forall>a\<in>set addrs. routable env a) \<and> \<not> isLocalhostName h \<and>
        pin = numericAddress env (hd addrs) \<and> pin \<noteq> [])"

lemma checkHost_allowed:
  assumes "checkHost env g resolve s h = (d, s')" and "refused d = []" and "\<not> g_loopback_for_testing g"
  shows "(isLiteral env h \<and> routable_literal env h \<and> address d = [] \<and> s' = s) \<or>
    checked_name env g resolve s h (address d) s'"
  using assms
  by (auto simp: checkHost_def isLiteral_def routable_literal_def classifyIpv4_def classifyIpv6_def
      describe_class_Nil checked_name_def first_refusal_Nil classify_Nil
      split: option.splits if_splits prod.splits)

lemma nested_elsewhere:
  assumes "split_url env url = Some p" and "split_url env item_url \<noteq> Some p"
    and "\<not> g_sender_only g"
  shows "decideNested env g resolve s url item_url =
    (if \<not> portAllowed g (port p) \<and> \<not> g_loopback_for_testing g
     then (\<lparr>refused = ''port '' @ to_string (port p) @ '' not allowed'', address = []\<rparr>, s)
     else checkHost env g resolve s (host p))"
proof (cases "split_url env item_url")
  case None
  with assms show ?thesis by (simp add: decideNested_def)
next
  case (Some i)
  then have "\<not> (host i = host p \<and> port i = port p)" using assms(2) by auto
  with Some assms show ?thesis unfolding decideNested_def by (auto simp: Let_def)
qed

lemma nested_public:
  assumes "decideNested env g resolve s url item_url = (d, s')" and "refused d = []"
    and "\<not> g_loopback_for_testing g" and "\<not> g_sender_only g"
    and "split_url env url = Some p" and "split_url env item_url \<noteq> Some p"
  shows "port p \<in> set (g_ports g) \<and>
    (isLiteral env (host p) \<and> routable_literal env (host p) \<and> address d = [] \<and> s' = s \<or>
     checked_name env g resolve s (host p) (address d) s')"
proof -
  have "portAllowed g (port p)" "checkHost env g resolve s (host p) = (d, s')"
    using assms nested_elsewhere [OF assms(5,6,4), of resolve s] by (auto split: if_splits)
  then show ?thesis using checkHost_allowed [OF _ assms(2,3)] by (simp add: portAllowed_def)
qed

text \<open>An item the sender-only policy lets through: an address, or the receiver's own proxy.\<close>

lemma item_sender_only:
  assumes "g_sender_only g" and "decideItem env g resolve s url = (d, s')" and "refused d = []"
  shows "\<exists>p. split_url env url = Some p \<and> (isLiteral env (host p) \<or> host p = ''localhost'') \<and>
    address d = [] \<and> s' = s"
  using assms by (auto simp: decideItem_def kNotSender_def split: option.splits if_splits)

lemma nested_sender_only:
  assumes "g_sender_only g" and "decideNested env g resolve s url item_url = (d, s')" and "refused d = []"
    and "split_url env item_url = Some i" and "isLiteral env (host i) \<or> host i = ''localhost''"
  shows "\<exists>p. split_url env url = Some p \<and> address d = [] \<and> s' = s \<and>
    (p = i \<or> literalAddress env (host p) \<noteq> None \<and> literalAddress env (host p) = literalAddress env (host i))"
  using assms
  by (auto simp: decideNested_def same_address_def kNotSender_def Let_def split: option.splits if_splits)

section \<open>Resolvers that keep their answers\<close>

text \<open>
  What the media player's resolver promises: an answer stays the answer for that name, whatever
  is looked up in between. A decision taken with such a resolver can be taken again at any later
  time with the same result, without a lookup.
\<close>

locale stable_resolver =
  fixes resolve :: "'s \<Rightarrow> string \<Rightarrow> (bool \<times> sockaddr list) \<times> 's"
    and table :: "'s \<Rightarrow> string \<Rightarrow> sockaddr list option"
  assumes answer_kept: "resolve s h = ((True, v), s') \<Longrightarrow> table s' h = Some v"
    and table_kept: "table s k = Some u \<Longrightarrow> table (snd (resolve s h)) k = Some u"
    and from_table: "table s h = Some v \<Longrightarrow> resolve s h = ((True, v), s)"
begin

lemma resolve_again:
  assumes "resolve s h = ((True, v), s')" and "table s' \<subseteq>\<^sub>m table t"
  shows "resolve t h = ((True, v), t)"
proof -
  have "table t h = Some v" using answer_kept [OF assms(1)] assms(2) by (auto simp: map_le_def dom_def)
  then show ?thesis by (rule from_table)
qed

lemma resolve_grows: "resolve s h = (r, s') \<Longrightarrow> table s \<subseteq>\<^sub>m table s'"
  using table_kept [of s _ _ h] by (auto simp: map_le_def)

lemma checkHost_grows: "checkHost env g resolve s h = (d, s') \<Longrightarrow> table s \<subseteq>\<^sub>m table s'"
  using resolve_grows [of s h]
  by (auto simp: checkHost_def split: option.splits if_splits prod.splits)

lemma checkHost_again:
  assumes "checkHost env g resolve s h = (d, s')" and "refused d = []" and "table s' \<subseteq>\<^sub>m table t"
  shows "checkHost env g resolve t h = (d, t)"
proof (cases "media_parse_literal env (c_str h)")
  case (Some l)
  with assms(1) show ?thesis by (auto simp: checkHost_def split: prod.splits if_splits)
next
  case None
  obtain v where v: "resolve s h = ((True, v), s')"
    using assms(1,2) None by (auto simp: checkHost_def split: if_splits prod.splits)
  then show ?thesis
    using assms(1,2) None resolve_again [OF v assms(3)]
    by (auto simp: checkHost_def split: if_splits)
qed

lemma decideItem_grows: "decideItem env g resolve s url = (d, s') \<Longrightarrow> table s \<subseteq>\<^sub>m table s'"
  using checkHost_grows by (auto simp: decideItem_def split: option.splits if_splits)

lemma decideItem_again:
  assumes "decideItem env g resolve s url = (d, s')" and "refused d = []" and "table s' \<subseteq>\<^sub>m table t"
  shows "decideItem env g resolve t url = (d, t)"
  using assms checkHost_again [OF _ assms(2,3)]
  by (auto simp: decideItem_def split: option.splits if_splits)

lemma decideNested_grows: "decideNested env g resolve s url item_url = (d, s') \<Longrightarrow> table s \<subseteq>\<^sub>m table s'"
  using checkHost_grows by (auto simp: decideNested_def Let_def split: option.splits if_splits)

lemma decideNested_again:
  assumes "decideNested env g resolve s url item_url = (d, s')" and "refused d = []"
    and "table s' \<subseteq>\<^sub>m table t"
  shows "decideNested env g resolve t url item_url = (d, t)"
  using assms checkHost_again [OF _ assms(2,3)]
  by (auto simp: decideNested_def Let_def split: option.splits if_splits)

end

section \<open>Lemmas on port lists\<close>

lemma port_char_None: "foldl port_char None cs = None"
  by (induction cs) (simp_all add: port_char_def)

definition ports_ok :: "int list \<Rightarrow> bool" where
  "ports_ok ports = (distinct ports \<and> (\<forall>p\<in>set ports. 1 \<le> p \<and> p \<le> 65535))"

lemma port_char_ok:
  "ports_ok ports \<Longrightarrow> port_char (Some (ports, v)) c = Some (ports', v') \<Longrightarrow> ports_ok ports'"
  by (auto simp: port_char_def ports_ok_def Let_def split: if_splits)

lemma port_fold_ok:
  "ports_ok ports \<Longrightarrow> foldl port_char (Some (ports, v)) cs = Some (ports', v') \<Longrightarrow> ports_ok ports'"
proof (induction cs arbitrary: ports v)
  case Nil
  then show ?case by simp
next
  case (Cons c cs)
  then obtain q w where q: "port_char (Some (ports, v)) c = Some (q, w)"
    by (cases "port_char (Some (ports, v)) c") (auto simp: port_char_None)
  with Cons show ?case using port_char_ok [of ports v c q w] by simp
qed

lemma parsePortList_ok: "ports_ok (parsePortList s)"
  using port_fold_ok [of "[]" "-1" "s @ '',''"]
  by (auto simp: parsePortList_def ports_ok_def split: option.split)

lemma digits_value_Cons_le:
  "list_all is_digit ds \<Longrightarrow> 0 \<le> v \<Longrightarrow> v \<le> foldl (\<lambda>v d. 10 * v + digit_value d) v ds"
proof (induction ds arbitrary: v)
  case Nil
  then show ?case by simp
next
  case (Cons d ds)
  have "0 \<le> digit_value d" using Cons.prems by (simp add: is_digit_def digit_value_def)
  with Cons.prems have "10 * v + digit_value d \<le> foldl (\<lambda>v d. 10 * v + digit_value d) (10 * v + digit_value d) ds"
    by (intro Cons.IH) auto
  with \<open>0 \<le> digit_value d\<close> Cons.prems(2) show ?case by simp
qed

lemma port_digits:
  "list_all is_digit ds \<Longrightarrow> 0 \<le> v \<Longrightarrow> foldl (\<lambda>v d. 10 * v + digit_value d) v ds \<le> 65535 \<Longrightarrow>
     foldl port_char (Some (ports, v)) ds = Some (ports, foldl (\<lambda>v d. 10 * v + digit_value d) v ds)"
proof (induction ds arbitrary: v)
  case Nil
  then show ?case by simp
next
  case (Cons d ds)
  have "0 \<le> digit_value d" using Cons.prems by (simp add: is_digit_def digit_value_def)
  with Cons have "port_char (Some (ports, v)) d = Some (ports, 10 * v + digit_value d)"
    using digits_value_Cons_le [of ds "10 * v + digit_value d"] by (simp add: port_char_def mult.commute)
  with Cons \<open>0 \<le> digit_value d\<close> show ?case by simp
qed

lemma port_number:
  assumes "1 \<le> p" and "p \<le> 65535"
  shows "foldl port_char (Some (ports, -1)) (to_string p) = Some (ports, p)"
proof -
  obtain d ds where d: "to_string p = d # ds" using to_string_digits(1) [of p] assms by (cases "to_string p") auto
  have digits: "is_digit d" "list_all is_digit ds" using to_string_digits(2) [of p] assms d by auto
  have "foldl (\<lambda>v d. 10 * v + digit_value d) (digit_value d) ds = p"
    using digits_value_nat_string [of "nat p"] assms d by (simp add: to_string_def digits_value_def)
  moreover have "0 \<le> digit_value d" using digits(1) by (simp add: is_digit_def digit_value_def)
  moreover have "digit_value d \<le> 9" using digits(1) by (simp add: is_digit_def digit_value_def)
  ultimately show ?thesis
    using port_digits [OF digits(2), of "digit_value d" ports] digits d assms
    by (simp add: port_char_def)
qed

lemma port_fold_join:
  "ports_ok (acc @ ports) \<Longrightarrow> ports \<noteq> [] \<Longrightarrow>
     foldl port_char (Some (acc, -1)) (join_with (CHR '','') (map to_string ports) @ '','') =
       Some (acc @ ports, -1)"
proof (induction ports arbitrary: acc)
  case Nil
  then show ?case by simp
next
  case (Cons p ports)
  have p: "1 \<le> p" "p \<le> 65535" "p \<notin> set acc" using Cons.prems by (auto simp: ports_ok_def)
  have comma: "port_char (Some (acc, p)) (CHR '','') = Some (acc @ [p], -1)"
    using p by (simp add: port_char_def is_digit_def char_code_def)
  show ?case
  proof (cases ports)
    case Nil
    with p comma show ?thesis by (simp add: port_number)
  next
    case (Cons q qs)
    with Cons.IH [of "acc @ [p]"] Cons.prems p comma show ?thesis by (simp add: port_number)
  qed
qed

lemma parsePortList_join:
  assumes "ports_ok ports"
  shows "parsePortList (join_with (CHR '','') (map to_string ports)) = ports"
proof (cases "ports = []")
  case True
  then show ?thesis by (simp add: parsePortList_def port_char_def is_digit_def char_code_def)
next
  case False
  with assms port_fold_join [of "[]" ports] show ?thesis by (simp add: parsePortList_def)
qed

section \<open>Lemmas on spool files\<close>

lemma split_on_mem:
  "p \<in> set (split_on c s) \<Longrightarrow>
     \<exists>pre post. s = pre @ p @ post \<and> (pre = [] \<or> last pre = c) \<and> (post = [] \<or> hd post = c)"
proof (induction c s rule: split_on.induct)
  case (1 c s)
  show ?case
  proof (cases "index_of (\<lambda>d. d = c) s")
    case None
    then have "split_on c s = [s]" by (subst split_on.simps) simp
    with 1 show ?thesis by (intro exI [of _ "[]"]) simp
  next
    case (Some k)
    then have k: "k < length s" "s ! k = c" by (auto simp: index_of_Some_iff)
    have s: "s = take k s @ c # drop (k + 1) s" using k id_take_nth_drop [OF k(1)] by simp
    have "split_on c s = take k s # split_on c (drop (k + 1) s)" using Some by (subst split_on.simps) simp
    with 1 consider "p = take k s" | "p \<in> set (split_on c (drop (k + 1) s))" by auto
    then show ?thesis
    proof cases
      case 1
      with s show ?thesis by (intro exI [of _ "[]"] exI [of _ "c # drop (k + 1) s"]) simp
    next
      case 2
      with "1.IH" [OF Some] obtain pre post where "drop (k + 1) s = pre @ p @ post"
        "pre = [] \<or> last pre = c" "post = [] \<or> hd post = c" by auto
      with s show ?thesis by (intro exI [of _ "take k s @ c # pre"] exI [of _ post]) auto
    qed
  qed
qed

lemma contains_str_append: "contains_str (a @ n @ b) n"
proof -
  have "index_of_str n (a @ n @ b) \<noteq> None"
  proof (induction a)
    case Nil
    have "starts_with (n @ b) n" by simp
    then show ?case by (cases "n @ b") auto
  next
    case (Cons c a)
    then show ?case by simp
  qed
  then show ?thesis by (simp add: contains_str_def find_str_def)
qed

lemma rfind_char_append:
  "c \<notin> set t \<Longrightarrow> rfind_char c (s @ c # t) = Some (length s)"
  by (simp add: rfind_char_def)

lemma checkLocalFile_canonical:
  assumes "checkLocalFile env g location = []" and "\<not> g_local_files_for_testing g"
    and "spool_prefix env \<noteq> []" and "hd (spool_prefix env) \<noteq> CHR ''.''"
  shows "lstat_own_regular env (c_str location) \<and>
    (\<exists>dir name. location = dir @ CHR ''/'' # name \<and> CHR ''/'' \<notin> set name \<and>
       starts_with name (spool_prefix env)) \<and>
    list_all (\<lambda>p. p \<noteq> ''.'' \<and> p \<noteq> ''..'') (split_on (CHR ''/'') location)"
proof -
  let ?base = "case rfind_char (CHR ''/'') location of None \<Rightarrow> location | Some k \<Rightarrow> drop (k + 1) location"
  have a: "location \<noteq> []" "hd location = CHR ''/''" "\<not> contains_str location ''/../''"
      "\<not> contains_str location ''/./''" "starts_with ?base (spool_prefix env)"
      "lstat_own_regular env (c_str location)"
    using assms(1,2) by (auto simp: checkLocalFile_def split: if_splits)
  obtain k where k: "rfind_char (CHR ''/'') location = Some k"
    using a(1,2) rfind_char_ge [of 0 location "CHR ''/''"] by (auto simp: hd_conv_nth)
  then obtain i where i: "index_of (\<lambda>d. d = CHR ''/'') (rev location) = Some i" "k = length location - 1 - i"
    by (auto simp: rfind_char_def)
  have il: "i < length location" "rev location ! i = CHR ''/''" "CHR ''/'' \<notin> set (take i (rev location))"
    using i(1) by (auto simp: index_of_Some_iff)
  have "k < length location" "location ! k = CHR ''/''" using il i(2) by (auto simp: rev_nth)
  then have loc: "location = take k location @ CHR ''/'' # drop (k + 1) location"
    using id_take_nth_drop [of k location] by simp
  have "rev (drop (k + 1) location) = take i (rev location)"
    using il(1) i(2) by (simp add: rev_drop)
  then have "CHR ''/'' \<notin> set (drop (k + 1) location)" using il(3) by (metis set_rev)
  moreover have "list_all (\<lambda>p. p \<noteq> ''.'' \<and> p \<noteq> ''..'') (split_on (CHR ''/'') location)"
  proof (rule ccontr)
    assume "\<not> ?thesis"
    then obtain p where p: "p \<in> set (split_on (CHR ''/'') location)" "p = ''.'' \<or> p = ''..''"
      by (auto simp: list_all_iff)
    then obtain pre post where pp: "location = pre @ p @ post" "pre = [] \<or> last pre = CHR ''/''"
      "post = [] \<or> hd post = CHR ''/''" using split_on_mem by metis
    have "pre \<noteq> []" using a(2) p pp(1) by auto
    then obtain pre' where pre: "pre = pre' @ [CHR ''/'']"
      using pp(2) by (cases pre rule: rev_cases) auto
    show False
    proof (cases post)
      case Nil
      then have "?base = p"
        using p(2) pp pre rfind_char_append [of "CHR ''/''" p pre'] by (auto simp: drop_append)
      then show False
        using a(5) p(2) assms(3,4) by (cases "spool_prefix env") (auto simp: starts_with_def split: list.splits)
    next
      case (Cons c rest)
      then have "location = pre' @ (CHR ''/'' # p @ ''/'') @ rest" using pp pre by simp
      then show False
        using a(3,4) p(2) contains_str_append [of pre' "CHR ''/'' # p @ ''/''" rest] by auto
    qed
  qed
  moreover have "starts_with (drop (k + 1) location) (spool_prefix env)" using a(5) k by simp
  ultimately show ?thesis using a(6) loc by metis
qed

section \<open>Properties\<close>


definition witness_env :: url_env where
  "witness_env = \<lparr>media_url_split = (\<lambda>u. if u = ''u'' then Some (''h'', 80) else Some (''l'', 7000)),
     media_parse_literal = (\<lambda>h. if h = ''h'' then None else Some (AF_INET, [10, 0, 0, 2])),
     media_classify_ipv4 = (\<lambda>a. if a = 0x7F000001 then MEDIA_ADDRESS_LOOPBACK else MEDIA_ADDRESS_ROUTABLE),
     media_classify_ipv6 = (\<lambda>_. MEDIA_ADDRESS_RESERVED), inet_ntop = (\<lambda>_ _. ''1.2.3.4''),
     spool_prefix = ''obs-airplay-fcup-'', lstat_own_regular = (\<lambda>_. True)\<rparr>"


text \<open>
  C24. With the sender-only policy, when the item was allowed, every nested URL that is allowed is
  on the item's own host and port or has the very address of the item, and deciding either never
  looks a name up.
\<close>

theorem sender_only_stays_on_sender:
  assumes "g_sender_only g"
    and "decideItem env g resolve s item_url = (di, si)" and "refused di = []"
    and "decideNested env g resolve si url item_url = (d, s')" and "refused d = []"
  shows "\<exists>i p. split_url env item_url = Some i \<and> split_url env url = Some p \<and> s' = s \<and>
    address di = [] \<and> address d = [] \<and>
    (p = i \<or> literalAddress env (host p) \<noteq> None \<and> literalAddress env (host p) = literalAddress env (host i))"
proof -
  obtain i where i: "split_url env item_url = Some i" "isLiteral env (host i) \<or> host i = ''localhost''"
    "address di = []" "si = s" using item_sender_only [OF assms(1-3)] by blast
  show ?thesis using nested_sender_only [OF assms(1,4,5) i(1,2)] i by auto
qed

text \<open>Here the state of the resolver is the number of names it looked up.\<close>

theorem sender_only_stays_on_sender_witness:
  "\<exists>d lookups. decideNested witness_env (setSenderOnly True policy_initial) (\<lambda>n h. ((False, []), Suc n)) 0 ''j'' ''i'' = (d, lookups) \<and>
    refused d = [] \<and> lookups = 0 \<and> address d = [] \<and>
    literalAddress witness_env ''l'' = Some (replicate 10 0 @ [0xff, 0xff, 10, 0, 0, 2])"
proof -
  let ?g = "setSenderOnly True policy_initial" and ?r = "\<lambda>n (h :: string). ((False, []), Suc n)"
  let ?d = "\<lparr>refused = [], address = []\<rparr>"
  have item: "decideItem witness_env ?g ?r 0 ''i'' = (?d, 0)"
    by (simp add: decideItem_def split_url_def witness_env_def policy_initial_def setSenderOnly_def isLiteral_def c_str_def)
  have nested: "decideNested witness_env ?g ?r 0 ''j'' ''i'' = (?d, 0)"
    by (simp add: decideNested_def split_url_def witness_env_def policy_initial_def setSenderOnly_def isLiteral_def c_str_def)
  have "\<exists>i p. split_url witness_env ''i'' = Some i \<and> split_url witness_env ''j'' = Some p \<and> (0::nat) = 0 \<and>
      address ?d = [] \<and> address ?d = [] \<and>
      (p = i \<or> literalAddress witness_env (host p) \<noteq> None \<and> literalAddress witness_env (host p) = literalAddress witness_env (host i))"
    by (rule sender_only_stays_on_sender [OF _ item _ nested]) (simp_all add: setSenderOnly_def)
  moreover have "literalAddress witness_env ''l'' = Some (replicate 10 0 @ [0xff, 0xff, 10, 0, 0, 2])"
    by (simp add: literalAddress_def witness_env_def c_str_def)
  ultimately show ?thesis using nested by auto
qed

text \<open>
  Whatever the text of \<open>OBS_AIRPLAY_MEDIA_PORTS\<close> is, the parsed list holds each port once and
  only ports from 1 to 65535.
\<close>

theorem port_list_in_range:
  "distinct (parsePortList s) \<and> set (parsePortList s) \<subseteq> {1..65535}"
  using parsePortList_ok [of s] by (auto simp: ports_ok_def)

text \<open>
  A list of distinct ports written with commas parses back to itself.
\<close>

theorem port_list_round_trip:
  assumes "distinct ports" and "\<forall>p\<in>set ports. 1 \<le> p \<and> p \<le> 65535"
  shows "parsePortList (join_with (CHR '','') (map to_string ports)) = ports"
  using assms by (intro parsePortList_join) (simp add: ports_ok_def)

theorem port_list_round_trip_witness:
  "parsePortList (join_with (CHR '','') (map to_string [80, 443, 65535])) = [80, 443, 65535]"
  by (rule port_list_round_trip) simp_all

text \<open>
  A path that passes as a local item is a regular file of this user, its last component has the
  receiver's spool prefix, and no component of it is \<open>.\<close> or \<open>..\<close>.
\<close>

theorem local_file_is_spool_file:
  assumes "checkLocalFile env g location = []" and "\<not> g_local_files_for_testing g"
    and "spool_prefix env \<noteq> []" and "hd (spool_prefix env) \<noteq> CHR ''.''"
  shows "lstat_own_regular env (c_str location) \<and>
    (\<exists>dir name. location = dir @ CHR ''/'' # name \<and> CHR ''/'' \<notin> set name \<and>
       starts_with name (spool_prefix env)) \<and>
    list_all (\<lambda>p. p \<noteq> ''.'' \<and> p \<noteq> ''..'') (split_on (CHR ''/'') location)"
  using assms by (rule checkLocalFile_canonical)

theorem local_file_is_spool_file_witness:
  "list_all (\<lambda>p. p \<noteq> ''.'' \<and> p \<noteq> ''..'') (split_on (CHR ''/'') ''/t/obs-airplay-fcup-1'')"
  using local_file_is_spool_file [of witness_env policy_initial "''/t/obs-airplay-fcup-1''"]
  by (simp add: witness_env_def policy_initial_def checkLocalFile_def contains_str_def find_str_def
      starts_with_def rfind_char_def c_str_def)

end
