(* ===== verification/Av_Errors.thy ===== *)
theory Av_Errors
  imports Main
begin

text \<open>
  FFmpeg's error numbers, as far as the sources compare or return them (\<open>AVERROR(e)\<close> of the system's
  error numbers, and FFmpeg's own tags).
\<close>

definition AVERROR_EOF :: int where "AVERROR_EOF = - 541478725"
definition AVERROR_EXIT :: int where "AVERROR_EXIT = - 1414092869"
definition AVERROR_EPERM :: int where "AVERROR_EPERM = - 1"
definition AVERROR_EIO :: int where "AVERROR_EIO = - 5"
definition AVERROR_EINVAL :: int where "AVERROR_EINVAL = - 22"
definition AVERROR_ENOSYS :: int where "AVERROR_ENOSYS = - 78"

lemmas averrors = AVERROR_EOF_def AVERROR_EXIT_def AVERROR_EPERM_def AVERROR_EIO_def AVERROR_EINVAL_def AVERROR_ENOSYS_def

end
