(* ===== verification/Media_Fetch.thy ===== *)
theory Media_Fetch
  imports Url_Policy Av_Errors
begin

text \<open>
  \<^verbatim>\<open>src/media-fetch.hpp\<close> and \<^verbatim>\<open>src/media-fetch.cpp\<close>: the fetches for one video item. A
  \<open>Session\<close> is the record \<open>session\<close>; its operations pass it along with the world \<open>'w\<close>, on which the
  functions outside the repository act (name lookups, FFmpeg's \<open>avio\<close> and dictionaries, the
  caller's callbacks): the fields of \<open>fetch_env\<close>.
\<close>

section \<open>URLs\<close>

record url_view =
  v_scheme :: string
  v_userinfo :: string
  v_host :: string
  v_port :: string
  v_rest :: string

text \<open>The host and the port of an authority without user information.\<close>

definition parse_host_port :: "string \<Rightarrow> (string \<times> string) option" where
  "parse_host_port authority =
     (if authority = [] then None
      else if hd authority = CHR ''['' then
        (case find_char (CHR '']'') authority 0 of
           None \<Rightarrow> None
         | Some close \<Rightarrow>
             if close + 1 < length authority then
               (if authority ! (close + 1) \<noteq> CHR '':'' then None
                else Some (take (close + 1) authority, drop (close + 2) authority))
             else Some (take (close + 1) authority, []))
      else (case find_char (CHR '':'') authority 0 of
              None \<Rightarrow> Some (authority, [])
            | Some colon \<Rightarrow> Some (take colon authority, drop (colon + 1) authority)))"

definition parse_view :: "string \<Rightarrow> url_view option" where
  "parse_view url =
     (case find_str ''://'' url 0 of
        None \<Rightarrow> None
      | Some separator \<Rightarrow>
          (let scheme = map to_lower (take separator url) in
           if scheme \<noteq> ''http'' \<and> scheme \<noteq> ''https'' then None
           else
             (let start = separator + 3;
                  fin = (case find_first_of ''/?#'' url start of None \<Rightarrow> length url | Some k \<Rightarrow> k);
                  authority = substr url start (fin - start);
                  at = rfind_char (CHR ''@'') authority
              in case parse_host_port (case at of None \<Rightarrow> authority | Some k \<Rightarrow> drop (k + 1) authority) of
                   None \<Rightarrow> None
                 | Some (h, p) \<Rightarrow>
                     if h = [] then None
                     else Some \<lparr>v_scheme = scheme,
                       v_userinfo = (case at of None \<Rightarrow> [] | Some k \<Rightarrow> take k authority),
                       v_host = h, v_port = p, v_rest = drop fin url\<rparr>)))"

definition portNumber :: "url_view \<Rightarrow> int" where
  "portNumber v =
     (if v_port v = [] then (if v_scheme v = ''https'' then 443 else 80) else atoi (v_port v))"

definition bracketed :: "string \<Rightarrow> string" where
  "bracketed a = (if contains_str a '':'' then ''['' @ a @ '']'' else a)"

definition pinKey :: "string \<Rightarrow> string \<Rightarrow> int \<Rightarrow> string" where
  "pinKey scheme h p = scheme @ ''://'' @ h @ '':'' @ to_string p"

definition safeForLog :: "string \<Rightarrow> string" where
  "safeForLog url =
     (let redacted =
        (case find_str ''://'' url 0 of
           None \<Rightarrow> url
         | Some scheme \<Rightarrow>
             (let authority_start = scheme + 3;
                  authority_end = find_char (CHR ''/'') url authority_start
              in case find_char (CHR ''@'') url authority_start of
                   None \<Rightarrow> url
                 | Some at \<Rightarrow>
                     if (case authority_end of None \<Rightarrow> True | Some e \<Rightarrow> at < e)
                     then take authority_start url @ ''[redacted]@'' @ drop (at + 1) url
                     else url))
      in case find_first_of ''?#'' redacted 0 of
           None \<Rightarrow> redacted
         | Some sensitive \<Rightarrow> take sensitive redacted @ ''?[redacted]'')"

section \<open>The session\<close>

definition kMaxRedirects :: nat where "kMaxRedirects = 8"


record session =
  m_item_url :: string
  m_allow_insecure_tls :: bool
  m_lookups :: "string \<rightharpoonup> sockaddr list"
  m_pinned :: "string \<rightharpoonup> string"

record target =
  t_url :: string
  t_headers :: string
  t_connect_host :: string
  t_host_header :: string
  t_path :: string
  t_port :: int
  t_tls :: bool

record ('w, 'd) fetch_env =
  f_env :: url_env
  f_policy :: policy
  f_lookup :: "'w \<Rightarrow> string \<Rightarrow> (bool \<times> sockaddr list) \<times> 'w"
  f_interrupted :: "'w \<Rightarrow> bool \<times> 'w"
  f_refused :: "'w \<Rightarrow> string \<Rightarrow> 'w"
  f_dict_set :: "'d \<Rightarrow> string \<Rightarrow> string option \<Rightarrow> 'd"
  f_dict_empty :: "'d"
  f_exchange :: "'w \<Rightarrow> string \<Rightarrow> 'd \<Rightarrow> string \<Rightarrow> string list option \<times> 'w"
  f_system_bundle :: bool
  f_version :: string

definition session_new :: "string \<Rightarrow> bool \<Rightarrow> session" where
  "session_new item_url allow_insecure_tls =
     \<lparr>m_item_url = item_url, m_allow_insecure_tls = allow_insecure_tls,
      m_lookups = Map.empty, m_pinned = Map.empty\<rparr>"

definition setTlsOptions :: "('w, 'd) fetch_env \<Rightarrow> 'd \<Rightarrow> bool \<Rightarrow> 'd" where
  "setTlsOptions env options allow_insecure =
     (if allow_insecure then f_dict_set env options ''tls_verify'' (Some ''0'')
      else
        (let o1 = f_dict_set env options ''tls_verify'' (Some ''1'')
         in if f_system_bundle env then f_dict_set env o1 ''ca_file'' (Some ''/etc/ssl/cert.pem'') else o1))"

definition lookUp :: "('w, 'd) fetch_env \<Rightarrow> (session \<times> 'w) resolver" where
  "lookUp env sw h =
     (case sw of (s, w) \<Rightarrow>
        (case m_lookups s h of
           Some addresses \<Rightarrow> ((True, addresses), (s, w))
         | None \<Rightarrow>
             (case f_lookup env w h of ((ok, addresses), w') \<Rightarrow>
                if \<not> ok then ((False, addresses), (s, w'))
                else ((True, addresses), (s\<lparr>m_lookups := (m_lookups s)(h \<mapsto> addresses)\<rparr>, w')))))"

definition unpin :: "session \<Rightarrow> string \<Rightarrow> string" where
  "unpin s url =
     (case parse_view url of
        None \<Rightarrow> url
      | Some v \<Rightarrow>
          (case m_pinned s (pinKey (v_scheme v) (v_host v) (portNumber v)) of
             None \<Rightarrow> url
           | Some header \<Rightarrow> v_scheme v @ ''://'' @
               (if v_userinfo v = [] then [] else v_userinfo v @ ''@'') @ header @ v_rest v))"

text \<open>The policy decision both \<open>check\<close> and \<open>prepare\<close> take, for the item's own URL or another.\<close>

definition decide :: "('w, 'd) fetch_env \<Rightarrow> session \<times> 'w \<Rightarrow> string \<Rightarrow> bool \<Rightarrow> decision \<times> session \<times> 'w" where
  "decide env sw url item =
     (if item then decideItem (f_env env) (f_policy env) (lookUp env) sw url
      else decideNested (f_env env) (f_policy env) (lookUp env) sw url (m_item_url (fst sw)))"

definition check_url :: "('w, 'd) fetch_env \<Rightarrow> session \<times> 'w \<Rightarrow> string \<Rightarrow> bool \<Rightarrow> string \<times> session \<times> 'w" where
  "check_url env sw url item =
     (case decide env sw (unpin (fst sw) url) item of (d, sw') \<Rightarrow> (refused d, sw'))"

definition host_header_of :: "url_view \<Rightarrow> string" where
  "host_header_of v = v_host v @ (if v_port v = [] then [] else '':'' @ v_port v)"

definition path_of :: "url_view \<Rightarrow> string" where
  "path_of v =
     (let p = (if v_rest v = [] \<or> hd (v_rest v) \<noteq> CHR ''/'' then ''/'' @ v_rest v else v_rest v)
      in case find_char (CHR ''#'') p 0 of None \<Rightarrow> p | Some fragment \<Rightarrow> take fragment p)"

definition pinned_url :: "url_view \<Rightarrow> string \<Rightarrow> string" where
  "pinned_url v h =
     v_scheme v @ ''://'' @ (if v_userinfo v = [] then [] else v_userinfo v @ ''@'') @
       h @ '':'' @ to_string (portNumber v) @ v_rest v"

text \<open>The reason of a refusal, or the target: \<open>prepare\<close> with the decision already taken.\<close>

definition make_target :: "session \<Rightarrow> string \<Rightarrow> decision \<Rightarrow> (string + target) \<times> session" where
  "make_target s url d =
     (case parse_view url of
        None \<Rightarrow> (Inl ''malformed URL'', s)
      | Some v \<Rightarrow>
          (let plain = \<lparr>t_url = url, t_headers = [], t_connect_host = v_host v,
                 t_host_header = host_header_of v, t_path = path_of v, t_port = portNumber v,
                 t_tls = (v_scheme v = ''https'')\<rparr>
           in if address d \<noteq> [] \<and> (\<not> t_tls plain \<or> m_allow_insecure_tls s) then
                (let h = bracketed (address d);
                     key = pinKey (v_scheme v) h (t_port plain)
                 in (Inr (plain\<lparr>t_connect_host := h, t_url := pinned_url v h,
                       t_headers := ''Host: '' @ t_host_header plain @ [CHR 0x0D, CHR 0x0A]\<rparr>),
                     (if m_pinned s key = None
                      then s\<lparr>m_pinned := (m_pinned s)(key \<mapsto> t_host_header plain)\<rparr> else s)))
              else (Inr plain, s)))"

definition prepare :: "('w, 'd) fetch_env \<Rightarrow> session \<times> 'w \<Rightarrow> string \<Rightarrow> bool \<Rightarrow> (string + target) \<times> session \<times> 'w" where
  "prepare env sw url item =
     (case decide env sw url item of
        (d, (s, w)) \<Rightarrow>
          if refused d \<noteq> [] then (Inl (refused d), (s, w))
          else (case make_target s url d of (r, s') \<Rightarrow> (r, (s', w))))"

section \<open>Reading a redirect\<close>

definition crlf :: string where "crlf = [CHR 0x0D, CHR 0x0A]"

text \<open>The read loop: the pieces \<open>avio_read_partial\<close> gives, an empty one being an end or an error.\<close>

fun read_response :: "string \<Rightarrow> string list \<Rightarrow> string" where
  "read_response response [] = response"
| "read_response response (c # cs) =
     (if length response < 16384 \<and> \<not> contains_str response (crlf @ crlf) \<and> c \<noteq> []
      then read_response (response @ c) cs else response)"

definition trim_field :: "string \<Rightarrow> string" where
  "trim_field v =
     rev (dropWhile (\<lambda>c. c = CHR '' '' \<or> c = CHR 0x09)
       (rev (dropWhile (\<lambda>c. c = CHR '' '' \<or> c = CHR 0x09) v)))"

lemma find_str_ge: "find_str n s pos = Some k \<Longrightarrow> pos \<le> k"
  by (auto simp: find_str_def)

function location_field :: "string \<Rightarrow> nat \<Rightarrow> nat option \<Rightarrow> string" where
  "location_field response header_end None = []"
| "location_field response header_end (Some line) =
     (if line < header_end then
        (let start = line + 2;
             next_line = find_str crlf response start;
             field = (case next_line of None \<Rightarrow> drop start response | Some k \<Rightarrow> substr response start (k - start))
         in if starts_with_ci field ''location:'' then trim_field (drop (length ''location:'') field)
            else location_field response header_end next_line)
      else [])"
  by pat_completeness auto
termination
proof (relation "measure (\<lambda>(response, header_end, l). case l of None \<Rightarrow> 0 | Some k \<Rightarrow> Suc header_end - k)", simp, clarsimp)
  fix response :: string and header_end line :: nat
  assume "line < header_end"
  then show "(case find_str crlf response (Suc (Suc line)) of None \<Rightarrow> 0 | Some k \<Rightarrow> Suc header_end - k) < Suc header_end - line"
    using find_str_ge [of crlf response "Suc (Suc line)"] by (auto split: option.split)
qed

declare location_field.simps [simp del]

definition redirect_location :: "string \<Rightarrow> string" where
  "redirect_location response =
     (case find_str (crlf @ crlf) response 0 of
        None \<Rightarrow> []
      | Some header_end \<Rightarrow>
          if \<not> starts_with_ci response ''HTTP/1.'' then []
          else
            (let status = (case find_char (CHR '' '') response 0 of None \<Rightarrow> 0
               | Some space \<Rightarrow> atoi (drop (space + 1) response))
             in if status \<notin> {301, 302, 303, 307, 308} then []
                else location_field response header_end (find_str crlf response 0)))"

definition probe_request :: "('w, 'd) fetch_env \<Rightarrow> target \<Rightarrow> string" where
  "probe_request env t =
     ''GET '' @ t_path t @ '' HTTP/1.1'' @ crlf @ ''Host: '' @ t_host_header t @ crlf @
     ''User-Agent: AppleCoreMedia/1.0 OBS-AirPlay/'' @ f_version env @ crlf @
     ''Accept: */*'' @ crlf @ ''Connection: close'' @ crlf @ crlf"

definition probeRedirect :: "('w, 'd) fetch_env \<Rightarrow> session \<times> 'w \<Rightarrow> target \<Rightarrow> string \<times> session \<times> 'w" where
  "probeRedirect env sw t =
     (let endpoint = (if t_tls t then ''tls://'' else ''tcp://'') @ t_connect_host t @ '':'' @ to_string (t_port t);
          o1 = f_dict_set env (f_dict_empty env) ''protocol_whitelist'' (Some ''tcp,tls'');
          o2 = f_dict_set env o1 ''rw_timeout'' (Some ''7000000'');
          o3 = (if t_tls t then setTlsOptions env o2 (m_allow_insecure_tls (fst sw)) else o2)
      in case f_exchange env (snd sw) endpoint o3 (probe_request env t) of
           (None, w') \<Rightarrow> ([], (fst sw, w'))
         | (Some chunks, w') \<Rightarrow> (redirect_location (read_response [] chunks), (fst sw, w')))"

section \<open>Opening a URL\<close>

type_synonym ('w, 'd) opener = "'w \<Rightarrow> string \<Rightarrow> 'd \<Rightarrow> (int \<times> 'd) \<times> 'w"

record 'd opened =
  o_result :: int
  o_final_url :: "string option"
  o_options :: "'d option"

text \<open>
  One turn of the loop; \<open>left\<close> is \<open>kMaxRedirects - hop\<close>, so the turn with \<open>left = 0\<close> is the last.
  \<open>o_options = None\<close> stands for options left as they were.
\<close>

fun open_hops ::
    "('w, 'd) fetch_env \<Rightarrow> ('w, 'd) opener \<Rightarrow> 'd \<Rightarrow> nat \<Rightarrow> bool \<Rightarrow> session \<times> 'w \<Rightarrow> string \<Rightarrow>
       'd opened \<times> session \<times> 'w" where
  "open_hops env opener base left item sw current =
     (case prepare env sw current item of
        (Inl reason, (s, w)) \<Rightarrow>
          (\<lparr>o_result = AVERROR_EPERM, o_final_url = None, o_options = None\<rparr>, (s, f_refused env w reason))
      | (Inr t, (s, w)) \<Rightarrow>
          (let a1 = f_dict_set env base ''max_redirects'' (Some ''0'');
               a2 = f_dict_set env a1 ''headers'' (if t_headers t = [] then None else Some (t_headers t));
               ((result, attempt), w1) = opener w (t_url t) a2;
               (stop, w2) = (if result \<ge> 0 \<or> result \<noteq> AVERROR_EIO then (True, w1) else f_interrupted env w1);
               is_last = (stop \<or> left = 0);
               (location, (s3, w3)) = (if is_last then ([], (s, w2)) else probeRedirect env (s, w2) t)
           in if is_last \<or> location = [] then
                (\<lparr>o_result = result, o_final_url = (if result \<ge> 0 then Some current else None),
                  o_options = Some attempt\<rparr>, (s3, w3))
              else if resolveUrl current location = [] then
                (\<lparr>o_result = result, o_final_url = None, o_options = None\<rparr>, (s3, w3))
              else (case left of
                      0 \<Rightarrow> (\<lparr>o_result = result, o_final_url = None, o_options = None\<rparr>, (s3, w3))
                    | Suc left' \<Rightarrow>
                        open_hops env opener base left' False (s3, w3) (resolveUrl current location))))"

declare open_hops.simps [simp del]

definition open_url ::
    "('w, 'd) fetch_env \<Rightarrow> ('w, 'd) opener \<Rightarrow> 'd \<Rightarrow> bool \<Rightarrow> session \<times> 'w \<Rightarrow> string \<Rightarrow>
       'd opened \<times> session \<times> 'w" where
  "open_url env opener base item sw url =
     open_hops env opener base kMaxRedirects item sw (unpin (fst sw) url)"

section \<open>Lemmas on the session\<close>

interpretation session_lookups: stable_resolver "lookUp env" "\<lambda>sw. m_lookups (fst sw)"
proof (unfold_locales, goal_cases)
  case (1 s h v s')
  then show ?case by (auto simp: lookUp_def split: prod.splits option.splits if_splits)
next
  case (2 s k u h)
  then show ?case by (auto simp: lookUp_def split: prod.splits option.splits)
next
  case (3 s h v)
  then show ?case by (auto simp: lookUp_def split: prod.splits option.splits)
qed

text \<open>What no lookup changes of a session.\<close>

definition same_item :: "session \<Rightarrow> session \<Rightarrow> bool" where
  "same_item s s' = (m_item_url s' = m_item_url s \<and> m_allow_insecure_tls s' = m_allow_insecure_tls s \<and>
     m_lookups s \<subseteq>\<^sub>m m_lookups s')"

lemma same_item_refl [simp]: "same_item s s"
  by (simp add: same_item_def)

lemma same_item_trans: "same_item s t \<Longrightarrow> same_item t u \<Longrightarrow> same_item s u"
  by (auto simp: same_item_def intro: map_le_trans)

lemma lookUp_session:
  "lookUp env sw h = (r, sw') \<Longrightarrow> m_item_url (fst sw') = m_item_url (fst sw) \<and>
     m_allow_insecure_tls (fst sw') = m_allow_insecure_tls (fst sw) \<and> m_pinned (fst sw') = m_pinned (fst sw)"
  by (auto simp: lookUp_def split: prod.splits option.splits if_splits)

lemma checkHost_state:
  "checkHost env g resolve s h = (d, s') \<Longrightarrow> s' = s \<or> (\<exists>r. resolve s h = (r, s'))"
  by (auto simp: checkHost_def split: option.splits if_splits prod.splits)

lemma decideItem_via:
  "decideItem env g resolve s url = (d, s') \<Longrightarrow>
     s' = s \<and> address d = [] \<or> (\<exists>h. checkHost env g resolve s h = (d, s'))"
  by (auto simp: decideItem_def split: option.splits if_splits)

lemma decideNested_via:
  "decideNested env g resolve s url item_url = (d, s') \<Longrightarrow>
     s' = s \<and> address d = [] \<or> (\<exists>h. checkHost env g resolve s h = (d, s'))"
  by (auto simp: decideNested_def Let_def split: option.splits if_splits)

lemma decide_via:
  "decide env sw url item = (d, sw') \<Longrightarrow>
     sw' = sw \<and> address d = [] \<or> (\<exists>h. checkHost (f_env env) (f_policy env) (lookUp env) sw h = (d, sw'))"
  unfolding decide_def by (cases item) (simp_all add: decideItem_via decideNested_via)

lemma decide_state: "decide env sw url item = (d, sw') \<Longrightarrow> sw' = sw \<or> (\<exists>h r. lookUp env sw h = (r, sw'))"
  by (drule decide_via) (auto dest: checkHost_state)

lemma decide_session:
  assumes "decide env (s, w) url item = (d, (s', w'))"
  shows "same_item s s' \<and> m_pinned s' = m_pinned s"
proof -
  have "m_lookups s \<subseteq>\<^sub>m m_lookups s'"
    using assms session_lookups.decideItem_grows [of _ _ env "(s, w)" url d "(s', w')"]
      session_lookups.decideNested_grows [of _ _ env "(s, w)" url _ d "(s', w')"]
    by (auto simp: decide_def split: if_splits)
  then show ?thesis
    using decide_state [OF assms] lookUp_session [of env "(s, w)"] by (fastforce simp: same_item_def)
qed

lemma decide_again:
  assumes "decide env (s, w) url item = (d, (s', w'))" and "refused d = []" and "same_item s' t"
  shows "decide env (t, v) url item = (d, (t, v))"
proof -
  have i: "m_item_url t = m_item_url s"
    using decide_session [OF assms(1)] assms(3) by (simp add: same_item_def)
  have t: "m_lookups (fst (s', w')) \<subseteq>\<^sub>m m_lookups (fst (t, v))" using assms(3) by (simp add: same_item_def)
  show ?thesis
    using assms(1,2) i session_lookups.decideItem_again [OF _ assms(2) t]
      session_lookups.decideNested_again [OF _ assms(2) t]
    by (auto simp: decide_def split: if_splits)
qed

lemma checkHost_address:
  "checkHost env g resolve s h = (d, s') \<Longrightarrow> address d = [] \<or> (\<exists>a. address d = numericAddress env a)"
  by (auto simp: checkHost_def split: option.splits if_splits prod.splits)

lemma decide_address:
  "decide env sw url item = (d, sw') \<Longrightarrow> address d = [] \<or> (\<exists>a. address d = numericAddress (f_env env) a)"
  by (drule decide_via) (auto dest: checkHost_address)

text \<open>Where a fetch of \<open>url\<close> connects once it is allowed.\<close>

definition fetch_target :: "bool \<Rightarrow> string \<Rightarrow> decision \<Rightarrow> string option" where
  "fetch_target insecure url d =
     (case parse_view url of
        None \<Rightarrow> None
      | Some v \<Rightarrow> Some (if address d \<noteq> [] \<and> (v_scheme v \<noteq> ''https'' \<or> insecure)
          then pinned_url v (bracketed (address d)) else url))"

lemma make_target_url:
  "make_target s url d = (Inr t, s') \<Longrightarrow>
     fetch_target (m_allow_insecure_tls s) url d = Some (t_url t) \<and> same_item s s'"
  by (auto simp: make_target_def fetch_target_def same_item_def Let_def split: option.splits if_splits)

lemma prepare_allowed:
  assumes "prepare env (s, w) url item = (Inr t, (s', w'))"
  obtains d s1 where "decide env (s, w) url item = (d, (s1, w'))" and "refused d = []"
    and "make_target s1 url d = (Inr t, s')"
    and "fetch_target (m_allow_insecure_tls s') url d = Some (t_url t)" and "same_item s s'" and "same_item s1 s'"
proof -
  obtain d s1 where d: "decide env (s, w) url item = (d, (s1, w'))" "refused d = []"
    "make_target s1 url d = (Inr t, s')"
    using assms by (auto simp: prepare_def split: prod.splits if_splits)
  have "same_item s s1" using decide_session [OF d(1)] by simp
  then show ?thesis
    using that [OF d] make_target_url [OF d(3)] same_item_trans [of s s1 s'] by (simp add: same_item_def)
qed

lemma prepare_session:
  assumes "prepare env (s, w) url item = (r, (s', w'))"
  shows "same_item s s'"
proof -
  obtain d s1 w1 where d: "decide env (s, w) url item = (d, (s1, w1))" by (metis prod.exhaust)
  have "make_target s1 url d = (q, s2) \<Longrightarrow> same_item s1 s2" for q s2
    by (auto simp: make_target_def same_item_def Let_def split: option.splits if_splits)
  then show ?thesis
    using assms d decide_session [OF d] same_item_trans
    by (auto simp: prepare_def split: if_splits prod.splits)
qed

lemma probeRedirect_session: "probeRedirect env (s, w) t = (l, (s', w')) \<Longrightarrow> s' = s"
  by (auto simp: probeRedirect_def Let_def split: prod.splits option.splits)

section \<open>Lemmas on \<open>open\<close>\<close>

text \<open>
  A log in the world that records the URLs the opener is given, and that nothing else changes.
\<close>

definition records_opens :: "('w \<Rightarrow> string list) \<Rightarrow> ('w, 'd) fetch_env \<Rightarrow> ('w, 'd) opener \<Rightarrow> bool" where
  "records_opens log env opener =
     ((\<forall>w u d. log (snd (opener w u d)) = log w @ [u]) \<and>
      (\<forall>w h. log (snd (f_lookup env w h)) = log w) \<and>
      (\<forall>w. log (snd (f_interrupted env w)) = log w) \<and>
      (\<forall>w r. log (f_refused env w r) = log w) \<and>
      (\<forall>w e d r. log (snd (f_exchange env w e d r)) = log w))"

lemma decide_log:
  assumes "records_opens log env opener" and "decide env (s, w) url item = (d, (s', w'))"
  shows "log w' = log w"
proof -
  have "lookUp env (s, w) h = (r, (s', w')) \<Longrightarrow> log w' = log w" for h r
    using assms(1) by (auto simp: lookUp_def records_opens_def split: option.splits prod.splits if_splits)
      (metis snd_conv)+
  then show ?thesis using decide_state [OF assms(2)] by auto
qed

lemma prepare_log:
  assumes "records_opens log env opener" and "prepare env (s, w) url item = (r, (s', w'))"
  shows "log w' = log w"
  using assms(2) decide_log [OF assms(1)] by (auto simp: prepare_def split: prod.splits if_splits)

lemma probeRedirect_log:
  "records_opens log env opener \<Longrightarrow> probeRedirect env (s, w) t = (l, (s', w')) \<Longrightarrow> log w' = log w"
proof -
  assume r: "records_opens log env opener" and p: "probeRedirect env (s, w) t = (l, (s', w'))"
  have x: "log (snd (f_exchange env w e o3 q)) = log w" for e o3 q
    using r by (simp add: records_opens_def)
  show ?thesis
    using p x unfolding probeRedirect_def Let_def snd_conv
    by (auto split: prod.splits option.splits) (metis snd_conv)+
qed

text \<open>A turn of the loop whose URL is allowed: it ends there, or goes on with a resolved redirect.\<close>

lemma open_hops_turn:
  assumes r: "records_opens log env opener"
    and p: "prepare env sw url item = (Inr t, (s, w))"
  obtains (ends) o1 w' where "open_hops env opener base left item sw url = (o1, (s, w'))"
      and "log w' = log w @ [t_url t]"
  | (goes_on) left' w' location where "left = Suc left'"
      and "open_hops env opener base left item sw url = open_hops env opener base left' False (s, w') (resolveUrl url location)"
      and "log w' = log w @ [t_url t]" and "location \<noteq> []" and "resolveUrl url location \<noteq> []"
      and "\<exists>v. location = fst (probeRedirect env (s, v) t)"
proof -
  let ?a = "f_dict_set env (f_dict_set env base ''max_redirects'' (Some ''0'')) ''headers''
      (if t_headers t = [] then None else Some (t_headers t))"
  obtain res att w1 where o: "opener w (t_url t) ?a = ((res, att), w1)" by (metis prod.exhaust)
  have l1: "log w1 = log w @ [t_url t]" using r o by (auto simp: records_opens_def) (metis snd_conv)
  obtain stop w2 where st: "(if res \<ge> 0 \<or> res \<noteq> AVERROR_EIO then (True, w1) else f_interrupted env w1) = (stop, w2)"
    by (metis prod.exhaust)
  have l2: "log w2 = log w1"
    using r st by (auto simp: records_opens_def split: if_splits) (metis snd_conv)
  obtain loc s3 w3 where lo: "(if stop \<or> left = 0 then ([], (s, w2)) else probeRedirect env (s, w2) t) = (loc, (s3, w3))"
    by (metis prod.exhaust)
  have l3: "s3 = s" "log w3 = log w2"
    using lo probeRedirect_session probeRedirect_log [OF r] by (auto split: if_splits)
  have e: "open_hops env opener base left item sw url =
      (if stop \<or> left = 0 \<or> loc = [] then
         (\<lparr>o_result = res, o_final_url = (if res \<ge> 0 then Some url else None), o_options = Some att\<rparr>, (s3, w3))
       else if resolveUrl url loc = [] then
         (\<lparr>o_result = res, o_final_url = None, o_options = None\<rparr>, (s3, w3))
       else (case left of 0 \<Rightarrow> (\<lparr>o_result = res, o_final_url = None, o_options = None\<rparr>, (s3, w3))
             | Suc left' \<Rightarrow> open_hops env opener base left' False (s3, w3) (resolveUrl url loc)))"
    by (subst open_hops.simps) (simp only: p o st lo prod.case sum.case Let_def disj_assoc)
  show thesis
  proof (cases "stop \<or> left = 0 \<or> loc = [] \<or> resolveUrl url loc = []")
    case True
    then show thesis using ends e l1 l2 l3 by (auto split: if_splits)
  next
    case False
    then obtain left' where "left = Suc left'" by (cases left) auto
    moreover have "loc = fst (probeRedirect env (s, w2) t)" using lo False by (auto split: if_splits)
    ultimately show thesis using False goes_on [of left' w3 loc] e l1 l2 l3 by auto
  qed
qed

text \<open>
  A fetch of \<open>url\<close> that goes to \<open>u\<close> was allowed (as the item's own URL or as one it led to), and still
  is under everything looked up for the item since.
\<close>

definition checked_fetch :: "('w, 'd) fetch_env \<Rightarrow> session \<times> 'w \<Rightarrow> bool \<Rightarrow> string \<Rightarrow> string \<Rightarrow> bool" where
  "checked_fetch env sw item url u =
     (\<exists>d. decide env sw url item = (d, sw) \<and> refused d = [] \<and>
        fetch_target (m_allow_insecure_tls (fst sw)) url d = Some u)"

text \<open>
  Every URL that was opened comes from the one before it: the first is asked for, the others are what
  the redirect that the one before it answered resolves to, and count as nested URLs.
\<close>

fun checked_hops :: "('w, 'd) fetch_env \<Rightarrow> session \<times> 'w \<Rightarrow> bool \<Rightarrow> string \<Rightarrow> string list \<Rightarrow> bool" where
  "checked_hops env sw item url [] = True"
| "checked_hops env sw item url (u # us) =
     (checked_fetch env sw item url u \<and>
      (us \<noteq> [] \<longrightarrow> (\<exists>location. location \<noteq> [] \<and> resolveUrl url location \<noteq> [] \<and>
         (\<exists>t s v. t_url t = u \<and> location = fst (probeRedirect env (s, v) t)) \<and>
         checked_hops env sw False (resolveUrl url location) us)))"

lemma open_hops_checked:
  assumes r: "records_opens log env opener"
  shows "open_hops env opener base left item (s, w) url = (o1, (s', w')) \<Longrightarrow>
    same_item s s' \<and> (\<exists>us. log w' = log w @ us \<and> length us \<le> Suc left \<and> checked_hops env (s', w') item url us)"
proof (induction left arbitrary: item s w url rule: less_induct)
  case (less left)
  obtain q s1 w1 where p: "prepare env (s, w) url item = (q, (s1, w1))" by (metis prod.exhaust)
  have l1: "log w1 = log w" by (rule prepare_log [OF r p])
  show ?case
  proof (cases q)
    case (Inl reason)
    then have "s' = s1" "w' = f_refused env w1 reason"
      using less.prems p by (simp_all add: open_hops.simps)
    then show ?thesis using l1 r prepare_session [OF p] by (intro conjI exI [of _ "[]"]) (auto simp: records_opens_def)
  next
    case (Inr t)
    note p' = p [unfolded Inr]
    obtain d s0 where d: "decide env (s, w) url item = (d, (s0, w1))" "refused d = []"
      "fetch_target (m_allow_insecure_tls s1) url d = Some (t_url t)" "same_item s s1" "same_item s0 s1"
      using prepare_allowed [OF p'] by metis
    have chk: "checked_fetch env (x, y) item url (t_url t)" if "same_item s1 x" for x y
      unfolding checked_fetch_def
      using decide_again [OF d(1,2) same_item_trans [OF d(5) that], of y] d(2,3) that
      by (auto simp: same_item_def)
    from r p' show ?thesis
    proof (cases rule: open_hops_turn [where base = base and left = left])
      case (ends o2 w2)
      with less.prems d(4) chk [of s1] l1 show ?thesis by (intro conjI exI [of _ "[t_url t]"]) auto
    next
      case (goes_on left' w2 location)
      with less.prems have "open_hops env opener base left' False (s1, w2) (resolveUrl url location) = (o1, (s', w'))" by simp
      with less.IH [of left'] goes_on(1) obtain us where us: "same_item s1 s'" "log w' = log w2 @ us"
        "length us \<le> Suc left'" "checked_hops env (s', w') False (resolveUrl url location) us" by blast
      have "checked_hops env (s', w') item url (t_url t # us)"
        using chk [OF us(1), of w'] us(4) goes_on(4-6) by auto
      then show ?thesis
        using goes_on(1,3) us l1 same_item_trans [OF d(4) us(1)] by (intro conjI exI [of _ "t_url t # us"]) auto
    qed
  qed
qed

section \<open>Lemmas on URLs\<close>

definition render_view :: "url_view \<Rightarrow> string" where
  "render_view v = v_scheme v @ ''://'' @ (if v_userinfo v = [] then [] else v_userinfo v @ ''@'') @
     host_header_of v @ v_rest v"

definition wf_host :: "string \<Rightarrow> bool" where
  "wf_host h = ((\<exists>a. h = ''['' @ a @ '']'' \<and> CHR '']'' \<notin> set a) \<or> (h \<noteq> [] \<and> hd h \<noteq> CHR ''['' \<and> CHR '':'' \<notin> set h))"

definition wf_view :: "url_view \<Rightarrow> bool" where
  "wf_view v = (v_scheme v \<in> {''http'', ''https''} \<and> wf_host (v_host v) \<and>
     set (v_userinfo v) \<inter> set ''/?#'' = {} \<and>
     set (v_host v) \<inter> set ''/?#@'' = {} \<and> set (v_port v) \<inter> set ''/?#@'' = {} \<and>
     (v_rest v = [] \<or> hd (v_rest v) \<in> set ''/?#''))"

lemma parse_host_port_render:
  assumes "wf_host h"
  shows "parse_host_port (h @ (if p = [] then [] else '':'' @ p)) = Some (h, p)"
proof (cases "\<exists>a. h = ''['' @ a @ '']'' \<and> CHR '']'' \<notin> set a")
  case True
  then obtain a where a: "h = ''['' @ a @ '']''" "CHR '']'' \<notin> set a" by auto
  have "find_char (CHR '']'') (h @ t) 0 = Some (length a + 1)" for t
    using a index_of_first [of "CHR '']''" "''['' @ a" t] by (simp add: find_char_def find_from_def)
  then show ?thesis using a(1) by (auto simp: parse_host_port_def nth_append)
next
  case False
  then have h: "h \<noteq> []" "hd h \<noteq> CHR ''[''" "CHR '':'' \<notin> set h" using assms by (auto simp: wf_host_def)
  then show ?thesis
    using index_of_first [of "CHR '':''" h p] index_of_absent [of "CHR '':''" h]
    by (auto simp: parse_host_port_def find_char_def find_from_def)
qed

lemma rfind_char_absent: "c \<notin> set s \<Longrightarrow> rfind_char c s = None"
  by (simp add: rfind_char_def index_of_absent)

lemma parse_view_render:
  assumes "wf_view v"
  shows "parse_view (render_view v) = Some v"
proof -
  let ?hp = "host_header_of v"
  let ?ui = "if v_userinfo v = [] then [] else v_userinfo v @ ''@''"
  let ?auth = "?ui @ ?hp"
  let ?url = "render_view v"
  have w: "v_scheme v \<in> {''http'', ''https''}" "wf_host (v_host v)"
      "set ?auth \<inter> set ''/?#'' = {}" "CHR ''@'' \<notin> set ?hp" "v_rest v = [] \<or> hd (v_rest v) \<in> set ''/?#''"
    using assms by (auto simp: wf_view_def host_header_of_def)
  have url: "?url = v_scheme v @ ''://'' @ ?auth @ v_rest v" by (simp add: render_view_def)
  have sep: "find_str ''://'' ?url 0 = Some (length (v_scheme v))"
    using w(1) unfolding url by (auto simp: find_str_def starts_with_def)
  have "index_of (\<lambda>d. d \<in> set ''/?#'') (?auth @ v_rest v) =
      map_option (\<lambda>k. length ?auth + k) (index_of (\<lambda>d. d \<in> set ''/?#'') (v_rest v))"
    using w(3) by (intro index_of_append_first) blast
  moreover have "index_of (\<lambda>d. d \<in> set ''/?#'') (v_rest v) = (if v_rest v = [] then None else Some 0)"
    using w(5) by (cases "v_rest v") auto
  ultimately have "index_of (\<lambda>d. d \<in> set ''/?#'') (?auth @ v_rest v) =
      (if v_rest v = [] then None else Some (length ?auth))" by simp
  then have fin: "find_first_of ''/?#'' ?url (length (v_scheme v) + 3) =
      (if v_rest v = [] then None else Some (length (v_scheme v) + 3 + length ?auth))"
    unfolding url by (simp add: find_first_of_def find_from_def)
  have auth: "substr ?url (length (v_scheme v) + 3) (length (v_scheme v) + 3 + length ?auth - (length (v_scheme v) + 3)) = ?auth"
    unfolding url by (simp add: substr_def)
  have len: "v_rest v = [] \<Longrightarrow> length ?url = length (v_scheme v) + 3 + length ?auth"
    unfolding url by simp
  have at: "rfind_char (CHR ''@'') ?auth = (if v_userinfo v = [] then None else Some (length (v_userinfo v)))"
    using rfind_char_append [OF w(4), of "v_userinfo v"] rfind_char_absent [OF w(4)] by simp
  have hp: "parse_host_port ?hp = Some (v_host v, v_port v)"
    using parse_host_port_render [OF w(2), of "v_port v"] by (simp add: host_header_of_def)
  have ne: "v_host v \<noteq> []" using w(2) by (auto simp: wf_host_def)
  have sch: "map to_lower (take (length (v_scheme v)) ?url) = v_scheme v"
    using w(1) unfolding url by (auto simp: to_lower_def char_code_def)
  define fin' where "fin' = (case find_first_of ''/?#'' ?url (length (v_scheme v) + 3) of None \<Rightarrow> length ?url | Some k \<Rightarrow> k)"
  have f: "fin' = length (v_scheme v) + 3 + length ?auth" unfolding fin'_def fin using len by simp
  have auth': "substr ?url (length (v_scheme v) + 3) (fin' - (length (v_scheme v) + 3)) = ?auth"
    using auth unfolding f .
  have "fin' = length (v_scheme v @ ''://'' @ ?auth)" unfolding f by simp
  moreover have "?url = (v_scheme v @ ''://'' @ ?auth) @ v_rest v" unfolding url by simp
  moreover have "drop (length x) (x @ y) = y" for x y :: string by simp
  ultimately have rest: "drop fin' ?url = v_rest v" by (simp only:)
  have s: "v_scheme v = ''http'' \<or> v_scheme v = ''https''" using w(1) by simp
  have "parse_view ?url = (case parse_host_port (case rfind_char (CHR ''@'') ?auth of None \<Rightarrow> ?auth | Some k \<Rightarrow> drop (k + 1) ?auth) of
        None \<Rightarrow> None
      | Some (h, p) \<Rightarrow> if h = [] then None
          else Some \<lparr>v_scheme = v_scheme v,
                 v_userinfo = (case rfind_char (CHR ''@'') ?auth of None \<Rightarrow> [] | Some k \<Rightarrow> take k ?auth),
                 v_host = h, v_port = p, v_rest = v_rest v\<rparr>)"
    unfolding parse_view_def sep option.case Let_def sch fin'_def [symmetric] rest auth'
    using s by (simp only: if_not_P [of "v_scheme v \<noteq> ''http'' \<and> v_scheme v \<noteq> ''https''"] de_Morgan_conj not_not)
  then show ?thesis using at hp ne by (cases "v_userinfo v = []") simp_all
qed

definition wf_address :: "string \<Rightarrow> bool" where
  "wf_address a = (a \<noteq> [] \<and> set a \<inter> set ''/?#@[]'' = {})"

lemma contains_colon: "contains_str a '':'' \<longleftrightarrow> CHR '':'' \<in> set a"
proof -
  have "index_of_str '':'' a = index_of (\<lambda>d. d = CHR '':'') a" by (induction a) (auto simp: starts_with_def)
  then show ?thesis using index_of_None_iff [of "\<lambda>d. d = CHR '':''" a]
    by (auto simp: contains_str_def find_str_def)
qed

lemma wf_host_bracketed:
  "wf_address a \<Longrightarrow> wf_host (bracketed a) \<and> set (bracketed a) \<inter> set ''/?#@'' = {}"
  by (cases a) (auto simp: wf_host_def wf_address_def bracketed_def contains_colon)

lemma atoi_less: "atoi s < 2 ^ 31"
  using signed_take_bit_int_less_exp [of 31 "strtoll s"] by (simp add: atoi_def)

lemma portNumber_less: "portNumber v < 2 ^ 31"
  using atoi_less [of "v_port v"] by (simp add: portNumber_def)

lemma pinned_url_view:
  assumes "wf_view v" and "wf_address a" and "0 \<le> portNumber v"
  shows "parse_view (pinned_url v (bracketed a)) =
    Some (v\<lparr>v_host := bracketed a, v_port := to_string (portNumber v)\<rparr>)"
proof -
  let ?w = "v\<lparr>v_host := bracketed a, v_port := to_string (portNumber v)\<rparr>"
  note d = to_string_digits [OF assms(3)]
  have "c \<in> set (to_string (portNumber v)) \<Longrightarrow> c \<notin> set ''/?#@''" for c
    using d(2) by (auto simp: list_all_iff is_digit_def char_code_def)
  then have "wf_view ?w"
    using assms(1) wf_host_bracketed [OF assms(2)] by (auto simp: wf_view_def)
  moreover have "pinned_url v (bracketed a) = render_view ?w"
    using d(1) by (simp add: pinned_url_def render_view_def host_header_of_def)
  ultimately show ?thesis using parse_view_render by metis
qed

lemma unpin_pinned:
  assumes "wf_view v" and "wf_address a" and "0 \<le> portNumber v"
    and "m_pinned s (pinKey (v_scheme v) (bracketed a) (portNumber v)) = Some (host_header_of v)"
  shows "unpin s (pinned_url v (bracketed a)) = render_view v"
proof -
  have "portNumber (v\<lparr>v_host := bracketed a, v_port := to_string (portNumber v)\<rparr>) = portNumber v"
    using to_string_digits(1) [OF assms(3)] assms(3) atoi_to_string [OF assms(3) portNumber_less]
    by (simp add: portNumber_def [of "v\<lparr>v_host := bracketed a, v_port := to_string (portNumber v)\<rparr>"])
  with assms(4) show ?thesis
    unfolding unpin_def pinned_url_view [OF assms(1-3)] by (simp add: render_view_def)
qed

lemma prepare_pins:
  assumes "prepare env (s, w) (render_view v) item = (Inr t, (s', w'))" and "t_headers t \<noteq> []"
    and "wf_view v" and "0 \<le> portNumber v"
    and "\<forall>f b. inet_ntop (f_env env) f b = [] \<or> wf_address (inet_ntop (f_env env) f b)"
    and "\<forall>h. m_pinned s (pinKey (v_scheme v) h (portNumber v)) \<in> {None, Some (host_header_of v)}"
  shows "unpin s' (t_url t) = render_view v"
proof -
  obtain d s1 where d: "decide env (s, w) (render_view v) item = (d, (s1, w'))"
    "make_target s1 (render_view v) d = (Inr t, s')" using prepare_allowed [OF assms(1)] by metis
  have p: "m_pinned s1 = m_pinned s" using decide_session [OF d(1)] by simp
  have "m_pinned s (pinKey (v_scheme v) (bracketed (address d)) (portNumber v)) = None \<or>
      m_pinned s (pinKey (v_scheme v) (bracketed (address d)) (portNumber v)) = Some (host_header_of v)"
    using assms(6) by blast
  then have a: "address d \<noteq> []" "t_url t = pinned_url v (bracketed (address d))"
    "m_pinned s' (pinKey (v_scheme v) (bracketed (address d)) (portNumber v)) = Some (host_header_of v)"
    using d(2) assms(2) parse_view_render [OF assms(3)] p
    by (auto simp: make_target_def Let_def split: if_splits)
  have "wf_address (address d)"
    using decide_address [OF d(1)] a(1) assms(5) by (auto simp: numericAddress_def split: if_splits) metis
  then show ?thesis using unpin_pinned assms(3,4) a(2,3) by simp
qed

text \<open>What \<open>safeForLog\<close> keeps of a URL.\<close>

definition public_part :: "url_view \<Rightarrow> string" where
  "public_part v = v_scheme v @ ''://'' @ (if v_userinfo v = [] then [] else ''[redacted]@'') @ host_header_of v @
     takeWhile (\<lambda>c. c \<noteq> CHR ''?'' \<and> c \<noteq> CHR ''#'') (v_rest v) @
     (if CHR ''?'' \<in> set (v_rest v) \<or> CHR ''#'' \<in> set (v_rest v) then ''?[redacted]'' else [])"

lemma cut_query:
  assumes "set a \<inter> set ''?#'' = {}"
  shows "(case find_first_of ''?#'' (a @ b) 0 of None \<Rightarrow> a @ b | Some k \<Rightarrow> take k (a @ b) @ ''?[redacted]'') =
    a @ takeWhile (\<lambda>c. c \<noteq> CHR ''?'' \<and> c \<noteq> CHR ''#'') b @
      (if CHR ''?'' \<in> set b \<or> CHR ''#'' \<in> set b then ''?[redacted]'' else [])"
proof -
  have "index_of (\<lambda>d. d \<in> set ''?#'') (a @ b) = map_option (\<lambda>k. length a + k) (index_of (\<lambda>d. d \<in> set ''?#'') b)"
    using assms by (intro index_of_append_first) blast
  then have i: "find_first_of ''?#'' (a @ b) 0 = map_option (\<lambda>k. length a + k) (index_of (\<lambda>d. d \<in> set ''?#'') b)"
    unfolding find_first_of_def find_from_def by (simp add: option.map_comp comp_def)
  show ?thesis
  proof (cases "index_of (\<lambda>d. d \<in> set ''?#'') b")
    case None
    then have n: "CHR ''?'' \<notin> set b" "CHR ''#'' \<notin> set b" by (auto simp: index_of_None_iff)
    then have "takeWhile (\<lambda>c. c \<noteq> CHR ''?'' \<and> c \<noteq> CHR ''#'') b = b" by (auto simp: takeWhile_eq_all_conv)
    with None n i show ?thesis by (simp del: takeWhile_eq_all_conv)
  next
    case (Some k)
    then have "take k b = takeWhile (\<lambda>c. c \<noteq> CHR ''?'' \<and> c \<noteq> CHR ''#'') b"
      using index_of_takeWhile [OF Some] by simp
    moreover have "b ! k \<in> set b" "b ! k \<in> set ''?#''" using Some by (simp_all add: index_of_Some_iff)
    then have "CHR ''?'' \<in> set b \<or> CHR ''#'' \<in> set b" by auto
    ultimately show ?thesis unfolding i Some by simp
  qed
qed

lemma safeForLog_public:
  assumes "wf_view v" and "CHR ''@'' \<notin> set (v_userinfo v)" and "v_rest v = [] \<or> hd (v_rest v) = CHR ''/''"
  shows "safeForLog (render_view v) = public_part v"
proof -
  let ?hp = "host_header_of v"
  let ?s = "v_scheme v @ ''://''"
  have w: "v_scheme v \<in> {''http'', ''https''}" "set ?hp \<inter> set ''/?#@'' = {}" "set (v_userinfo v) \<inter> set ''/?#'' = {}"
    using assms(1) by (auto simp: wf_view_def host_header_of_def)
  have sep: "find_str ''://'' (render_view v) 0 = Some (length (v_scheme v))"
    using w(1) by (auto simp: render_view_def find_str_def starts_with_def)
  have q: "set ?s \<inter> set ''?#'' = {}" using w(1) by auto
  have slash: "find_char (CHR ''/'') (?s @ a @ v_rest v) (length (v_scheme v) + 3) =
      (if v_rest v = [] then None else Some (length (v_scheme v) + 3 + length a))" if "CHR ''/'' \<notin> set a" for a
    using that assms(3) index_of_first [OF that, of "tl (v_rest v)"] index_of_absent [OF that]
    by (cases "v_rest v") (auto simp: find_char_def find_from_def)
  show ?thesis
  proof (cases "v_userinfo v = []")
    case True
    have url: "render_view v = ?s @ ?hp @ v_rest v" using True by (simp add: render_view_def)
    have h: "CHR ''/'' \<notin> set ?hp" "CHR ''@'' \<notin> set ?hp" using w(2) by auto
    have "find_char (CHR ''@'') (render_view v) (length (v_scheme v) + 3) =
        map_option (\<lambda>k. length (v_scheme v) + 3 + (length ?hp + k)) (index_of (\<lambda>d. d = CHR ''@'') (v_rest v))"
      using h(2) unfolding url find_char_def find_from_def
      by (simp add: option.map_comp comp_def) (subst index_of_append_first, auto simp: option.map_comp comp_def)
    then have "safeForLog (render_view v) =
        (case find_first_of ''?#'' (render_view v) 0 of None \<Rightarrow> render_view v
         | Some k \<Rightarrow> take k (render_view v) @ ''?[redacted]'')"
      unfolding safeForLog_def sep option.case Let_def slash [OF h(1), folded url]
      using assms(3) by (cases "v_rest v") (auto split: option.split)
    also have "\<dots> = public_part v"
    proof -
      have u: "render_view v = (?s @ ?hp) @ v_rest v" using url by simp
      have "set (?s @ ?hp) \<inter> set ''?#'' = {}" using q w(2) by auto
      then show ?thesis unfolding u by (subst cut_query) (simp_all add: public_part_def True)
    qed
    finally show ?thesis .
  next
    case False
    let ?a = "v_userinfo v @ ''@'' @ ?hp"
    have url: "render_view v = ?s @ ?a @ v_rest v" using False by (simp add: render_view_def)
    have h: "CHR ''/'' \<notin> set ?a" using w(2,3) by auto
    have at: "find_char (CHR ''@'') (render_view v) (length (v_scheme v) + 3) =
        Some (length (v_scheme v) + 3 + length (v_userinfo v))"
      using index_of_first [OF assms(2), of "?hp @ v_rest v"] unfolding url find_char_def find_from_def by simp
    have red: "take (length (v_scheme v) + 3) (render_view v) @ ''[redacted]@'' @
        drop (length (v_scheme v) + 3 + length (v_userinfo v) + 1) (render_view v) =
          ?s @ ''[redacted]@'' @ ?hp @ v_rest v"
      unfolding url by (simp add: eval_nat_numeral)
    have cond: "(case if v_rest v = [] then None else Some (length (v_scheme v) + 3 + length ?a) of
        None \<Rightarrow> True | Some e \<Rightarrow> length (v_scheme v) + 3 + length (v_userinfo v) < e) = True"
      by simp
    have "safeForLog (render_view v) =
        (case find_first_of ''?#'' (?s @ ''[redacted]@'' @ ?hp @ v_rest v) 0 of
           None \<Rightarrow> ?s @ ''[redacted]@'' @ ?hp @ v_rest v
         | Some k \<Rightarrow> take k (?s @ ''[redacted]@'' @ ?hp @ v_rest v) @ ''?[redacted]'')"
      unfolding safeForLog_def sep option.case Let_def at slash [OF h, folded url]
      by (simp only: cond if_True red)
    also have "\<dots> = public_part v"
    proof -
      let ?b = "?s @ ''[redacted]@'' @ ?hp"
      have u: "?s @ ''[redacted]@'' @ ?hp @ v_rest v = ?b @ v_rest v" by simp
      have "set ?b \<inter> set ''?#'' = {}" using q w(2) by auto
      then show ?thesis unfolding u by (subst cut_query) (simp_all add: public_part_def False)
    qed
    finally show ?thesis .
  qed
qed

section \<open>Properties\<close>

text \<open>
  C5. Opening a URL hands at most nine URLs to FFmpeg, whatever redirects the servers send. The first
  is the target of the URL asked for, decided as the item or as a nested URL as the caller says; every
  other one is the target of what the redirect answered by the one before it resolves to, decided
  as a nested URL. All of them are allowed, also when they are decided again with every name looked up
  by the end: a name that rebinds in between changes nothing.
\<close>

theorem every_open_is_checked:
  assumes "records_opens log env opener"
    and "open_url env opener base item (s, w) url = (r, (s', w'))"
  shows "\<exists>us. log w' = log w @ us \<and> length us \<le> 9 \<and> checked_hops env (s', w') item (unpin s url) us"
  using open_hops_checked [OF assms(1) assms(2) [unfolded open_url_def]]
  by (auto simp: kMaxRedirects_def)

definition witness_fetch :: "(string list, unit) fetch_env" where
  "witness_fetch = \<lparr>f_env = witness_env\<lparr>media_url_split := (\<lambda>u. Some (''h'', 80))\<rparr>, f_policy = policy_initial,
     f_lookup = (\<lambda>w h. ((True, [\<lparr>sa_family = AF_INET, sa_bytes = [1, 2, 3, 4]\<rparr>]), w)),
     f_interrupted = (\<lambda>w. (False, w)), f_refused = (\<lambda>w r. w), f_dict_set = (\<lambda>d k v. d), f_dict_empty = (),
     f_exchange = (\<lambda>w e d r. (None, w)), f_system_bundle = True, f_version = ''1''\<rparr>"

lemma witness_decide:
  "decide witness_fetch (session_new u b, w) url True = (\<lparr>refused = [], address = ''1.2.3.4''\<rparr>,
     ((session_new u b)\<lparr>m_lookups := [''h'' \<mapsto> [\<lparr>sa_family = AF_INET, sa_bytes = [1, 2, 3, 4]\<rparr>]]\<rparr>, w))"
  by (simp add: witness_fetch_def witness_env_def policy_initial_def session_new_def decide_def decideItem_def
      split_url_def isLiteral_def c_str_def checkHost_def isLocalhostName_def lookUp_def classify_def
      classifyIpv4_def describe_class_def ntohl_bytes_def numericAddress_def)

definition witness_view :: url_view where
  "witness_view = \<lparr>v_scheme = ''http'', v_userinfo = ''u'', v_host = ''h'', v_port = [], v_rest = ''/a?b''\<rparr>"

lemma witness_prepare:
  "prepare witness_fetch (session_new u b, w) (render_view witness_view) True =
     (Inr \<lparr>t_url = ''http://u@1.2.3.4:80/a?b'', t_headers = ''Host: h'' @ crlf, t_connect_host = ''1.2.3.4'',
        t_host_header = ''h'', t_path = ''/a?b'', t_port = 80, t_tls = False\<rparr>,
      ((session_new u b)\<lparr>m_lookups := [''h'' \<mapsto> [\<lparr>sa_family = AF_INET, sa_bytes = [1, 2, 3, 4]\<rparr>]],
         m_pinned := [''http://1.2.3.4:80'' \<mapsto> ''h'']\<rparr>, w))"
proof -
  have v: "wf_view witness_view" by (simp add: wf_view_def wf_host_def witness_view_def)
  have eighty: "to_string 80 = ''80''" by code_simp
  show ?thesis
    unfolding prepare_def witness_decide make_target_def
    by (simp add: parse_view_render [OF v] session_new_def Let_def)
      (simp add: witness_view_def host_header_of_def path_of_def portNumber_def pinned_url_def pinKey_def
        bracketed_def contains_colon eighty find_char_def find_from_def crlf_def)
qed

theorem every_open_is_checked_witness:
  "\<exists>us. [''http://u@1.2.3.4:80/a?b''] = [] @ us \<and> length us \<le> 9 \<and>
     checked_hops witness_fetch
        ((session_new [] False)\<lparr>m_lookups := [''h'' \<mapsto> [\<lparr>sa_family = AF_INET, sa_bytes = [1, 2, 3, 4]\<rparr>]],
           m_pinned := [''http://1.2.3.4:80'' \<mapsto> ''h'']\<rparr>, [''http://u@1.2.3.4:80/a?b'']) True (render_view witness_view) us"
proof -
  let ?open = "\<lambda>w u d. ((0, d), w @ [u])"
  have u: "unpin (session_new [] False) (render_view witness_view) = render_view witness_view"
    by (simp add: unpin_def session_new_def split: option.split)
  have "open_url witness_fetch ?open () True (session_new [] False, []) (render_view witness_view) =
      (\<lparr>o_result = 0, o_final_url = Some (render_view witness_view), o_options = Some ()\<rparr>,
       ((session_new [] False)\<lparr>m_lookups := [''h'' \<mapsto> [\<lparr>sa_family = AF_INET, sa_bytes = [1, 2, 3, 4]\<rparr>]],
           m_pinned := [''http://1.2.3.4:80'' \<mapsto> ''h'']\<rparr>, [''http://u@1.2.3.4:80/a?b'']))"
    unfolding open_url_def fst_conv u
    by (subst open_hops.simps) (simp add: witness_prepare)
  note opened = this
  have "records_opens (\<lambda>w. w) witness_fetch ?open"
    by (simp add: records_opens_def witness_fetch_def)
  from every_open_is_checked [OF this opened] show ?thesis unfolding u .
qed

text \<open>
  A pinned URL (the numeric address in place of the name) goes back to the URL it was made
  from, with its user information, port, path and query, unless the address was already
  pinned for another name.
\<close>

theorem unpin_undoes_pinning:
  assumes "prepare env (s, w) (render_view v) item = (Inr t, (s', w'))" and "t_headers t \<noteq> []"
    and "wf_view v" and "0 \<le> portNumber v"
    and "\<forall>f b. inet_ntop (f_env env) f b = [] \<or> wf_address (inet_ntop (f_env env) f b)"
    and "\<forall>h. m_pinned s (pinKey (v_scheme v) h (portNumber v)) \<in> {None, Some (host_header_of v)}"
  shows "unpin s' (t_url t) = render_view v"
  using assms by (rule prepare_pins)

theorem unpin_undoes_pinning_witness:
  "unpin ((session_new [] False)\<lparr>m_lookups := [''h'' \<mapsto> [\<lparr>sa_family = AF_INET, sa_bytes = [1, 2, 3, 4]\<rparr>]],
     m_pinned := [''http://1.2.3.4:80'' \<mapsto> ''h'']\<rparr>) ''http://u@1.2.3.4:80/a?b'' = render_view witness_view"
  using unpin_undoes_pinning [OF witness_prepare [of "[]" False "[]"]]
  by (simp add: session_new_def wf_view_def wf_host_def portNumber_def witness_view_def
      witness_fetch_def witness_env_def wf_address_def)

text \<open>
  What reaches the log of a well-formed URL whose user information holds no \<open>@\<close> is its scheme,
  host, port and path: neither the user information nor anything of the query or fragment.
\<close>

theorem log_hides_credentials:
  assumes "wf_view v" and "CHR ''@'' \<notin> set (v_userinfo v)" and "v_rest v = [] \<or> hd (v_rest v) = CHR ''/''"
  shows "safeForLog (render_view v) = public_part v"
  using assms by (rule safeForLog_public)

theorem log_hides_credentials_witness:
  "safeForLog (render_view witness_view) = ''http://[redacted]@h/a?[redacted]''"
  using log_hides_credentials [of witness_view]
  by (simp add: witness_view_def wf_view_def wf_host_def public_part_def host_header_of_def)

text \<open>
  The condition on \<open>@\<close> is needed: the authority's user information ends at the last \<open>@\<close> for
  \<open>parse\<close>, at the first for \<open>safeForLog\<close>, which then leaves the end of a password.
\<close>

theorem log_shows_end_of_password:
  "map_option v_userinfo (parse_view ''http://u:p@ss@h/'') = Some ''u:p@ss'' \<and>
   safeForLog ''http://u:p@ss@h/'' = ''http://[redacted]@ss@h/''"
proof
  let ?v = "\<lparr>v_scheme = ''http'', v_userinfo = ''u:p@ss'', v_host = ''h'', v_port = [], v_rest = ''/''\<rparr>"
  show "map_option v_userinfo (parse_view ''http://u:p@ss@h/'') = Some ''u:p@ss''"
    using parse_view_render [of ?v] by (simp add: wf_view_def wf_host_def render_view_def host_header_of_def)
  show "safeForLog ''http://u:p@ss@h/'' = ''http://[redacted]@ss@h/''"
    by (simp add: safeForLog_def find_str_def find_char_def find_first_of_def find_from_def starts_with_def
        eval_nat_numeral Let_def)
qed

end
