(* ===== verification/Audio_Retimer.thy ===== *)
theory Audio_Retimer
  imports Prelude
begin

text \<open>
  \<^verbatim>\<open>src/audio-retimer.hpp\<close>: class \<open>AudioRetimer\<close>, which keeps the mirrored audio from reaching
  OBS late. The record has the class's members; 64-bit values are words, so every \<open>+\<close>
  and \<open>-\<close> wraps as \<open>uint64_t\<close> does. An \<open>int64_t\<close> member is the word with the same bits,
  read with \<open>sint\<close> where the code compares it as signed. Each method takes the object and
  returns it updated.
\<close>

section \<open>The object\<close>

definition kLateNs :: u64 where "kLateNs = 20000000"
definition kStartupNs :: u64 where "kStartupNs = 2000000000"
definition kJitterNs :: u64 where "kJitterNs = 70000000"
definition kMaxLeadNs :: u64 where "kMaxLeadNs = 150000000"
definition kStartLeadNs :: u64 where "kStartLeadNs = 40000000"

lemmas retimer_consts = kLateNs_def kStartupNs_def kJitterNs_def kMaxLeadNs_def kStartLeadNs_def

record retimer =
  m_started :: bool
  m_stream_start :: u64
  m_next :: u64
  m_offset :: u64
  m_anchored :: bool
  m_dropped :: u64
  m_worst_dropped :: u64
  m_following :: bool
  m_steps :: u64
  m_last_step_ns :: u64
  m_held :: u64
  m_resyncs :: u64
  m_trimmed :: u64

text \<open>The struct \<open>Result\<close>.\<close>

record retimed =
  r_drop :: bool
  r_timestamp :: u64

definition retimer_new :: retimer where
  "retimer_new = \<lparr>m_started = False, m_stream_start = 0, m_next = 0, m_offset = 0,
     m_anchored = False, m_dropped = 0, m_worst_dropped = 0, m_following = True, m_steps = 0,
     m_last_step_ns = 0, m_held = 0, m_resyncs = 0, m_trimmed = 0\<rparr>"

definition retimer_reset :: "retimer \<Rightarrow> retimer" where
  "retimer_reset r = retimer_new"

definition pastStartup :: "retimer \<Rightarrow> u64 \<Rightarrow> bool" where
  "pastStartup r now = (m_started r \<and> now - m_stream_start r \<ge> kStartupNs)"

section \<open>Helpers\<close>

definition distance :: "u64 \<Rightarrow> u64 \<Rightarrow> u64" where
  "distance a b = (if a > b then a - b else b - a)"

definition late :: "u64 \<Rightarrow> u64 \<Rightarrow> bool" where
  "late timestamp now = (timestamp + kLateNs < now)"

definition shifted :: "retimer \<Rightarrow> u64 \<Rightarrow> u64" where
  "shifted r timestamp = timestamp + m_offset r"

definition slewBy :: "u64 \<Rightarrow> u64 \<Rightarrow> u64" where
  "slewBy difference duration =
     (let limit = duration div 1024
      in if sint difference > sint limit then limit
         else if sint difference < sint (- limit) then - limit else difference)"

definition slew :: "retimer \<Rightarrow> u64 \<Rightarrow> u64 \<Rightarrow> u64" where
  "slew r expected duration = slewBy (expected - m_next r) duration"

definition start_timeline :: "retimer \<Rightarrow> u64 \<Rightarrow> u64 \<Rightarrow> u64 \<Rightarrow> retimer \<times> retimed" where
  "start_timeline r timestamp duration now =
     (let out = (if timestamp < now + kStartLeadNs then now + kStartLeadNs else timestamp)
      in (r\<lparr>m_offset := out - timestamp, m_anchored := m_resyncs r > 0, m_following := True,
            m_next := out + duration\<rparr>,
          \<lparr>r_drop = False, r_timestamp = out\<rparr>))"

definition dropBacklog :: "retimer \<Rightarrow> u64 \<Rightarrow> u64 \<Rightarrow> retimer \<times> retimed" where
  "dropBacklog r timestamp now =
     (let behind = now - timestamp
      in (r\<lparr>m_dropped := m_dropped r + 1,
            m_worst_dropped := (if behind > m_worst_dropped r then behind else m_worst_dropped r)\<rparr>,
          \<lparr>r_drop = True, r_timestamp = 0\<rparr>))"

section \<open>process\<close>

text \<open>
  The method is split where the code has its early returns: \<open>begin_stream\<close> is its first
  statement, \<open>first_packet\<close> the branch \<open>m_next == 0\<close>, \<open>place\<close> the choice of \<open>out\<close>
  on the sender's time, and \<open>emit_packet\<close> the cap on the lead and the final emission.
\<close>

definition begin_stream :: "retimer \<Rightarrow> u64 \<Rightarrow> retimer" where
  "begin_stream r now =
     (if \<not> m_started r then r\<lparr>m_started := True, m_stream_start := now\<rparr> else r)"

definition in_startup :: "retimer \<Rightarrow> u64 \<Rightarrow> bool" where
  "in_startup r now = (now - m_stream_start r < kStartupNs)"

definition first_packet :: "retimer \<Rightarrow> u64 \<Rightarrow> u64 \<Rightarrow> u64 \<Rightarrow> retimer \<times> retimed" where
  "first_packet r timestamp duration now =
     (if late timestamp now then
        (if in_startup r now then dropBacklog r timestamp now
         else start_timeline (r\<lparr>m_resyncs := m_resyncs r + 1\<rparr>) timestamp duration now)
      else start_timeline r timestamp duration now)"

definition on_timeline :: "retimer \<Rightarrow> u64 \<Rightarrow> bool" where
  "on_timeline r timestamp = (distance (shifted r timestamp) (m_next r) \<le> kJitterNs)"

definition note_step :: "retimer \<Rightarrow> u64 \<Rightarrow> retimer" where
  "note_step r timestamp =
     (let on = on_timeline r timestamp;
          r' = (if \<not> on \<and> m_following r
                then r\<lparr>m_steps := m_steps r + 1, m_last_step_ns := shifted r timestamp - m_next r\<rparr>
                else r)
      in r'\<lparr>m_following := on\<rparr>)"

definition place :: "retimer \<Rightarrow> u64 \<Rightarrow> u64 \<Rightarrow> u64 \<Rightarrow> bool \<Rightarrow> retimer \<times> u64" where
  "place r timestamp duration now on =
     (if on then (r, m_next r + slew r (shifted r timestamp) duration)
      else if \<not> late timestamp now then (r\<lparr>m_offset := 0, m_anchored := False\<rparr>, timestamp)
      else (r, 0))"

definition emit_packet :: "retimer \<Rightarrow> u64 \<Rightarrow> u64 \<Rightarrow> u64 \<Rightarrow> u64 \<Rightarrow> retimer \<times> retimed" where
  "emit_packet r out timestamp duration now =
     (if m_anchored r \<and> out > now + kMaxLeadNs
      then (r\<lparr>m_trimmed := m_trimmed r + 1, m_offset := m_next r - timestamp - duration\<rparr>,
            \<lparr>r_drop = True, r_timestamp = 0\<rparr>)
      else (r\<lparr>m_next := out + duration\<rparr>, \<lparr>r_drop = False, r_timestamp = out\<rparr>))"

definition later_packet :: "retimer \<Rightarrow> u64 \<Rightarrow> u64 \<Rightarrow> u64 \<Rightarrow> retimer \<times> retimed" where
  "later_packet r timestamp duration now =
     (let on = on_timeline r timestamp;
          (r', out) = place (note_step r timestamp) timestamp duration now on
      in if out = 0 \<or> late out now then
           (if \<not> late (m_next r') now then
              emit_packet (r'\<lparr>m_offset := m_next r' - timestamp, m_anchored := True,
                              m_following := True, m_held := m_held r' + 1\<rparr>)
                (m_next r') timestamp duration now
            else if in_startup r' now \<and> now - (if on then out else timestamp) > kJitterNs then
              dropBacklog r' (if on then out else timestamp) now
            else start_timeline (r'\<lparr>m_resyncs := m_resyncs r' + 1\<rparr>) timestamp duration now)
         else emit_packet r' out timestamp duration now)"

definition process :: "retimer \<Rightarrow> u64 \<Rightarrow> u64 \<Rightarrow> u64 \<Rightarrow> retimer \<times> retimed" where
  "process r timestamp duration now =
     (let r' = begin_stream r now
      in if m_next r' = 0 then first_packet r' timestamp duration now
         else later_packet r' timestamp duration now)"

text \<open>A packet as \<open>ingestAudioBitstream\<close> presents it: play-at time, duration, OBS clock.\<close>

type_synonym packet = "u64 \<times> u64 \<times> u64"

definition process_packet :: "retimer \<Rightarrow> packet \<Rightarrow> retimer \<times> retimed" where
  "process_packet r p = (case p of (timestamp, duration, now) \<Rightarrow> process r timestamp duration now)"

lemmas process_defs = process_def first_packet_def later_packet_def place_def emit_packet_def
  start_timeline_def dropBacklog_def

section \<open>Correctness\<close>

subsection \<open>No late packet is emitted\<close>

lemma start_not_late:
  assumes "start_timeline r timestamp duration now = (r', res)"
    and "unat now + 60000000 < 2 ^ 64" and "unat timestamp + 20000000 < 2 ^ 64"
  shows "\<not> late (r_timestamp res) now"
  using assms
  by (auto simp: start_timeline_def late_def retimer_consts u64_simps Let_def split: if_splits)

lemma emit_packet_cases:
  assumes "emit_packet r out timestamp duration now = (r', res)"
  obtains (trimmed) "r_drop res" "m_anchored r" "out > now + kMaxLeadNs"
      "r' = r\<lparr>m_trimmed := m_trimmed r + 1, m_offset := m_next r - timestamp - duration\<rparr>"
    | (emitted) "\<not> r_drop res" "r_timestamp res = out" "\<not> (m_anchored r \<and> out > now + kMaxLeadNs)"
      "r' = r\<lparr>m_next := out + duration\<rparr>"
  using assms by (auto simp: emit_packet_def split: if_splits)

text \<open>What the choice of a time leaves alone.\<close>

definition same_counts :: "retimer \<Rightarrow> retimer \<Rightarrow> bool" where
  "same_counts r s \<longleftrightarrow> m_started s = m_started r \<and> m_stream_start s = m_stream_start r \<and>
     m_next s = m_next r \<and> m_dropped s = m_dropped r \<and> m_resyncs s = m_resyncs r \<and>
     m_trimmed s = m_trimmed r"

lemma same_counts_note_step: "same_counts r (note_step r timestamp)"
  by (simp add: note_step_def same_counts_def Let_def)

lemma same_counts_place:
  "place (note_step r timestamp) t d now on = (s, out) \<Longrightarrow> same_counts r s"
  using same_counts_note_step [of r timestamp]
  by (auto simp: place_def same_counts_def split: if_splits)

text \<open>The outcomes of a packet after the first, one for each way out of the method.\<close>

lemma later_packet_cases:
  assumes "later_packet r timestamp duration now = (r', res)"
  obtains (timeline) "on_timeline r timestamp"
      "\<not> late (m_next r + slew r (shifted r timestamp) duration) now"
      "emit_packet (note_step r timestamp) (m_next r + slew r (shifted r timestamp) duration)
         timestamp duration now = (r', res)"
    | (follow) "\<not> on_timeline r timestamp" "\<not> late timestamp now"
      "emit_packet ((note_step r timestamp)\<lparr>m_offset := 0, m_anchored := False\<rparr>)
         timestamp timestamp duration now = (r', res)"
    | (held) s where "same_counts r s" "\<not> late (m_next r) now"
      "emit_packet (s\<lparr>m_offset := m_next r - timestamp, m_anchored := True, m_following := True,
         m_held := m_held s + 1\<rparr>) (m_next r) timestamp duration now = (r', res)"
    | (backlog) s out where "same_counts r s" "late (m_next r) now" "in_startup r now"
      "now - out > kJitterNs" "dropBacklog s out now = (r', res)"
    | (restart) s where "same_counts r s" "late (m_next r) now"
      "start_timeline (s\<lparr>m_resyncs := m_resyncs r + 1\<rparr>) timestamp duration now = (r', res)"
proof -
  let ?n = "note_step r timestamp"
  obtain s out where p: "place ?n timestamp duration now (on_timeline r timestamp) = (s, out)"
    by (cases "place ?n timestamp duration now (on_timeline r timestamp)")
  note same = same_counts_place [OF p]
  from same_counts_note_step [of r timestamp] have n: "m_next ?n = m_next r"
    by (simp add: same_counts_def)
  have sl: "slew ?n x d = slew r x d" "shifted ?n x = shifted r x" for x d
    by (simp_all add: slew_def shifted_def note_step_def Let_def)
  from same have eqs: "m_next s = m_next r" "m_resyncs s = m_resyncs r"
      "m_stream_start s = m_stream_start r"
    by (simp_all add: same_counts_def)
  show thesis
  proof (cases "out = 0 \<or> late out now")
    case True
    then show ?thesis
      using assms p same eqs held [of s] restart [of s]
        backlog [of s "if on_timeline r timestamp then out else timestamp"]
      by (auto simp: later_packet_def Let_def in_startup_def split: if_splits)
  next
    case False
    then show ?thesis
      using assms p n sl timeline follow
      by (auto simp: later_packet_def place_def Let_def split: if_splits)
  qed
qed

lemma later_packet_never_late:
  assumes "later_packet r timestamp duration now = (r', res)" and "\<not> r_drop res"
    and "unat now + 60000000 < 2 ^ 64" and "unat timestamp + 20000000 < 2 ^ 64"
  shows "\<not> late (r_timestamp res) now"
  using assms(1)
proof (cases rule: later_packet_cases)
  case (restart s)
  then show ?thesis using start_not_late assms(3,4) by blast
qed (use assms(2) in \<open>auto simp: dropBacklog_def Let_def elim!: emit_packet_cases\<close>)

lemma first_packet_never_late:
  assumes "first_packet r timestamp duration now = (r', res)" and "\<not> r_drop res"
    and "unat now + 60000000 < 2 ^ 64" and "unat timestamp + 20000000 < 2 ^ 64"
  shows "\<not> late (r_timestamp res) now"
proof -
  from assms(1,2) obtain s where "start_timeline s timestamp duration now = (r', res)"
    by (auto simp: first_packet_def dropBacklog_def Let_def split: if_splits)
  then show ?thesis using start_not_late assms(3,4) by blast
qed

lemma process_never_late:
  assumes "process r timestamp duration now = (r', res)" and "\<not> r_drop res"
    and "unat now + 60000000 < 2 ^ 64" and "unat timestamp + 20000000 < 2 ^ 64"
  shows "\<not> late (r_timestamp res) now"
  using assms first_packet_never_late [OF _ assms(2-4)] later_packet_never_late [OF _ assms(2-4)]
  by (auto simp: process_def Let_def split: if_splits)

text \<open>
  C15. A packet that the retimer lets through is never late for OBS: its timestamp is at most
  20 ms behind the OBS clock, whatever the sender's play-at times and the earlier packets
  were (clocks below 2^64 ns by the few tens of milliseconds the code adds to them).
\<close>

theorem retimer_never_late:
  assumes "process r timestamp duration now = (r', res)" and "\<not> r_drop res"
    and "unat now + 60000000 < 2 ^ 64" and "unat timestamp + 20000000 < 2 ^ 64"
  shows "\<not> late (r_timestamp res) now"
  using assms by (rule process_never_late)

theorem retimer_never_late_witness:
  "\<not> late (r_timestamp (snd (process (retimer_new\<lparr>m_started := True, m_stream_start := 5,
       m_next := 1000000000\<rparr>) 980000000 10000000 1000000000))) 1000000000"
  by (rule retimer_never_late [where r = "retimer_new\<lparr>m_started := True, m_stream_start := 5,
       m_next := 1000000000\<rparr>" and timestamp = 980000000 and duration = 10000000
       and r' = "fst (process (retimer_new\<lparr>m_started := True, m_stream_start := 5,
       m_next := 1000000000\<rparr>) 980000000 10000000 1000000000)"])
    (simp_all add: process_defs begin_stream_def retimer_new_def on_timeline_def shifted_def
      distance_def retimer_consts late_def note_step_def slew_def slewBy_def in_startup_def Let_def)

subsection \<open>Every dropped packet is counted\<close>

lemma begin_stream_counts [simp]:
  "m_dropped (begin_stream r now) = m_dropped r" "m_trimmed (begin_stream r now) = m_trimmed r"
  "m_resyncs (begin_stream r now) = m_resyncs r" "m_next (begin_stream r now) = m_next r"
  "m_offset (begin_stream r now) = m_offset r"
  by (simp_all add: begin_stream_def)

lemma start_timeline_result:
  assumes "start_timeline r timestamp duration now = (r', res)"
  shows "\<not> r_drop res \<and> m_dropped r' = m_dropped r \<and> m_trimmed r' = m_trimmed r \<and>
    m_resyncs r' = m_resyncs r \<and> m_next r' = r_timestamp res + duration \<and>
    m_offset r' = r_timestamp res - timestamp"
  using assms by (auto simp: start_timeline_def Let_def)

lemma dropBacklog_result:
  assumes "dropBacklog r timestamp now = (r', res)"
  shows "r_drop res \<and> m_dropped r' = m_dropped r + 1 \<and> m_trimmed r' = m_trimmed r \<and>
    m_resyncs r' = m_resyncs r"
  using assms by (auto simp: dropBacklog_def Let_def)

definition drops :: "retimed \<Rightarrow> u64" where
  "drops res = (if r_drop res then 1 else 0)"

lemma later_packet_counts:
  assumes "later_packet r timestamp duration now = (r', res)"
  shows "m_dropped r' + m_trimmed r' = m_dropped r + m_trimmed r + drops res"
  using assms
  by (cases rule: later_packet_cases)
    (auto simp: drops_def same_counts_def note_step_def Let_def
      dest!: start_timeline_result dropBacklog_result elim!: emit_packet_cases)

lemma first_packet_counts:
  assumes "first_packet r timestamp duration now = (r', res)"
  shows "m_dropped r' + m_trimmed r' = m_dropped r + m_trimmed r + drops res"
  using assms
  by (auto simp: first_packet_def drops_def dest!: start_timeline_result dropBacklog_result
      split: if_splits)

lemma process_packet_counts:
  "m_dropped (fst (process_packet r p)) + m_trimmed (fst (process_packet r p)) =
     m_dropped r + m_trimmed r + drops (snd (process_packet r p))"
  using first_packet_counts [of "begin_stream r now" for now]
    later_packet_counts [of "begin_stream r now" for now]
  by (auto simp: process_packet_def process_def Let_def split: prod.splits)

interpretation retimer_stream: accounting_machine process_packet "\<lambda>_. True" "\<lambda>_. True"
  "\<lambda>r. m_dropped r + m_trimmed r" drops
  by unfold_locales (simp_all add: process_packet_counts)

lemma sum_drops: "sum_list (map drops outs) = of_nat (length (filter r_drop outs))"
  by (induction outs) (simp_all add: drops_def)

text \<open>
  Over any stream of packets the two drop counters together grow by exactly the number of
  packets that were dropped: no packet disappears without being counted as startup backlog
  (\<open>dropped()\<close>) or as trimmed lead (\<open>trimmed()\<close>), and none is counted twice.
\<close>

theorem retimer_accounts_for_drops:
  "m_dropped (fst (run process_packet r packets)) + m_trimmed (fst (run process_packet r packets)) =
     m_dropped r + m_trimmed r
       + of_nat (length (filter r_drop (snd (run process_packet r packets))))"
  using retimer_stream.run_counter [of packets r] by (simp add: sum_drops list_all_iff)

subsection \<open>A stream that arrives in time\<close>

text \<open>
  Packets without gaps: the first play-at time is \<open>t\<close>, and each packet is due where the one before it
  ends. A packet is in time for a timeline moved by \<open>shift\<close> when it is not late there.
\<close>

fun gapless :: "u64 \<Rightarrow> packet list \<Rightarrow> bool" where
  "gapless t [] = True"
| "gapless t ((timestamp, duration, now) # ps) = (timestamp = t \<and> gapless (t + duration) ps)"

definition in_time :: "u64 \<Rightarrow> packet \<Rightarrow> bool" where
  "in_time shift p = (case p of (timestamp, duration, now) \<Rightarrow> \<not> late (timestamp + shift) now \<and> timestamp + shift \<noteq> 0)"

lemma in_time_pair [simp]: "in_time shift (t, d, now) \<longleftrightarrow> \<not> late (t + shift) now \<and> t + shift \<noteq> 0"
  by (simp add: in_time_def)

lemma sint_slew_limit:
  "sint (duration div 1024) = int (unat (duration div 1024 :: u64))"
  "sint (- (duration div 1024)) = - int (unat (duration div 1024 :: u64))"
proof -
  have l: "unat (duration div 1024) < 2 ^ 63"
    using order_less_trans [OF unat_u64_less, of 9444732965739290427392 duration]
    by (simp add: unat_div div_less_iff_less_mult)
  then show pos: "sint (duration div 1024) = int (unat (duration div 1024))"
    by (rule sint_u64_small)
  have b: "0 \<le> sint (duration div 1024)" "sint (duration div 1024) < 9223372036854775808"
    using pos sint_lt [of "duration div 1024"] by simp_all
  have "sint (- (duration div 1024)) = signed_take_bit 63 (- sint (duration div 1024))"
    by (simp add: sint_word_ariths)
  also have "\<dots> = - sint (duration div 1024)"
    by (rule signed_take_bit_int_eq_self) (use b in simp_all)
  finally show "sint (- (duration div 1024)) = - int (unat (duration div 1024))"
    by (simp only: pos)
qed

lemma slewBy_zero [simp]: "slewBy 0 duration = 0"
  by (simp add: slewBy_def Let_def sint_slew_limit)

lemma slewBy_bound: "\<bar>sint (slewBy difference duration)\<bar> \<le> int (unat (duration div 1024))"
  by (auto simp: slewBy_def Let_def sint_slew_limit)

text \<open>The object between two packets of such a stream, whose timeline was shifted by \<open>shift\<close> at the start.\<close>

definition in_step :: "u64 \<Rightarrow> retimer \<Rightarrow> u64 \<Rightarrow> bool" where
  "in_step shift r t \<longleftrightarrow> m_started r \<and> m_next r = t + shift \<and> m_offset r = shift \<and> \<not> m_anchored r"

lemma process_in_step:
  assumes "in_step shift r t" and "\<not> late (t + shift) now" and "t + shift \<noteq> 0"
  obtains r' where "process r t duration now = (r', \<lparr>r_drop = False, r_timestamp = t + shift\<rparr>)"
    and "in_step shift r' (t + duration)"
proof -
  have on: "on_timeline r t"
    using assms(1) by (simp add: on_timeline_def in_step_def shifted_def distance_def retimer_consts)
  have s: "slew (note_step r t) (shifted r t) duration = 0"
    using assms(1) by (simp add: slew_def in_step_def shifted_def note_step_def Let_def)
  have "process r t duration now =
      ((note_step r t)\<lparr>m_next := t + shift + duration\<rparr>, \<lparr>r_drop = False, r_timestamp = t + shift\<rparr>)"
    using assms on s
    by (simp add: process_def begin_stream_def in_step_def later_packet_def place_def Let_def
        emit_packet_def note_step_def shifted_def)
  moreover have "in_step shift ((note_step r t)\<lparr>m_next := t + shift + duration\<rparr>) (t + duration)"
    using assms(1) on by (simp add: in_step_def note_step_def Let_def)
  ultimately show thesis by (rule that)
qed

lemma run_in_step:
  "in_step shift r t \<Longrightarrow> gapless t packets \<Longrightarrow> list_all (in_time shift) packets \<Longrightarrow>
     snd (run process_packet r packets) =
       map (\<lambda>(timestamp, duration, now). \<lparr>r_drop = False, r_timestamp = timestamp + shift\<rparr>) packets"
proof (induction packets arbitrary: r t)
  case Nil
  then show ?case by simp
next
  case (Cons p ps)
  obtain ts d now where p: "p = (ts, d, now)" by (cases p)
  with Cons.prems have pre: "\<not> late (t + shift) now" "t + shift \<noteq> 0" "ts = t" "gapless (t + d) ps" "list_all (in_time shift) ps"
    by auto
  obtain r' where r': "process r t d now = (r', \<lparr>r_drop = False, r_timestamp = t + shift\<rparr>)"
    "in_step shift r' (t + d)"
    using process_in_step [OF Cons.prems(1) pre(1,2)] by metis
  then show ?case
    using Cons.IH [OF r'(2) pre(4,5)] p pre(3) by (simp add: process_packet_def split_beta)
qed

text \<open>
  C21. A stream that arrives in time is moved as a whole. When the first packet is not late and the
  packets follow each other without gaps, nothing is dropped and every packet leaves with the
  sender's own play-at time plus one constant: what the first packet lacks of 40 ms ahead of the
  clock (nothing, if it has as much), so the first leaves 40 ms ahead or more. In time are the later
  packets whose play-at time, moved so, is at most 20 ms behind the clock: the stream may come up to
  60 ms late when it starts due now.
\<close>

theorem retimer_transparent_in_time:
  assumes "\<not> late t now" and "gapless (t + duration) packets"
    and "shift = (if t < now + 40000000 then now + 40000000 - t else 0)"
    and "list_all (in_time shift) packets"
  shows "snd (run process_packet retimer_new ((t, duration, now) # packets)) =
    map (\<lambda>(timestamp, duration, now). \<lparr>r_drop = False, r_timestamp = timestamp + shift\<rparr>)
      ((t, duration, now) # packets)"
proof -
  obtain r' where r': "process retimer_new t duration now = (r', \<lparr>r_drop = False, r_timestamp = t + shift\<rparr>)"
    "in_step shift r' (t + duration)"
    using assms(1)
    by (simp add: assms(3) process_def begin_stream_def retimer_new_def first_packet_def
        start_timeline_def Let_def in_step_def kStartLeadNs_def)
  from run_in_step [OF r'(2) assms(2,4)] r'(1) show ?thesis
    by (simp add: process_packet_def split_beta)
qed

theorem retimer_transparent_in_time_witness:
  "snd (run process_packet retimer_new
      [(1000000000, 10000000, 1000000000), (1010000000, 10000000, 1065000000)]) =
    [\<lparr>r_drop = False, r_timestamp = 1040000000\<rparr>, \<lparr>r_drop = False, r_timestamp = 1050000000\<rparr>]"
  using retimer_transparent_in_time [of 1000000000 1000000000 10000000
      "[(1010000000, 10000000, 1065000000)]" 40000000]
  by (simp add: late_def retimer_consts)

subsection \<open>How far a packet moves\<close>

text \<open>
  Once the timeline has an offset of its own (a step back was ridden over, or the stream
  restarted), a packet that continues it is at most 150 ms ahead of the clock: a burst after
  a stall cannot add delay for the rest of the stream.
\<close>

theorem retimer_lead_is_capped:
  assumes "process r timestamp duration now = (r', res)" and "\<not> r_drop res"
    and "m_next r \<noteq> 0" and "m_anchored r'" and "m_resyncs r' = m_resyncs r"
  shows "r_timestamp res \<le> now + kMaxLeadNs"
proof -
  have l: "later_packet (begin_stream r now) timestamp duration now = (r', res)"
    using assms(1,3) by (simp add: process_def Let_def)
  then show ?thesis
  proof (cases rule: later_packet_cases)
    case (restart s)
    then show ?thesis using assms(5) by (auto dest!: start_timeline_result)
  qed (use assms(2,4) in \<open>auto simp: not_less dest!: dropBacklog_result elim!: emit_packet_cases\<close>)
qed

theorem retimer_lead_is_capped_witness:
  "r_timestamp (snd (process (retimer_new\<lparr>m_started := True, m_next := 1000000000,
      m_anchored := True\<rparr>) 1000000000 10000000 1000000000)) \<le> 1000000000 + kMaxLeadNs"
  by (rule retimer_lead_is_capped [where r = "retimer_new\<lparr>m_started := True,
      m_next := 1000000000, m_anchored := True\<rparr>" and timestamp = 1000000000
      and duration = 10000000 and r' = "fst (process (retimer_new\<lparr>m_started := True,
      m_next := 1000000000, m_anchored := True\<rparr>) 1000000000 10000000 1000000000)"])
    (simp_all add: process_defs begin_stream_def retimer_new_def on_timeline_def shifted_def
      distance_def retimer_consts late_def note_step_def slew_def Let_def)

text \<open>
  A packet after the first never jumps silently: it continues the timeline, moved by at
  most 1/1024 of its duration, or it leaves exactly at the sender's play-at time, which is
  then on time, or the stream restarts, which is counted.
\<close>

theorem retimer_is_continuous:
  assumes "process r timestamp duration now = (r', res)" and "\<not> r_drop res"
    and "m_next r \<noteq> 0"
  shows "\<bar>sint (r_timestamp res - m_next r)\<bar> \<le> int (unat (duration div 1024)) \<or>
    r_timestamp res = timestamp \<and> m_offset r' = 0 \<and> late timestamp now = False \<or>
    m_resyncs r' = m_resyncs r + 1"
proof -
  let ?r = "begin_stream r now"
  have l: "later_packet ?r timestamp duration now = (r', res)"
    using assms(1,3) by (simp add: process_def Let_def)
  then show ?thesis
  proof (cases rule: later_packet_cases)
    case timeline
    then have "r_timestamp res = m_next r + slew ?r (shifted ?r timestamp) duration"
      using assms(2) by (auto elim!: emit_packet_cases)
    then show ?thesis using slewBy_bound by (simp add: slew_def)
  next
    case follow
    then show ?thesis using assms(2) by (auto elim!: emit_packet_cases)
  next
    case (held s)
    then have "r_timestamp res = m_next r" using assms(2) by (auto elim!: emit_packet_cases)
    then show ?thesis by simp
  next
    case (backlog s out)
    then show ?thesis using assms(2) by (auto dest!: dropBacklog_result)
  next
    case (restart s)
    then show ?thesis by (auto dest!: start_timeline_result)
  qed
qed

theorem retimer_is_continuous_witness:
  "let (r', res) = process (retimer_new\<lparr>m_started := True, m_next := 1000000000\<rparr>)
      1001000000 10240000 1000000000
   in \<bar>sint (r_timestamp res - 1000000000)\<bar> \<le> int (unat ((10240000 :: u64) div 1024)) \<or>
    r_timestamp res = 1001000000 \<and> m_offset r' = 0 \<and> late 1001000000 1000000000 = False \<or>
    m_resyncs r' = 1"
proof -
  let ?r = "retimer_new\<lparr>m_started := True, m_next := 1000000000\<rparr>"
  let ?out = "process ?r 1001000000 10240000 1000000000"
  have "\<not> r_drop (snd ?out)" "m_next ?r \<noteq> 0" "m_resyncs ?r = 0" "m_next ?r = 1000000000"
    by (simp_all add: process_defs begin_stream_def retimer_new_def on_timeline_def shifted_def
      distance_def retimer_consts late_def note_step_def slew_def slewBy_def Let_def)
  then show ?thesis
    using retimer_is_continuous [of ?r 1001000000 10240000 1000000000 "fst ?out" "snd ?out"]
    by (simp add: split_beta)
qed

text \<open>
  Packets are dropped for being late only while a stream starts: once two seconds have
  passed since its first packet, a packet is dropped only to trim a lead above 150 ms that the
  timeline built up after a step or a restart.
\<close>

theorem retimer_drops_late_only_at_start:
  assumes "process r timestamp duration now = (r', res)" and "r_drop res" and "pastStartup r now"
  shows "m_trimmed r' = m_trimmed r + 1 \<and> m_dropped r' = m_dropped r \<and> m_anchored r'"
proof -
  have b: "begin_stream r now = r" "\<not> in_startup r now"
    using assms(3) by (auto simp: begin_stream_def pastStartup_def in_startup_def not_less)
  have l: "later_packet r timestamp duration now = (r', res)"
    using assms(1,2) b
    by (auto simp: process_def first_packet_def Let_def dest!: start_timeline_result split: if_splits)
  then show ?thesis
    by (cases rule: later_packet_cases)
      (use assms(2) b in \<open>auto simp: same_counts_def note_step_def Let_def
        dest!: start_timeline_result elim!: emit_packet_cases\<close>)
qed

theorem retimer_drops_late_only_at_start_witness:
  "m_trimmed (fst (process (retimer_new\<lparr>m_started := True, m_next := 4000000000,
      m_anchored := True\<rparr>) 4000000000 10000000 3000000000)) = 1"
  using retimer_drops_late_only_at_start [where r = "retimer_new\<lparr>m_started := True,
      m_next := 4000000000, m_anchored := True\<rparr>" and timestamp = 4000000000
      and duration = 10000000 and now = 3000000000 and r' = "fst (process
      (retimer_new\<lparr>m_started := True, m_next := 4000000000, m_anchored := True\<rparr>)
      4000000000 10000000 3000000000)" and res = "\<lparr>r_drop = True, r_timestamp = 0\<rparr>"]
  by (simp add: process_defs begin_stream_def retimer_new_def on_timeline_def shifted_def
      distance_def retimer_consts late_def note_step_def slew_def pastStartup_def Let_def)

end
