(* ===== verification/Audio_Decoder.thy ===== *)
theory Audio_Decoder
  imports Cpp_Strings
begin

text \<open>
  \<^verbatim>\<open>src/audio-decoder.hpp\<close> and \<^verbatim>\<open>src/audio-decoder.cpp\<close>: the negotiated audio format, the setup
  data made for FFmpeg's decoders, and the decoder object (opening, retries, resampler, one
  packet). FFmpeg is the record \<open>audio_lib\<close>, acting on a world \<open>'w\<close>; \<open>'f\<close> stands for the float
  samples, which the code only moves.
\<close>

section \<open>Formats\<close>

record audio_format =
  a_sample_rate :: int
  a_channels :: int
  a_bit_depth :: int
  a_frame_samples :: int

definition default_format :: audio_format where
  "default_format = \<lparr>a_sample_rate = 44100, a_channels = 2, a_bit_depth = 16, a_frame_samples = 0\<rparr>"

definition kDefaultSampleRate :: int where "kDefaultSampleRate = 44100"

definition known_formats :: "(u64 \<times> int \<times> int) list" where
  "known_formats =
    [(0x40000, 44100, 16), (0x80000, 44100, 24), (0x100000, 48000, 16), (0x200000, 48000, 24),
     (0x400000, 44100, 16), (0x800000, 48000, 16), (0x1000000, 44100, 16), (0x2000000, 48000, 16)]"

definition formatFromSetup :: "u64 \<Rightarrow> u32 \<Rightarrow> bool \<times> audio_format" where
  "formatFromSetup audio_format spf =
     (let out = default_format\<lparr>a_frame_samples := (if spf > 0 \<and> spf \<le> 8192 then uint spf else 0)\<rparr>
      in case map_of known_formats audio_format of
           Some (rate, depth) \<Rightarrow> (True, out\<lparr>a_sample_rate := rate, a_bit_depth := depth\<rparr>)
         | None \<Rightarrow> (False, out))"

text \<open>The description for the log; the buffer of 96 bytes always holds it.\<close>

definition describe_format :: "audio_format \<Rightarrow> u8 \<Rightarrow> string" where
  "describe_format f ct =
     (let codec = (if ct = 2 then ''ALAC'' else if ct = 4 then ''AAC-LC'' else if ct = 8 then ''AAC-ELD''
            else ''codec'')
      in take 95 (if ct = 2
         then codec @ '' '' @ to_string (a_sample_rate f) @ '' Hz, '' @ to_string (a_bit_depth f) @ ''-bit, '' @
              to_string (a_channels f) @ '' ch''
         else codec @ '' '' @ to_string (a_sample_rate f) @ '' Hz, '' @ to_string (a_channels f) @ '' ch''))"

section \<open>Setup data\<close>

definition kRates :: "int list" where
  "kRates = [96000, 88200, 64000, 48000, 44100, 32000, 24000, 22050, 16000, 12000, 11025, 8000, 7350]"

definition aacFrequencyIndex :: "int \<Rightarrow> nat" where
  "aacFrequencyIndex sample_rate =
     (case index_of (\<lambda>r. r = sample_rate) kRates of Some i \<Rightarrow> i | None \<Rightarrow> 15)"

record bit_writer =
  m_bytes :: bytes
  m_used :: nat

definition writer_new :: bit_writer where
  "writer_new = \<lparr>m_bytes = [], m_used = 0\<rparr>"

definition put_bit :: "bool \<Rightarrow> bit_writer \<Rightarrow> bit_writer" where
  "put_bit b w =
     (let bs = (if m_used w mod 8 = 0 then m_bytes w @ [0] else m_bytes w)
      in \<lparr>m_bytes = (if b then butlast bs @ [last bs OR drop_bit (m_used w mod 8) 0x80] else bs),
          m_used = m_used w + 1\<rparr>)"

text \<open>The loop of \<open>put\<close>, from the highest of the \<open>n\<close> bits down.\<close>

primrec put :: "u32 \<Rightarrow> nat \<Rightarrow> bit_writer \<Rightarrow> bit_writer" where
  "put val 0 w = w"
| "put val (Suc n) w = put val n (put_bit (bit val n) w)"

definition aacAudioSpecificConfig :: "int \<Rightarrow> audio_format \<Rightarrow> bytes" where
  "aacAudioSpecificConfig object_type f =
     (let w1 = (if object_type \<ge> 32 then put (word_of_int (object_type - 32)) 6 (put 31 5 writer_new)
                else put (word_of_int object_type) 5 writer_new);
          index = aacFrequencyIndex (a_sample_rate f);
          w2 = put (of_nat index) 4 w1;
          w3 = (if index = 15 then put (word_of_int (a_sample_rate f)) 24 w2 else w2);
          w4 = put (word_of_int (a_channels f)) 4 w3
      in m_bytes
        (if object_type = 39 then
           (let frame = (if a_frame_samples f > 0 then a_frame_samples f else 480)
            in put 0 4 (put 0 1 (put 0 3 (put (if frame = 480 then 1 else 0) 1 w4))))
         else put 0 1 (put 0 1 (put (if a_frame_samples f = 960 then 1 else 0) 1 w4))))"

primrec putBigEndian :: "u32 \<Rightarrow> nat \<Rightarrow> bytes" where
  "putBigEndian val 0 = []"
| "putBigEndian val (Suc n) = ucast (drop_bit (8 * n) val) # putBigEndian val n"

definition alacMagicCookie :: "audio_format \<Rightarrow> bytes" where
  "alacMagicCookie f =
     putBigEndian 36 4 @ [0x61, 0x6C, 0x61, 0x63] @ putBigEndian 0 4 @
     putBigEndian (word_of_int (if a_frame_samples f > 0 then a_frame_samples f else 352)) 4 @
     [0, word_of_int (a_bit_depth f), 40, 10, 14, word_of_int (a_channels f)] @
     putBigEndian 255 2 @ putBigEndian 0 4 @ putBigEndian 0 4 @
     putBigEndian (word_of_int (a_sample_rate f)) 4"

section \<open>The decoder object\<close>

datatype codec_id = AV_CODEC_ID_AAC | AV_CODEC_ID_ALAC

text \<open>A codec context as it was set up, and a resampler as it was set up.\<close>

record codec_context =
  c_codec :: codec_id
  c_sample_rate :: int
  c_channels :: int
  c_extradata :: bytes

record layout =
  nb_channels :: int
  channel_order :: nat

record swr =
  s_out_rate :: int
  s_in_layout :: layout
  s_in_format :: int
  s_in_rate :: int

record 'f audio_frame =
  fr_sample_rate :: int
  fr_format :: int
  fr_layout :: layout
  fr_nb_samples :: int
  fr_plane0 :: "'f list option"
  fr_plane1 :: "'f list option"

datatype 'f received = Received "'f audio_frame" | Receive_failed

record ('w, 'f) audio_lib =
  l_find_decoder :: "codec_id \<Rightarrow> bool"
  l_alloc_context :: "'w \<Rightarrow> bool \<times> 'w"
  l_alloc_extradata :: "'w \<Rightarrow> bool \<times> 'w"
  l_open2 :: "'w \<Rightarrow> codec_context \<Rightarrow> bool \<times> 'w"
  l_new_packet :: "'w \<Rightarrow> nat \<Rightarrow> bool \<times> 'w"
  l_decode :: "'w \<Rightarrow> codec_context \<Rightarrow> bytes \<Rightarrow> 'f received list option \<times> 'w"
  l_layout_copy :: "'w \<Rightarrow> bool \<times> 'w"
  l_layout_compare :: "layout \<Rightarrow> layout \<Rightarrow> bool"
  l_swr_alloc :: "'w \<Rightarrow> swr \<Rightarrow> bool \<times> 'w"
  l_swr_init :: "'w \<Rightarrow> bool \<times> 'w"
  l_swr_delay :: "'w \<Rightarrow> swr \<Rightarrow> int \<Rightarrow> int"
  l_rescale_up :: "int \<Rightarrow> int \<Rightarrow> int \<Rightarrow> int"
  l_samples_alloc :: "'w \<Rightarrow> int \<Rightarrow> bool \<times> 'w"
  l_swr_convert :: "'w \<Rightarrow> swr \<Rightarrow> int \<Rightarrow> 'f audio_frame \<Rightarrow> ('f list \<times> 'f list) option \<times> 'w"
  l_flush_buffers :: "'w \<Rightarrow> 'w"
  l_fltp :: int
  l_fmt_none :: int

record audio_decoder =
  m_codec_context :: "codec_context option"
  m_allocated :: bool
  m_swr_context :: "swr option"
  m_codec_type :: u8
  m_format :: audio_format
  m_opened_format :: audio_format
  m_output_sample_rate :: int
  m_input_sample_rate :: int
  m_input_sample_format :: int
  m_resampler_configured :: bool
  m_convert :: "int option"
  m_convert_capacity :: int
  m_failed_codec_type :: u8
  m_failed_calls :: u32
  m_alloc_errors :: u64
  m_send_errors :: u64
  m_decode_errors :: u64
  m_input_channel_layout :: "layout option"

definition resetResampler :: "('w, 'f) audio_lib \<Rightarrow> audio_decoder \<Rightarrow> audio_decoder" where
  "resetResampler L s = s\<lparr>m_swr_context := None, m_input_channel_layout := None, m_input_sample_rate := 0,
     m_input_sample_format := l_fmt_none L, m_resampler_configured := False\<rparr>"

text \<open>What the switch over the codec type chooses: the decoder and its setup data.\<close>

definition codec_setup :: "u8 \<Rightarrow> audio_format \<Rightarrow> (codec_id \<times> bytes) option" where
  "codec_setup ct f =
     (if ct = 8 then Some (AV_CODEC_ID_AAC, aacAudioSpecificConfig 39 f)
      else if ct = 4 then Some (AV_CODEC_ID_AAC, aacAudioSpecificConfig 2 f)
      else if ct = 2 then Some (AV_CODEC_ID_ALAC, alacMagicCookie f)
      else None)"

text \<open>Allocates a context, gives it its setup data and opens it.\<close>

definition open_context ::
    "('w, 'f) audio_lib \<Rightarrow> 'w \<Rightarrow> codec_context \<Rightarrow> bool \<times> 'w" where
  "open_context L w ctx =
     (case l_alloc_context L w of
        (False, w1) \<Rightarrow> (False, w1)
      | (True, w1) \<Rightarrow>
          (case (if c_extradata ctx = [] then (True, w1) else l_alloc_extradata L w1) of
             (False, w2) \<Rightarrow> (False, w2)
           | (True, w2) \<Rightarrow> l_open2 L w2 ctx))"

definition openDecoder :: "('w, 'f) audio_lib \<Rightarrow> audio_decoder \<times> 'w \<Rightarrow> u8 \<Rightarrow> bool \<times> audio_decoder \<times> 'w" where
  "openDecoder L sw ct =
     (case codec_setup ct (m_format (fst sw)) of
        None \<Rightarrow> (False, sw)
      | Some (codec, setup) \<Rightarrow>
          if \<not> l_find_decoder L codec then (False, sw)
          else
            (let s1 = (resetResampler L (fst sw))\<lparr>m_codec_context := None\<rparr>;
                 ctx = \<lparr>c_codec = codec, c_sample_rate = a_sample_rate (m_format s1),
                   c_channels = a_channels (m_format s1), c_extradata = setup\<rparr>
             in case open_context L (snd sw) ctx of
                  (False, w') \<Rightarrow> (False, (s1, w'))
                | (True, w') \<Rightarrow> (True, (s1\<lparr>m_codec_context := Some ctx, m_codec_type := ct,
                    m_opened_format := m_format s1\<rparr>, w'))))"

definition kRetryEveryCalls :: u32 where "kRetryEveryCalls = 500"

text \<open>Whether a packet of this type has to wait for the retry of a decoder that did not open.\<close>

definition holds_back :: "audio_decoder \<Rightarrow> u8 \<Rightarrow> bool" where
  "holds_back s ct = (ct = m_failed_codec_type s \<and> (m_failed_calls s + 1) mod kRetryEveryCalls \<noteq> 0)"

definition count_call :: "u8 \<Rightarrow> audio_decoder \<Rightarrow> audio_decoder" where
  "count_call ct s = (if ct = m_failed_codec_type s then s\<lparr>m_failed_calls := m_failed_calls s + 1\<rparr> else s)"

text \<open>What is remembered of an attempt to open the decoder.\<close>

definition note_attempt :: "u8 \<Rightarrow> bool \<Rightarrow> audio_decoder \<Rightarrow> audio_decoder" where
  "note_attempt ct opened s =
     (if opened then s\<lparr>m_failed_codec_type := 0, m_failed_calls := 0\<rparr>
      else if ct \<noteq> m_failed_codec_type s then s\<lparr>m_failed_codec_type := ct, m_failed_calls := 0\<rparr>
      else s)"

definition configureDecoder ::
    "('w, 'f) audio_lib \<Rightarrow> audio_decoder \<times> 'w \<Rightarrow> u8 \<Rightarrow> bool \<times> audio_decoder \<times> 'w" where
  "configureDecoder L sw ct =
     (if m_codec_type (fst sw) = ct \<and> m_codec_context (fst sw) \<noteq> None \<and>
         m_opened_format (fst sw) = m_format (fst sw)
      then (True, sw)
      else if holds_back (fst sw) ct then (False, (count_call ct (fst sw), snd sw))
      else (case openDecoder L (count_call ct (fst sw), snd sw) ct of
              (opened, (s', w')) \<Rightarrow> (opened, (note_attempt ct opened s', w'))))"

definition decoder_new :: "('w, 'f) audio_lib \<Rightarrow> bool \<Rightarrow> 'w \<Rightarrow> audio_decoder \<times> 'w" where
  "decoder_new L allocated w =
     snd (configureDecoder L
       (\<lparr>m_codec_context = None, m_allocated = allocated, m_swr_context = None, m_codec_type = 0,
          m_format = default_format, m_opened_format = default_format,
          m_output_sample_rate = kDefaultSampleRate, m_input_sample_rate = 0,
          m_input_sample_format = l_fmt_none L, m_resampler_configured = False, m_convert = None,
          m_convert_capacity = 0, m_failed_codec_type = 0, m_failed_calls = 0, m_alloc_errors = 0,
          m_send_errors = 0, m_decode_errors = 0, m_input_channel_layout = None\<rparr>, w) 8)"

definition setStreamFormat :: "audio_format \<Rightarrow> audio_decoder \<Rightarrow> audio_decoder" where
  "setStreamFormat f s = s\<lparr>m_format := f\<rparr>"

definition flush :: "('w, 'f) audio_lib \<Rightarrow> audio_decoder \<times> 'w \<Rightarrow> audio_decoder \<times> 'w" where
  "flush L sw =
     (resetResampler L (fst sw),
      (if m_codec_context (fst sw) \<noteq> None then l_flush_buffers L (snd sw) else snd sw))"

definition frame_rate :: "'f audio_frame \<Rightarrow> int" where
  "frame_rate frame = (if fr_sample_rate frame > 0 then fr_sample_rate frame else kDefaultSampleRate)"

definition frame_layout :: "codec_context \<Rightarrow> 'f audio_frame \<Rightarrow> layout" where
  "frame_layout ctx frame =
     (if nb_channels (fr_layout frame) > 0 then fr_layout frame
      else \<lparr>nb_channels = c_channels ctx, channel_order = 0\<rparr>)"

text \<open>Whether the resampler is set up for such an input already.\<close>

definition resampler_fits :: "('w, 'f) audio_lib \<Rightarrow> audio_decoder \<Rightarrow> 'f audio_frame \<Rightarrow> layout \<Rightarrow> bool" where
  "resampler_fits L s frame lay =
     (m_resampler_configured s \<and> m_input_sample_rate s = frame_rate frame \<and>
      m_input_sample_format s = fr_format frame \<and>
      (case m_input_channel_layout s of None \<Rightarrow> False | Some l \<Rightarrow> l_layout_compare L l lay))"

text \<open>Copies the layout, allocates a resampler and initialises it.\<close>

definition make_resampler :: "('w, 'f) audio_lib \<Rightarrow> 'w \<Rightarrow> swr \<Rightarrow> bool \<times> 'w" where
  "make_resampler L w swr =
     (case l_layout_copy L w of
        (False, w1) \<Rightarrow> (False, w1)
      | (True, w1) \<Rightarrow>
          (case l_swr_alloc L w1 swr of
             (False, w2) \<Rightarrow> (False, w2)
           | (True, w2) \<Rightarrow> l_swr_init L w2))"

text \<open>
  \<open>frame\<close> is never null here; the caller checked it. A step of \<open>make_resampler\<close> that fails leaves
  the resampler reset.
\<close>

definition configureResampler ::
    "('w, 'f) audio_lib \<Rightarrow> audio_decoder \<times> 'w \<Rightarrow> 'f audio_frame \<Rightarrow> bool \<times> audio_decoder \<times> 'w" where
  "configureResampler L sw frame =
     (case m_codec_context (fst sw) of
        None \<Rightarrow> (False, sw)
      | Some ctx \<Rightarrow>
          (let s1 = (fst sw)\<lparr>m_output_sample_rate := frame_rate frame\<rparr>;
               lay = frame_layout ctx frame
           in if nb_channels lay \<le> 0 then (False, (s1, snd sw))
              else if resampler_fits L s1 frame lay then (True, (s1, snd sw))
              else
                (let s2 = resetResampler L s1;
                     swr = \<lparr>s_out_rate = frame_rate frame, s_in_layout = lay, s_in_format = fr_format frame,
                       s_in_rate = frame_rate frame\<rparr>
                 in case make_resampler L (snd sw) swr of
                      (False, w') \<Rightarrow> (False, (s2, w'))
                    | (True, w') \<Rightarrow> (True, (s2\<lparr>m_input_channel_layout := Some lay, m_swr_context := Some swr,
                        m_input_sample_rate := frame_rate frame, m_input_sample_format := fr_format frame,
                        m_resampler_configured := True\<rparr>, w')))))"

text \<open>The output of a packet so far.\<close>

record 'f pcm =
  p_left :: "'f list"
  p_right :: "'f list"
  p_rate :: int
  p_produced :: bool

text \<open>Makes room for \<open>n\<close> samples in the conversion buffer.\<close>

definition grow_convert :: "('w, 'f) audio_lib \<Rightarrow> int \<Rightarrow> audio_decoder \<times> 'w \<Rightarrow> bool \<times> audio_decoder \<times> 'w" where
  "grow_convert L n sw =
     (case sw of (s, w) \<Rightarrow>
        if n > m_convert_capacity s then
          (let (ok, w') = l_samples_alloc L w n
           in if ok then (True, (s\<lparr>m_convert := Some n, m_convert_capacity := n\<rparr>, w'))
              else (False, (s\<lparr>m_convert := None, m_convert_capacity := 0\<rparr>, w')))
        else (True, (s, w)))"

text \<open>The conversion of a frame by the resampler set up for it.\<close>

definition convert_frame ::
    "('w, 'f) audio_lib \<Rightarrow> audio_decoder \<times> 'w \<Rightarrow> 'f pcm \<Rightarrow> 'f audio_frame \<Rightarrow>
       bool \<times> (audio_decoder \<times> 'w) \<times> 'f pcm" where
  "convert_frame L sw out frame =
     (let s = fst sw;
          swr = the (m_swr_context s);
          n = l_rescale_up L (l_swr_delay L (snd sw) swr (m_input_sample_rate s) + fr_nb_samples frame)
            (m_output_sample_rate s) (m_input_sample_rate s)
      in if n \<le> 0 then (True, sw, out)
         else
           (case grow_convert L n sw of
              (False, sw2) \<Rightarrow> (False, sw2, out)
            | (True, (s2, w2)) \<Rightarrow>
                (case l_swr_convert L w2 swr n frame of
                   (Some (l, r), w3) \<Rightarrow>
                     if l \<noteq> [] \<and> m_convert s2 \<noteq> None
                     then (True, (s2, w3),
                       \<lparr>p_left = p_left out @ l, p_right = p_right out @ r,
                        p_rate = m_output_sample_rate s2, p_produced = True\<rparr>)
                     else (True, (s2, w3), out)
                 | (None, w3) \<Rightarrow> (True, (s2, w3), out))))"

text \<open>A frame that needs no conversion.\<close>

definition planar_stereo :: "('w, 'f) audio_lib \<Rightarrow> 'f audio_frame \<Rightarrow> bool" where
  "planar_stereo L frame =
     (fr_format frame = l_fltp L \<and> nb_channels (fr_layout frame) = 2 \<and> fr_nb_samples frame > 0 \<and>
      fr_plane0 frame \<noteq> None \<and> fr_plane1 frame \<noteq> None)"

text \<open>One frame: whether the loop goes on, and the state and output after it.\<close>

definition handle_frame ::
    "('w, 'f) audio_lib \<Rightarrow> audio_decoder \<times> 'w \<Rightarrow> 'f pcm \<Rightarrow> 'f audio_frame \<Rightarrow>
       bool \<times> (audio_decoder \<times> 'w) \<times> 'f pcm" where
  "handle_frame L sw out frame =
     (if planar_stereo L frame
      then (True, sw,
        \<lparr>p_left = p_left out @ take (nat (fr_nb_samples frame)) (the (fr_plane0 frame)),
         p_right = p_right out @ take (nat (fr_nb_samples frame)) (the (fr_plane1 frame)),
         p_rate = frame_rate frame, p_produced = True\<rparr>)
      else
        (case configureResampler L sw frame of
           (False, sw1) \<Rightarrow> (False, sw1, out)
         | (True, sw1) \<Rightarrow> convert_frame L sw1 out frame))"

text \<open>
  The receive loop, over what the decoder gives for the packet until it wants more input
  (\<open>EAGAIN\<close>) or is at its end, which is the end of the list.
\<close>

fun receive_loop ::
    "('w, 'f) audio_lib \<Rightarrow> audio_decoder \<times> 'w \<Rightarrow> 'f pcm \<Rightarrow> 'f received list \<Rightarrow>
       (audio_decoder \<times> 'w) \<times> 'f pcm" where
  "receive_loop L sw out [] = (sw, out)"
| "receive_loop L (s, w) out (Receive_failed # rs) = ((s\<lparr>m_decode_errors := m_decode_errors s + 1\<rparr>, w), out)"
| "receive_loop L sw out (Received frame # rs) =
     (case handle_frame L sw out frame of
        (True, sw', out') \<Rightarrow> receive_loop L sw' out' rs
      | (False, sw', out') \<Rightarrow> (sw', out'))"

definition pcm_empty :: "'f pcm" where
  "pcm_empty = \<lparr>p_left = [], p_right = [], p_rate = kDefaultSampleRate, p_produced = False\<rparr>"

text \<open>\<open>INT_MAX - AV_INPUT_BUFFER_PADDING_SIZE\<close>, the padding being 64 bytes.\<close>

definition kMaxPacketBytes :: nat where "kMaxPacketBytes = 2147483647 - 64"

definition decode ::
    "('w, 'f) audio_lib \<Rightarrow> audio_decoder \<times> 'w \<Rightarrow> bytes \<Rightarrow> u8 \<Rightarrow> 'f pcm \<times> audio_decoder \<times> 'w" where
  "decode L sw data ct =
     (if data = [] \<or> \<not> m_allocated (fst sw) \<or> length data > kMaxPacketBytes then (pcm_empty, sw)
      else
        (case configureDecoder L sw ct of
           (False, sw1) \<Rightarrow> (pcm_empty, sw1)
         | (True, (s1, w1)) \<Rightarrow>
             (case l_new_packet L w1 (length data) of
                (False, w2) \<Rightarrow> (pcm_empty, (s1\<lparr>m_alloc_errors := m_alloc_errors s1 + 1\<rparr>, w2))
              | (True, w2) \<Rightarrow>
                  (case l_decode L w2 (the (m_codec_context s1)) data of
                     (None, w3) \<Rightarrow> (pcm_empty, (s1\<lparr>m_send_errors := m_send_errors s1 + 1\<rparr>, w3))
                   | (Some rs, w3) \<Rightarrow>
                       (case receive_loop L (s1, w3) pcm_empty rs of (sw4, out) \<Rightarrow> (out, sw4))))))"

section \<open>Lemmas on the bit writer\<close>

definition byte_bits :: "u8 \<Rightarrow> bool list" where
  "byte_bits b = map (\<lambda>i. bit b (7 - i)) [0..<8]"

definition bits_of :: "bytes \<Rightarrow> bool list" where
  "bits_of bs = concat (map byte_bits bs)"

definition bits_be :: "nat \<Rightarrow> u32 \<Rightarrow> bool list" where
  "bits_be n v = map (bit v) (rev [0..<n])"

text \<open>The bits written so far, the rest of the last byte being zero.\<close>

definition writer_holds :: "bit_writer \<Rightarrow> bool list \<Rightarrow> bool" where
  "writer_holds w bl = (length bl = m_used w \<and>
     bits_of (m_bytes w) = bl @ replicate ((8 - m_used w mod 8) mod 8) False)"

lemma length_byte_bits [simp]: "length (byte_bits b) = 8"
  by (simp add: byte_bits_def)

lemma length_bits_of [simp]: "length (bits_of bs) = 8 * length bs"
  by (induction bs) (simp_all add: bits_of_def)

lemma bits_of_append: "bits_of (a @ b) = bits_of a @ bits_of b"
  by (simp add: bits_of_def)

lemma byte_bits_zero: "byte_bits 0 = replicate 8 False"
  by (simp add: byte_bits_def map_replicate_const)

lemma byte_bits_or:
  assumes "k < 8"
  shows "byte_bits (x OR drop_bit k 0x80) = (byte_bits x)[k := True]"
proof (rule nth_equalityI)
  fix i assume "i < length (byte_bits (x OR drop_bit k 0x80))"
  then have i: "i < 8" by simp
  have b7: "bit (0x80 :: u8) j \<longleftrightarrow> j = 7" for j
  proof -
    have "(0x80 :: u8) = 2 ^ 7" by simp
    then show ?thesis by (simp only: bit_exp_iff) (auto simp: possible_bit_def)
  qed
  have "bit (drop_bit k (0x80 :: u8)) (7 - i) \<longleftrightarrow> k + (7 - i) = 7"
    by (simp only: bit_drop_bit_eq comp_def b7)
  then have "bit (drop_bit k (0x80 :: u8)) (7 - i) \<longleftrightarrow> i = k"
    using i assms by linarith
  then show "byte_bits (x OR drop_bit k 0x80) ! i = (byte_bits x)[k := True] ! i"
    using i assms by (simp add: byte_bits_def bit_or_iff nth_list_update)
qed simp

lemma put_bit_holds:
  assumes "writer_holds w bl"
  shows "writer_holds (put_bit b w) (bl @ [b])"
proof -
  let ?k = "m_used w mod 8"
  define bs where "bs = (if ?k = 0 then m_bytes w @ [0] else m_bytes w)"
  have len: "length bl = m_used w" using assms by (simp add: writer_holds_def)
  have bits: "bits_of bs = bl @ replicate (8 - ?k) False"
    using assms by (auto simp: bs_def writer_holds_def bits_of_append bits_of_def byte_bits_zero)
  have l8: "8 * length bs = m_used w + (8 - ?k)"
    using arg_cong [OF bits, of length] len by simp
  have ne: "bs \<noteq> []"
  proof
    assume "bs = []"
    with l8 have "8 - ?k = 0" by simp
    moreover have "?k < 8" by simp
    ultimately show False by linarith
  qed
  have pad: "(8 - (m_used w + 1) mod 8) mod 8 = 7 - ?k" by (simp add: mod_Suc)
  have k8: "?k < 8" by simp
  then have "8 - ?k = Suc (7 - ?k)" by linarith
  then have rep: "replicate (8 - ?k) False = False # replicate (7 - ?k) False"
    by (simp only: replicate_Suc)
  have used: "m_used (put_bit b w) = m_used w + 1" by (simp add: put_bit_def Let_def)
  have "bits_of (m_bytes (put_bit b w)) = bl @ b # replicate (7 - ?k) False"
  proof (cases b)
    case False
    then show ?thesis using bits rep by (simp add: put_bit_def bs_def [symmetric])
  next
    case True
    obtain cs x where cs: "bs = cs @ [x]" using ne by (cases bs rule: rev_cases) auto
    have pos: "m_used w = 8 * length cs + ?k"
    proof -
      have "8 * length cs + 8 = m_used w + (8 - ?k)" using l8 cs by simp
      moreover have "m_used w = 8 * (m_used w div 8) + ?k" by simp
      ultimately show ?thesis using k8 by linarith
    qed
    have "m_bytes (put_bit b w) = cs @ [x OR drop_bit ?k 0x80]"
      using True cs by (simp add: put_bit_def bs_def [symmetric])
    then have "bits_of (m_bytes (put_bit b w)) = bits_of cs @ (byte_bits x)[?k := True]"
      by (simp add: bits_of_append byte_bits_or) (simp add: bits_of_def byte_bits_or)
    also have "\<dots> = (bits_of bs)[8 * length cs + ?k := True]"
      by (simp add: cs bits_of_append list_update_append) (simp add: bits_of_def)
    also have "\<dots> = (bits_of bs)[m_used w := True]" by (simp only: pos [symmetric])
    also have "\<dots> = bl @ True # replicate (7 - ?k) False"
      using rep unfolding bits len [symmetric] by (simp add: list_update_append)
    finally show ?thesis using True by simp
  qed
  then show ?thesis using len used pad by (simp add: writer_holds_def)
qed

lemma put_holds: "writer_holds w bl \<Longrightarrow> writer_holds (put v n w) (bl @ bits_be n v)"
proof (induction n arbitrary: w bl)
  case 0
  then show ?case by (simp add: bits_be_def)
next
  case (Suc n)
  from Suc.IH [OF put_bit_holds [OF Suc.prems, of "bit v n"]]
  show ?case by (simp add: bits_be_def)
qed

lemma writer_new_holds: "writer_holds writer_new []"
  by (simp add: writer_holds_def writer_new_def bits_of_def)

definition bits_value :: "bool list \<Rightarrow> nat" where
  "bits_value bl = foldl (\<lambda>v b. 2 * v + of_bool b) 0 bl"

lemma foldl_bits: "foldl (\<lambda>v b. 2 * v + of_bool b) (a :: nat) bl = a * 2 ^ length bl + bits_value bl"
  unfolding bits_value_def
proof (induction bl arbitrary: a)
  case Nil
  then show ?case by simp
next
  case (Cons b bl)
  show ?case using Cons [of "2 * a + of_bool b"] Cons [of "of_bool b"] by (simp add: algebra_simps)
qed

lemma bits_value_be: "n \<le> 32 \<Longrightarrow> bits_value (bits_be n v) = take_bit n (unat v)"
proof (induction n)
  case 0
  then show ?case by (simp add: bits_be_def bits_value_def)
next
  case (Suc n)
  have "bits_value (bits_be (Suc n) v) = of_bool (bit v n) * 2 ^ n + bits_value (bits_be n v)"
    using foldl_bits [of "of_bool (bit v n)" "bits_be n v"] by (simp add: bits_be_def bits_value_def)
  moreover have "bit (unat v) n = bit v n" using Suc.prems by (simp add: bit_unsigned_iff possible_bit_def)
  ultimately show ?case
    using Suc take_bit_Suc_from_most [of n "unat v"] by simp
qed

lemma bits_value_of_nat: "n \<le> 32 \<Longrightarrow> x < 2 ^ n \<Longrightarrow> bits_value (bits_be n (of_nat x)) = x"
proof -
  assume n: "n \<le> 32" "x < 2 ^ n"
  then have "x < 2 ^ 32" by (meson less_le_trans one_le_numeral power_increasing)
  then have "unat (of_nat x :: u32) = x" by (simp add: unat_of_nat)
  then show ?thesis using n bits_value_be [OF n(1), of "of_nat x"] by (simp add: take_bit_nat_eq_self)
qed

lemma length_bits_be [simp]: "length (bits_be n v) = n"
  by (simp add: bits_be_def)

section \<open>Lemmas on setup data\<close>

text \<open>Reading an AudioSpecificConfig as a decoder does: object type, rate, channels, frame flag.\<close>

definition read_object_type :: "bool list \<Rightarrow> nat \<times> bool list" where
  "read_object_type bl =
     (if bits_value (take 5 bl) = 31 then (32 + bits_value (take 6 (drop 5 bl)), drop 11 bl)
      else (bits_value (take 5 bl), drop 5 bl))"

definition read_frequency :: "bool list \<Rightarrow> int \<times> bool list" where
  "read_frequency bl =
     (if bits_value (take 4 bl) = 15 then (int (bits_value (take 24 (drop 4 bl))), drop 28 bl)
      else (kRates ! bits_value (take 4 bl), drop 4 bl))"

definition read_asc :: "bytes \<Rightarrow> nat \<times> int \<times> int \<times> bool" where
  "read_asc bs =
     (case read_object_type (bits_of bs) of (object_type, r1) \<Rightarrow>
        (case read_frequency r1 of (rate, r2) \<Rightarrow>
           (object_type, rate, int (bits_value (take 4 r2)), r2 ! 4)))"

definition object_type_bits :: "int \<Rightarrow> bool list" where
  "object_type_bits object_type =
     (if object_type \<ge> 32 then bits_be 5 31 @ bits_be 6 (word_of_int (object_type - 32))
      else bits_be 5 (word_of_int object_type))"

definition frequency_bits :: "int \<Rightarrow> bool list" where
  "frequency_bits rate =
     (let index = aacFrequencyIndex rate
      in bits_be 4 (of_nat index) @ (if index = 15 then bits_be 24 (word_of_int rate) else []))"

text \<open>Whether the config says the shorter of the two frame lengths.\<close>

definition short_frame :: "int \<Rightarrow> audio_format \<Rightarrow> bool" where
  "short_frame object_type f =
     (if object_type = 39 then a_frame_samples f = 480 \<or> a_frame_samples f \<le> 0 else a_frame_samples f = 960)"

lemma bits_be_one: "bits_be 1 (if b then 1 else 0) = [b]"
  by (simp add: bits_be_def)

lemma asc_bits:
  "\<exists>pad. bits_of (aacAudioSpecificConfig object_type f) =
     object_type_bits object_type @ frequency_bits (a_sample_rate f) @
     bits_be 4 (word_of_int (a_channels f)) @ short_frame object_type f # pad"
proof -
  let ?index = "aacFrequencyIndex (a_sample_rate f)"
  define w1 where "w1 = (if object_type \<ge> 32 then put (word_of_int (object_type - 32)) 6 (put 31 5 writer_new)
      else put (word_of_int object_type) 5 writer_new)"
  define w2 where "w2 = put (of_nat ?index) 4 w1"
  define w3 where "w3 = (if ?index = 15 then put (word_of_int (a_sample_rate f)) 24 w2 else w2)"
  define w4 where "w4 = put (word_of_int (a_channels f)) 4 w3"
  define fl where "fl = short_frame object_type f"
  define w5 where "w5 = put (if fl then 1 else 0) 1 w4"
  define w6 where "w6 = (if object_type = 39 then put 0 4 (put 0 1 (put 0 3 w5)) else put 0 1 (put 0 1 w5))"
  let ?bl = "object_type_bits object_type @ frequency_bits (a_sample_rate f) @ bits_be 4 (word_of_int (a_channels f)) @ [fl]"
  have h1: "writer_holds w1 (object_type_bits object_type)"
    unfolding w1_def object_type_bits_def using put_holds [OF writer_new_holds, of _ 5] put_holds by fastforce
  have h3: "writer_holds w3 (object_type_bits object_type @ frequency_bits (a_sample_rate f))"
    using put_holds [OF h1, of "of_nat ?index" 4]
      put_holds [OF put_holds [OF h1, of "of_nat ?index" 4], of "word_of_int (a_sample_rate f)" 24]
    by (auto simp: w3_def w2_def frequency_bits_def Let_def)
  have h5: "writer_holds w5 ?bl"
    using put_holds [OF put_holds [OF h3], of "if fl then 1 else 0" 1 "word_of_int (a_channels f)" 4]
    unfolding w5_def w4_def bits_be_one by (simp only: append_assoc)
  have "\<exists>q. writer_holds w6 (?bl @ q)"
    using put_holds [OF put_holds [OF put_holds [OF h5, of 0 3], of 0 1], of 0 4]
      put_holds [OF put_holds [OF h5, of 0 1], of 0 1]
    by (auto simp: w6_def)
  then obtain q where "bits_of (m_bytes w6) = (?bl @ q) @ replicate ((8 - m_used w6 mod 8) mod 8) False"
    by (auto simp: writer_holds_def)
  moreover have "aacAudioSpecificConfig object_type f = m_bytes w6"
    by (auto simp: aacAudioSpecificConfig_def Let_def w6_def w5_def w4_def w3_def w2_def w1_def fl_def short_frame_def)
  ultimately show ?thesis by (auto simp: fl_def)
qed

lemma bits_value_int: "n \<le> 32 \<Longrightarrow> 0 \<le> x \<Longrightarrow> x < 2 ^ n \<Longrightarrow> int (bits_value (bits_be n (word_of_int x))) = x"
  using bits_value_of_nat [of n "nat x"] by (simp add: nat_less_iff)

lemma read_object_type_bits:
  assumes "0 \<le> t \<and> t < 31 \<or> 32 \<le> t \<and> t < 96"
  shows "read_object_type (object_type_bits t @ r) = (nat t, r)"
proof (cases "t \<ge> 32")
  case True
  have "bits_value (bits_be 5 31) = 31" using bits_value_of_nat [of 5 31] by simp
  moreover have "int (bits_value (bits_be 6 (word_of_int (t - 32)))) = t - 32"
    using True assms by (intro bits_value_int) auto
  ultimately show ?thesis
    using True by (simp add: read_object_type_def object_type_bits_def nat_add_distrib)
next
  case False
  then have "int (bits_value (bits_be 5 (word_of_int t))) = t" "t < 31"
    using assms by (auto intro!: bits_value_int)
  then show ?thesis using False by (auto simp: read_object_type_def object_type_bits_def)
qed

lemma aacFrequencyIndex_cases:
  "aacFrequencyIndex rate < 13 \<and> kRates ! aacFrequencyIndex rate = rate \<or> aacFrequencyIndex rate = 15"
proof (cases "index_of (\<lambda>r. r = rate) kRates")
  case (Some i)
  then have "aacFrequencyIndex rate = i" by (simp add: aacFrequencyIndex_def)
  moreover have "length kRates = 13" by (simp add: kRates_def)
  ultimately show ?thesis using Some by (simp add: index_of_Some_iff)
qed (simp add: aacFrequencyIndex_def)

lemma read_frequency_bits:
  assumes "0 \<le> rate" and "rate < 2 ^ 24"
  shows "read_frequency (frequency_bits rate @ r) = (rate, r)"
proof -
  have "aacFrequencyIndex rate < 2 ^ 4" using aacFrequencyIndex_cases [of rate] by auto
  then have i: "bits_value (bits_be 4 (of_nat (aacFrequencyIndex rate))) = aacFrequencyIndex rate"
    by (intro bits_value_of_nat) auto
  have "int (bits_value (bits_be 24 (word_of_int rate))) = rate"
    using assms by (intro bits_value_int) auto
  then show ?thesis
    using i aacFrequencyIndex_cases [of rate]
    by (auto simp: read_frequency_def frequency_bits_def Let_def)
qed

lemma read_asc_config:
  assumes "0 \<le> t \<and> t < 31 \<or> 32 \<le> t \<and> t < 96" and "0 \<le> a_sample_rate f" and "a_sample_rate f < 2 ^ 24"
    and "0 \<le> a_channels f" and "a_channels f < 16"
  shows "read_asc (aacAudioSpecificConfig t f) = (nat t, a_sample_rate f, a_channels f, short_frame t f)"
proof -
  obtain pad where bits: "bits_of (aacAudioSpecificConfig t f) = object_type_bits t @
      frequency_bits (a_sample_rate f) @ bits_be 4 (word_of_int (a_channels f)) @ short_frame t f # pad"
    using asc_bits by blast
  have "int (bits_value (bits_be 4 (word_of_int (a_channels f)))) = a_channels f"
    using assms(4,5) by (intro bits_value_int) auto
  then show ?thesis
    unfolding read_asc_def bits read_object_type_bits [OF assms(1)] prod.case read_frequency_bits [OF assms(2,3)]
    by (simp add: nth_append)
qed

definition be_value :: "bytes \<Rightarrow> nat" where
  "be_value bs = foldl (\<lambda>v b. 256 * v + unat b) 0 bs"

lemma foldl_bytes: "foldl (\<lambda>v b. 256 * v + unat b) a bs = a * 256 ^ length bs + be_value bs"
  unfolding be_value_def
proof (induction bs arbitrary: a)
  case Nil
  then show ?case by simp
next
  case (Cons b bs)
  show ?case using Cons [of "256 * a + unat b"] Cons [of "unat b"] by (simp add: algebra_simps)
qed

lemma be_value_Cons: "be_value (b # bs) = unat b * 256 ^ length bs + be_value bs"
  using foldl_bytes [of "unat b" bs] by (simp add: be_value_def)

lemma length_putBigEndian [simp]: "length (putBigEndian v n) = n"
  by (induction n) simp_all

lemma be_value_put: "be_value (putBigEndian v n) = unat v mod 256 ^ n"
proof (induction n)
  case 0
  then show ?case by (simp add: be_value_def)
next
  case (Suc n)
  have "unat (ucast (drop_bit (8 * n) v) :: u8) = unat v div 256 ^ n mod 256"
  proof -
    have "unat (drop_bit (8 * n) v) = unat v div 256 ^ n"
      unfolding unat_drop_bit_eq by (simp add: drop_bit_eq_div power_mult)
    then show ?thesis by (simp only: unsigned_ucast_eq take_bit_eq_mod) simp
  qed
  then show ?case
    using Suc mod_mult2_eq [of "unat v" "256 ^ n" 256] by (simp add: be_value_Cons mult.commute)
qed

text \<open>Reading a magic cookie: its size and atom, and the fields the decoder takes.\<close>

definition read_cookie :: "bytes \<Rightarrow> nat \<times> bytes \<times> int \<times> int \<times> int \<times> int" where
  "read_cookie c =
     (be_value (take 4 c), take 4 (drop 4 c), int (be_value (take 4 (drop 12 c))), uint (c ! 17),
      uint (c ! 21), int (be_value (take 4 (drop 32 c))))"

lemma be_value_int: "0 \<le> x \<Longrightarrow> x < 2 ^ 32 \<Longrightarrow> int (be_value (putBigEndian (word_of_int x) 4)) = x"
proof -
  assume x: "0 \<le> x" "x < 2 ^ 32"
  then have "uint (word_of_int x :: u32) = x" by (simp add: uint_word_of_int)
  then have "int (unat (word_of_int x :: u32)) = x" by simp
  moreover have "unat (word_of_int x :: u32) < 256 ^ 4" using unsigned_less [of "word_of_int x :: u32"] by simp
  ultimately show ?thesis by (simp only: be_value_put mod_less)
qed

lemma uint_byte: "0 \<le> x \<Longrightarrow> x < 256 \<Longrightarrow> uint (word_of_int x :: u8) = x"
  by (simp add: uint_word_of_int)

lemma read_cookie_cookie:
  assumes "0 \<le> a_frame_samples f" and "a_frame_samples f < 2 ^ 31" and "0 \<le> a_bit_depth f" and "a_bit_depth f < 256"
    and "0 \<le> a_channels f" and "a_channels f < 256" and "0 \<le> a_sample_rate f" and "a_sample_rate f < 2 ^ 31"
  shows "length (alacMagicCookie f) = 36 \<and> read_cookie (alacMagicCookie f) =
    (36, [0x61, 0x6C, 0x61, 0x63], if a_frame_samples f > 0 then a_frame_samples f else 352, a_bit_depth f,
     a_channels f, a_sample_rate f)"
proof -
  let ?frame = "if a_frame_samples f > 0 then a_frame_samples f else 352"
  have c: "alacMagicCookie f =
      putBigEndian 36 4 @ [0x61, 0x6C, 0x61, 0x63] @ putBigEndian 0 4 @ putBigEndian (word_of_int ?frame) 4 @
      [0, word_of_int (a_bit_depth f), 40, 10, 14, word_of_int (a_channels f)] @
      (putBigEndian 255 2 @ putBigEndian 0 4 @ putBigEndian 0 4) @ putBigEndian (word_of_int (a_sample_rate f)) 4"
    by (simp add: alacMagicCookie_def)
  have "be_value (putBigEndian 36 4) = 36" by (simp add: be_value_put)
  moreover have "int (be_value (putBigEndian (word_of_int ?frame) 4)) = ?frame"
    using assms by (intro be_value_int) auto
  moreover have "int (be_value (putBigEndian (word_of_int (a_sample_rate f)) 4)) = a_sample_rate f"
    using assms by (intro be_value_int) auto
  ultimately show ?thesis
    using assms uint_byte unfolding c read_cookie_def by (simp add: nth_append)
qed

section \<open>Lemmas on the decoder\<close>

text \<open>
  What holds of a decoder at any time: the open context was made for the type and format
  recorded with it, the resampler is open exactly when it is configured, for the input recorded
  with it at a positive rate, and the conversion buffer has the recorded size.
\<close>

definition context_matches :: "audio_decoder \<Rightarrow> bool" where
  "context_matches s =
     (\<forall>ctx. m_codec_context s = Some ctx \<longrightarrow>
        codec_setup (m_codec_type s) (m_opened_format s) = Some (c_codec ctx, c_extradata ctx) \<and>
        c_sample_rate ctx = a_sample_rate (m_opened_format s) \<and> c_channels ctx = a_channels (m_opened_format s))"

definition resampler_ok :: "audio_decoder \<Rightarrow> bool" where
  "resampler_ok s =
     (if m_resampler_configured s then
        m_input_sample_rate s > 0 \<and>
        (\<exists>lay. m_input_channel_layout s = Some lay \<and>
           m_swr_context s = Some \<lparr>s_out_rate = m_input_sample_rate s, s_in_layout = lay,
             s_in_format = m_input_sample_format s, s_in_rate = m_input_sample_rate s\<rparr>)
      else m_swr_context s = None)"

definition convert_ok :: "audio_decoder \<Rightarrow> bool" where
  "convert_ok s = (0 \<le> m_convert_capacity s \<and>
     m_convert s = (if m_convert_capacity s = 0 then None else Some (m_convert_capacity s)))"

definition decoder_ok :: "audio_decoder \<Rightarrow> bool" where
  "decoder_ok s = (context_matches s \<and> resampler_ok s \<and> convert_ok s)"

lemmas decoder_ok_defs = decoder_ok_def context_matches_def resampler_ok_def convert_ok_def

lemma resetResampler_ok: "context_matches s \<Longrightarrow> convert_ok s \<Longrightarrow> decoder_ok (resetResampler L s)"
  by (simp add: decoder_ok_defs resetResampler_def)

lemma openDecoder_ok:
  "decoder_ok s \<Longrightarrow> openDecoder L (s, w) ct = (ok, (s', w')) \<Longrightarrow>
     decoder_ok s' \<and> m_format s' = m_format s \<and> m_failed_codec_type s' = m_failed_codec_type s \<and>
     m_failed_calls s' = m_failed_calls s \<and>
     (ok \<longrightarrow> m_codec_context s' \<noteq> None \<and> m_codec_type s' = ct \<and> m_opened_format s' = m_format s)"
  by (auto simp: openDecoder_def decoder_ok_defs resetResampler_def Let_def
      split: option.splits if_splits prod.splits bool.splits)

text \<open>A packet goes to a decoder that was set up for its codec type and the negotiated format.\<close>

definition set_up_for :: "audio_decoder \<Rightarrow> u8 \<Rightarrow> bool" where
  "set_up_for s ct =
     (\<exists>ctx. m_codec_context s = Some ctx \<and> codec_setup ct (m_format s) = Some (c_codec ctx, c_extradata ctx) \<and>
        c_sample_rate ctx = a_sample_rate (m_format s) \<and> c_channels ctx = a_channels (m_format s))"

lemma context_set_up:
  "context_matches s \<Longrightarrow> m_codec_context s \<noteq> None \<Longrightarrow> m_opened_format s = m_format s \<Longrightarrow> set_up_for s (m_codec_type s)"
  by (auto simp: context_matches_def set_up_for_def)

lemma configureDecoder_ok:
  assumes "decoder_ok s" and "configureDecoder L (s, w) ct = (ok, (s', w'))"
  shows "decoder_ok s' \<and> m_format s' = m_format s \<and> (ok \<longrightarrow> set_up_for s' ct)"
proof -
  let ?s1 = "count_call ct s"
  have s1: "decoder_ok ?s1" "m_format ?s1 = m_format s"
    using assms(1) by (simp_all add: count_call_def decoder_ok_defs)
  obtain ok2 s2 w2 where o: "openDecoder L (?s1, w) ct = (ok2, (s2, w2))" by (metis prod.exhaust)
  note p = openDecoder_ok [OF s1(1) o]
  have n: "decoder_ok (note_attempt ct ok2 s2)" "m_format (note_attempt ct ok2 s2) = m_format s2"
    "set_up_for (note_attempt ct ok2 s2) ct = set_up_for s2 ct"
    using p by (auto simp: note_attempt_def decoder_ok_defs set_up_for_def)
  show ?thesis
    using assms o p n s1 context_set_up [of s] context_set_up [of s2]
    by (auto simp: configureDecoder_def decoder_ok_def split: if_splits)
qed

lemma frame_rate_pos: "0 < frame_rate frame"
  by (simp add: frame_rate_def kDefaultSampleRate_def)

lemma configureResampler_ok:
  assumes "decoder_ok s" and "configureResampler L (s, w) frame = (ok, (s', w'))"
  shows "decoder_ok s'"
proof (cases "m_codec_context s")
  case None
  then show ?thesis using assms by (auto simp: configureResampler_def)
next
  case (Some ctx)
  let ?s1 = "s\<lparr>m_output_sample_rate := frame_rate frame\<rparr>"
  have s1: "decoder_ok ?s1" "context_matches ?s1" "convert_ok ?s1"
    using assms(1) by (simp_all add: decoder_ok_defs)
  obtain ok2 w2 where m: "make_resampler L w \<lparr>s_out_rate = frame_rate frame, s_in_layout = frame_layout ctx frame,
      s_in_format = fr_format frame, s_in_rate = frame_rate frame\<rparr> = (ok2, w2)" by (metis prod.exhaust)
  have r: "decoder_ok (resetResampler L ?s1)" by (rule resetResampler_ok [OF s1(2,3)])
  then have "decoder_ok ((resetResampler L ?s1)\<lparr>m_input_channel_layout := Some (frame_layout ctx frame),
      m_swr_context := Some \<lparr>s_out_rate = frame_rate frame, s_in_layout = frame_layout ctx frame,
        s_in_format = fr_format frame, s_in_rate = frame_rate frame\<rparr>,
      m_input_sample_rate := frame_rate frame, m_input_sample_format := fr_format frame,
      m_resampler_configured := True\<rparr>)"
    by (simp add: decoder_ok_defs frame_rate_pos)
  then show ?thesis
    using assms(2) Some m r s1(1)
    by (cases ok2) (auto simp: configureResampler_def Let_def split: if_splits)
qed

lemma grow_convert_ok:
  "decoder_ok s \<Longrightarrow> \<not> n \<le> 0 \<Longrightarrow> grow_convert L n (s, w) = (ok, (s', w')) \<Longrightarrow> decoder_ok s'"
  by (auto simp: grow_convert_def decoder_ok_defs Let_def split: if_splits prod.splits)

lemma convert_frame_ok:
  assumes "decoder_ok s" and "convert_frame L (s, w) out frame = (go, (s', w'), out')"
  shows "decoder_ok s'"
proof -
  define n where "n = l_rescale_up L (l_swr_delay L w (the (m_swr_context s)) (m_input_sample_rate s) +
      fr_nb_samples frame) (m_output_sample_rate s) (m_input_sample_rate s)"
  obtain ok s2 w2 where g: "grow_convert L n (s, w) = (ok, (s2, w2))" by (metis prod.exhaust)
  have "\<not> n \<le> 0 \<Longrightarrow> s' = s2"
    using assms(2) g
    by (auto simp: convert_frame_def n_def [symmetric] Let_def split: bool.splits prod.splits option.splits if_splits)
  moreover have "n \<le> 0 \<Longrightarrow> s' = s"
    using assms(2) by (auto simp: convert_frame_def n_def [symmetric] Let_def)
  ultimately show ?thesis using assms(1) grow_convert_ok [OF assms(1) _ g] by blast
qed

lemma handle_frame_ok:
  assumes "decoder_ok s" and "handle_frame L (s, w) out frame = (go, (s', w'), out')"
  shows "decoder_ok s'"
proof -
  obtain ok s1 w1 where c: "configureResampler L (s, w) frame = (ok, (s1, w1))" by (metis prod.exhaust)
  have "decoder_ok s1" by (rule configureResampler_ok [OF assms(1) c])
  then show ?thesis
    using assms c convert_frame_ok [of s1 L w1 out frame go s' w' out']
    by (auto simp: handle_frame_def split: if_splits bool.splits)
qed

lemma receive_loop_ok: "decoder_ok s \<Longrightarrow> receive_loop L (s, w) out rs = ((s', w'), out') \<Longrightarrow> decoder_ok s'"
proof (induction rs arbitrary: s w out)
  case Nil
  then show ?case by simp
next
  case (Cons r rs)
  show ?case
  proof (cases r)
    case (Received frame)
    obtain go s1 w1 out1 where h: "handle_frame L (s, w) out frame = (go, (s1, w1), out1)" by (metis prod.exhaust)
    then show ?thesis using Cons Received handle_frame_ok [OF Cons.prems(1) h] by (cases go) auto
  next
    case Receive_failed
    then show ?thesis using Cons.prems by (auto simp: decoder_ok_defs)
  qed
qed

lemma decode_ok:
  assumes "decoder_ok s" and "decode L (s, w) data ct = (out, (s', w'))"
  shows "decoder_ok s'"
proof -
  obtain ok s1 w1 where c: "configureDecoder L (s, w) ct = (ok, (s1, w1))" by (metis prod.exhaust)
  have s1: "decoder_ok s1" using configureDecoder_ok [OF assms(1) c] by simp
  have e: "decoder_ok (s1\<lparr>m_alloc_errors := a\<rparr>)" "decoder_ok (s1\<lparr>m_send_errors := a\<rparr>)" for a
    using s1 by (simp_all add: decoder_ok_defs)
  show ?thesis
    using assms c s1 e receive_loop_ok [OF s1]
    by (auto simp: decode_def split: if_splits prod.splits bool.splits option.splits)
qed

lemma decoder_new_ok: "decoder_ok (fst (decoder_new L allocated w))"
proof -
  let ?s = "\<lparr>m_codec_context = None, m_allocated = allocated, m_swr_context = None, m_codec_type = 0,
     m_format = default_format, m_opened_format = default_format,
     m_output_sample_rate = kDefaultSampleRate, m_input_sample_rate = 0,
     m_input_sample_format = l_fmt_none L, m_resampler_configured = False, m_convert = None,
     m_convert_capacity = 0, m_failed_codec_type = 0, m_failed_calls = 0, m_alloc_errors = 0,
     m_send_errors = 0, m_decode_errors = 0, m_input_channel_layout = None\<rparr>"
  have "decoder_ok ?s" by (simp add: decoder_ok_defs)
  then show ?thesis
    using configureDecoder_ok [of ?s L w 8] unfolding decoder_new_def
    by (cases "configureDecoder L (?s, w) 8") auto
qed

text \<open>The operations as events of a machine.\<close>

datatype decoder_event = Decode bytes u8 | Flush | Set_format audio_format

fun decoder_step :: "('w, 'f) audio_lib \<Rightarrow> audio_decoder \<times> 'w \<Rightarrow> decoder_event \<Rightarrow> (audio_decoder \<times> 'w) \<times> 'f pcm" where
  "decoder_step L sw (Decode data ct) = (case decode L sw data ct of (out, sw') \<Rightarrow> (sw', out))"
| "decoder_step L sw Flush = (flush L sw, pcm_empty)"
| "decoder_step L (s, w) (Set_format f) = ((setStreamFormat f s, w), pcm_empty)"

interpretation audio_machine: machine "decoder_step L" "\<lambda>e. True" "\<lambda>sw. decoder_ok (fst sw)"
proof (unfold_locales, goal_cases)
  case (1 sw e)
  obtain s w where sw: "sw = (s, w)" by (cases sw)
  have s: "decoder_ok s" using 1 sw by simp
  show ?case
  proof (cases e)
    case (Decode data ct)
    then show ?thesis using decode_ok [OF s, of L w data ct] by (auto simp: sw split: prod.split)
  next
    case Flush
    then show ?thesis
      using s resetResampler_ok [of s L] by (simp add: sw flush_def decoder_ok_def)
  next
    case (Set_format f)
    then show ?thesis using s by (simp add: sw setStreamFormat_def decoder_ok_defs)
  qed
qed

section \<open>Lemmas on retries and output\<close>

text \<open>A library whose decoders never open, in a world that counts the attempts.\<close>

definition never_opens :: "('w, 'f) audio_lib \<Rightarrow> ('w \<Rightarrow> nat) \<Rightarrow> bool" where
  "never_opens L attempts =
     ((\<forall>c. l_find_decoder L c) \<and>
      (\<forall>w c. \<not> fst (open_context L w c) \<and> attempts (snd (open_context L w c)) = attempts w + 1))"

definition configure_again ::
    "('w, 'f) audio_lib \<Rightarrow> u8 \<Rightarrow> audio_decoder \<times> 'w \<Rightarrow> audio_decoder \<times> 'w" where
  "configure_again L ct sw = snd (configureDecoder L sw ct)"

lemma openDecoder_fails:
  assumes "never_opens L attempts" and "codec_setup ct (m_format s) \<noteq> None"
  shows "\<exists>s' w'. openDecoder L (s, w) ct = (False, (s', w')) \<and> attempts w' = attempts w + 1 \<and>
    m_codec_context s' = None \<and> m_format s' = m_format s \<and>
    m_failed_codec_type s' = m_failed_codec_type s \<and> m_failed_calls s' = m_failed_calls s"
proof -
  obtain codec data where c: "codec_setup ct (m_format s) = Some (codec, data)" using assms(2) by auto
  let ?ctx = "\<lparr>c_codec = codec, c_sample_rate = a_sample_rate (m_format s),
      c_channels = a_channels (m_format s), c_extradata = data\<rparr>"
  obtain b w' where o: "open_context L w ?ctx = (b, w')" by (metis prod.exhaust)
  then have "\<not> b" "attempts w' = attempts w + 1"
    using assms(1) unfolding never_opens_def by (metis fst_conv, metis snd_conv)
  then show ?thesis
    using assms(1) c o by (simp add: openDecoder_def never_opens_def resetResampler_def Let_def)
qed

lemma retry_run:
  assumes "never_opens L attempts" and "codec_setup ct f \<noteq> None" and "m_format s = f"
    and "m_codec_context s = None" and "m_failed_codec_type s = ct" and "m_failed_calls s = 0"
  shows "n < 2 ^ 32 \<Longrightarrow> \<exists>s' w'. (configure_again L ct ^^ n) (s, w) = (s', w') \<and>
    attempts w' = attempts w + n div 500 \<and> m_format s' = f \<and> m_codec_context s' = None \<and>
    m_failed_codec_type s' = ct \<and> m_failed_calls s' = of_nat n"
proof (induction n)
  case 0
  then show ?case using assms by simp
next
  case (Suc n)
  then obtain s1 w1 where i: "(configure_again L ct ^^ n) (s, w) = (s1, w1)" "attempts w1 = attempts w + n div 500"
    "m_format s1 = f" "m_codec_context s1 = None" "m_failed_codec_type s1 = ct" "m_failed_calls s1 = of_nat n" by auto
  let ?s2 = "count_call ct s1"
  have s2: "m_format ?s2 = f" "m_codec_context ?s2 = None" "m_failed_codec_type ?s2 = ct" "m_failed_calls ?s2 = of_nat (Suc n)"
    using i by (simp_all add: count_call_def)
  have "unat (of_nat k :: u32) = k" if "k < 2 ^ 32" for k using that by (simp add: unat_of_nat)
  from this [OF Suc.prems] have "unat (of_nat (Suc n) :: u32) = Suc n" .
  then have "unat ((of_nat (Suc n) :: u32) mod 500) = Suc n mod 500" by (simp only: unat_mod) simp
  then have "(of_nat (Suc n) :: u32) mod 500 = 0 \<longleftrightarrow> Suc n mod 500 = 0" by (metis unat_eq_zero)
  then have h: "holds_back s1 ct \<longleftrightarrow> Suc n mod 500 \<noteq> 0"
    using i by (simp add: holds_back_def kRetryEveryCalls_def add.commute)
  show ?case
  proof (cases "Suc n mod 500 = 0")
    case True
    have "codec_setup ct (m_format ?s2) \<noteq> None" using assms(2) s2(1) by simp
    from openDecoder_fails [OF assms(1) this, of w1]
    obtain s3 w3 where o: "openDecoder L (?s2, w1) ct = (False, (s3, w3))" "attempts w3 = attempts w1 + 1"
      "m_codec_context s3 = None" "m_format s3 = f" "m_failed_codec_type s3 = ct" "m_failed_calls s3 = of_nat (Suc n)"
      using s2 by auto
    then have "configure_again L ct (s1, w1) = (s3, w3)"
      using True h i(4) by (simp add: configure_again_def configureDecoder_def note_attempt_def)
    moreover have "Suc n div 500 = n div 500 + 1" using True by (simp add: div_Suc)
    ultimately show ?thesis using i o by simp
  next
    case False
    then have "configure_again L ct (s1, w1) = (?s2, w1)"
      using h i(4) by (simp add: configure_again_def configureDecoder_def)
    moreover have "Suc n div 500 = n div 500" using False by (simp add: div_Suc)
    ultimately show ?thesis using i s2 by simp
  qed
qed

lemma first_failure:
  assumes "never_opens L attempts" and "codec_setup ct (m_format s) \<noteq> None"
    and "m_failed_codec_type s \<noteq> ct" and "m_codec_context s = None"
  shows "\<exists>s' w'. configure_again L ct (s, w) = (s', w') \<and> attempts w' = attempts w + 1 \<and> m_format s' = m_format s \<and>
    m_codec_context s' = None \<and> m_failed_codec_type s' = ct \<and> m_failed_calls s' = 0"
proof -
  have c: "count_call ct s = s" "\<not> holds_back s ct" using assms(3) by (auto simp: count_call_def holds_back_def)
  from openDecoder_fails [OF assms(1,2), of w] obtain s' w' where
    "openDecoder L (s, w) ct = (False, (s', w'))" "attempts w' = attempts w + 1" "m_codec_context s' = None"
    "m_format s' = m_format s" "m_failed_codec_type s' = m_failed_codec_type s" by auto
  then show ?thesis
    using c assms(3,4) by (simp add: configure_again_def configureDecoder_def note_attempt_def)
qed

text \<open>What FFmpeg promises of its output: both planes have as many samples.\<close>

definition equal_planes :: "('w, 'f) audio_lib \<Rightarrow> bool" where
  "equal_planes L =
     ((\<forall>w c d rs w'. l_decode L w c d = (Some rs, w') \<longrightarrow>
         (\<forall>frame. Received frame \<in> set rs \<longrightarrow>
            (\<forall>p \<in> {fr_plane0 frame, fr_plane1 frame}. \<forall>xs. p = Some xs \<longrightarrow> length xs = nat (fr_nb_samples frame)))) \<and>
      (\<forall>w s n frame l r w'. l_swr_convert L w s n frame = (Some (l, r), w') \<longrightarrow> length l = length r))"

definition balanced :: "'f pcm \<Rightarrow> bool" where
  "balanced out = (length (p_left out) = length (p_right out) \<and> (p_produced out \<longleftrightarrow> p_left out \<noteq> []))"

lemma convert_frame_balanced:
  assumes "equal_planes L" and "balanced out" and "convert_frame L (s, w) out frame = (go, sw', out')"
  shows "balanced out'"
proof -
  have c: "l_swr_convert L w s n frame = (Some (l, r), w') \<Longrightarrow> length l = length r" for w s n l r w'
    using conjunct2 [OF assms(1) [unfolded equal_planes_def]] by blast
  define n where "n = l_rescale_up L (l_swr_delay L w (the (m_swr_context s)) (m_input_sample_rate s) +
      fr_nb_samples frame) (m_output_sample_rate s) (m_input_sample_rate s)"
  obtain ok s2 w2 where g: "grow_convert L n (s, w) = (ok, (s2, w2))" by (metis prod.exhaust)
  obtain res w3 where v: "l_swr_convert L w2 (the (m_swr_context s)) n frame = (res, w3)" by (metis prod.exhaust)
  have "out' = out \<or> (\<exists>l r. res = Some (l, r) \<and> l \<noteq> [] \<and>
      out' = \<lparr>p_left = p_left out @ l, p_right = p_right out @ r, p_rate = m_output_sample_rate s2, p_produced = True\<rparr>)"
    using assms(3) g v
    by (auto simp: convert_frame_def n_def [symmetric] Let_def split: bool.splits option.splits if_splits)
  then show ?thesis using assms(2) c v by (auto simp: balanced_def)
qed

lemma handle_frame_balanced:
  assumes "equal_planes L" and "l_decode L w0 c d = (Some rs, w1)" and "Received frame \<in> set rs"
    and "balanced out" and "handle_frame L sw out frame = (go, sw', out')"
  shows "balanced out'"
proof (cases "planar_stereo L frame")
  case True
  then obtain l r where lr: "fr_plane0 frame = Some l" "fr_plane1 frame = Some r" "fr_nb_samples frame > 0"
    by (auto simp: planar_stereo_def)
  then have "length l = nat (fr_nb_samples frame)" "length r = nat (fr_nb_samples frame)"
    using assms(1-3) unfolding equal_planes_def by blast+
  then show ?thesis using assms(4,5) True lr by (auto simp: handle_frame_def balanced_def)
next
  case False
  obtain ok s1 w2 where "configureResampler L sw frame = (ok, (s1, w2))" by (metis prod.exhaust)
  then show ?thesis
    using assms(4,5) False convert_frame_balanced [OF assms(1,4), of s1 w2 frame go sw' out']
    by (cases ok) (auto simp: handle_frame_def)
qed

lemma receive_loop_balanced:
  assumes "equal_planes L" and "l_decode L w0 c d = (Some rs0, w1)"
  shows "set rs \<subseteq> set rs0 \<Longrightarrow> balanced out \<Longrightarrow> receive_loop L sw out rs = (sw', out') \<Longrightarrow> balanced out'"
proof (induction rs arbitrary: sw out)
  case Nil
  then show ?case by simp
next
  case (Cons r rs)
  obtain s w where sw: "sw = (s, w)" by (cases sw)
  show ?case
  proof (cases r)
    case (Received frame)
    obtain go sw1 out1 where h: "handle_frame L sw out frame = (go, sw1, out1)" by (metis prod.exhaust)
    have "balanced out1"
      by (rule handle_frame_balanced [OF assms _ Cons.prems(2) h]) (use Cons.prems(1) Received in simp)
    then show ?thesis using Cons h Received sw by (cases go) auto
  next
    case Receive_failed
    then show ?thesis using Cons.prems sw by auto
  qed
qed

lemma decode_balanced:
  assumes "equal_planes L" and "decode L sw data ct = (out, sw')"
  shows "balanced out"
proof -
  have e: "balanced pcm_empty" by (simp add: balanced_def pcm_empty_def)
  show ?thesis
    using assms(2) e receive_loop_balanced [OF assms(1) _ subset_refl e]
    by (auto simp: decode_def split: if_splits bool.splits prod.splits option.splits)
qed

section \<open>Where packets go\<close>

text \<open>
  A log in the world that records which context is given which packet, and that nothing else changes.
\<close>

definition records_sends :: "('w \<Rightarrow> (codec_context \<times> bytes) list) \<Rightarrow> ('w, 'f) audio_lib \<Rightarrow> bool" where
  "records_sends log L \<longleftrightarrow>
     (\<forall>w c d. log (snd (l_decode L w c d)) = log w @ [(c, d)]) \<and>
     (\<forall>w. log (snd (l_alloc_context L w)) = log w) \<and> (\<forall>w. log (snd (l_alloc_extradata L w)) = log w) \<and>
     (\<forall>w c. log (snd (l_open2 L w c)) = log w) \<and> (\<forall>w n. log (snd (l_new_packet L w n)) = log w) \<and>
     (\<forall>w. log (snd (l_layout_copy L w)) = log w) \<and> (\<forall>w s. log (snd (l_swr_alloc L w s)) = log w) \<and>
     (\<forall>w. log (snd (l_swr_init L w)) = log w) \<and> (\<forall>w n. log (snd (l_samples_alloc L w n)) = log w) \<and>
     (\<forall>w s n f. log (snd (l_swr_convert L w s n f)) = log w) \<and> (\<forall>w. log (l_flush_buffers L w) = log w)"

lemma records_sendsD:
  assumes "records_sends log L"
  shows "l_decode L w c d = (x, w') \<Longrightarrow> log w' = log w @ [(c, d)]"
    "l_alloc_context L w = (b, w') \<Longrightarrow> log w' = log w" "l_alloc_extradata L w = (b, w') \<Longrightarrow> log w' = log w"
    "l_open2 L w c = (b, w') \<Longrightarrow> log w' = log w" "l_new_packet L w n = (b, w') \<Longrightarrow> log w' = log w"
    "l_layout_copy L w = (b, w') \<Longrightarrow> log w' = log w" "l_swr_alloc L w q = (b, w') \<Longrightarrow> log w' = log w"
    "l_swr_init L w = (b, w') \<Longrightarrow> log w' = log w" "l_samples_alloc L w k = (b, w') \<Longrightarrow> log w' = log w"
    "l_swr_convert L w q k f = (v, w') \<Longrightarrow> log w' = log w" "log (l_flush_buffers L w) = log w"
  using assms unfolding records_sends_def by (metis snd_conv)+

lemma open_context_log: "records_sends log L \<Longrightarrow> open_context L w c = (b, w') \<Longrightarrow> log w' = log w"
  by (auto simp: open_context_def split: prod.splits bool.splits if_splits) (metis records_sendsD(2-4))+

lemma openDecoder_log: "records_sends log L \<Longrightarrow> openDecoder L (s, w) ct = (b, (s', w')) \<Longrightarrow> log w' = log w"
  by (auto simp: openDecoder_def Let_def dest: open_context_log split: option.splits prod.splits bool.splits if_splits)

lemma configureDecoder_log: "records_sends log L \<Longrightarrow> configureDecoder L (s, w) ct = (b, (s', w')) \<Longrightarrow> log w' = log w"
  by (auto simp: configureDecoder_def dest: openDecoder_log split: prod.splits if_splits)

lemma make_resampler_log: "records_sends log L \<Longrightarrow> make_resampler L w q = (b, w') \<Longrightarrow> log w' = log w"
  by (auto simp: make_resampler_def split: prod.splits bool.splits) (metis records_sendsD(6-8))+

lemma configureResampler_log: "records_sends log L \<Longrightarrow> configureResampler L (s, w) f = (b, (s', w')) \<Longrightarrow> log w' = log w"
  by (auto simp: configureResampler_def Let_def dest: make_resampler_log split: option.splits prod.splits bool.splits if_splits)

lemma grow_convert_log: "records_sends log L \<Longrightarrow> grow_convert L n (s, w) = (b, (s', w')) \<Longrightarrow> log w' = log w"
  by (auto simp: grow_convert_def Let_def dest: records_sendsD(9) split: prod.splits if_splits)

lemma convert_frame_log: "records_sends log L \<Longrightarrow> convert_frame L (s, w) out f = (b, (s', w'), out') \<Longrightarrow> log w' = log w"
  by (auto simp: convert_frame_def Let_def split: option.splits prod.splits bool.splits if_splits)
    (metis grow_convert_log records_sendsD(10))+

lemma handle_frame_log: "records_sends log L \<Longrightarrow> handle_frame L (s, w) out f = (b, (s', w'), out') \<Longrightarrow> log w' = log w"
  by (auto simp: handle_frame_def split: prod.splits bool.splits if_splits) (metis configureResampler_log convert_frame_log)+

lemma receive_loop_log:
  "records_sends log L \<Longrightarrow> receive_loop L (s, w) out rs = ((s', w'), out') \<Longrightarrow> log w' = log w"
proof (induction rs arbitrary: s w out)
  case (Cons r rs)
  then show ?case
    by (cases r) (auto dest: handle_frame_log split: prod.splits bool.splits)
qed simp

text \<open>A context made for a codec type and a format, and a library that opens what it is asked to.\<close>

definition made_for :: "codec_context \<Rightarrow> u8 \<Rightarrow> audio_format \<Rightarrow> bool" where
  "made_for ctx ct f \<longleftrightarrow> codec_setup ct f = Some (c_codec ctx, c_extradata ctx) \<and>
     c_sample_rate ctx = a_sample_rate f \<and> c_channels ctx = a_channels f"

definition never_fails :: "('w, 'f) audio_lib \<Rightarrow> bool" where
  "never_fails L \<longleftrightarrow> (\<forall>c. l_find_decoder L c) \<and> (\<forall>w. fst (l_alloc_context L w)) \<and> (\<forall>w. fst (l_alloc_extradata L w)) \<and>
     (\<forall>w c. fst (l_open2 L w c)) \<and> (\<forall>w n. fst (l_new_packet L w n))"

text \<open>
  Which packets may be sent where, for these events and the format negotiated before them: a packet
  goes to a context made for its codec type and the format of the latest \<open>Set_format\<close>, or nowhere; and
  when nothing fails (\<open>sure\<close>), a packet of a known type that is not empty or too long does go there.
\<close>

definition known_packet :: "bytes \<Rightarrow> u8 \<Rightarrow> bool" where
  "known_packet data ct \<longleftrightarrow> data \<noteq> [] \<and> length data \<le> 2147483583 \<and> (ct = 2 \<or> ct = 4 \<or> ct = 8)"

fun sends_follow :: "bool \<Rightarrow> audio_format \<Rightarrow> decoder_event list \<Rightarrow> (codec_context \<times> bytes) list \<Rightarrow> bool" where
  "sends_follow sure f [] sends = (sends = [])"
| "sends_follow sure f (Set_format g # es) sends = sends_follow sure g es sends"
| "sends_follow sure f (Flush # es) sends = sends_follow sure f es sends"
| "sends_follow sure f (Decode data ct # es) sends =
     ((\<not> (sure \<and> known_packet data ct) \<and> sends_follow sure f es sends) \<or>
      (\<exists>ctx later. sends = (ctx, data) # later \<and> made_for ctx ct f \<and> sends_follow sure f es later))"

text \<open>The decoder has the negotiated format, and only an unknown type is known to have failed when nothing fails.\<close>

definition follows :: "bool \<Rightarrow> audio_format \<Rightarrow> audio_decoder \<Rightarrow> bool" where
  "follows sure f s \<longleftrightarrow> decoder_ok s \<and> m_format s = f \<and>
     (sure \<longrightarrow> m_allocated s \<and> m_failed_codec_type s \<noteq> 2 \<and> m_failed_codec_type s \<noteq> 4 \<and> m_failed_codec_type s \<noteq> 8)"

lemma open_context_sure:
  assumes "never_fails L" shows "fst (open_context L w c)"
  using assms by (auto simp: open_context_def never_fails_def split: prod.split bool.split) (metis fst_conv)+

lemma openDecoder_sure:
  assumes "never_fails L" "ct = 2 \<or> ct = 4 \<or> ct = 8"
  shows "fst (openDecoder L (s, w) ct)"
proof -
  obtain codec extradata where c: "codec_setup ct (m_format s) = Some (codec, extradata)"
    using assms(2) by (auto simp: codec_setup_def)
  have "l_find_decoder L codec" using assms(1) by (simp add: never_fails_def)
  then show ?thesis using open_context_sure [OF assms(1)]
    by (auto simp: openDecoder_def c Let_def split: prod.split bool.split) (metis fst_conv)
qed

lemma openDecoder_allocated: "openDecoder L (s, w) ct = (b, (s', w')) \<Longrightarrow> m_allocated s' = m_allocated s"
  by (auto simp: openDecoder_def Let_def resetResampler_def split: option.splits prod.splits bool.splits if_splits)

lemma configureDecoder_follows:
  assumes s: "follows sure f s" and c: "configureDecoder L (s, w) ct = (ok, (s', w'))" and L: "sure \<Longrightarrow> never_fails L"
  shows "follows sure f s' \<and> (ok \<longrightarrow> set_up_for s' ct) \<and> (sure \<and> (ct = 2 \<or> ct = 4 \<or> ct = 8) \<longrightarrow> ok)"
proof -
  have d: "decoder_ok s" "m_format s = f" using s by (simp_all add: follows_def)
  note k = configureDecoder_ok [OF d(1) c]
  obtain ok2 s2 w2 where o: "openDecoder L (count_call ct s, w) ct = (ok2, (s2, w2))" by (metis prod.exhaust)
  have cs: "decoder_ok (count_call ct s)" using d(1) by (simp add: count_call_def decoder_ok_defs)
  have q: "m_failed_codec_type s2 = m_failed_codec_type s" "m_allocated s2 = m_allocated s"
    using openDecoder_ok [OF cs o] openDecoder_allocated [OF o] by (simp_all add: count_call_def)
  have known: "ok2" if "sure" "ct = 2 \<or> ct = 4 \<or> ct = 8"
    using openDecoder_sure [OF L [OF that(1)] that(2), of "count_call ct s" w] o by simp
  show ?thesis
    using s c o q k d known
    by (auto simp: configureDecoder_def follows_def holds_back_def note_attempt_def count_call_def split: if_splits)
qed

lemma follows_other:
  "follows sure f s \<Longrightarrow> follows sure f (s\<lparr>m_alloc_errors := a\<rparr>)" "follows sure f s \<Longrightarrow> follows sure f (s\<lparr>m_send_errors := a\<rparr>)"
  by (simp_all add: follows_def decoder_ok_defs)

definition same_negotiation :: "audio_decoder \<Rightarrow> audio_decoder \<Rightarrow> bool" where
  "same_negotiation s s' \<longleftrightarrow> m_format s' = m_format s \<and> m_allocated s' = m_allocated s \<and>
     m_failed_codec_type s' = m_failed_codec_type s"

lemma follows_same: "follows sure f s \<Longrightarrow> same_negotiation s s' \<Longrightarrow> decoder_ok s' \<Longrightarrow> follows sure f s'"
  by (simp add: follows_def same_negotiation_def)

lemma configureResampler_same: "configureResampler L (s, w) frame = (b, (s', w')) \<Longrightarrow> same_negotiation s s'"
  by (auto simp: configureResampler_def Let_def same_negotiation_def resetResampler_def
      split: option.splits prod.splits bool.splits if_splits)

lemma convert_frame_same: "convert_frame L (s, w) out frame = (b, (s', w'), out') \<Longrightarrow> same_negotiation s s'"
  by (auto simp: convert_frame_def grow_convert_def Let_def same_negotiation_def
      split: option.splits prod.splits bool.splits if_splits)

lemma same_negotiation_trans: "same_negotiation s t \<Longrightarrow> same_negotiation t u \<Longrightarrow> same_negotiation s u"
  by (simp add: same_negotiation_def)

lemma handle_frame_same: "handle_frame L (s, w) out frame = (b, (s', w'), out') \<Longrightarrow> same_negotiation s s'"
  using same_negotiation_trans
  by (auto simp: handle_frame_def same_negotiation_def dest!: configureResampler_same convert_frame_same
      split: prod.splits bool.splits if_splits)

lemma receive_loop_same: "receive_loop L (s, w) out rs = ((s', w'), out') \<Longrightarrow> same_negotiation s s'"
proof (induction rs arbitrary: s w out)
  case Nil
  then show ?case by (simp add: same_negotiation_def)
next
  case (Cons r rs)
  show ?case
  proof (cases r)
    case (Received frame)
    obtain go s1 w1 out1 where h: "handle_frame L (s, w) out frame = (go, (s1, w1), out1)" by (metis prod.exhaust)
    then show ?thesis
      using Cons Received handle_frame_same [OF h] same_negotiation_trans [of s s1 s'] by (cases go) auto
  next
    case Receive_failed
    then show ?thesis using Cons.prems by (auto simp: same_negotiation_def)
  qed
qed

lemma set_up_made: "set_up_for s ct \<Longrightarrow> made_for (the (m_codec_context s)) ct (m_format s)"
  by (auto simp: set_up_for_def made_for_def)

lemma decode_sends:
  assumes r: "records_sends log L" and s: "follows sure f s" and L: "sure \<Longrightarrow> never_fails L"
    and d: "decode L (s, w) data ct = (out, (s', w'))"
  shows "follows sure f s' \<and>
    (\<not> (sure \<and> known_packet data ct) \<and> log w' = log w \<or> (\<exists>ctx. log w' = log w @ [(ctx, data)] \<and> made_for ctx ct f))"
proof (cases "data = [] \<or> \<not> m_allocated s \<or> length data > kMaxPacketBytes")
  case True
  then have "\<not> (sure \<and> known_packet data ct)" using s by (auto simp: follows_def known_packet_def kMaxPacketBytes_def)
  then show ?thesis using True d s by (simp add: decode_def)
next
  case False
  obtain ok s1 w1 where c: "configureDecoder L (s, w) ct = (ok, (s1, w1))" by (metis prod.exhaust)
  obtain got w2 where n: "l_new_packet L w1 (length data) = (got, w2)" by (metis prod.exhaust)
  obtain rs w3 where k: "l_decode L w2 (the (m_codec_context s1)) data = (rs, w3)" by (metis prod.exhaust)
  have s1: "follows sure f s1" "ok \<Longrightarrow> made_for (the (m_codec_context s1)) ct f" "sure \<and> known_packet data ct \<longrightarrow> ok"
    using configureDecoder_follows [OF s c L] set_up_made [of s1 ct] by (auto simp: follows_def known_packet_def)
  have sure: "sure \<Longrightarrow> got" using L n by (simp add: never_fails_def) (metis fst_conv)
  have w: "log w1 = log w" "log w2 = log w" "log w3 = log w @ [(the (m_codec_context s1), data)]"
    using configureDecoder_log [OF r c] records_sendsD(5) [OF r n] records_sendsD(1) [OF r k] by simp_all
  show ?thesis
  proof (cases "ok \<and> got")
    case True
    show ?thesis
    proof (cases rs)
      case None
      then show ?thesis using d False c n k True s1(1,2) w(3) follows_other by (auto simp: decode_def)
    next
      case (Some frames)
      obtain s4 w4 out4 where l: "receive_loop L (s1, w3) pcm_empty frames = ((s4, w4), out4)" by (metis prod.exhaust)
      have "follows sure f s4"
        using follows_same [OF s1(1) receive_loop_same [OF l]] receive_loop_ok [OF _ l] s1(1) by (simp add: follows_def)
      then show ?thesis
        using d False c n k True Some l s1(2) w(3) receive_loop_log [OF r l] by (auto simp: decode_def)
    qed
  next
    case not: False
    then show ?thesis using d False c n s1 sure w follows_other by (cases ok) (auto simp: decode_def)
  qed
qed

lemma run_sends:
  assumes r: "records_sends log L" and L: "sure \<Longrightarrow> never_fails L"
  shows "follows sure f s \<Longrightarrow> run (decoder_step L) (s, w) es = ((s', w'), outs) \<Longrightarrow>
    \<exists>sends. log w' = log w @ sends \<and> sends_follow sure f es sends"
proof (induction es arbitrary: s w f outs)
  case Nil
  then show ?case by simp
next
  case (Cons e es)
  obtain s1 w1 out where st: "decoder_step L (s, w) e = ((s1, w1), out)" by (metis prod.exhaust)
  then obtain outs1 where run1: "run (decoder_step L) (s1, w1) es = ((s', w'), outs1)"
    using Cons.prems(2) by (auto split: prod.splits)
  show ?case
  proof (cases e)
    case (Decode data ct)
    then have "decode L (s, w) data ct = (out, (s1, w1))" using st by (auto split: prod.splits)
    then have d: "follows sure f s1"
      "\<not> (sure \<and> known_packet data ct) \<and> log w1 = log w \<or> (\<exists>ctx. log w1 = log w @ [(ctx, data)] \<and> made_for ctx ct f)"
      using decode_sends [OF r Cons.prems(1) L] by blast+
    obtain sends where k: "log w' = log w1 @ sends" "sends_follow sure f es sends"
      using Cons.IH [OF d(1) run1] by blast
    from d(2) show ?thesis
    proof
      assume "\<not> (sure \<and> known_packet data ct) \<and> log w1 = log w"
      then show ?thesis using k by (intro exI [of _ sends]) (simp add: Decode)
    next
      assume "\<exists>ctx. log w1 = log w @ [(ctx, data)] \<and> made_for ctx ct f"
      then obtain ctx where "log w1 = log w @ [(ctx, data)]" "made_for ctx ct f" by blast
      then show ?thesis using k by (intro exI [of _ "(ctx, data) # sends"]) (simp add: Decode)
    qed
  next
    case Flush
    then have f: "s1 = resetResampler L s" "w1 = w \<or> w1 = l_flush_buffers L w" using st by (auto simp: flush_def split: if_splits)
    have "follows sure f s1"
      using Cons.prems(1) resetResampler_ok [of s L] by (simp add: f(1) follows_def resetResampler_def decoder_ok_def)
    with Cons.IH [OF this run1] f(2) records_sendsD(11) [OF r, of w] Flush show ?thesis by auto
  next
    case (Set_format g)
    then have "s1 = setStreamFormat g s" "w1 = w" using st by auto
    moreover from this have "follows sure g s1" using Cons.prems(1) by (simp add: follows_def setStreamFormat_def decoder_ok_defs)
    ultimately show ?thesis using Cons.IH [OF _ run1] Set_format by auto
  qed
qed

lemma decoder_new_follows:
  assumes "records_sends log L" and "sure \<Longrightarrow> never_fails L \<and> allocated"
  shows "follows sure default_format (fst (decoder_new L allocated w)) \<and> log (snd (decoder_new L allocated w)) = log w"
proof -
  let ?s = "\<lparr>m_codec_context = None, m_allocated = allocated, m_swr_context = None, m_codec_type = 0,
     m_format = default_format, m_opened_format = default_format,
     m_output_sample_rate = kDefaultSampleRate, m_input_sample_rate = 0,
     m_input_sample_format = l_fmt_none L, m_resampler_configured = False, m_convert = None,
     m_convert_capacity = 0, m_failed_codec_type = 0, m_failed_calls = 0, m_alloc_errors = 0,
     m_send_errors = 0, m_decode_errors = 0, m_input_channel_layout = None\<rparr>"
  obtain ok s' w' where c: "configureDecoder L (?s, w) 8 = (ok, (s', w'))" by (metis prod.exhaust)
  have "follows sure default_format ?s" using assms(2) by (simp add: follows_def decoder_ok_defs)
  from configureDecoder_follows [OF this c] configureDecoder_log [OF assms(1) c] assms(2) show ?thesis
    by (simp add: decoder_new_def c)
qed

section \<open>Properties\<close>

text \<open>
  Read back by the syntax of ISO/IEC 14496-3, the AudioSpecificConfig gives the object type, the
  sample rate (through the table or the escape), the channel count and the frame length flag it
  was made from, for every object type, every rate below 2^24 and up to 15 channels.
\<close>

theorem aac_config_round_trip:
  assumes "0 \<le> t \<and> t < 31 \<or> 32 \<le> t \<and> t < 96" and "0 \<le> a_sample_rate f" and "a_sample_rate f < 2 ^ 24"
    and "0 \<le> a_channels f" and "a_channels f < 16"
  shows "read_asc (aacAudioSpecificConfig t f) = (nat t, a_sample_rate f, a_channels f, short_frame t f)"
  using assms by (rule read_asc_config)

theorem aac_config_round_trip_witness:
  "read_asc (aacAudioSpecificConfig 39 (snd (formatFromSetup 0x1000000 480))) = (39, 44100, 2, True)"
  using aac_config_round_trip [of 39 "snd (formatFromSetup 0x1000000 480)"]
  by (simp add: formatFromSetup_def known_formats_def default_format_def short_frame_def)

text \<open>
  The ALAC magic cookie has 36 bytes, names the \<open>alac\<close> atom and its own size, and holds the frame
  length (352 when none was negotiated), bit depth, channel count and sample rate of the format.
\<close>

theorem alac_cookie_round_trip:
  assumes "0 \<le> a_frame_samples f" and "a_frame_samples f < 2 ^ 31" and "0 \<le> a_bit_depth f" and "a_bit_depth f < 256"
    and "0 \<le> a_channels f" and "a_channels f < 256" and "0 \<le> a_sample_rate f" and "a_sample_rate f < 2 ^ 31"
  shows "length (alacMagicCookie f) = 36 \<and> read_cookie (alacMagicCookie f) =
    (36, [0x61, 0x6C, 0x61, 0x63], if a_frame_samples f > 0 then a_frame_samples f else 352, a_bit_depth f,
     a_channels f, a_sample_rate f)"
  using assms by (rule read_cookie_cookie)

theorem alac_cookie_round_trip_witness:
  "read_cookie (alacMagicCookie default_format) = (36, [0x61, 0x6C, 0x61, 0x63], 352, 16, 2, 44100)"
  using alac_cookie_round_trip [of default_format] by (simp add: default_format_def)

text \<open>
  C25. However packets, flushes and format changes follow each other, every packet that is sent to a
  decoder goes, whole and once and in the order of the calls, to a context set up for its codec type and
  for the format of the latest \<open>setStreamFormat\<close> before it (the default format before the first). And
  every packet of a known codec type is sent, if the library opens and allocates what it is asked to.
  The open context, the resampler and the conversion buffer are as recorded (\<open>decoder_ok\<close>).
\<close>

theorem packets_meet_their_decoder:
  assumes "records_sends log L" and "run (decoder_step L) (decoder_new L allocated w0) es = ((s, w), outs)"
  shows "\<exists>sends. log w = log w0 @ sends \<and> sends_follow (never_fails L \<and> allocated) default_format es sends \<and>
    decoder_ok s"
proof -
  obtain s1 w1 where n: "decoder_new L allocated w0 = (s1, w1)" by (metis prod.exhaust)
  have "follows (never_fails L \<and> allocated) default_format s1" "log w1 = log w0"
    using decoder_new_follows [OF assms(1), of "never_fails L \<and> allocated" allocated w0] n by simp_all
  moreover have "decoder_ok s"
    using audio_machine.run_inv [of "decoder_new L allocated w0" es L] decoder_new_ok [of L allocated w0] assms(2)
    by (simp add: list_all_iff)
  ultimately show ?thesis using run_sends [OF assms(1) _ _ assms(2) [unfolded n]] by fastforce
qed

definition sending_lib :: "((codec_context \<times> bytes) list, int) audio_lib" where
  "sending_lib = \<lparr>l_find_decoder = (\<lambda>c. True), l_alloc_context = (\<lambda>w. (True, w)), l_alloc_extradata = (\<lambda>w. (True, w)),
     l_open2 = (\<lambda>w c. (True, w)), l_new_packet = (\<lambda>w n. (True, w)),
     l_decode = (\<lambda>w c d. (Some [], w @ [(c, d)])), l_layout_copy = (\<lambda>w. (True, w)), l_layout_compare = (\<lambda>a b. a = b),
     l_swr_alloc = (\<lambda>w s. (True, w)), l_swr_init = (\<lambda>w. (True, w)), l_swr_delay = (\<lambda>w s r. 0),
     l_rescale_up = (\<lambda>a b c. a), l_samples_alloc = (\<lambda>w n. (True, w)), l_swr_convert = (\<lambda>w s n frame. (None, w)),
     l_flush_buffers = (\<lambda>w. w), l_fltp = 8, l_fmt_none = -1\<rparr>"

theorem packets_meet_their_decoder_witness:
  "\<exists>ctx. snd (fst (run (decoder_step sending_lib) (decoder_new sending_lib True [])
       [Set_format (default_format\<lparr>a_sample_rate := 48000\<rparr>), Flush, Decode [1, 2] 2])) = [(ctx, [1, 2])] \<and>
     made_for ctx 2 (default_format\<lparr>a_sample_rate := 48000\<rparr>)"
proof -
  let ?es = "[Set_format (default_format\<lparr>a_sample_rate := 48000\<rparr>), Flush, Decode [1, 2] 2]"
  obtain s w outs where r: "run (decoder_step sending_lib) (decoder_new sending_lib True []) ?es = ((s, w), outs)"
    by (metis prod.exhaust)
  have "records_sends (\<lambda>w. w) sending_lib" "never_fails sending_lib"
    by (simp_all add: records_sends_def never_fails_def sending_lib_def)
  with packets_meet_their_decoder [OF this(1) r] show ?thesis unfolding r by (auto simp: known_packet_def)
qed

definition audio_witness_lib :: "(nat, int) audio_lib" where
  "audio_witness_lib = \<lparr>l_find_decoder = (\<lambda>c. True), l_alloc_context = (\<lambda>w. (True, w + 1)), l_alloc_extradata = (\<lambda>w. (True, w)),
     l_open2 = (\<lambda>w c. (c_codec c = AV_CODEC_ID_ALAC, w)), l_new_packet = (\<lambda>w n. (True, w)),
     l_decode = (\<lambda>w c d. (Some [], w)), l_layout_copy = (\<lambda>w. (True, w)), l_layout_compare = (\<lambda>a b. a = b),
     l_swr_alloc = (\<lambda>w s. (True, w)), l_swr_init = (\<lambda>w. (True, w)), l_swr_delay = (\<lambda>w s r. 0),
     l_rescale_up = (\<lambda>a b c. a), l_samples_alloc = (\<lambda>w n. (True, w)), l_swr_convert = (\<lambda>w s n frame. (None, w)),
     l_flush_buffers = (\<lambda>w. w), l_fltp = 8, l_fmt_none = -1\<rparr>"

text \<open>
  When a codec cannot be opened, it is tried on its first packet and then once every 500 packets,
  however long the stream goes on (up to the range of the 32-bit counter).
\<close>

theorem failing_decoder_is_retried_rarely:
  assumes "never_opens L attempts" and "codec_setup ct (m_format s) \<noteq> None"
    and "m_failed_codec_type s \<noteq> ct" and "m_codec_context s = None" and "n < 2 ^ 32"
  shows "attempts (snd ((configure_again L ct ^^ Suc n) (s, w))) = attempts w + 1 + n div 500"
proof -
  from first_failure [OF assms(1-4), of w] obtain s1 w1 where f: "configure_again L ct (s, w) = (s1, w1)"
    "attempts w1 = attempts w + 1" "m_format s1 = m_format s" "m_codec_context s1 = None"
    "m_failed_codec_type s1 = ct" "m_failed_calls s1 = 0" by auto
  from retry_run [OF assms(1,2) f(3-6) assms(5), of w1] f(1,2) show ?thesis
    by (auto simp: funpow_Suc_right simp del: funpow.simps)
qed

theorem failing_decoder_is_retried_rarely_witness:
  "snd ((configure_again (audio_witness_lib\<lparr>l_open2 := (\<lambda>w c. (False, w))\<rparr>) 2 ^^ Suc 1200)
     (fst (decoder_new audio_witness_lib True 0), 0)) = (3 :: nat)"
proof -
  let ?L = "audio_witness_lib\<lparr>l_open2 := (\<lambda>w c. (False, w))\<rparr>"
  let ?s = "fst (decoder_new audio_witness_lib True 0)"
  have s: "m_codec_context ?s = None" "m_failed_codec_type ?s = 8"
    by (simp_all add: decoder_new_def configureDecoder_def openDecoder_def open_context_def codec_setup_def holds_back_def
        count_call_def note_attempt_def audio_witness_lib_def resetResampler_def Let_def split: prod.split)
  have "never_opens ?L (\<lambda>w. w)"
    by (simp add: never_opens_def open_context_def audio_witness_lib_def)
  from failing_decoder_is_retried_rarely [OF this, of 2 ?s 1200 0] s show ?thesis
    by (simp add: codec_setup_def)
qed

text \<open>
  A packet gives as many left as right samples, and \<open>decode\<close> says it produced output exactly when
  there is some: a packet that fails anywhere leaves both channels empty.
\<close>

theorem decode_output_is_balanced:
  assumes "equal_planes L" and "decode L sw data ct = (out, sw')"
  shows "length (p_left out) = length (p_right out) \<and> (p_produced out \<longleftrightarrow> p_left out \<noteq> [])"
  using decode_balanced [OF assms] by (simp add: balanced_def)

theorem decode_output_is_balanced_witness:
  "length (p_left (fst (decode audio_witness_lib (decoder_new audio_witness_lib True 0) [1] 2))) =
     length (p_right (fst (decode audio_witness_lib (decoder_new audio_witness_lib True 0) [1] 2)))"
proof -
  have "equal_planes audio_witness_lib" by (simp add: equal_planes_def audio_witness_lib_def)
  from decode_output_is_balanced [OF this prod.collapse [symmetric]] show ?thesis by blast
qed

text \<open>
  A codec that did not open waits for its retry also when the sender has negotiated another format
  since: the new format is not tried at the next packet.
\<close>

theorem new_format_waits_for_retry:
  "m_failed_codec_type s = ct \<and> m_codec_context s = None \<and> (m_failed_calls s + 1) mod 500 \<noteq> 0 \<longrightarrow>
     configureDecoder L (setStreamFormat f s, w) ct =
       (False, ((setStreamFormat f s)\<lparr>m_failed_calls := m_failed_calls s + 1\<rparr>, w))"
  by (auto simp: configureDecoder_def setStreamFormat_def holds_back_def kRetryEveryCalls_def count_call_def)

end
