(* ===== verification/Video_Decoder.thy ===== *)
theory Video_Decoder
  imports Prelude
begin

text \<open>
  \<^verbatim>\<open>src/h264-decoder.hpp\<close> and \<^verbatim>\<open>src/h264-decoder.cpp\<close>: the mirror video decoder. The parsing of
  Annex B payloads is on byte lists (a cursor into the payload is the rest of it); the decoder is
  the record \<open>video_decoder\<close>. FFmpeg, swscale and CoreVideo are the record \<open>video_lib\<close>, acting on a
  world \<open>'w\<close>; \<open>'p\<close> stands for the plane pointers, which the code only hands on.
\<close>

section \<open>NAL units\<close>

datatype codec = H264 | HEVC

definition AV_NOPTS_VALUE :: int where "AV_NOPTS_VALUE = - (2 ^ 63)"
definition kMaxHardwareErrors :: int where "kMaxHardwareErrors = 3"
definition kMaxStreamErrors :: int where "kMaxStreamErrors = 30"

definition nal_type :: "codec \<Rightarrow> u8 \<Rightarrow> nat" where
  "nal_type c header = (if c = HEVC then unat (drop_bit 1 header AND 0x3f) else unat (header AND 0x1f))"

definition is_parameter_set :: "codec \<Rightarrow> u8 \<Rightarrow> bool" where
  "is_parameter_set c header =
     (if c = HEVC then 32 \<le> nal_type HEVC header \<and> nal_type HEVC header \<le> 34
      else nal_type H264 header = 7 \<or> nal_type H264 header = 8)"

definition is_slice :: "codec \<Rightarrow> u8 \<Rightarrow> bool" where
  "is_slice c header =
     (if c = HEVC then nal_type HEVC header < 32
      else 1 \<le> nal_type H264 header \<and> nal_type H264 header \<le> 5)"

definition starts_unit :: "codec \<Rightarrow> u8 \<Rightarrow> bool" where
  "starts_unit c header =
     (if c = HEVC then 32 \<le> nal_type HEVC header \<and> nal_type HEVC header \<le> 40
      else 6 \<le> nal_type H264 header \<and> nal_type H264 header \<le> 9)"

section \<open>Access units\<close>

text \<open>
  The loop over \<open>i\<close>, with the start of the current unit, whether it has a slice, and the units
  before it. It ends when fewer than four bytes are left, or at a start code with no payload.
\<close>

function scan_units ::
    "codec \<Rightarrow> bytes \<Rightarrow> nat \<Rightarrow> nat \<Rightarrow> bool \<Rightarrow> (nat \<times> nat) list \<Rightarrow> (nat \<times> nat) list" where
  "scan_units c data i unit_start unit_has_slice units =
     (if \<not> i + 3 < length data then units @ [(unit_start, length data - unit_start)]
      else if data ! i \<noteq> 0 \<or> data ! (i + 1) \<noteq> 0 \<or> data ! (i + 2) \<noteq> 1
      then scan_units c data (i + 1) unit_start unit_has_slice units
      else
        (let code = (if i > 0 \<and> data ! (i - 1) = 0 then i - 1 else i);
             header = i + 3;
             first_payload = header + (if c = HEVC then 2 else 1)
         in if first_payload \<ge> length data then units @ [(unit_start, length data - unit_start)]
            else
              (let slice = is_slice c (data ! header);
                   first_slice = (slice \<and> bit (data ! first_payload) 7)
               in if unit_has_slice \<and> (first_slice \<or> starts_unit c (data ! header))
                  then scan_units c data (header + 1) code slice (units @ [(unit_start, code - unit_start)])
                  else scan_units c data (header + 1) unit_start (unit_has_slice \<or> slice) units)))"
  by pat_completeness auto
termination
  by (relation "measure (\<lambda>(c, data, i, rest). length data - i)") auto

declare scan_units.simps [simp del]

definition split_access_units :: "codec \<Rightarrow> bytes \<Rightarrow> (nat \<times> nat) list" where
  "split_access_units c data = scan_units c data 0 0 False []"

definition unit_bytes :: "bytes \<Rightarrow> nat \<times> nat \<Rightarrow> bytes" where
  "unit_bytes data u = take (snd u) (drop (fst u) data)"

section \<open>Parameter sets\<close>

text \<open>The length of the start code at the front, if there is one.\<close>

fun start_code_at :: "bytes \<Rightarrow> nat option" where
  "start_code_at (a # b # c # rest) =
     (if a = 0 \<and> b = 0 then
        (if c = 1 then Some 3
         else if c = 0 \<and> (case rest of [] \<Rightarrow> False | d # _ \<Rightarrow> d = 1) then Some 4 else None)
      else None)"
| "start_code_at _ = None"

text \<open>
  \<open>next_start\<close> of the rest of the payload: how far the next start code is, and its length; the
  length of the rest and 0 when there is none.
\<close>

fun next_start :: "bytes \<Rightarrow> nat \<times> nat" where
  "next_start [] = (0, 0)"
| "next_start (b # rest) =
     (case start_code_at (b # rest) of
        Some n \<Rightarrow> (0, n)
      | None \<Rightarrow> (case next_start rest of (k, n) \<Rightarrow> (k + 1, n)))"

lemma start_code_length: "start_code_at xs = Some n \<Longrightarrow> n \<in> {3, 4} \<and> n \<le> length xs"
  by (induction xs rule: start_code_at.induct) (auto split: if_splits list.splits)

lemma next_start_found:
  "next_start xs = (k, n) \<Longrightarrow> k < length xs \<Longrightarrow> n \<in> {3, 4} \<and> k + n \<le> length xs"
proof (induction xs arbitrary: k n)
  case (Cons b rest)
  show ?case
  proof (cases "start_code_at (b # rest)")
    case (Some m)
    with Cons.prems start_code_length [OF Some] show ?thesis by auto
  next
    case None
    with Cons show ?thesis by (auto split: prod.splits)
  qed
qed simp

text \<open>One unit kept: whether anything changed, and the units by type.\<close>

definition remember_unit :: "codec \<Rightarrow> u8 \<Rightarrow> bytes \<Rightarrow> bool \<times> (nat \<rightharpoonup> bytes) \<Rightarrow> bool \<times> (nat \<rightharpoonup> bytes)" where
  "remember_unit c header nal st =
     (case st of (changed, sets) \<Rightarrow>
        if \<not> is_parameter_set c header then (changed, sets)
        else if sets (nal_type c header) = Some nal then (changed, sets)
        else (True, sets(nal_type c header \<mapsto> nal)))"

text \<open>
  The loop over the NAL units, on the payload from \<open>nal_start\<close> on: it ends at the end of the
  payload and at the first slice.
\<close>

function remember_units :: "codec \<Rightarrow> bytes \<Rightarrow> bool \<times> (nat \<rightharpoonup> bytes) \<Rightarrow> bool \<times> (nat \<rightharpoonup> bytes)" where
  "remember_units c [] st = st"
| "remember_units c (header # body) st =
     (if is_slice c header then st
      else
        (let (k, n) = next_start (header # body);
             st' = remember_unit c header (take k (header # body)) st
         in if k < length (header # body) then remember_units c (drop (k + n) (header # body)) st' else st'))"
  by pat_completeness auto
termination
proof (relation "measure (\<lambda>(c, rest, st). length rest)", simp)
  fix c :: codec and header :: u8 and body :: bytes and st x k n and st' :: "bool \<times> (nat \<rightharpoonup> bytes)"
  assume "x = next_start (header # body)" and "(k, n) = x" and "k < length (header # body)"
  then have "n \<in> {3, 4}" using next_start_found [of "header # body" k n] by metis
  then have "length (drop (k + n) (header # body)) < length (header # body)" by auto
  then show "((c, drop (k + n) (header # body), st'), c, header # body, st) \<in> measure (\<lambda>(c, rest, st). length rest)"
    by simp
qed

declare remember_units.simps [simp del]

definition start_code :: bytes where "start_code = [0, 0, 0, 1]"

text \<open>All the units as Annex B, by ascending NAL type (a type has six bits).\<close>

definition render_sets :: "(nat \<rightharpoonup> bytes) \<Rightarrow> bytes" where
  "render_sets sets =
     concat (map (\<lambda>t. case sets t of None \<Rightarrow> [] | Some nal \<Rightarrow> start_code @ nal) [0..<64])"

section \<open>The decoder\<close>

datatype pixel_format = VIDEOTOOLBOX | YUV420P | YUVJ420P | NV12 | SOFTWARE_OTHER bool | HARDWARE_OTHER

datatype color_space = BT470BG | SMPTE170M | OTHER_SPACE

record 'p video_frame =
  f_format :: pixel_format
  f_width :: int
  f_height :: int
  f_full :: bool
  f_space :: color_space
  f_pts :: int
  f_linesize :: "int list"
  f_planes :: "'p list"

record 'p decoded_frame =
  d_width :: int
  d_height :: int
  d_linesize :: "int list"
  d_data :: "'p option list"
  d_nv12 :: bool
  d_full_range :: bool
  d_bt601 :: bool
  d_pts :: int

text \<open>A VideoToolbox pixel buffer as CoreVideo describes it once it is locked.\<close>

datatype buffer_type = VideoRange | FullRange | OtherRange

record 'p pixel_buffer =
  b_type :: buffer_type
  b_planes :: nat
  b_lockable :: bool
  b_width :: int
  b_height :: int
  b_base0 :: "'p option"
  b_base1 :: "'p option"
  b_stride0 :: int
  b_stride1 :: int

text \<open>
  A send may ask \<open>get_format\<close> which of some formats to use; receiving gives pictures until the
  decoder wants more (\<open>EAGAIN\<close>, end of stream) or fails with an error.
\<close>

record ('w, 'p) video_lib =
  l_find_decoder :: "codec \<Rightarrow> bool"
  l_alloc_context :: "'w \<Rightarrow> bool \<times> 'w"
  l_hwdevice :: "'w \<Rightarrow> bool \<times> 'w"
  l_buffer_ref :: "'w \<Rightarrow> bool \<times> 'w"
  l_open2 :: "'w \<Rightarrow> bool \<Rightarrow> bool \<times> 'w"
  l_new_packet :: "'w \<Rightarrow> nat \<Rightarrow> bool \<times> 'w"
  l_send :: "'w \<Rightarrow> bytes \<Rightarrow> int \<Rightarrow> (int \<times> pixel_format list option) \<times> 'w"
  l_receive :: "'w \<Rightarrow> ('p video_frame list \<times> int option) \<times> 'w"
  l_flush :: "'w \<Rightarrow> 'w"
  l_buffer :: "'p video_frame \<Rightarrow> 'p pixel_buffer option"
  l_transfer :: "'w \<Rightarrow> 'p video_frame \<Rightarrow> 'p video_frame option \<times> 'w"
  l_sws_context :: "'w \<Rightarrow> 'p video_frame \<Rightarrow> bool \<times> 'w"
  l_get_buffer :: "'w \<Rightarrow> int \<Rightarrow> int \<Rightarrow> (int list \<times> 'p list) option \<times> 'w"
  l_scale :: "'w \<Rightarrow> 'p video_frame \<Rightarrow> 'p video_frame \<Rightarrow> 'w"
  l_eagain :: int
  l_invaliddata :: int
  l_external :: int
  l_enomem :: int

record 'p video_decoder =
  m_codec_id :: codec
  m_hardware_preferred :: bool
  m_hardware_allowed :: bool
  m_hardware_open :: bool
  m_hardware_refused :: bool
  m_context :: bool
  m_allocated :: bool
  m_frame :: "'p video_frame option"
  m_frame_i420 :: "'p video_frame option"
  m_locked_buffer :: bool
  m_parameter_set_units :: "nat \<rightharpoonup> bytes"
  m_parameter_sets :: bytes
  m_hardware_errors :: int
  m_stream_errors :: int
  m_errors_logged :: int
  m_last_frame_hardware :: bool
  m_mode_logged :: bool
  m_logged_hardware :: bool
  m_logged_width :: int
  m_logged_height :: int
  m_logged_full_range :: bool

definition is_bt601 :: "color_space \<Rightarrow> bool" where
  "is_bt601 c = (c = BT470BG \<or> c = SMPTE170M)"

text \<open>
  The choice among the offered formats, and whether hardware was refused; the list of FFmpeg ends
  with \<open>NONE\<close>, which is what \<open>None\<close> stands for.
\<close>

definition is_hardware_format :: "pixel_format \<Rightarrow> bool" where
  "is_hardware_format f = (f = VIDEOTOOLBOX \<or> f = HARDWARE_OTHER)"

definition chooseFormat :: "bool \<Rightarrow> pixel_format list \<Rightarrow> pixel_format option \<times> bool" where
  "chooseFormat hardware_open formats =
     (if hardware_open \<and> VIDEOTOOLBOX \<in> set formats then (Some VIDEOTOOLBOX, False)
      else
        ((case find (\<lambda>f. \<not> is_hardware_format f) formats of
            Some f \<Rightarrow> Some f
          | None \<Rightarrow> (case formats of [] \<Rightarrow> None | f # _ \<Rightarrow> Some f)),
         hardware_open))"

definition releaseLockedBuffer :: "'p video_decoder \<Rightarrow> 'p video_decoder" where
  "releaseLockedBuffer s = s\<lparr>m_locked_buffer := False\<rparr>"

definition releaseFrame :: "'p video_decoder \<Rightarrow> 'p video_decoder" where
  "releaseFrame s = (releaseLockedBuffer s)\<lparr>m_frame := None\<rparr>"

definition close_decoder :: "'p video_decoder \<Rightarrow> 'p video_decoder" where
  "close_decoder s = (releaseLockedBuffer s)\<lparr>m_frame := None, m_context := False, m_hardware_open := False\<rparr>"

text \<open>Asks for a hardware device and a reference to it.\<close>

definition hardware_device :: "('w, 'p) video_lib \<Rightarrow> bool \<Rightarrow> 'w \<Rightarrow> bool \<times> 'w" where
  "hardware_device L allow_hardware w =
     (if \<not> allow_hardware then (False, w)
      else (case l_hwdevice L w of
              (False, w1) \<Rightarrow> (False, w1)
            | (True, w1) \<Rightarrow> l_buffer_ref L w1))"

definition open_decoder ::
    "('w, 'p) video_lib \<Rightarrow> bool \<Rightarrow> 'p video_decoder \<times> 'w \<Rightarrow> bool \<times> 'p video_decoder \<times> 'w" where
  "open_decoder L allow_hardware sw =
     (case sw of (s, w) \<Rightarrow>
        if \<not> l_find_decoder L (m_codec_id s) then (False, (s, w))
        else
          (case l_alloc_context L w of
             (False, w1) \<Rightarrow> (False, (s\<lparr>m_context := False\<rparr>, w1))
           | (True, w1) \<Rightarrow>
               (case hardware_device L allow_hardware w1 of (hardware, w2) \<Rightarrow>
                  (let s1 = s\<lparr>m_context := True, m_hardware_open := hardware, m_hardware_refused := False\<rparr>
                   in case l_open2 L w2 hardware of
                        (False, w3) \<Rightarrow> (False, (close_decoder s1, w3))
                      | (True, w3) \<Rightarrow> (True, (s1\<lparr>m_hardware_errors := 0\<rparr>, w3))))))"

definition reopen :: "('w, 'p) video_lib \<Rightarrow> 'p video_decoder \<times> 'w \<Rightarrow> bool \<times> 'p video_decoder \<times> 'w" where
  "reopen L sw =
     (let s1 = (close_decoder (fst sw))\<lparr>m_hardware_allowed := m_hardware_preferred (fst sw),
            m_parameter_set_units := Map.empty, m_parameter_sets := [], m_hardware_errors := 0,
            m_stream_errors := 0, m_errors_logged := 0\<rparr>
      in case open_decoder L (m_hardware_allowed s1) (s1, snd sw) of
           (True, sw2) \<Rightarrow> (True, sw2)
         | (False, (s2, w2)) \<Rightarrow>
             if \<not> m_hardware_allowed s2 then (False, (s2, w2))
             else open_decoder L False (s2\<lparr>m_hardware_allowed := False\<rparr>, w2))"

definition video_decoder_new ::
    "('w, 'p) video_lib \<Rightarrow> codec \<Rightarrow> bool \<Rightarrow> bool \<Rightarrow> 'w \<Rightarrow> 'p video_decoder \<times> 'w" where
  "video_decoder_new L c preferred allocated w =
     snd (reopen L
       (\<lparr>m_codec_id = c, m_hardware_preferred = preferred, m_hardware_allowed = preferred,
          m_hardware_open = False, m_hardware_refused = False, m_context = False, m_allocated = allocated,
          m_frame = None, m_frame_i420 = None, m_locked_buffer = False, m_parameter_set_units = Map.empty,
          m_parameter_sets = [], m_hardware_errors = 0, m_stream_errors = 0, m_errors_logged = 0,
          m_last_frame_hardware = False, m_mode_logged = False, m_logged_hardware = False,
          m_logged_width = 0, m_logged_height = 0, m_logged_full_range = False\<rparr>, w))"

definition noteError :: "('w, 'p) video_lib \<Rightarrow> int \<Rightarrow> 'p video_decoder \<Rightarrow> bool \<times> 'p video_decoder" where
  "noteError L error s =
     (let s1 = s\<lparr>m_errors_logged := m_errors_logged s + 1\<rparr>
      in if \<not> m_hardware_open s1 then (False, s1)
         else if error = l_invaliddata L
         then (m_stream_errors s1 + 1 \<ge> kMaxStreamErrors, s1\<lparr>m_stream_errors := m_stream_errors s1 + 1\<rparr>)
         else (m_hardware_errors s1 + 1 \<ge> kMaxHardwareErrors, s1\<lparr>m_hardware_errors := m_hardware_errors s1 + 1\<rparr>))"

definition flush :: "('w, 'p) video_lib \<Rightarrow> 'p video_decoder \<times> 'w \<Rightarrow> 'p video_decoder \<times> 'w" where
  "flush L sw =
     (let s1 = (releaseLockedBuffer (fst sw))\<lparr>m_parameter_set_units := Map.empty, m_parameter_sets := []\<rparr>
      in if \<not> m_context s1 \<or> m_hardware_preferred s1 \<and> \<not> m_hardware_allowed s1
         then snd (reopen L (s1, snd sw))
         else (s1\<lparr>m_hardware_errors := 0, m_stream_errors := 0, m_errors_logged := 0, m_frame := None\<rparr>,
               l_flush L (snd sw)))"

definition rememberParameterSets :: "bytes \<Rightarrow> 'p video_decoder \<Rightarrow> 'p video_decoder" where
  "rememberParameterSets data s =
     (case next_start data of (k, n) \<Rightarrow>
        (let (changed, sets) = (if k < length data
               then remember_units (m_codec_id s) (drop (k + n) data) (False, m_parameter_set_units s)
               else (False, m_parameter_set_units s));
             s1 = s\<lparr>m_parameter_set_units := sets\<rparr>
         in if changed then s1\<lparr>m_parameter_sets := render_sets sets\<rparr> else s1))"

text \<open>The parameter sets are sent to the new decoder, and whatever it gives for them is dropped.\<close>

definition replay_sets :: "('w, 'p) video_lib \<Rightarrow> 'p video_decoder \<times> 'w \<Rightarrow> 'p video_decoder \<times> 'w" where
  "replay_sets L sw =
     (case sw of (s, w) \<Rightarrow>
        if m_parameter_sets s = [] then (s, w)
        else
          (case l_new_packet L w (length (m_parameter_sets s)) of
             (False, w1) \<Rightarrow> (s, w1)
           | (True, w1) \<Rightarrow>
               (case l_send L w1 (m_parameter_sets s) AV_NOPTS_VALUE of ((ret, offered), w2) \<Rightarrow>
                  if ret < 0 then (s, w2) else (s\<lparr>m_frame := None\<rparr>, snd (l_receive L w2)))))"

definition fallBackToSoftware ::
    "('w, 'p) video_lib \<Rightarrow> 'p video_decoder \<times> 'w \<Rightarrow> bool \<times> 'p video_decoder \<times> 'w" where
  "fallBackToSoftware L sw =
     (let s1 = (close_decoder (fst sw))\<lparr>m_hardware_allowed := False, m_hardware_errors := 0, m_stream_errors := 0\<rparr>
      in case open_decoder L False (s1, snd sw) of
           (False, sw2) \<Rightarrow> (False, sw2)
         | (True, sw2) \<Rightarrow> (True, replay_sets L sw2))"

definition noteMode :: "bool \<Rightarrow> int \<Rightarrow> int \<Rightarrow> bool \<Rightarrow> 'p video_decoder \<Rightarrow> 'p video_decoder" where
  "noteMode hardware width height full_range s =
     (let s1 = s\<lparr>m_last_frame_hardware := hardware\<rparr>
      in if m_mode_logged s1 \<and> m_logged_hardware s1 = hardware \<and> m_logged_width s1 = width \<and>
           m_logged_height s1 = height \<and> m_logged_full_range s1 = full_range
         then s1
         else s1\<lparr>m_mode_logged := True, m_logged_hardware := hardware, m_logged_width := width,
                m_logged_height := height, m_logged_full_range := full_range\<rparr>)"

section \<open>Output\<close>

definition optional_plane :: "'p list \<Rightarrow> nat \<Rightarrow> 'p option" where
  "optional_plane planes i = (if i < length planes then Some (planes ! i) else None)"

definition optional_stride :: "int list \<Rightarrow> nat \<Rightarrow> int" where
  "optional_stride strides i = (if i < length strides then strides ! i else 0)"

definition frame_out :: "'p video_frame \<Rightarrow> bool \<Rightarrow> bool \<Rightarrow> 'p decoded_frame" where
  "frame_out src nv12 full_range =
     \<lparr>d_width = f_width src, d_height = f_height src,
      d_linesize = [optional_stride (f_linesize src) 0, optional_stride (f_linesize src) 1,
        if nv12 then 0 else optional_stride (f_linesize src) 2],
      d_data = [optional_plane (f_planes src) 0, optional_plane (f_planes src) 1,
        if nv12 then None else optional_plane (f_planes src) 2],
      d_nv12 = nv12, d_full_range = full_range, d_bt601 = False, d_pts = AV_NOPTS_VALUE\<rparr>"

text \<open>The I420 buffer swscale writes to, allocated again when the geometry changes.\<close>

definition i420_buffer ::
    "('w, 'p) video_lib \<Rightarrow> 'p video_frame \<Rightarrow> 'p video_decoder \<times> 'w \<Rightarrow> 'p video_frame option \<times> 'p video_decoder \<times> 'w" where
  "i420_buffer L frame sw =
     (case sw of (s, w) \<Rightarrow>
        (case m_frame_i420 s of
           Some b \<Rightarrow> if f_width b = f_width frame \<and> f_height b = f_height frame then (Some b, (s, w))
             else (case l_get_buffer L w (f_width frame) (f_height frame) of
                     (None, w1) \<Rightarrow> (None, (s\<lparr>m_frame_i420 := None\<rparr>, w1))
                   | (Some (strides, planes), w1) \<Rightarrow>
                       (let nb = b\<lparr>f_format := YUV420P, f_width := f_width frame, f_height := f_height frame,
                              f_linesize := strides, f_planes := planes\<rparr>
                        in (Some nb, (s\<lparr>m_frame_i420 := Some nb\<rparr>, w1))))
         | None \<Rightarrow>
             (case l_get_buffer L w (f_width frame) (f_height frame) of
                (None, w1) \<Rightarrow> (None, (s, w1))
              | (Some (strides, planes), w1) \<Rightarrow>
                  (let nb = \<lparr>f_format = YUV420P, f_width = f_width frame, f_height = f_height frame, f_full = False,
                         f_space = OTHER_SPACE, f_pts = 0, f_linesize = strides, f_planes = planes\<rparr>
                   in (Some nb, (s\<lparr>m_frame_i420 := Some nb\<rparr>, w1))))))"

text \<open>\<open>SOFTWARE_OTHER True\<close> stands for the other full-range (\<open>yuvj\<close>) layouts.\<close>

definition outputSoftwareFrame ::
    "('w, 'p) video_lib \<Rightarrow> 'p video_frame \<Rightarrow> 'p video_decoder \<times> 'w \<Rightarrow>
       'p decoded_frame option \<times> 'p video_decoder \<times> 'w" where
  "outputSoftwareFrame L frame sw =
     (let nv12 = (f_format frame = NV12);
          i420 = (f_format frame = YUV420P \<or> f_format frame = YUVJ420P);
          full_range = (f_full frame \<or> f_format frame = YUVJ420P)
      in if i420 \<or> nv12 then (Some (frame_out frame nv12 full_range), sw)
         else
           (let full = (full_range \<and> f_format frame \<noteq> SOFTWARE_OTHER True)
            in case l_sws_context L (snd sw) frame of
                 (False, w1) \<Rightarrow> (None, (fst sw, w1))
               | (True, w1) \<Rightarrow>
                   (case i420_buffer L frame (fst sw, w1) of
                      (None, sw2) \<Rightarrow> (None, sw2)
                    | (Some b, (s2, w2)) \<Rightarrow> (Some (frame_out b False full), (s2, l_scale L w2 frame b)))))"

definition outputHardwareFrame ::
    "('w, 'p) video_lib \<Rightarrow> 'p video_frame \<Rightarrow> 'p video_decoder \<times> 'w \<Rightarrow>
       'p decoded_frame option \<times> 'p video_decoder \<times> 'w" where
  "outputHardwareFrame L frame sw =
     (case l_buffer L frame of
        Some b \<Rightarrow>
          if b_type b \<noteq> OtherRange \<and> b_planes b = 2 \<and> b_lockable b \<and> b_base0 b \<noteq> None \<and> b_base1 b \<noteq> None
          then (Some \<lparr>d_width = min (f_width frame) (b_width b), d_height = min (f_height frame) (b_height b),
                  d_linesize = [b_stride0 b, b_stride1 b, 0], d_data = [b_base0 b, b_base1 b, None],
                  d_nv12 = True, d_full_range = (b_type b = FullRange), d_bt601 = False, d_pts = AV_NOPTS_VALUE\<rparr>,
                ((fst sw)\<lparr>m_locked_buffer := True\<rparr>, snd sw))
          else
            (case l_transfer L (snd sw) frame of
               (None, w1) \<Rightarrow> (None, (fst sw, w1))
             | (Some t, w1) \<Rightarrow> outputSoftwareFrame L (t\<lparr>f_full := f_full frame\<rparr>) (fst sw, w1))
      | None \<Rightarrow>
          (case l_transfer L (snd sw) frame of
             (None, w1) \<Rightarrow> (None, (fst sw, w1))
           | (Some t, w1) \<Rightarrow> outputSoftwareFrame L (t\<lparr>f_full := f_full frame\<rparr>) (fst sw, w1)))"

text \<open>The picture in \<open>m_frame\<close> for the caller, or \<open>None\<close> (an \<open>AVERROR_EXTERNAL\<close>).\<close>

definition produceFrame ::
    "('w, 'p) video_lib \<Rightarrow> 'p video_frame \<Rightarrow> 'p video_decoder \<times> 'w \<Rightarrow>
       'p decoded_frame option \<times> 'p video_decoder \<times> 'w" where
  "produceFrame L frame sw =
     (let hardware = (f_format frame = VIDEOTOOLBOX)
      in case (if hardware then outputHardwareFrame L frame sw else outputSoftwareFrame L frame sw) of
           (None, sw1) \<Rightarrow> (None, sw1)
         | (Some out, (s1, w1)) \<Rightarrow>
             (Some (out\<lparr>d_bt601 := is_bt601 (f_space frame), d_pts := f_pts frame\<rparr>),
              (noteMode hardware (d_width out) (d_height out) (d_full_range out) s1, w1)))"

section \<open>Decoding\<close>

definition send_unit ::
    "('w, 'p) video_lib \<Rightarrow> bytes \<Rightarrow> int \<Rightarrow> 'p video_decoder \<times> 'w \<Rightarrow> int \<times> 'p video_decoder \<times> 'w" where
  "send_unit L unit_data pts sw =
     (case l_new_packet L (snd sw) (length unit_data) of
        (False, w1) \<Rightarrow> (l_enomem L, (fst sw, w1))
      | (True, w1) \<Rightarrow>
          (case l_send L w1 unit_data pts of ((ret, offered), w2) \<Rightarrow>
             (ret,
              ((case offered of None \<Rightarrow> fst sw
                | Some formats \<Rightarrow> if snd (chooseFormat (m_hardware_open (fst sw)) formats)
                    then (fst sw)\<lparr>m_hardware_refused := True\<rparr> else fst sw), w2))))"

text \<open>What \<open>decode\<close> carries through its loop: pictures received, and the last receive error (0: none).\<close>

record ('p, 'w) progress =
  g_state :: "'p video_decoder \<times> 'w"
  g_received :: bool
  g_error :: int

definition collectFrames :: "('w, 'p) video_lib \<Rightarrow> ('p, 'w) progress \<Rightarrow> ('p, 'w) progress" where
  "collectFrames L g =
     (case g_state g of (s, w) \<Rightarrow>
        (case l_receive L w of ((frames, failed), w1) \<Rightarrow>
           \<lparr>g_state = ((if frames = [] then s else s\<lparr>m_frame := Some (last frames)\<rparr>), w1),
            g_received = (frames \<noteq> [] \<or> g_received g),
            g_error = (case failed of None \<Rightarrow> g_error g | Some e \<Rightarrow> e)\<rparr>))"

text \<open>
  One access unit; \<open>Inl\<close> is an early \<open>return false\<close>. First the send, with the fallback for a stream
  the hardware decoder cannot take.
\<close>

definition send_first ::
    "('w, 'p) video_lib \<Rightarrow> bytes \<Rightarrow> int \<Rightarrow> ('p, 'w) progress \<Rightarrow> ('p video_decoder \<times> 'w) + (int \<times> ('p, 'w) progress)" where
  "send_first L unit_data pts g =
     (case send_unit L unit_data pts (g_state g) of (ret, (s1, w1)) \<Rightarrow>
        if \<not> m_hardware_refused s1 then Inr (ret, g\<lparr>g_state := (s1, w1)\<rparr>)
        else
          (case fallBackToSoftware L (s1\<lparr>m_hardware_refused := False\<rparr>, w1) of
             (False, sw2) \<Rightarrow> Inl sw2
           | (True, sw2) \<Rightarrow>
               (case send_unit L unit_data pts sw2 of (ret2, sw3) \<Rightarrow>
                  Inr (ret2, g\<lparr>g_state := sw3, g_received := False\<rparr>))))"

definition send_again ::
    "('w, 'p) video_lib \<Rightarrow> bytes \<Rightarrow> int \<Rightarrow> int \<times> ('p, 'w) progress \<Rightarrow> int \<times> ('p, 'w) progress" where
  "send_again L unit_data pts rg =
     (if fst rg = l_eagain L then
        (let g1 = collectFrames L (snd rg)
         in case send_unit L unit_data pts (g_state g1) of (ret, sw2) \<Rightarrow> (ret, g1\<lparr>g_state := sw2\<rparr>))
      else rg)"

definition send_failed ::
    "('w, 'p) video_lib \<Rightarrow> bytes \<Rightarrow> int \<Rightarrow> int \<times> ('p, 'w) progress \<Rightarrow> ('p video_decoder \<times> 'w) + ('p, 'w) progress" where
  "send_failed L unit_data pts rg =
     (if \<not> fst rg < 0 then Inr (snd rg)
      else
        (case noteError L (fst rg) (fst (g_state (snd rg))) of
           (False, s1) \<Rightarrow> Inl (s1, snd (g_state (snd rg)))
         | (True, s1) \<Rightarrow>
             (case fallBackToSoftware L (s1, snd (g_state (snd rg))) of
                (False, sw2) \<Rightarrow> Inl sw2
              | (True, sw2) \<Rightarrow>
                  (case send_unit L unit_data pts sw2 of (ret2, sw3) \<Rightarrow>
                     if ret2 < 0 then Inl sw3 else Inr ((snd rg)\<lparr>g_state := sw3, g_received := False\<rparr>)))))"

definition decode_unit ::
    "('w, 'p) video_lib \<Rightarrow> bytes \<Rightarrow> int \<Rightarrow> ('p, 'w) progress \<Rightarrow> ('p video_decoder \<times> 'w) + ('p, 'w) progress" where
  "decode_unit L unit_data pts g =
     (case send_first L unit_data pts g of
        Inl sw \<Rightarrow> Inl sw
      | Inr rg \<Rightarrow>
          (case send_failed L unit_data pts (send_again L unit_data pts rg) of
             Inl sw \<Rightarrow> Inl sw
           | Inr g2 \<Rightarrow> Inr (collectFrames L g2)))"

fun decode_units ::
    "('w, 'p) video_lib \<Rightarrow> bytes list \<Rightarrow> int \<Rightarrow> ('p, 'w) progress \<Rightarrow> ('p video_decoder \<times> 'w) + ('p, 'w) progress" where
  "decode_units L [] pts g = Inr g"
| "decode_units L (u # us) pts g =
     (case decode_unit L u pts g of Inl sw \<Rightarrow> Inl sw | Inr g' \<Rightarrow> decode_units L us pts g')"

definition reset_errors :: "'p video_decoder \<Rightarrow> 'p video_decoder" where
  "reset_errors s = s\<lparr>m_hardware_errors := 0, m_stream_errors := 0, m_errors_logged := 0\<rparr>"

definition finish_error :: "('w, 'p) video_lib \<Rightarrow> int \<Rightarrow> 'p video_decoder \<times> 'w \<Rightarrow> 'p video_decoder \<times> 'w" where
  "finish_error L error sw =
     (if \<not> error < 0 then sw
      else (case noteError L error (fst sw) of
              (False, s1) \<Rightarrow> (s1, snd sw)
            | (True, s1) \<Rightarrow> snd (fallBackToSoftware L (s1, snd sw))))"

definition decode ::
    "('w, 'p) video_lib \<Rightarrow> bytes \<Rightarrow> int \<Rightarrow> 'p video_decoder \<times> 'w \<Rightarrow> 'p decoded_frame option \<times> 'p video_decoder \<times> 'w" where
  "decode L data pts sw =
     (if \<not> m_context (fst sw) \<or> \<not> m_allocated (fst sw) \<or> data = [] \<or> length data > 2147483647 - 64
      then (None, sw)
      else
        (let s1 = rememberParameterSets data (releaseLockedBuffer (fst sw));
             units = map (unit_bytes data) (split_access_units (m_codec_id s1) data)
         in case decode_units L units pts \<lparr>g_state = (s1, snd sw), g_received = False, g_error = 0\<rparr> of
              Inl sw2 \<Rightarrow> (None, sw2)
            | Inr g \<Rightarrow>
                if g_received g \<and> m_frame (fst (g_state g)) \<noteq> None then
                  (case produceFrame L (the (m_frame (fst (g_state g)))) (g_state g) of
                     (Some out, (s3, w3)) \<Rightarrow> (Some out, (reset_errors s3, w3))
                   | (None, sw3) \<Rightarrow> (None, finish_error L (l_external L) sw3))
                else (None, finish_error L (g_error g) (g_state g))))"

text \<open>
  \<open>warm_up_video_decoding\<close> on the canned keyframes: each decoder is made, fed and flushed, and its
  destruction frees it.
\<close>

fun warm_up :: "('w, 'p) video_lib \<Rightarrow> bool \<Rightarrow> (codec \<times> bytes) list \<Rightarrow> 'w \<Rightarrow> 'w" where
  "warm_up L requested [] w = w"
| "warm_up L requested ((c, keyframe) # rest) w =
     warm_up L requested rest
       (snd (flush L (snd (decode L keyframe AV_NOPTS_VALUE (video_decoder_new L c requested True w)))))"

section \<open>Lemmas on access units\<close>

definition code_at :: "bytes \<Rightarrow> nat \<Rightarrow> bool" where
  "code_at data i = (data ! i = 0 \<and> data ! (i + 1) = 0 \<and> data ! (i + 2) = 1)"

lemma scan_step:
  "\<not> code_at data i \<Longrightarrow> i + 3 < length data \<Longrightarrow>
     scan_units c data i start has units = scan_units c data (i + 1) start has units"
  by (subst scan_units.simps) (auto simp: code_at_def)

lemma scan_end: "\<not> i + 3 < length data \<Longrightarrow>
     scan_units c data i start has units = units @ [(start, length data - start)]"
  by (subst scan_units.simps) simp

lemma scan_skip:
  "i \<le> j \<Longrightarrow> \<forall>k. i \<le> k \<and> k < j \<and> k + 3 < length data \<longrightarrow> \<not> code_at data k \<Longrightarrow>
     scan_units c data i start has units = scan_units c data j start has units"
proof (induction "j - i" arbitrary: i)
  case 0
  then show ?case by simp
next
  case (Suc d)
  show ?case
  proof (cases "i + 3 < length data")
    case True
    have "scan_units c data i start has units = scan_units c data (i + 1) start has units"
      using True Suc.prems Suc.hyps(2) by (intro scan_step) auto
    also have "\<dots> = scan_units c data j start has units"
      using Suc.hyps(2) Suc.prems by (intro Suc.hyps(1)) auto
    finally show ?thesis .
  next
    case False
    then show ?thesis using Suc.prems by (simp add: scan_end)
  qed
qed

text \<open>The units before \<open>start\<close> are the payload up to there, none of them empty.\<close>

definition covers :: "bytes \<Rightarrow> nat \<Rightarrow> (nat \<times> nat) list \<Rightarrow> bool" where
  "covers data start units =
     (concat (map (unit_bytes data) units) = take start data \<and> list_all (\<lambda>u. unit_bytes data u \<noteq> []) units)"

lemma covers_snoc:
  assumes "covers data a units" and "a < b" and "b \<le> length data"
  shows "covers data b (units @ [(a, b - a)])"
proof -
  have "take a data @ take (b - a) (drop a data) = take b data"
    using assms(2) take_add [of a "b - a" data] by simp
  moreover have "take (b - a) (drop a data) \<noteq> []" using assms(2,3) by simp
  ultimately show ?thesis using assms(1) by (simp add: covers_def unit_bytes_def)
qed

definition code_start :: "bytes \<Rightarrow> nat \<Rightarrow> nat" where
  "code_start data i = (if i > 0 \<and> data ! (i - 1) = 0 then i - 1 else i)"

definition header_bytes :: "codec \<Rightarrow> nat" where
  "header_bytes c = (if c = HEVC then 2 else 1)"

definition opens_unit :: "codec \<Rightarrow> bytes \<Rightarrow> nat \<Rightarrow> bool" where
  "opens_unit c data i =
     (is_slice c (data ! (i + 3)) \<and> bit (data ! (i + 3 + header_bytes c)) 7 \<or> starts_unit c (data ! (i + 3)))"

lemma scan_code:
  assumes "i + 3 + header_bytes c < length data" and "code_at data i"
  shows "scan_units c data i start has units =
    (if has \<and> opens_unit c data i
     then scan_units c data (i + 4) (code_start data i) (is_slice c (data ! (i + 3)))
       (units @ [(start, code_start data i - start)])
     else scan_units c data (i + 4) start (has \<or> is_slice c (data ! (i + 3))) units)"
proof -
  have a: "data ! i = 0" "data ! (i + 1) = 0" "data ! (i + 2) = 1" "i + 3 < length data"
    "\<not> length data \<le> i + 3 + header_bytes c" and e: "i + 3 + 1 = i + 4"
    using assms by (simp_all add: code_at_def)
  show ?thesis
    unfolding scan_units.simps [of c data i start has units] opens_unit_def header_bytes_def [symmetric]
      code_start_def [symmetric] Let_def e
    using a by simp
qed

lemma scan_no_payload:
  assumes "length data \<le> i + 3 + header_bytes c" and "code_at data i"
  shows "scan_units c data i start has units = units @ [(start, length data - start)]"
  using assms unfolding scan_units.simps [of c data i start has units] header_bytes_def [symmetric] Let_def
  by (simp add: code_at_def)

lemma scan_covers:
  "covers data start units \<Longrightarrow> start \<le> i \<Longrightarrow> start < length data \<Longrightarrow> (has \<longrightarrow> start + 2 \<le> i) \<Longrightarrow>
     covers data (length data) (scan_units c data i start has units)"
proof (induction "length data - i" arbitrary: i start has units rule: less_induct)
  case less
  have last: "covers data (length data) (units @ [(start, length data - start)])"
    using less.prems by (intro covers_snoc) auto
  show ?case
  proof (cases "i + 3 < length data")
    case False
    then show ?thesis using last by (simp add: scan_end)
  next
    case inside: True
    show ?thesis
    proof (cases "code_at data i")
      case False
      have "covers data (length data) (scan_units c data (i + 1) start has units)"
        using inside less.prems by (intro less.hyps) auto
      then show ?thesis using scan_step [OF False inside] by simp
    next
      case code: True
      show ?thesis
      proof (cases "i + 3 + header_bytes c < length data")
        case False
        then show ?thesis using last scan_no_payload [OF _ code] by simp
      next
        case payload: True
        note step = scan_code [OF payload code, of start has units]
        show ?thesis
        proof (cases "has \<and> opens_unit c data i")
          case True
          have c: "start < code_start data i" "code_start data i < length data" "code_start data i \<le> i"
            "i \<le> code_start data i + 1"
            using True less.prems inside by (auto simp: code_start_def)
          have "covers data (code_start data i) (units @ [(start, code_start data i - start)])"
            using less.prems(1) c by (intro covers_snoc) auto
          then have "covers data (length data) (scan_units c data (i + 4) (code_start data i)
              (is_slice c (data ! (i + 3))) (units @ [(start, code_start data i - start)]))"
            using inside c by (intro less.hyps) auto
          then show ?thesis using True step by simp
        next
          case False
          have "covers data (length data) (scan_units c data (i + 4) start (has \<or> is_slice c (data ! (i + 3))) units)"
            using inside less.prems by (intro less.hyps) auto
          then show ?thesis unfolding step using False by (simp only: if_False)
        qed
      qed
    qed
  qed
qed

lemma split_covers:
  "data \<noteq> [] \<Longrightarrow> covers data (length data) (split_access_units c data)"
  unfolding split_access_units_def by (rule scan_covers) (simp_all add: covers_def)

text \<open>A payload as NAL units after four-byte start codes, and the grouping it stands for.\<close>

definition render_nals :: "bytes list \<Rightarrow> bytes" where
  "render_nals nals = concat (map (\<lambda>n. start_code @ n) nals)"

definition wf_nal :: "codec \<Rightarrow> bytes \<Rightarrow> bool" where
  "wf_nal c n = (length n > (if c = HEVC then 2 else 1) \<and> last n \<noteq> 0 \<and>
     (\<forall>i. i + 2 < length n \<longrightarrow> \<not> code_at n i))"

definition new_unit :: "codec \<Rightarrow> bytes \<Rightarrow> bool" where
  "new_unit c n = (is_slice c (hd n) \<and> bit (n ! (if c = HEVC then 2 else 1)) 7 \<or> starts_unit c (hd n))"

fun group_units :: "codec \<Rightarrow> bytes list \<Rightarrow> bool \<Rightarrow> bytes list \<Rightarrow> bytes list list" where
  "group_units c cur has [] = [cur]"
| "group_units c cur has (n # ns) =
     (if has \<and> new_unit c n then cur # group_units c [n] (is_slice c (hd n)) ns
      else group_units c (cur @ [n]) (has \<or> is_slice c (hd n)) ns)"

lemma nal_no_code:
  assumes "wf_nal c n" and "rest = [] \<or> (\<exists>r. rest = start_code @ r)"
    and "k < length n" and "k + 3 < length (n @ rest)"
  shows "\<not> code_at (n @ rest) k"
proof
  assume a: "code_at (n @ rest) k"
  have nz: "n ! (length n - 1) \<noteq> 0" using assms(1,3) by (cases "n = []") (auto simp: wf_nal_def last_conv_nth)
  consider "k + 2 < length n" | "k + 2 = length n" | "k + 1 = length n" using assms(3) by linarith
  then show False
  proof cases
    case 1
    then show False using a assms(1) by (auto simp: code_at_def wf_nal_def nth_append)
  next
    case 2
    then have "length n - 1 = k + 1" "k + 1 < length n" by simp_all
    then have "n ! (length n - 1) = 0" using a by (simp add: code_at_def nth_append)
    then show False using nz by simp
  next
    case 3
    then have "length n - 1 = k" by simp
    then have "n ! (length n - 1) = 0" using a assms(3) by (simp add: code_at_def nth_append)
    then show False using nz by simp
  qed
qed

lemma render_nals_shape: "render_nals ns = [] \<or> (\<exists>r. render_nals ns = start_code @ r)"
  by (cases ns) (auto simp: render_nals_def)

lemma scan_groups:
  assumes "list_all (wf_nal c) ns" and "data = pre @ render_nals ns" and "start \<le> length pre" and "take (length pre - start) (drop start data) = render_nals cur"
  shows "map (unit_bytes data) (scan_units c data (length pre) start has units) =
    map (unit_bytes data) units @ map render_nals (group_units c cur has ns)"
  using assms
proof (induction ns arbitrary: pre start has units cur)
  case Nil
  then have d: "drop start data = render_nals cur" by (simp add: render_nals_def)
  have "length (drop start data) = length data - start" by simp
  with d have "unit_bytes data (start, length data - start) = render_nals cur" by (simp add: unit_bytes_def)
  then show ?case using Nil by (simp add: scan_end render_nals_def)
next
  case (Cons n ns)
  let ?i = "length pre"
  let ?hp = "if c = HEVC then 2 else 1"
  let ?pre = "pre @ start_code @ n"
  have data: "data = ?pre @ render_nals ns" using Cons.prems(2) by (simp add: render_nals_def)
  have n: "wf_nal c n" "?hp < length n" "n \<noteq> []" using Cons.prems(1) by (auto simp: wf_nal_def)
  have at: "data ! (?i + j) = (start_code @ n @ render_nals ns) ! j" for j
    unfolding data by (simp add: nth_append)
  have len: "length data = ?i + 4 + length n + length (render_nals ns)" unfolding data by (simp add: start_code_def)
  have b: "data ! ?i = 0" "data ! (?i + 1) = 0" "data ! (?i + 2) = 0" "data ! (?i + 3) = 1" "data ! (?i + 4) = hd n"
    "data ! (?i + 4 + ?hp) = n ! ?hp"
    using at [of 0] at [of 1] at [of 2] at [of 3] at [of 4] at [of "4 + ?hp"] n
    by (simp_all add: start_code_def nth_append hd_conv_nth add.assoc)
  have "\<not> code_at data ?i" using b by (simp add: code_at_def)
  moreover have "?i + 3 < length data" using len by simp
  ultimately have first: "scan_units c data ?i start has units = scan_units c data (?i + 1) start has units"
    by (rule scan_step)
  let ?slice = "is_slice c (hd n)"
  let ?new = "has \<and> new_unit c n"
  have code: "code_at data (?i + 1)" "code_start data (?i + 1) = ?i"
    using b by (simp_all add: code_at_def code_start_def eval_nat_numeral)
  have opens: "opens_unit c data (?i + 1) = new_unit c n" "is_slice c (data ! (?i + 1 + 3)) = ?slice"
  proof -
    have e: "?i + 1 + 3 = ?i + 4" by simp
    show "is_slice c (data ! (?i + 1 + 3)) = ?slice" unfolding e b ..
    show "opens_unit c data (?i + 1) = new_unit c n"
      unfolding opens_unit_def new_unit_def header_bytes_def e b ..
  qed
  have "?i + 1 + 3 + header_bytes c < length data" using n(2) len by (simp add: header_bytes_def)
  from scan_code [OF this code(1), of start has units]
  have step: "scan_units c data (?i + 1) start has units =
      (if ?new then scan_units c data (?i + 5) ?i ?slice (units @ [(start, ?i - start)])
       else scan_units c data (?i + 5) start (has \<or> ?slice) units)"
  proof -
    have e: "?i + 1 + 4 = ?i + 5" by simp
    assume "scan_units c data (?i + 1) start has units =
      (if has \<and> opens_unit c data (?i + 1)
       then scan_units c data (?i + 1 + 4) (code_start data (?i + 1)) (is_slice c (data ! (?i + 1 + 3)))
         (units @ [(start, code_start data (?i + 1) - start)])
       else scan_units c data (?i + 1 + 4) start (has \<or> is_slice c (data ! (?i + 1 + 3))) units)"
    then show ?thesis unfolding code(2) opens e .
  qed
  have skip: "scan_units c data (?i + 5) st h us = scan_units c data (length ?pre) st h us" for st h us
  proof (rule scan_skip)
    show "?i + 5 \<le> length ?pre" using n(3) by (cases n) (simp_all add: start_code_def)
    show "\<forall>k. ?i + 5 \<le> k \<and> k < length ?pre \<and> k + 3 < length data \<longrightarrow> \<not> code_at data k"
    proof (intro allI impI)
      fix k assume k: "?i + 5 \<le> k \<and> k < length ?pre \<and> k + 3 < length data"
      define j where "j = k - (?i + 4)"
      have j: "k = length (pre @ start_code) + j" "j < length n" using k by (auto simp: j_def start_code_def)
      have "data = (pre @ start_code) @ (n @ render_nals ns)" using data by simp
      then have "data ! (k + m) = (n @ render_nals ns) ! (j + m)" for m
        unfolding j(1) by (simp only: nth_append_length_plus add.assoc)
      moreover have "\<not> code_at (n @ render_nals ns) j"
        using n(1) render_nals_shape j(2) k len
        by (intro nal_no_code [of c]) (auto simp: j_def)
      ultimately show "\<not> code_at data k" by (metis code_at_def add_0_right)
    qed
  qed
  have wf: "list_all (wf_nal c) ns" using Cons.prems(1) by simp
  show ?case
  proof (cases ?new)
    case True
    have "take (length ?pre - ?i) (drop ?i data) = render_nals [n]" by (simp add: data render_nals_def)
    from Cons.IH [OF wf data _ this, of ?slice "units @ [(start, ?i - start)]"]
    have "map (unit_bytes data) (scan_units c data (length ?pre) ?i ?slice (units @ [(start, ?i - start)])) =
        map (unit_bytes data) (units @ [(start, ?i - start)]) @ map render_nals (group_units c [n] ?slice ns)"
      by simp
    moreover have "unit_bytes data (start, ?i - start) = render_nals cur"
      using Cons.prems(4) by (simp add: unit_bytes_def)
    moreover have "scan_units c data ?i start has units =
        scan_units c data (length ?pre) ?i ?slice (units @ [(start, ?i - start)])"
      unfolding first step skip using True by (simp only: if_True simp_thms)
    ultimately show ?thesis using True by simp
  next
    case False
    have "take (length ?pre - start) (drop start data) = take (?i - start) (drop start data) @ start_code @ n"
      using Cons.prems(3) by (simp add: data)
    also have "\<dots> = render_nals (cur @ [n])" using Cons.prems(4) by (simp add: render_nals_def)
    finally have t: "take (length ?pre - start) (drop start data) = render_nals (cur @ [n])" .
    have "start \<le> length ?pre" using Cons.prems(3) by simp
    from Cons.IH [OF wf data this t, of "has \<or> ?slice" units]
    have "map (unit_bytes data) (scan_units c data (length ?pre) start (has \<or> ?slice) units) =
        map (unit_bytes data) units @ map render_nals (group_units c (cur @ [n]) (has \<or> ?slice) ns)" .
    moreover have "scan_units c data ?i start has units =
        scan_units c data (length ?pre) start (has \<or> ?slice) units"
      unfolding first step skip using False by (simp only: if_False)
    ultimately show ?thesis using False by auto
  qed
qed

lemma split_groups:
  assumes "list_all (wf_nal c) ns"
  shows "map (unit_bytes (render_nals ns)) (split_access_units c (render_nals ns)) =
    map render_nals (group_units c [] False ns)"
  using scan_groups [OF assms, of "render_nals ns" "[]" 0 "[]" False "[]"]
  by (simp add: split_access_units_def render_nals_def)

section \<open>Lemmas on parameter sets\<close>

lemma start_code_at_code: "start_code_at (b # xs) \<noteq> None \<Longrightarrow> length xs \<ge> 2 \<and> b = 0 \<and>
    (code_at (b # xs) 0 \<or> length xs \<ge> 3 \<and> xs ! 0 = 0 \<and> xs ! 1 = 0 \<and> xs ! 2 = 1)"
  by (cases xs rule: start_code_at.cases) (auto simp: code_at_def split: if_splits list.splits)

lemma next_start_nal:
  "n \<noteq> [] \<Longrightarrow> last n \<noteq> 0 \<Longrightarrow> \<forall>i. i + 2 < length n \<longrightarrow> \<not> code_at n i \<Longrightarrow>
     rest = [] \<or> (\<exists>r. rest = start_code @ r) \<Longrightarrow>
     next_start (n @ rest) = (length n, if rest = [] then 0 else 4)"
proof (induction n)
  case Nil
  then show ?case by simp
next
  case (Cons b n)
  have tail: "start_code_at (b # n @ rest) = None"
  proof (rule ccontr)
    assume "start_code_at (b # n @ rest) \<noteq> None"
    from start_code_at_code [OF this] have c: "b = 0" "code_at (b # n @ rest) 0 \<or>
        length (n @ rest) \<ge> 3 \<and> (n @ rest) ! 0 = 0 \<and> (n @ rest) ! 1 = 0 \<and> (n @ rest) ! 2 = 1" by auto
    have z: "(n @ rest) ! 0 = 0" using c(2) by (auto simp: code_at_def)
    have "n \<noteq> []" using Cons.prems(2) c(1) by auto
    then obtain x n1 where n1: "n = x # n1" "x = 0" using z by (cases n) auto
    have "n1 \<noteq> []" using Cons.prems(2) n1 by auto
    then obtain y n2 where n2: "n1 = y # n2" by (cases n1) auto
    have y: "y \<noteq> 1" using Cons.prems(3) [rule_format, of 0] c(1) n1 n2 by (simp add: code_at_def)
    then have "y = 0" "(n @ rest) ! 2 = 1" using c(2) n1 n2 by (auto simp: code_at_def)
    then have "n2 \<noteq> []" using Cons.prems(2) n1 n2 by auto
    then obtain w n3 where n3: "n2 = w # n3" "w = 1" using \<open>(n @ rest) ! 2 = 1\<close> n1 n2 by (cases n2) auto
    then show False
      using Cons.prems(3) [rule_format, of 1] n1 n2 \<open>y = 0\<close> by (simp add: code_at_def)
  qed
  show ?case
  proof (cases "n = []")
    case True
    have "next_start rest = (0, if rest = [] then 0 else 4)"
      using Cons.prems(4) by (auto simp: start_code_def)
    with True tail show ?thesis by simp
  next
    case False
    have "\<forall>i. i + 2 < length n \<longrightarrow> \<not> code_at n i"
    proof (intro allI impI)
      fix i assume "i + 2 < length n"
      then show "\<not> code_at n i" using Cons.prems(3) [rule_format, of "i + 1"] by (simp add: code_at_def)
    qed
    then have "next_start (n @ rest) = (length n, if rest = [] then 0 else 4)"
      using Cons.IH False Cons.prems(2,4) by simp
    with tail show ?thesis by simp
  qed
qed

text \<open>The parameter sets of a payload: those before its first slice, the latest of each type.\<close>

definition keep_set :: "codec \<Rightarrow> (nat \<rightharpoonup> bytes) \<Rightarrow> bytes \<Rightarrow> (nat \<rightharpoonup> bytes)" where
  "keep_set c sets n = (if is_parameter_set c (hd n) then sets(nal_type c (hd n) \<mapsto> n) else sets)"

definition latest_sets :: "codec \<Rightarrow> (nat \<rightharpoonup> bytes) \<Rightarrow> bytes list \<Rightarrow> (nat \<rightharpoonup> bytes)" where
  "latest_sets c sets ns = foldl (keep_set c) sets (takeWhile (\<lambda>n. \<not> is_slice c (hd n)) ns)"

lemma remember_unit_sets: "snd (remember_unit c (hd n) n st) = keep_set c (snd st) n"
  by (cases st) (auto simp: remember_unit_def keep_set_def)

lemma wf_nal_next:
  assumes "wf_nal c n"
  shows "next_start (n @ render_nals ns) = (length n, if ns = [] then 0 else 4)"
proof -
  have "n \<noteq> []" "last n \<noteq> 0" "\<forall>i. i + 2 < length n \<longrightarrow> \<not> code_at n i"
    using assms by (auto simp: wf_nal_def)
  moreover have "render_nals ns = [] \<longleftrightarrow> ns = []" by (cases ns) (simp_all add: render_nals_def start_code_def)
  ultimately show ?thesis using next_start_nal [OF _ _ _ render_nals_shape] by simp
qed

lemma remember_units_next:
  assumes "xs \<noteq> []" and "\<not> is_slice c (hd xs)" and "next_start xs = (k, n)" and "k < length xs"
  shows "remember_units c xs st = remember_units c (drop (k + n) xs) (remember_unit c (hd xs) (take k xs) st)"
  using assms by (cases xs) (simp_all add: remember_units.simps del: next_start.simps)

lemma remember_units_rendered:
  "list_all (wf_nal c) (n # ns) \<Longrightarrow>
     snd (remember_units c (n @ render_nals ns) st) = latest_sets c (snd st) (n # ns)"
proof (induction ns arbitrary: n st)
  case Nil
  then obtain h body where n: "n = h # body" by (cases n) (auto simp: wf_nal_def)
  have "next_start (h # body) = (length n, 0)" using wf_nal_next [of c n "[]"] Nil n by (simp add: render_nals_def)
  then show ?case
    using remember_unit_sets [of c n st] n
    by (simp add: remember_units.simps latest_sets_def render_nals_def)
next
  case (Cons m ns)
  then obtain h body where n: "n = h # body" by (cases n) (auto simp: wf_nal_def)
  let ?rest = "render_nals (m # ns)"
  have rest: "?rest = start_code @ m @ render_nals ns" by (simp add: render_nals_def)
  have nxt: "next_start (n @ ?rest) = (length n, 4)" using wf_nal_next [of c n "m # ns"] Cons.prems by simp
  show ?case
  proof (cases "is_slice c h")
    case True
    then show ?thesis using n by (simp add: remember_units.simps latest_sets_def)
  next
    case False
    have "drop (length n + 4) (n @ ?rest) = m @ render_nals ns" unfolding rest by (simp add: start_code_def)
    moreover have "length n < length (n @ ?rest)" unfolding rest by (simp add: start_code_def)
    ultimately have "remember_units c (n @ ?rest) st =
        remember_units c (m @ render_nals ns) (remember_unit c (hd n) n st)"
      using remember_units_next [OF _ _ nxt, of c st] False n by simp
    then show ?thesis
      using Cons.IH [of m "remember_unit c (hd n) n st"] Cons.prems False n remember_unit_sets [of c n st]
      by (simp add: latest_sets_def)
  qed
qed

lemma remember_rendered:
  assumes "list_all (wf_nal (m_codec_id s)) ns" and "ns \<noteq> []"
  shows "m_parameter_set_units (rememberParameterSets (render_nals ns) s) =
    latest_sets (m_codec_id s) (m_parameter_set_units s) ns"
proof -
  obtain n ms where ns: "ns = n # ms" using assms(2) by (cases ns) auto
  have "next_start (render_nals ns) = (0, 4)" unfolding ns by (simp add: render_nals_def start_code_def)
  moreover have "drop 4 (render_nals ns) = n @ render_nals ms" unfolding ns by (simp add: render_nals_def start_code_def)
  moreover have "render_nals ns \<noteq> []" unfolding ns by (simp add: render_nals_def start_code_def)
  ultimately show ?thesis
    using remember_units_rendered [of "m_codec_id s" n ms "(False, m_parameter_set_units s)"] assms(1) ns
    by (auto simp: rememberParameterSets_def Let_def split: prod.split)
qed

lemma remember_units_changed:
  "remember_units c data (ch, sets) = (ch', sets') \<Longrightarrow> (ch \<longrightarrow> ch') \<and> (\<not> ch' \<longrightarrow> sets' = sets)"
proof (induction c data "(ch, sets)" arbitrary: ch sets rule: remember_units.induct)
  case (1 c)
  then show ?case by (simp add: remember_units.simps)
next
  case (2 c header body)
  obtain k n where kn: "next_start (header # body) = (k, n)" by (metis prod.exhaust)
  obtain ch1 sets1 where u: "remember_unit c header (take k (header # body)) (ch, sets) = (ch1, sets1)"
    by (metis prod.exhaust)
  have u': "(ch \<longrightarrow> ch1) \<and> (\<not> ch1 \<longrightarrow> sets1 = sets)" using u by (auto simp: remember_unit_def split: if_splits)
  show ?case
  proof (cases "is_slice c header \<or> \<not> k < length (header # body)")
    case True
    then show ?thesis using "2.prems" kn u u' by (auto simp: remember_units.simps split: if_splits)
  next
    case False
    then have "remember_units c (drop (k + n) (header # body)) (ch1, sets1) = (ch', sets')"
      using "2.prems" kn u by (simp add: remember_units.simps)
    moreover have "remember_units c (drop (k + n) (header # body)) (ch1, sets1) = (ch', sets') \<Longrightarrow>
        (ch1 \<longrightarrow> ch') \<and> (\<not> ch' \<longrightarrow> sets' = sets1)"
      using "2.hyps" False kn u by (metis)
    ultimately show ?thesis using u' by blast
  qed
qed

text \<open>The rendered parameter sets are always those of the units.\<close>

definition sets_ok :: "'p video_decoder \<Rightarrow> bool" where
  "sets_ok s = (m_parameter_sets s = render_sets (m_parameter_set_units s))"

lemma remember_sets_ok: "sets_ok s \<Longrightarrow> sets_ok (rememberParameterSets data s)"
  using remember_units_changed [of "m_codec_id s" _ False "m_parameter_set_units s"]
  by (auto simp: sets_ok_def rememberParameterSets_def Let_def split: prod.splits if_splits)

section \<open>Lemmas on the decoder state\<close>

text \<open>
  What holds between any two calls: hardware is only open in a context and while it is allowed,
  it is only allowed when it is preferred, and neither error count has reached its limit.
\<close>

definition hardware_ok :: "'p video_decoder \<Rightarrow> bool" where
  "hardware_ok s = ((m_hardware_open s \<longrightarrow> m_context s \<and> m_hardware_allowed s) \<and>
     (m_hardware_allowed s \<longrightarrow> m_hardware_preferred s))"

definition counts_ok :: "'p video_decoder \<Rightarrow> bool" where
  "counts_ok s = (0 \<le> m_hardware_errors s \<and> m_hardware_errors s < kMaxHardwareErrors \<and>
     0 \<le> m_stream_errors s \<and> m_stream_errors s < kMaxStreamErrors)"

definition video_ok :: "'p video_decoder \<Rightarrow> bool" where
  "video_ok s = (hardware_ok s \<and> counts_ok s \<and> sets_ok s)"

lemmas video_ok_defs = video_ok_def hardware_ok_def counts_ok_def sets_ok_def kMaxHardwareErrors_def
  kMaxStreamErrors_def

text \<open>What the operations on the context leave alone.\<close>

definition same_stream :: "'p video_decoder \<Rightarrow> 'p video_decoder \<Rightarrow> bool" where
  "same_stream s s' = (m_hardware_preferred s' = m_hardware_preferred s \<and>
     m_hardware_allowed s' = m_hardware_allowed s \<and> m_parameter_set_units s' = m_parameter_set_units s \<and>
     m_parameter_sets s' = m_parameter_sets s \<and> m_stream_errors s' = m_stream_errors s)"

lemma close_ok: "video_ok s \<Longrightarrow> video_ok (close_decoder s) \<and> same_stream s (close_decoder s)"
  by (simp add: video_ok_defs same_stream_def close_decoder_def releaseLockedBuffer_def)

lemma open_ok:
  assumes "video_ok s" and "\<not> m_context s" and "hw \<longrightarrow> m_hardware_allowed s"
    and "open_decoder L hw (s, w) = (ok, (s', w'))"
  shows "video_ok s' \<and> same_stream s s' \<and> (ok \<longleftrightarrow> m_context s') \<and> (\<not> hw \<longrightarrow> \<not> m_hardware_open s')"
proof -
  have d: "hardware_device L hw w1 = (h, w2) \<Longrightarrow> h \<longrightarrow> hw" for w1 h w2
    by (auto simp: hardware_device_def split: if_splits)
  have o: "\<not> m_hardware_open s" using assms(1,2) by (auto simp: video_ok_defs)
  show ?thesis
    using assms o
    by (auto simp: open_decoder_def video_ok_defs same_stream_def close_decoder_def releaseLockedBuffer_def Let_def
        split: if_splits prod.splits bool.splits dest!: d)
qed

lemma fallback_ok:
  assumes "video_ok s" and "fallBackToSoftware L (s, w) = (ok, (s', w'))"
  shows "video_ok s' \<and> \<not> m_hardware_allowed s' \<and> (ok \<longrightarrow> m_context s')"
proof -
  let ?s1 = "(close_decoder s)\<lparr>m_hardware_allowed := False, m_hardware_errors := 0, m_stream_errors := 0\<rparr>"
  have s1: "video_ok ?s1" "\<not> m_context ?s1"
    using assms(1) by (simp_all add: video_ok_defs close_decoder_def releaseLockedBuffer_def)
  obtain ok2 s2 w2 where o: "open_decoder L False (?s1, w) = (ok2, (s2, w2))" by (metis prod.exhaust)
  have s2: "video_ok s2" "\<not> m_hardware_allowed s2" "ok2 \<longrightarrow> m_context s2"
    using open_ok [OF s1(1,2) _ o] by (auto simp: same_stream_def)
  have "replay_sets L (s2, w2) = (s3, w3) \<Longrightarrow> video_ok s3 \<and> m_hardware_allowed s3 = m_hardware_allowed s2 \<and> m_context s3 = m_context s2" for s3 w3
    using s2(1) by (auto simp: replay_sets_def video_ok_defs split: if_splits prod.splits bool.splits)
  then show ?thesis
    using assms(2) o s2 by (auto simp: fallBackToSoftware_def Let_def split: bool.splits)
qed

lemma reopen_ok:
  assumes "video_ok s" and "reopen L (s, w) = (ok, (s', w'))"
  shows "video_ok s'"
proof -
  let ?s1 = "(close_decoder s)\<lparr>m_hardware_allowed := m_hardware_preferred s,
      m_parameter_set_units := Map.empty, m_parameter_sets := [], m_hardware_errors := 0,
      m_stream_errors := 0, m_errors_logged := 0\<rparr>"
  have s1: "video_ok ?s1" "\<not> m_context ?s1"
    by (simp_all add: video_ok_defs close_decoder_def releaseLockedBuffer_def render_sets_def map_replicate_const)
  obtain ok2 s2 w2 where o: "open_decoder L (m_hardware_allowed ?s1) (?s1, w) = (ok2, (s2, w2))"
    by (metis prod.exhaust)
  have s2: "video_ok s2" "ok2 = m_context s2" using open_ok [OF s1 _ o] by auto
  show ?thesis
  proof (cases "ok2 \<or> \<not> m_hardware_allowed s2")
    case True
    then show ?thesis using assms(2) o s2 by (cases ok2) (auto simp: reopen_def Let_def)
  next
    case False
    have s3: "video_ok (s2\<lparr>m_hardware_allowed := False\<rparr>)" "\<not> m_context (s2\<lparr>m_hardware_allowed := False\<rparr>)"
      using s2 False by (auto simp: video_ok_defs)
    have "open_decoder L False (s2\<lparr>m_hardware_allowed := False\<rparr>, w2) = (ok, (s', w'))"
      using assms(2) o False by (simp add: reopen_def Let_def)
    from open_ok [OF s3 _ this] show ?thesis by simp
  qed
qed

lemma flush_ok: "video_ok s \<Longrightarrow> flush L (s, w) = (s', w') \<Longrightarrow> video_ok s'"
proof -
  assume a: "video_ok s" "flush L (s, w) = (s', w')"
  let ?s1 = "(releaseLockedBuffer s)\<lparr>m_parameter_set_units := Map.empty, m_parameter_sets := []\<rparr>"
  have s1: "video_ok ?s1"
    using a(1) by (simp add: video_ok_defs releaseLockedBuffer_def render_sets_def map_replicate_const)
  obtain ok s2 w2 where r: "reopen L (?s1, w) = (ok, (s2, w2))" by (metis prod.exhaust)
  show ?thesis
    using a(2) r reopen_ok [OF s1 r] s1
    by (auto simp: flush_def Let_def video_ok_defs split: if_splits)
qed

lemma noteError_counts:
  assumes "video_ok s" and "noteError L e s = (give_up, s')"
  shows "hardware_ok s' \<and> sets_ok s' \<and> (\<not> give_up \<longrightarrow> counts_ok s') \<and>
    m_hardware_allowed s' = m_hardware_allowed s \<and> m_hardware_preferred s' = m_hardware_preferred s"
  using assms by (auto simp: noteError_def video_ok_defs Let_def split: if_splits)

lemma fallback_after_error:
  assumes "hardware_ok s" and "sets_ok s" and "fallBackToSoftware L (s, w) = (ok, (s', w'))"
  shows "video_ok s' \<and> \<not> m_hardware_allowed s'"
proof -
  have "video_ok (s\<lparr>m_hardware_errors := 0, m_stream_errors := 0\<rparr>)"
    using assms(1,2) by (simp add: video_ok_defs)
  moreover have "fallBackToSoftware L (s\<lparr>m_hardware_errors := 0, m_stream_errors := 0\<rparr>, w) = fallBackToSoftware L (s, w)"
    by (simp add: fallBackToSoftware_def close_decoder_def releaseLockedBuffer_def)
  ultimately show ?thesis using fallback_ok assms(3) by metis
qed

text \<open>
  The decoder stays well formed through \<open>decode\<close>, and hardware once given up stays given up:
  \<open>kept s s'\<close> is what every part of \<open>decode\<close> guarantees.
\<close>

definition kept :: "'p video_decoder \<Rightarrow> 'p video_decoder \<Rightarrow> bool" where
  "kept s s' = (video_ok s' \<and> (m_hardware_allowed s' \<longrightarrow> m_hardware_allowed s))"

lemma kept_trans: "kept s t \<Longrightarrow> kept t u \<Longrightarrow> kept s u"
  by (auto simp: kept_def)

lemma kept_fallback: "video_ok s \<Longrightarrow> fallBackToSoftware L (s, w) = (ok, (s', w')) \<Longrightarrow> kept s s'"
  by (drule (1) fallback_ok) (simp add: kept_def)

lemma kept_send: "video_ok s \<Longrightarrow> send_unit L u pts (s, w) = (ret, (s', w')) \<Longrightarrow> kept s s'"
  by (auto simp: send_unit_def kept_def video_ok_defs split: bool.splits prod.splits option.splits if_splits)

lemma kept_collect: "video_ok (fst (g_state g)) \<Longrightarrow> kept (fst (g_state g)) (fst (g_state (collectFrames L g)))"
  by (auto simp: collectFrames_def kept_def video_ok_defs split: prod.splits)

text \<open>The same for a step that may return early.\<close>

definition kept_step ::
    "'p video_decoder \<Rightarrow> ('p video_decoder \<times> 'w) + 'x \<Rightarrow> ('x \<Rightarrow> ('p, 'w) progress) \<Rightarrow> bool" where
  "kept_step s r f = (case r of Inl sw \<Rightarrow> kept s (fst sw) | Inr x \<Rightarrow> kept s (fst (g_state (f x))))"

lemma kept_refused: "video_ok s \<Longrightarrow> video_ok (s\<lparr>m_hardware_refused := b\<rparr>)"
  by (simp add: video_ok_defs)

lemma send_first_kept:
  assumes "video_ok (fst (g_state g))"
  shows "kept_step (fst (g_state g)) (send_first L u pts g) snd"
proof -
  obtain s w where g: "g_state g = (s, w)" by (cases "g_state g")
  obtain ret s1 w1 where a: "send_unit L u pts (s, w) = (ret, (s1, w1))" by (metis prod.exhaust)
  have k1: "kept s s1" using kept_send [OF _ a] assms g by simp
  then have s1: "video_ok (s1\<lparr>m_hardware_refused := False\<rparr>)" by (simp add: kept_def kept_refused)
  obtain ok s2 w2 where b: "fallBackToSoftware L (s1\<lparr>m_hardware_refused := False\<rparr>, w1) = (ok, (s2, w2))"
    by (metis prod.exhaust)
  have k2: "kept s s2" using kept_fallback [OF s1 b] k1 by (auto simp: kept_def)
  obtain ret2 s3 w3 where c: "send_unit L u pts (s2, w2) = (ret2, (s3, w3))" by (metis prod.exhaust)
  have k3: "kept s s3" using kept_send [OF _ c] k2 kept_trans by (auto simp: kept_def)
  show ?thesis
    using g a b c k1 k2 k3 by (cases ok) (auto simp: send_first_def kept_step_def)
qed

lemma send_again_kept:
  assumes "video_ok (fst (g_state (snd rg)))"
  shows "kept (fst (g_state (snd rg))) (fst (g_state (snd (send_again L u pts rg))))"
proof -
  let ?g1 = "collectFrames L (snd rg)"
  have k1: "kept (fst (g_state (snd rg))) (fst (g_state ?g1))" by (rule kept_collect [OF assms])
  obtain s w where g1: "g_state ?g1 = (s, w)" by (cases "g_state ?g1")
  obtain ret s1 w1 where a: "send_unit L u pts (s, w) = (ret, (s1, w1))" by (metis prod.exhaust)
  have "kept s s1" using kept_send [OF _ a] k1 g1 by (simp add: kept_def)
  then have k2: "kept (fst (g_state (snd rg))) s1" using kept_trans k1 g1 by auto
  show ?thesis
  proof (cases "fst rg = l_eagain L")
    case True
    then show ?thesis using k2 g1 a by (simp add: send_again_def Let_def)
  next
    case False
    then show ?thesis using assms by (simp add: send_again_def kept_def)
  qed
qed

lemma send_failed_kept:
  assumes "video_ok (fst (g_state (snd rg)))"
  shows "kept_step (fst (g_state (snd rg))) (send_failed L u pts rg) (\<lambda>g. g)"
proof -
  obtain s w where g: "g_state (snd rg) = (s, w)" by (cases "g_state (snd rg)")
  have s: "video_ok s" using assms g by simp
  obtain up s1 where a: "noteError L (fst rg) s = (up, s1)" by (metis prod.exhaust)
  note n = noteError_counts [OF s a]
  obtain ok s2 w2 where b: "fallBackToSoftware L (s1, w) = (ok, (s2, w2))" by (metis prod.exhaust)
  have k2: "kept s s2" using fallback_after_error [OF _ _ b] n by (auto simp: kept_def)
  obtain ret s3 w3 where c: "send_unit L u pts (s2, w2) = (ret, (s3, w3))" by (metis prod.exhaust)
  have k3: "kept s s3" using kept_send [OF _ c] k2 kept_trans by (auto simp: kept_def)
  have k1: "\<not> up \<Longrightarrow> kept s s1" using n by (auto simp: kept_def video_ok_def)
  show ?thesis
    using g a b c k1 k2 k3 s by (cases up; cases ok) (auto simp: send_failed_def kept_step_def kept_def)
qed

lemma decode_unit_kept:
  assumes "video_ok (fst (g_state g))"
  shows "kept_step (fst (g_state g)) (decode_unit L u pts g) (\<lambda>g. g)"
proof (cases "send_first L u pts g")
  case (Inl sw)
  then show ?thesis using send_first_kept [OF assms, of L u pts] by (simp add: decode_unit_def kept_step_def)
next
  case (Inr rg)
  have k1: "kept (fst (g_state g)) (fst (g_state (snd rg)))"
    using send_first_kept [OF assms, of L u pts] Inr by (simp add: kept_step_def)
  let ?rg = "send_again L u pts rg"
  have k2: "kept (fst (g_state (snd rg))) (fst (g_state (snd ?rg)))"
    by (rule send_again_kept) (use k1 in \<open>simp add: kept_def\<close>)
  have k3: "kept_step (fst (g_state (snd ?rg))) (send_failed L u pts ?rg) (\<lambda>g. g)"
    by (rule send_failed_kept) (use k2 in \<open>simp add: kept_def\<close>)
  have k: "kept (fst (g_state g)) (fst (g_state (snd ?rg)))" using kept_trans k1 k2 by blast
  show ?thesis
  proof (cases "send_failed L u pts ?rg")
    case (Inl sw)
    then show ?thesis using Inr k3 kept_trans [OF k] by (simp add: decode_unit_def kept_step_def)
  next
    case inr: (Inr g2)
    have "kept (fst (g_state (snd ?rg))) (fst (g_state g2))" using k3 inr by (simp add: kept_step_def)
    moreover from this have "kept (fst (g_state g2)) (fst (g_state (collectFrames L g2)))"
      by (intro kept_collect) (simp add: kept_def)
    ultimately show ?thesis
      using Inr inr k kept_trans by (simp add: decode_unit_def kept_step_def) blast
  qed
qed

lemma decode_units_kept:
  "video_ok (fst (g_state g)) \<Longrightarrow> kept_step (fst (g_state g)) (decode_units L us pts g) (\<lambda>g. g)"
proof (induction us arbitrary: g)
  case Nil
  then show ?case by (simp add: kept_step_def kept_def)
next
  case (Cons u us)
  show ?case
  proof (cases "decode_unit L u pts g")
    case (Inl sw)
    then show ?thesis using decode_unit_kept [OF Cons.prems, of L u pts] by (simp add: kept_step_def)
  next
    case (Inr g1)
    then have k: "kept (fst (g_state g)) (fst (g_state g1))"
      using decode_unit_kept [OF Cons.prems, of L u pts] by (simp add: kept_step_def)
    then have "kept_step (fst (g_state g1)) (decode_units L us pts g1) (\<lambda>g. g)"
      by (intro Cons.IH) (simp add: kept_def)
    then show ?thesis
      using Inr kept_trans [OF k] by (cases "decode_units L us pts g1") (simp_all add: kept_step_def)
  qed
qed

lemma i420_kept: "video_ok s \<Longrightarrow> i420_buffer L frame (s, w) = (b, (s', w')) \<Longrightarrow> kept s s'"
  by (auto simp: i420_buffer_def kept_def video_ok_defs Let_def split: option.splits if_splits prod.splits)

lemma software_kept:
  assumes "video_ok s" and "outputSoftwareFrame L frame (s, w) = (out, (s', w'))"
  shows "kept s s'"
proof -
  obtain ok w1 where c: "l_sws_context L w frame = (ok, w1)" by (metis prod.exhaust)
  obtain b s2 w2 where i: "i420_buffer L frame (s, w1) = (b, (s2, w2))" by (metis prod.exhaust)
  have "kept s s2" by (rule i420_kept [OF assms(1) i])
  then show ?thesis
    using assms c i by (auto simp: outputSoftwareFrame_def kept_def Let_def split: if_splits bool.splits option.splits)
qed

lemma hardware_kept:
  assumes "video_ok s" and "outputHardwareFrame L frame (s, w) = (out, (s', w'))"
  shows "kept s s'"
proof -
  obtain t w1 where t: "l_transfer L w frame = (t, w1)" by (metis prod.exhaust)
  have l: "kept s (s\<lparr>m_locked_buffer := b\<rparr>)" for b using assms(1) by (simp add: kept_def video_ok_defs)
  have k: "kept s s" using assms(1) by (simp add: kept_def)
  show ?thesis
  proof (cases t)
    case None
    then show ?thesis
      using assms(2) t l k by (auto simp: outputHardwareFrame_def split: option.splits if_splits)
  next
    case (Some f)
    obtain o2 s2 w2 where o: "outputSoftwareFrame L (f\<lparr>f_full := f_full frame\<rparr>) (s, w1) = (o2, (s2, w2))"
      by (metis prod.exhaust)
    have "kept s s2" by (rule software_kept [OF assms(1) o])
    then show ?thesis
      using assms(2) t Some o l by (auto simp: outputHardwareFrame_def split: option.splits if_splits)
  qed
qed

lemma produce_kept:
  assumes "video_ok s" and "produceFrame L frame (s, w) = (out, (s', w'))"
  shows "kept s s'"
proof -
  have m: "kept s s1 \<Longrightarrow> kept s (noteMode a b c d s1)" for s1 a b c d
    by (simp add: noteMode_def kept_def video_ok_defs Let_def)
  show ?thesis
    using assms(2)
    by (auto simp: produceFrame_def Let_def split: if_splits option.splits prod.splits
        intro: m hardware_kept [OF assms(1)] software_kept [OF assms(1)])
qed

lemma finish_kept:
  assumes "video_ok s" and "finish_error L e (s, w) = (s', w')"
  shows "kept s s'"
proof -
  obtain up s1 where n: "noteError L e s = (up, s1)" by (metis prod.exhaust)
  note k = noteError_counts [OF assms(1) n]
  obtain ok s2 w2 where f: "fallBackToSoftware L (s1, w) = (ok, (s2, w2))" by (metis prod.exhaust)
  have "kept s s2" using fallback_after_error [OF _ _ f] k by (simp add: kept_def)
  moreover have "\<not> up \<Longrightarrow> kept s s1" using k by (simp add: kept_def video_ok_def)
  moreover have "kept s s" using assms(1) by (simp add: kept_def)
  ultimately show ?thesis using assms(2) n f by (cases up) (auto simp: finish_error_def split: if_splits)
qed

lemma decode_kept:
  assumes "video_ok s" and "decode L data pts (s, w) = (out, (s', w'))"
  shows "kept s s'"
proof (cases "\<not> m_context s \<or> \<not> m_allocated s \<or> data = [] \<or> length data > 2147483647 - 64")
  case True
  then show ?thesis using assms by (auto simp: decode_def kept_def)
next
  case False
  let ?s1 = "rememberParameterSets data (releaseLockedBuffer s)"
  let ?g0 = "\<lparr>g_state = (?s1, w), g_received = False, g_error = 0\<rparr>"
  let ?r = "decode_units L (map (unit_bytes data) (split_access_units (m_codec_id ?s1) data)) pts ?g0"
  have rel: "video_ok (releaseLockedBuffer s)" using assms(1) by (simp add: video_ok_defs releaseLockedBuffer_def)
  then have k1: "kept s ?s1"
    using remember_sets_ok [of "releaseLockedBuffer s" data]
    by (auto simp: kept_def video_ok_def hardware_ok_def counts_ok_def rememberParameterSets_def
        releaseLockedBuffer_def Let_def split: prod.splits)
  have ku: "kept_step ?s1 ?r (\<lambda>g. g)"
    using decode_units_kept [of ?g0] k1 by (simp add: kept_def)
  have d: "decode L data pts (s, w) =
      (case ?r of Inl sw2 \<Rightarrow> (None, sw2)
       | Inr g \<Rightarrow>
           if g_received g \<and> m_frame (fst (g_state g)) \<noteq> None then
             (case produceFrame L (the (m_frame (fst (g_state g)))) (g_state g) of
                (Some out, (s3, w3)) \<Rightarrow> (Some out, (reset_errors s3, w3))
              | (None, sw3) \<Rightarrow> (None, finish_error L (l_external L) sw3))
           else (None, finish_error L (g_error g) (g_state g)))"
    using False by (simp add: decode_def Let_def)
  show ?thesis
  proof (cases ?r)
    case (Inl sw2)
    then show ?thesis using assms(2) d ku kept_trans [OF k1] by (auto simp: kept_step_def)
  next
    case (Inr g)
    obtain s2 w2 where g: "g_state g = (s2, w2)" by (cases "g_state g")
    have k2: "kept s s2" using ku Inr g kept_trans [OF k1] by (simp add: kept_step_def)
    then have s2: "video_ok s2" by (simp add: kept_def)
    obtain o3 s3 w3 where p: "produceFrame L (the (m_frame s2)) (s2, w2) = (o3, (s3, w3))" by (metis prod.exhaust)
    have k3: "kept s s3" using produce_kept [OF s2 p] kept_trans [OF k2] by blast
    then have "kept s (reset_errors s3)" by (simp add: kept_def video_ok_defs reset_errors_def)
    moreover have "kept s s4" if "finish_error L e (s3, w3) = (s4, w4)" for e s4 w4
      using that kept_trans [OF k3] finish_kept [of s3 L e w3 s4 w4] k3 by (simp add: kept_def)
    moreover have "kept s s4" if "finish_error L e (s2, w2) = (s4, w4)" for e s4 w4
      using that kept_trans [OF k2] finish_kept [of s2 L e w2 s4 w4] s2 by simp
    ultimately show ?thesis
      using assms(2) d Inr g p by (auto split: if_splits option.splits prod.splits)
  qed
qed

text \<open>The operations as events of a machine.\<close>

datatype video_event = Decode bytes int | Flush | Release

fun video_step :: "('w, 'p) video_lib \<Rightarrow> 'p video_decoder \<times> 'w \<Rightarrow> video_event \<Rightarrow>
    ('p video_decoder \<times> 'w) \<times> 'p decoded_frame option" where
  "video_step L sw (Decode data pts) = (case decode L data pts sw of (out, sw') \<Rightarrow> (sw', out))"
| "video_step L sw Flush = (flush L sw, None)"
| "video_step L sw Release = ((releaseFrame (fst sw), snd sw), None)"

lemma release_kept: "video_ok s \<Longrightarrow> kept s (releaseFrame s)"
  by (simp add: kept_def video_ok_defs releaseFrame_def releaseLockedBuffer_def)

lemma video_step_kept:
  assumes "video_ok s" and "e \<noteq> Flush" and "video_step L (s, w) e = ((s', w'), out)"
  shows "kept s s'"
  using assms release_kept [OF assms(1)]
  by (cases e) (auto split: prod.splits intro: decode_kept [OF assms(1)])

interpretation video_machine: machine "video_step L" "\<lambda>e. True" "\<lambda>sw. video_ok (fst sw)"
proof (unfold_locales, goal_cases)
  case (1 sw e)
  obtain s w where sw: "sw = (s, w)" by (cases sw)
  have s: "video_ok s" using 1 sw by simp
  obtain s' w' out where st: "video_step L (s, w) e = ((s', w'), out)" by (metis prod.exhaust)
  show ?case
  proof (cases "e = Flush")
    case True
    then show ?thesis using flush_ok [OF s, of L w] sw by (cases "flush L (s, w)") auto
  next
    case False
    then show ?thesis using video_step_kept [OF s False st] st sw by (simp add: kept_def)
  qed
qed

text \<open>Within one stream (no flush): hardware decoding that was given up is not opened again.\<close>

interpretation software_stream: machine "video_step L" "\<lambda>e. e \<noteq> Flush"
  "\<lambda>sw. video_ok (fst sw) \<and> \<not> m_hardware_allowed (fst sw)"
proof (unfold_locales, goal_cases)
  case (1 sw e)
  obtain s w where sw: "sw = (s, w)" by (cases sw)
  obtain s' w' out where st: "video_step L (s, w) e = ((s', w'), out)" by (metis prod.exhaust)
  show ?case using 1 sw st video_step_kept [of s e L w s' w' out] by (auto simp: kept_def)
qed

lemma video_decoder_new_ok: "video_ok (fst (video_decoder_new L c preferred allocated w))"
proof -
  let ?s = "\<lparr>m_codec_id = c, m_hardware_preferred = preferred, m_hardware_allowed = preferred,
     m_hardware_open = False, m_hardware_refused = False, m_context = False, m_allocated = allocated,
     m_frame = None, m_frame_i420 = None, m_locked_buffer = False, m_parameter_set_units = Map.empty,
     m_parameter_sets = [], m_hardware_errors = 0, m_stream_errors = 0, m_errors_logged = 0,
     m_last_frame_hardware = False, m_mode_logged = False, m_logged_hardware = False,
     m_logged_width = 0, m_logged_height = 0, m_logged_full_range = False\<rparr>"
  have s: "video_ok ?s" by (simp add: video_ok_defs render_sets_def map_replicate_const)
  obtain ok s' w' where r: "reopen L (?s, w) = (ok, (s', w'))" by (metis prod.exhaust)
  then have "video_decoder_new L c preferred allocated w = (s', w')" unfolding video_decoder_new_def by simp
  then show ?thesis using reopen_ok [OF s r] by simp
qed

section \<open>Properties\<close>

text \<open>
  Splitting a payload into access units loses and duplicates nothing: the units in order are the
  payload, and none is empty.
\<close>

theorem access_units_partition_payload:
  assumes "data \<noteq> []"
  shows "concat (map (unit_bytes data) (split_access_units c data)) = data \<and>
    list_all (\<lambda>u. unit_bytes data u \<noteq> []) (split_access_units c data)"
  using split_covers [OF assms, of c] by (simp add: covers_def)

theorem access_units_partition_payload_witness:
  "concat (map (unit_bytes [0, 0, 1, 0x65, 0x80, 0, 0, 1, 0x41, 0x80])
     (split_access_units H264 [0, 0, 1, 0x65, 0x80, 0, 0, 1, 0x41, 0x80])) =
   [0, 0, 1, 0x65, 0x80, 0, 0, 1, 0x41, 0x80]"
  using access_units_partition_payload [of "[0, 0, 1, 0x65, 0x80, 0, 0, 1, 0x41, 0x80]" H264] by simp

text \<open>
  C14. The byte scan refines the grouping of NAL units: a payload of NAL units after start codes is
  split exactly before a unit that starts a picture, or is a parameter set, SEI or delimiter, once
  the access unit has a slice.
\<close>

theorem access_units_refine_grouping:
  assumes "list_all (wf_nal c) ns"
  shows "map (unit_bytes (render_nals ns)) (split_access_units c (render_nals ns)) =
    map render_nals (group_units c [] False ns)"
  using assms by (rule split_groups)

theorem access_units_refine_grouping_witness:
  "map (unit_bytes (render_nals [[0x67, 1], [0x65, 0x80], [0x41, 0x80]]))
     (split_access_units H264 (render_nals [[0x67, 1], [0x65, 0x80], [0x41, 0x80]])) =
   [render_nals [[0x67, 1], [0x65, 0x80]], render_nals [[0x41, 0x80]]]"
  using access_units_refine_grouping [of H264 "[[0x67, 1], [0x65, 0x80], [0x41, 0x80]]"]
  by (simp add: wf_nal_def new_unit_def is_slice_def starts_unit_def nal_type_def)

text \<open>
  The parameter sets kept for a fallback are, of each type, the latest before the first slice of
  the payload, and otherwise those kept before.
\<close>

theorem latest_parameter_sets_are_kept:
  assumes "list_all (wf_nal (m_codec_id s)) ns" and "ns \<noteq> []"
  shows "m_parameter_set_units (rememberParameterSets (render_nals ns) s) =
    latest_sets (m_codec_id s) (m_parameter_set_units s) ns"
  using assms by (rule remember_rendered)

definition video_witness_lib :: "(nat, unit) video_lib" where
  "video_witness_lib = \<lparr>l_find_decoder = (\<lambda>c. True), l_alloc_context = (\<lambda>w. (True, w)), l_hwdevice = (\<lambda>w. (True, w)),
     l_buffer_ref = (\<lambda>w. (True, w)), l_open2 = (\<lambda>w h. (True, w)), l_new_packet = (\<lambda>w n. (True, w)),
     l_send = (\<lambda>w d p. ((-1, None), w + 1)), l_receive = (\<lambda>w. (([], None), w)), l_flush = (\<lambda>w. w),
     l_buffer = (\<lambda>f. None), l_transfer = (\<lambda>w f. (None, w)), l_sws_context = (\<lambda>w f. (False, w)),
     l_get_buffer = (\<lambda>w a b. (None, w)), l_scale = (\<lambda>w a b. w), l_eagain = -35, l_invaliddata = -2,
     l_external = -3, l_enomem = -12\<rparr>"

theorem latest_parameter_sets_are_kept_witness:
  "m_parameter_set_units (rememberParameterSets (render_nals [[0x67, 1], [0x67, 2], [0x65, 0x80], [0x68, 3]])
     (fst (video_decoder_new video_witness_lib H264 True True 0))) = [7 \<mapsto> [0x67, 2]]"
proof -
  let ?s = "fst (video_decoder_new video_witness_lib H264 True True 0)"
  have s: "m_codec_id ?s = H264" "m_parameter_set_units ?s = Map.empty"
    by (simp_all add: video_decoder_new_def reopen_def open_decoder_def hardware_device_def close_decoder_def
        releaseLockedBuffer_def video_witness_lib_def Let_def)
  show ?thesis
    using latest_parameter_sets_are_kept [of ?s "[[0x67, 1], [0x67, 2], [0x65, 0x80], [0x68, 3]]"]
    unfolding s by (simp add: wf_nal_def latest_sets_def keep_set_def is_slice_def is_parameter_set_def nal_type_def
        code_at_def)
qed

text \<open>
  C26. Through any sequence of payloads, flushes and releases: hardware is open only in a context and
  while allowed, it is allowed only when wanted, fewer than three hardware and thirty stream
  errors are outstanding, and the bytes replayed at a fallback are the kept parameter sets.
\<close>

theorem video_decoder_invariant:
  assumes "run (video_step L) (video_decoder_new L c preferred allocated w0) es = ((s, w), outs)"
  shows "(m_hardware_open s \<longrightarrow> m_context s \<and> m_hardware_allowed s) \<and>
    (m_hardware_allowed s \<longrightarrow> m_hardware_preferred s) \<and>
    m_hardware_errors s < 3 \<and> m_stream_errors s < 30 \<and> m_parameter_sets s = render_sets (m_parameter_set_units s)"
proof -
  have "video_ok (fst (fst (run (video_step L) (video_decoder_new L c preferred allocated w0) es)))"
    by (rule video_machine.run_inv [OF video_decoder_new_ok]) (simp add: list_all_iff)
  with assms show ?thesis by (simp add: video_ok_defs)
qed

theorem video_decoder_invariant_witness:
  "m_hardware_errors (fst (fst (run (video_step video_witness_lib) (video_decoder_new video_witness_lib H264 True True 0)
     [Decode [0, 0, 1, 0x65, 0x80] 0, Flush]))) < 3"
proof -
  obtain s w outs where "run (video_step video_witness_lib) (video_decoder_new video_witness_lib H264 True True 0)
     [Decode [0, 0, 1, 0x65, 0x80] 0, Flush] = ((s, w), outs)" by (metis prod.exhaust)
  from video_decoder_invariant [OF this] this show ?thesis by simp
qed

text \<open>
  Within one stream (until the next flush) a decoder that has fallen back to software never opens
  the hardware decoder again, whatever payloads and errors follow.
\<close>

theorem fallback_lasts_for_the_stream:
  assumes "video_ok s0" and "\<not> m_hardware_allowed s0" and "list_all (\<lambda>e. e \<noteq> Flush) es"
    and "run (video_step L) (s0, w0) es = ((s, w), outs)"
  shows "\<not> m_hardware_open s"
proof -
  have "video_ok (fst (fst (run (video_step L) (s0, w0) es))) \<and>
      \<not> m_hardware_allowed (fst (fst (run (video_step L) (s0, w0) es)))"
    by (rule software_stream.run_inv) (use assms in simp_all)
  with assms(4) show ?thesis by (auto simp: video_ok_defs)
qed

theorem fallback_lasts_for_the_stream_witness:
  "\<not> m_hardware_open (fst (fst (run (video_step video_witness_lib)
     (snd (fallBackToSoftware video_witness_lib (video_decoder_new video_witness_lib H264 True True 0)))
     [Decode [0, 0, 1, 0x65, 0x80] 0, Release])))"
proof -
  obtain s w where n: "video_decoder_new video_witness_lib H264 True True 0 = (s, w)" by (metis prod.exhaust)
  have "video_ok s" using video_decoder_new_ok [of video_witness_lib H264 True True 0] n by simp
  moreover obtain ok s0 w0 where f: "fallBackToSoftware video_witness_lib (s, w) = (ok, (s0, w0))" by (metis prod.exhaust)
  ultimately have s0: "video_ok s0" "\<not> m_hardware_allowed s0" using fallback_ok [OF _ f] by simp_all
  obtain s1 w1 outs where r: "run (video_step video_witness_lib) (s0, w0) [Decode [0, 0, 1, 0x65, 0x80] 0, Release] = ((s1, w1), outs)"
    by (metis prod.exhaust)
  from fallback_lasts_for_the_stream [OF s0 _ r] show ?thesis using n f r by simp
qed

end
