(* ===== verification/Airplay_Server.thy ===== *)
theory Airplay_Server
  imports Audio_Retimer Audio_Decoder Video_Decoder
begin

text \<open>
  \<^verbatim>\<open>src/airplay-server.hpp\<close> and \<^verbatim>\<open>src/airplay-server.cpp\<close>: class \<open>AirPlayServer\<close>, which queues
  the mirrored video for its decode thread, decodes video and audio, moves the sender's
  timestamps to the OBS clock and hands pictures and sound to the registered sources.

  The members are grouped by the mutex that protects them: \<open>video_queue\<close> (\<open>m_video_queue_mutex\<close>),
  \<open>stream_clock\<close> (\<open>m_timestamp_mutex\<close>) and the rest of \<open>server\<close>. What is done under one lock is
  one operation of the model, so that the threads' interleavings are sequences of operations; the
  payload the decode thread holds between two locks is \<open>m_decoding\<close>. Calls into OBS and into the
  rest of the plugin are returned as a list of \<open>effect\<close>s. OBS, the clocks and the decoders'
  libraries are the record \<open>env\<close>, acting on a world \<open>'w\<close>. Log lines, and the samples that are only
  taken for a log line, are left out.
\<close>

section \<open>The queue of compressed payloads\<close>

definition kMaxQueuedVideo :: nat where "kMaxQueuedVideo = 60"
definition kSpareBuffers :: nat where "kSpareBuffers = 4"

text \<open>The struct \<open>PendingVideo\<close>.\<close>

record pending_video =
  v_data :: bytes
  v_pts :: u64
  v_is_h265 :: bool
  v_arrived_ns :: u64

record video_queue =
  m_video_queue :: "pending_video list"
  m_spare_video_buffers :: "bytes list"
  m_video_thread_quit :: bool
  m_waiting_for_keyframe :: bool

definition queue_new :: video_queue where
  "queue_new = \<lparr>m_video_queue = [], m_spare_video_buffers = [], m_video_thread_quit = False,
     m_waiting_for_keyframe = False\<rparr>"

text \<open>What the header of a NAL unit says of the payload: it can be started from, it cannot, or nothing yet.\<close>

definition start_verdict :: "bool \<Rightarrow> u8 \<Rightarrow> bool option" where
  "start_verdict is_h265 header =
     (if is_h265 then
        (let type = unat (drop_bit 1 header AND 0x3f)
         in if type = 33 \<or> (type \<ge> 16 \<and> type \<le> 21) then Some True
            else if type < 32 then Some False else None)
      else
        (let type = unat (header AND 0x1f)
         in if type = 7 \<or> type = 5 then Some True
            else if type \<ge> 1 \<and> type \<le> 4 then Some False else None))"

fun starts_decodable_stream :: "bool \<Rightarrow> bytes \<Rightarrow> bool" where
  "starts_decodable_stream is_h265 (a # b # c # header # rest) =
     (if a \<noteq> 0 \<or> b \<noteq> 0 \<or> c \<noteq> 1 then starts_decodable_stream is_h265 (b # c # header # rest)
      else (case start_verdict is_h265 header of
              Some v \<Rightarrow> v
            | None \<Rightarrow> starts_decodable_stream is_h265 rest))"
| "starts_decodable_stream is_h265 _ = False"

text \<open>A payload's buffer, cleared, is kept for a later payload.\<close>

definition recycle :: "bytes list \<Rightarrow> bytes list" where
  "recycle spare = (if length spare < kSpareBuffers then spare @ [[]] else spare)"

definition drop_backlog :: "video_queue \<Rightarrow> video_queue" where
  "drop_backlog q =
     (if length (m_video_queue q) \<ge> kMaxQueuedVideo \<and> \<not> m_waiting_for_keyframe q
      then q\<lparr>m_spare_video_buffers := fold (\<lambda>_. recycle) (m_video_queue q) (m_spare_video_buffers q),
             m_video_queue := [], m_waiting_for_keyframe := True\<rparr>
      else q)"

definition push_payload :: "pending_video \<Rightarrow> video_queue \<Rightarrow> video_queue" where
  "push_payload p q = q\<lparr>m_spare_video_buffers := butlast (m_spare_video_buffers q),
     m_video_queue := m_video_queue q @ [p]\<rparr>"

definition ingestVideoBitstream :: "pending_video \<Rightarrow> video_queue \<Rightarrow> video_queue" where
  "ingestVideoBitstream p q =
     (if v_data p = [] \<or> m_video_thread_quit q then q
      else
        (let keyframe = starts_decodable_stream (v_is_h265 p) (v_data p);
             q1 = drop_backlog q
         in if m_waiting_for_keyframe q1 \<and> \<not> keyframe then q1
            else push_payload p (q1\<lparr>m_waiting_for_keyframe := False\<rparr>)))"

text \<open>The decode thread takes the next payload, and gives its buffer back after decoding it.\<close>

definition take_payload :: "video_queue \<Rightarrow> pending_video option \<times> video_queue" where
  "take_payload q =
     (if m_video_thread_quit q then (None, q)
      else (case m_video_queue q of
              [] \<Rightarrow> (None, q)
            | p # rest \<Rightarrow> (Some p, q\<lparr>m_video_queue := rest\<rparr>)))"

definition give_back :: "video_queue \<Rightarrow> video_queue" where
  "give_back q = q\<lparr>m_spare_video_buffers := recycle (m_spare_video_buffers q)\<rparr>"

definition clear_queue :: "video_queue \<Rightarrow> video_queue" where
  "clear_queue q = q\<lparr>m_video_queue := [], m_waiting_for_keyframe := False\<rparr>"

definition stopVideoThread :: "video_queue \<Rightarrow> video_queue" where
  "stopVideoThread q = q\<lparr>m_video_thread_quit := True\<rparr>"

section \<open>The stream clock\<close>

record stream_clock =
  m_timestamp_initialized :: bool
  m_timestamp_source_origin :: u64
  m_timestamp_obs_origin :: u64

definition resetStreamClock :: stream_clock where
  "resetStreamClock = \<lparr>m_timestamp_initialized = False, m_timestamp_source_origin = 0,
     m_timestamp_obs_origin = 0\<rparr>"

definition kMaximumClockDeltaNs :: u64 where "kMaximumClockDeltaNs = 5000000000"

text \<open>The lambda \<open>resetAnchor\<close>.\<close>

definition resetAnchor :: "u64 \<Rightarrow> u64 \<Rightarrow> u64 \<times> stream_clock" where
  "resetAnchor source_timestamp now =
     (now, \<lparr>m_timestamp_initialized = True, m_timestamp_source_origin = source_timestamp,
        m_timestamp_obs_origin = now\<rparr>)"

text \<open>The time on the OBS clock, unless it would leave the 64-bit range.\<close>

definition translate :: "stream_clock \<Rightarrow> u64 \<Rightarrow> u64 option" where
  "translate c source_timestamp =
     (if source_timestamp \<ge> m_timestamp_source_origin c then
        (let delta = source_timestamp - m_timestamp_source_origin c
         in if - 1 - m_timestamp_obs_origin c < delta then None
            else Some (m_timestamp_obs_origin c + delta))
      else
        (let delta = m_timestamp_source_origin c - source_timestamp
         in if delta > m_timestamp_obs_origin c then None
            else Some (m_timestamp_obs_origin c - delta)))"

definition normalizeTimestamp :: "stream_clock \<Rightarrow> u64 \<Rightarrow> u64 \<Rightarrow> u64 \<times> stream_clock" where
  "normalizeTimestamp c source_timestamp now =
     (if source_timestamp = 0 then (now, c)
      else if \<not> m_timestamp_initialized c then resetAnchor source_timestamp now
      else (case translate c source_timestamp of
              None \<Rightarrow> resetAnchor source_timestamp now
            | Some normalized \<Rightarrow>
                if (normalized > now \<and> normalized - now > kMaximumClockDeltaNs) \<or>
                   (now > normalized \<and> now - normalized > kMaximumClockDeltaNs)
                then resetAnchor source_timestamp now
                else (normalized, c)))"

section \<open>The server and its surroundings\<close>

datatype video_format = VIDEO_FORMAT_NV12 | VIDEO_FORMAT_I420

text \<open>
  What is handed to OBS: \<open>obs_source_frame\<close> (the colour matrix is the one OBS gives for the colour
  space and range) and \<open>obs_source_audio\<close> (planar stereo floats).
\<close>

record 'p obs_frame =
  of_data :: "'p option list"
  of_linesize :: "int list"
  of_width :: u32
  of_height :: u32
  of_format :: video_format
  of_full_range :: bool
  of_bt601 :: bool
  of_timestamp :: u64

record 'f obs_audio =
  oa_left :: "'f list"
  oa_right :: "'f list"
  oa_frames :: u32
  oa_rate :: u32
  oa_timestamp :: u64

type_synonym source = nat
type_synonym weak_source = nat

datatype ('p, 'f) effect =
    Output_video source "'p obs_frame"
  | Clear_video source
  | Output_audio source "'f obs_audio"
  | Notify_frame_queued u64
  | Mirror_frame_output

text \<open>The structs \<open>MediaVideoFrame\<close> and \<open>MediaAudioFrame\<close> of the media player.\<close>

record 'p media_video =
  mv_data :: "'p option list"
  mv_linesize :: "int list"
  mv_width :: int
  mv_height :: int
  mv_timestamp :: u64
  mv_nv12 :: bool
  mv_full_range :: bool
  mv_bt601 :: bool

record 'f media_audio =
  ma_left :: "'f list option"
  ma_right :: "'f list option"
  ma_frames :: u32
  ma_rate :: u32
  ma_timestamp :: u64

text \<open>
  The surroundings: the decoders' libraries, \<open>os_gettime_ns\<close>, the thread's CPU clock, the latency
  telemetry switch, and the weak references to sources OBS keeps.
\<close>

record ('w, 'p, 'f) env =
  e_video :: "('w, 'p) video_lib"
  e_audio :: "('w, 'f) audio_lib"
  e_now :: "'w \<Rightarrow> u64 \<times> 'w"
  e_cpu :: "'w \<Rightarrow> u64 \<times> 'w"
  e_telemetry :: "'w \<Rightarrow> bool"
  e_weak :: "source \<Rightarrow> weak_source"
  e_source :: "'w \<Rightarrow> weak_source \<Rightarrow> source option"

definition now_if :: "('w, 'p, 'f) env \<Rightarrow> bool \<Rightarrow> 'w \<Rightarrow> u64 \<times> 'w" where
  "now_if E wanted w = (if wanted then e_now E w else (0, w))"

text \<open>The telemetry windows (the members \<open>m_v_*\<close> and \<open>m_a_*\<close>).\<close>

record video_window =
  m_v_decode_ns_sum :: u64
  m_v_decode_ns_max :: u64
  m_v_output_ns_sum :: u64
  m_v_output_ns_max :: u64
  m_v_last_output_ns :: u64
  m_v_interval_ns_sum :: u64
  m_v_interval_ns_max :: u64
  m_v_window_count :: u32
  m_v_latency_samples :: "u64 list"
  m_v_decode_samples :: "u64 list"
  m_v_window_started_ns :: u64
  m_v_window_cpu_ns :: u64

record audio_window =
  m_a_decode_ns_sum :: u64
  m_a_decode_ns_max :: u64
  m_a_output_ns_sum :: u64
  m_a_output_ns_max :: u64
  m_a_window_count :: u32

text \<open>What of the retimer has been reported (the members \<open>m_audio_retimer_*\<close>).\<close>

record retimer_reports =
  m_audio_retimer_reported :: bool
  m_audio_retimer_steps_reported :: u64
  m_audio_retimer_resyncs_reported :: u64
  m_audio_retimer_trim_reported :: bool

text \<open>Where the decode thread is: waiting, with a payload to decode, or with a buffer to give back.\<close>

datatype decode_thread = Waiting | Decoding pending_video | Decoded

record 'p server =
  m_queue :: video_queue
  m_video_thread :: decode_thread
  m_mirror_frame_output_callback :: bool
  m_registered_sources :: "weak_source list"
  m_h264_decoder :: "'p video_decoder option"
  m_h265_decoder :: "'p video_decoder option"
  m_audio_decoder :: "audio_decoder option"
  m_audio_retimer :: retimer
  m_reports :: retimer_reports
  m_video_frame_counter :: u64
  m_logged_decoder_missing :: bool
  m_first_decoded_frame_ns :: u64
  m_mirror_stats_started_ns :: u64
  m_mirror_stats_frames :: u32
  m_audio_frame_counter :: u64
  m_clock :: stream_clock
  m_video_window :: video_window
  m_audio_window :: audio_window

definition window_new :: video_window where
  "window_new = \<lparr>m_v_decode_ns_sum = 0, m_v_decode_ns_max = 0, m_v_output_ns_sum = 0, m_v_output_ns_max = 0,
     m_v_last_output_ns = 0, m_v_interval_ns_sum = 0, m_v_interval_ns_max = 0, m_v_window_count = 0,
     m_v_latency_samples = [], m_v_decode_samples = [], m_v_window_started_ns = 0, m_v_window_cpu_ns = 0\<rparr>"

definition audio_window_new :: audio_window where
  "audio_window_new = \<lparr>m_a_decode_ns_sum = 0, m_a_decode_ns_max = 0, m_a_output_ns_sum = 0,
     m_a_output_ns_max = 0, m_a_window_count = 0\<rparr>"

definition reports_new :: retimer_reports where
  "reports_new = \<lparr>m_audio_retimer_reported = False, m_audio_retimer_steps_reported = 0,
     m_audio_retimer_resyncs_reported = 0, m_audio_retimer_trim_reported = False\<rparr>"

text \<open>
  The constructor. The parameters of the decoders' constructors are whether hardware decoding is
  wanted and whether their frames were allocated.
\<close>

definition server_new :: "('w, 'p, 'f) env \<Rightarrow> bool \<Rightarrow> bool \<Rightarrow> 'w \<Rightarrow> 'p server \<times> 'w" where
  "server_new E hardware allocated w0 =
     (let (h264, w1) = video_decoder_new (e_video E) H264 hardware allocated w0;
          (h265, w2) = video_decoder_new (e_video E) HEVC hardware allocated w1;
          (audio, w3) = decoder_new (e_audio E) allocated w2
      in (\<lparr>m_queue = queue_new, m_video_thread = Waiting, m_mirror_frame_output_callback = False,
            m_registered_sources = [], m_h264_decoder = Some h264, m_h265_decoder = Some h265,
            m_audio_decoder = Some audio, m_audio_retimer = retimer_new, m_reports = reports_new,
            m_video_frame_counter = 0, m_logged_decoder_missing = False, m_first_decoded_frame_ns = 0,
            m_mirror_stats_started_ns = 0, m_mirror_stats_frames = 0, m_audio_frame_counter = 0,
            m_clock = resetStreamClock, m_video_window = window_new, m_audio_window = audio_window_new\<rparr>, w3))"

definition live_sources :: "('w, 'p, 'f) env \<Rightarrow> 'w \<Rightarrow> 'p server \<Rightarrow> source list" where
  "live_sources E w s = List.map_filter (e_source E w) (m_registered_sources s)"

section \<open>Sources\<close>

definition registerSource :: "('w, 'p, 'f) env \<Rightarrow> source \<Rightarrow> 'p server \<Rightarrow> 'p server" where
  "registerSource E source s = s\<lparr>m_registered_sources := m_registered_sources s @ [e_weak E source]\<rparr>"

text \<open>Removes the first reference to the source.\<close>

fun remove_source :: "(weak_source \<Rightarrow> source option) \<Rightarrow> source \<Rightarrow> weak_source list \<Rightarrow> weak_source list" where
  "remove_source target source [] = []"
| "remove_source target source (weak # rest) =
     (if target weak = Some source then rest else weak # remove_source target source rest)"

definition unregisterSource :: "('w, 'p, 'f) env \<Rightarrow> 'w \<Rightarrow> source \<Rightarrow> 'p server \<Rightarrow> 'p server" where
  "unregisterSource E w source s =
     s\<lparr>m_registered_sources := remove_source (e_source E w) source (m_registered_sources s)\<rparr>"

definition releaseSources :: "'p server \<Rightarrow> 'p server" where
  "releaseSources s = s\<lparr>m_registered_sources := []\<rparr>"

text \<open>\<open>stop\<close>: the thread is told to quit and joined, which ends the turn it is in.\<close>

definition stop_server :: "'p server \<Rightarrow> 'p server" where
  "stop_server s = releaseSources (s\<lparr>m_queue := stopVideoThread (m_queue s)\<rparr>)"

section \<open>Resets\<close>

definition resetAudioRetimer :: "'p server \<Rightarrow> 'p server" where
  "resetAudioRetimer s = s\<lparr>m_audio_retimer := retimer_reset (m_audio_retimer s), m_reports := reports_new\<rparr>"

definition setAudioStreamFormat :: "audio_format \<Rightarrow> 'p server \<Rightarrow> 'p server" where
  "setAudioStreamFormat f s =
     resetAudioRetimer (s\<lparr>m_audio_decoder := map_option (setStreamFormat f) (m_audio_decoder s)\<rparr>)"

definition flush_video :: "('w, 'p) video_lib \<Rightarrow> 'p video_decoder option \<Rightarrow> 'w \<Rightarrow> 'p video_decoder option \<times> 'w" where
  "flush_video L d w =
     (case d of None \<Rightarrow> (None, w)
      | Some s \<Rightarrow> (case Video_Decoder.flush L (s, w) of (s', w') \<Rightarrow> (Some s', w')))"

definition flush_audio :: "('w, 'f) audio_lib \<Rightarrow> audio_decoder option \<Rightarrow> 'w \<Rightarrow> audio_decoder option \<times> 'w" where
  "flush_audio L d w =
     (case d of None \<Rightarrow> (None, w)
      | Some s \<Rightarrow> (case Audio_Decoder.flush L (s, w) of (s', w') \<Rightarrow> (Some s', w')))"

text \<open>
  \<open>resetDecoders\<close> in its parts: the queue under its lock, the decoders and the retimer under theirs,
  the last picture and the counters under the sources' lock, and the stream clock.
\<close>

definition reset_queue :: "bool \<Rightarrow> 'p server \<Rightarrow> 'p server" where
  "reset_queue flush_decoders s = (if flush_decoders then s\<lparr>m_queue := clear_queue (m_queue s)\<rparr> else s)"

definition flush_all :: "('w, 'p, 'f) env \<Rightarrow> bool \<Rightarrow> 'p server \<times> 'w \<Rightarrow> 'p server \<times> 'w" where
  "flush_all E flush_decoders sw =
     (if flush_decoders then
        (let (h264, w1) = flush_video (e_video E) (m_h264_decoder (fst sw)) (snd sw);
             (h265, w2) = flush_video (e_video E) (m_h265_decoder (fst sw)) w1;
             (audio, w3) = flush_audio (e_audio E) (m_audio_decoder (fst sw)) w2
         in (resetAudioRetimer ((fst sw)\<lparr>m_h264_decoder := h264, m_h265_decoder := h265,
               m_audio_decoder := audio\<rparr>), w3))
      else sw)"

definition reset_output :: "('w, 'p, 'f) env \<Rightarrow> bool \<Rightarrow> 'w \<Rightarrow> 'p server \<Rightarrow> 'p server \<times> ('p, 'f) effect list" where
  "reset_output E clear_output w s =
     (s\<lparr>m_video_frame_counter := 0, m_mirror_stats_started_ns := 0, m_first_decoded_frame_ns := 0,
        m_audio_frame_counter := 0\<rparr>,
      (if clear_output then map Clear_video (live_sources E w s) else []) @ [Notify_frame_queued 0])"

definition reset_clock :: "'p server \<Rightarrow> 'p server" where
  "reset_clock s = s\<lparr>m_clock := resetStreamClock\<rparr>"

definition resetDecoders ::
    "('w, 'p, 'f) env \<Rightarrow> bool \<Rightarrow> bool \<Rightarrow> 'p server \<times> 'w \<Rightarrow> ('p server \<times> 'w) \<times> ('p, 'f) effect list" where
  "resetDecoders E clear_output flush_decoders sw =
     (case flush_all E flush_decoders (reset_queue flush_decoders (fst sw), snd sw) of
        (s1, w1) \<Rightarrow> (case reset_output E clear_output w1 s1 of
           (s2, effects) \<Rightarrow> ((reset_clock s2, w1), effects)))"

section \<open>Mirrored pictures\<close>

definition kVideoTelemetryFrames :: u32 where "kVideoTelemetryFrames = 120"
definition kAudioTelemetryFrames :: u32 where "kAudioTelemetryFrames = 240"
definition kMirrorStatsIntervalNs :: u64 where "kMirrorStatsIntervalNs = 10000000000"

definition mirror_frame :: "'p decoded_frame \<Rightarrow> u64 \<Rightarrow> 'p obs_frame" where
  "mirror_frame d timestamp =
     \<lparr>of_data = take 3 (d_data d), of_linesize = take 3 (d_linesize d), of_width = word_of_int (d_width d),
      of_height = word_of_int (d_height d),
      of_format = (if d_nv12 d then VIDEO_FORMAT_NV12 else VIDEO_FORMAT_I420),
      of_full_range = d_full_range d, of_bt601 = d_bt601 d, of_timestamp = timestamp\<rparr>"

text \<open>The window of the \<open>[MIRROR]\<close> line.\<close>

definition count_mirror_frame :: "u64 \<Rightarrow> 'p server \<Rightarrow> 'p server" where
  "count_mirror_frame stats_now s =
     (let s1 = (if m_mirror_stats_started_ns s = 0
                then s\<lparr>m_mirror_stats_started_ns := stats_now, m_mirror_stats_frames := 0\<rparr> else s);
          s2 = s1\<lparr>m_mirror_stats_frames := m_mirror_stats_frames s1 + 1\<rparr>
      in if stats_now - m_mirror_stats_started_ns s2 \<ge> kMirrorStatsIntervalNs
         then s2\<lparr>m_mirror_stats_started_ns := stats_now, m_mirror_stats_frames := 0\<rparr> else s2)"

text \<open>The telemetry of a frame, in the order of the code: sums, samples, the ten second window, the frame window.\<close>

definition add_frame_times :: "u64 \<Rightarrow> u64 \<Rightarrow> u64 \<Rightarrow> video_window \<Rightarrow> video_window" where
  "add_frame_times decode_ns output_ns output_end v =
     (let interval = output_end - m_v_last_output_ns v;
          v1 = v\<lparr>m_v_decode_ns_sum := m_v_decode_ns_sum v + decode_ns,
                 m_v_decode_ns_max := max decode_ns (m_v_decode_ns_max v),
                 m_v_output_ns_sum := m_v_output_ns_sum v + output_ns,
                 m_v_output_ns_max := max output_ns (m_v_output_ns_max v)\<rparr>;
          v2 = (if m_v_last_output_ns v \<noteq> 0
                then v1\<lparr>m_v_interval_ns_sum := m_v_interval_ns_sum v + interval,
                        m_v_interval_ns_max := max interval (m_v_interval_ns_max v)\<rparr> else v1)
      in v2\<lparr>m_v_last_output_ns := output_end, m_v_window_count := m_v_window_count v + 1\<rparr>)"

definition add_frame_samples :: "u64 \<Rightarrow> u64 \<Rightarrow> u64 \<Rightarrow> video_window \<Rightarrow> video_window" where
  "add_frame_samples decode_ns arrived_ns output_end v =
     v\<lparr>m_v_latency_samples := (if arrived_ns \<noteq> 0 \<and> output_end > arrived_ns
         then m_v_latency_samples v @ [output_end - arrived_ns] else m_v_latency_samples v),
       m_v_decode_samples := m_v_decode_samples v @ [decode_ns]\<rparr>"

definition turn_sample_window ::
    "('w, 'p, 'f) env \<Rightarrow> u64 \<Rightarrow> 'w \<Rightarrow> video_window \<Rightarrow> video_window \<times> 'w" where
  "turn_sample_window E output_end w v =
     (if m_v_window_started_ns v = 0 then
        (case e_cpu E w of (cpu, w') \<Rightarrow>
           (v\<lparr>m_v_window_started_ns := output_end, m_v_window_cpu_ns := cpu\<rparr>, w'))
      else if output_end - m_v_window_started_ns v \<ge> 10000000000 then
        (case e_cpu E w of (cpu, w') \<Rightarrow>
           (v\<lparr>m_v_latency_samples := [], m_v_decode_samples := [], m_v_window_started_ns := output_end,
              m_v_window_cpu_ns := cpu\<rparr>, w'))
      else (v, w))"

definition turn_frame_window :: "video_window \<Rightarrow> video_window" where
  "turn_frame_window v =
     (if m_v_window_count v \<ge> kVideoTelemetryFrames
      then v\<lparr>m_v_decode_ns_sum := 0, m_v_decode_ns_max := 0, m_v_output_ns_sum := 0, m_v_output_ns_max := 0,
             m_v_interval_ns_sum := 0, m_v_interval_ns_max := 0, m_v_window_count := 0\<rparr> else v)"

text \<open>Telemetry that was switched off leaves nothing behind.\<close>

definition clear_window :: "video_window \<Rightarrow> video_window" where
  "clear_window v =
     (if m_v_window_count v \<noteq> 0
      then v\<lparr>m_v_latency_samples := [], m_v_decode_samples := [], m_v_window_started_ns := 0,
             m_v_decode_ns_sum := 0, m_v_decode_ns_max := 0, m_v_output_ns_sum := 0, m_v_output_ns_max := 0,
             m_v_interval_ns_sum := 0, m_v_interval_ns_max := 0, m_v_window_count := 0, m_v_last_output_ns := 0\<rparr>
      else v)"

definition video_telemetry ::
    "('w, 'p, 'f) env \<Rightarrow> bool \<Rightarrow> u64 \<Rightarrow> u64 \<Rightarrow> u64 \<Rightarrow> u64 \<Rightarrow> 'w \<Rightarrow> video_window \<Rightarrow> video_window \<times> 'w" where
  "video_telemetry E tele decode_ns output_ns output_end arrived_ns w v =
     (if tele then
        (case turn_sample_window E output_end w
            (add_frame_samples decode_ns arrived_ns output_end (add_frame_times decode_ns output_ns output_end v)) of
           (v', w') \<Rightarrow> (turn_frame_window v', w'))
      else (clear_window v, w))"

text \<open>The decoder a payload goes to.\<close>

definition video_decoder_of :: "bool \<Rightarrow> 'p server \<Rightarrow> 'p video_decoder option" where
  "video_decoder_of is_h265 s = (if is_h265 then m_h265_decoder s else m_h264_decoder s)"

definition set_video_decoder :: "bool \<Rightarrow> 'p video_decoder \<Rightarrow> 'p server \<Rightarrow> 'p server" where
  "set_video_decoder is_h265 d s =
     (if is_h265 then s\<lparr>m_h265_decoder := Some d\<rparr> else s\<lparr>m_h264_decoder := Some d\<rparr>)"

text \<open>The picture's own packet time, or the payload's if it has none.\<close>

definition picture_pts :: "'p decoded_frame \<Rightarrow> u64 \<Rightarrow> u64" where
  "picture_pts d pts = (if d_pts d \<noteq> AV_NOPTS_VALUE then word_of_int (d_pts d) else pts)"

text \<open>
  What is done with a decoded picture: it is given a time on the OBS clock, handed to every source
  that is alive, announced if it is the first, and counted.
\<close>

definition output_picture ::
    "('w, 'p, 'f) env \<Rightarrow> bool \<Rightarrow> u64 \<Rightarrow> pending_video \<Rightarrow> 'p decoded_frame \<Rightarrow> 'p video_decoder \<Rightarrow>
       'p server \<times> 'w \<Rightarrow> ('p server \<times> 'w) \<times> ('p, 'f) effect list" where
  "output_picture E tele decode_start p d decoder sw =
     (let s = fst sw; first = (m_video_frame_counter s = 0);
          (decode_end, w1) = now_if E (tele \<or> first) (snd sw);
          (now, w2) = e_now E w1;
          (timestamp, clock) = normalizeTimestamp (m_clock s) (picture_pts d (v_pts p)) now;
          (output_start, w3) = now_if E tele w2;
          (queued, w4) = now_if E first w3;
          (output_end, w5) = now_if E tele w4;
          (stats_now, w6) = e_now E w5;
          s1 = count_mirror_frame stats_now
            (s\<lparr>m_clock := clock,
               m_first_decoded_frame_ns := (if first then decode_end else m_first_decoded_frame_ns s),
               m_video_frame_counter := m_video_frame_counter s + 1\<rparr>);
          (window, w7) = video_telemetry E tele (decode_end - decode_start) (output_end - output_start)
            output_end (v_arrived_ns p) w6 (m_video_window s1)
      in ((set_video_decoder (v_is_h265 p) (releaseFrame decoder) (s1\<lparr>m_video_window := window\<rparr>), w7),
          map (\<lambda>source. Output_video source (mirror_frame d timestamp)) (live_sources E w3 s) @
          (if first then [Notify_frame_queued queued] else []) @
          (if m_mirror_frame_output_callback s then [Mirror_frame_output] else [])))"

definition decodeAndOutputVideo ::
    "('w, 'p, 'f) env \<Rightarrow> pending_video \<Rightarrow> 'p server \<times> 'w \<Rightarrow> ('p server \<times> 'w) \<times> ('p, 'f) effect list" where
  "decodeAndOutputVideo E p sw =
     (case video_decoder_of (v_is_h265 p) (fst sw) of
        None \<Rightarrow> (((fst sw)\<lparr>m_logged_decoder_missing := True\<rparr>, snd sw), [])
      | Some decoder \<Rightarrow>
          (let tele = e_telemetry E (snd sw);
               (decode_start, w1) = now_if E (tele \<or> m_video_frame_counter (fst sw) = 0) (snd sw)
           in case Video_Decoder.decode (e_video E) (v_data p) (sint (v_pts p)) (decoder, w1) of
                (None, (decoder', w2)) \<Rightarrow> ((set_video_decoder (v_is_h265 p) decoder' (fst sw), w2), [])
              | (Some d, (decoder', w2)) \<Rightarrow>
                  output_picture E tele decode_start p d decoder'
                    (set_video_decoder (v_is_h265 p) decoder' (fst sw), w2)))"

section \<open>Mirrored sound\<close>

definition report_retimer :: "u64 \<Rightarrow> retimer \<Rightarrow> retimer_reports \<Rightarrow> retimer_reports" where
  "report_retimer now r rep =
     \<lparr>m_audio_retimer_reported = (m_audio_retimer_reported rep \<or> pastStartup r now),
      m_audio_retimer_steps_reported =
        (if m_steps r \<noteq> m_audio_retimer_steps_reported rep \<and> m_audio_retimer_steps_reported rep < 10
         then m_steps r else m_audio_retimer_steps_reported rep),
      m_audio_retimer_resyncs_reported =
        (if m_resyncs r \<noteq> m_audio_retimer_resyncs_reported rep \<and> m_audio_retimer_resyncs_reported rep < 10
         then m_resyncs r else m_audio_retimer_resyncs_reported rep),
      m_audio_retimer_trim_reported = (m_audio_retimer_trim_reported rep \<or> m_trimmed r = 1)\<rparr>"

definition audio_telemetry :: "bool \<Rightarrow> u64 \<Rightarrow> u64 \<Rightarrow> audio_window \<Rightarrow> audio_window" where
  "audio_telemetry tele decode_ns output_ns a =
     (if tele then
        (let a1 = a\<lparr>m_a_decode_ns_sum := m_a_decode_ns_sum a + decode_ns,
                    m_a_decode_ns_max := max decode_ns (m_a_decode_ns_max a),
                    m_a_output_ns_sum := m_a_output_ns_sum a + output_ns,
                    m_a_output_ns_max := max output_ns (m_a_output_ns_max a),
                    m_a_window_count := m_a_window_count a + 1\<rparr>
         in if m_a_window_count a1 \<ge> kAudioTelemetryFrames then audio_window_new else a1)
      else if m_a_window_count a \<noteq> 0 then audio_window_new else a)"

definition packet_duration :: "u32 \<Rightarrow> int \<Rightarrow> u64" where
  "packet_duration frames sample_rate =
     (ucast frames * 1000000000) div word_of_int (if sample_rate > 0 then sample_rate else 44100)"

text \<open>A decoded packet that the retimer lets through.\<close>

definition output_sound ::
    "('w, 'p, 'f) env \<Rightarrow> bool \<Rightarrow> u64 \<Rightarrow> 'f obs_audio \<Rightarrow> 'p server \<times> 'w \<Rightarrow>
       ('p server \<times> 'w) \<times> ('p, 'f) effect list" where
  "output_sound E tele decode_ns audio sw =
     (let (output_start, w1) = now_if E tele (snd sw);
          (output_end, w2) = now_if E tele w1
      in (((fst sw)\<lparr>m_audio_frame_counter := m_audio_frame_counter (fst sw) + 1,
             m_audio_window := audio_telemetry tele decode_ns (output_end - output_start) (m_audio_window (fst sw))\<rparr>, w2),
          map (\<lambda>source. Output_audio source audio) (live_sources E w1 (fst sw))))"

definition retime_sound ::
    "('w, 'p, 'f) env \<Rightarrow> bool \<Rightarrow> u64 \<Rightarrow> 'f pcm \<Rightarrow> u64 \<Rightarrow> 'p server \<times> 'w \<Rightarrow>
       ('p server \<times> 'w) \<times> ('p, 'f) effect list" where
  "retime_sound E tele decode_ns out pts sw =
     (let s = fst sw; frames = (of_nat (length (p_left out)) :: u32);
          (now, w1) = e_now E (snd sw);
          (later, w2) = e_now E w1;
          (timestamp, clock) = normalizeTimestamp (m_clock s) pts later;
          (r, timing) = process (m_audio_retimer s) timestamp (packet_duration frames (p_rate out)) now;
          s1 = s\<lparr>m_clock := clock, m_audio_retimer := r, m_reports := report_retimer now r (m_reports s)\<rparr>
      in if r_drop timing then ((s1, w2), [])
         else output_sound E tele decode_ns
                \<lparr>oa_left = p_left out, oa_right = p_right out, oa_frames = frames,
                 oa_rate = word_of_int (p_rate out), oa_timestamp = r_timestamp timing\<rparr> (s1, w2))"

definition ingestAudioBitstream ::
    "('w, 'p, 'f) env \<Rightarrow> bytes \<Rightarrow> u8 \<Rightarrow> u64 \<Rightarrow> 'p server \<times> 'w \<Rightarrow> ('p server \<times> 'w) \<times> ('p, 'f) effect list" where
  "ingestAudioBitstream E data codec_type pts sw =
     (case m_audio_decoder (fst sw) of
        None \<Rightarrow> (sw, [])
      | Some decoder \<Rightarrow>
          if data = [] then (sw, [])
          else
            (let tele = e_telemetry E (snd sw);
                 (decode_start, w1) = now_if E tele (snd sw);
                 (out, (decoder', w2)) = Audio_Decoder.decode (e_audio E) (decoder, w1) data codec_type;
                 s1 = (fst sw)\<lparr>m_audio_decoder := Some decoder'\<rparr>
             in if \<not> p_produced out then ((s1, w2), [])
                else (let (decode_end, w3) = now_if E tele w2
                      in if p_left out = [] \<or> p_right out = [] \<or> length (p_left out) \<noteq> length (p_right out)
                         then ((s1, w3), [])
                         else retime_sound E tele (decode_end - decode_start) out pts (s1, w3))))"

section \<open>Pictures and sound of URL playback\<close>

definition media_frame_ok :: "'p media_video \<Rightarrow> bool" where
  "media_frame_ok d =
     (mv_data d ! 0 \<noteq> None \<and> mv_data d ! 1 \<noteq> None \<and> (mv_nv12 d \<or> mv_data d ! 2 \<noteq> None) \<and>
      mv_width d > 0 \<and> mv_height d > 0)"

text \<open>A picture has three plane pointers; NV12 uses two, and the third stays null.\<close>

definition media_frame :: "'p media_video \<Rightarrow> u64 \<Rightarrow> 'p obs_frame" where
  "media_frame d timestamp =
     (let n = (if mv_nv12 d then 2 else 3)
      in \<lparr>of_data = take n (mv_data d) @ replicate (3 - n) None,
          of_linesize = take n (mv_linesize d) @ replicate (3 - n) 0, of_width = word_of_int (mv_width d),
          of_height = word_of_int (mv_height d),
          of_format = (if mv_nv12 d then VIDEO_FORMAT_NV12 else VIDEO_FORMAT_I420),
          of_full_range = mv_full_range d, of_bt601 = mv_bt601 d, of_timestamp = timestamp\<rparr>)"

definition outputMediaVideoFrame ::
    "('w, 'p, 'f) env \<Rightarrow> 'p media_video \<Rightarrow> 'p server \<times> 'w \<Rightarrow> ('p server \<times> 'w) \<times> ('p, 'f) effect list" where
  "outputMediaVideoFrame E d sw =
     (if \<not> media_frame_ok d then (sw, [])
      else
        (let s = fst sw; first = (m_video_frame_counter s = 0);
             (now, w1) = now_if E (mv_timestamp d = 0) (snd sw);
             timestamp = (if mv_timestamp d \<noteq> 0 then mv_timestamp d else now);
             (queued, w2) = now_if E first w1
         in ((s\<lparr>m_video_frame_counter := m_video_frame_counter s + 1\<rparr>, w2),
             map (\<lambda>source. Output_video source (media_frame d timestamp)) (live_sources E w1 s) @
             (if first then [Notify_frame_queued queued] else []))))"

definition outputMediaAudioFrame ::
    "('w, 'p, 'f) env \<Rightarrow> 'f media_audio \<Rightarrow> 'p server \<times> 'w \<Rightarrow> ('p server \<times> 'w) \<times> ('p, 'f) effect list" where
  "outputMediaAudioFrame E d sw =
     (case (ma_left d, ma_right d) of
        (Some l, Some r) \<Rightarrow>
          if ma_frames d = 0 \<or> ma_rate d = 0 then (sw, [])
          else
            (let s = fst sw;
                 (now, w1) = now_if E (ma_timestamp d = 0) (snd sw);
                 timestamp = (if ma_timestamp d \<noteq> 0 then ma_timestamp d else now)
             in ((s\<lparr>m_audio_frame_counter := m_audio_frame_counter s + 1\<rparr>, w1),
                 map (\<lambda>source. Output_audio source \<lparr>oa_left = l, oa_right = r, oa_frames = ma_frames d,
                        oa_rate = ma_rate d, oa_timestamp = timestamp\<rparr>) (live_sources E w1 s)))
      | _ \<Rightarrow> (sw, []))"

section \<open>Lemmas on the start of a stream\<close>

text \<open>The first NAL unit that decides whether a decoder can start from the payload.\<close>

fun first_verdict :: "bool \<Rightarrow> bytes list \<Rightarrow> bool" where
  "first_verdict is_h265 [] = False"
| "first_verdict is_h265 (n # ns) =
     (case start_verdict is_h265 (hd n) of Some v \<Rightarrow> v | None \<Rightarrow> first_verdict is_h265 ns)"

lemma starts_short: "length xs < 4 \<Longrightarrow> \<not> starts_decodable_stream h xs"
  by (cases "(h, xs)" rule: starts_decodable_stream.cases) auto

lemma starts_skip:
  assumes "length xs \<ge> 3 \<Longrightarrow> \<not> code_at (x # xs) 0"
  shows "starts_decodable_stream h (x # xs) = starts_decodable_stream h xs"
proof (cases "length xs \<ge> 3")
  case True
  then obtain a b c ys where xs: "xs = a # b # c # ys"
    by (metis Suc_le_length_iff numeral_3_eq_3)
  show ?thesis using assms [OF True] by (auto simp: xs code_at_def)
next
  case False
  then show ?thesis by (simp add: starts_short)
qed

lemma starts_skip_list:
  "(\<And>k. k < length t \<Longrightarrow> k + 3 < length (t @ rest) \<Longrightarrow> \<not> code_at (t @ rest) k) \<Longrightarrow>
     starts_decodable_stream h (t @ rest) = starts_decodable_stream h rest"
proof (induction t)
  case Nil
  then show ?case by simp
next
  case (Cons x t)
  have "starts_decodable_stream h (x # t @ rest) = starts_decodable_stream h (t @ rest)"
    by (rule starts_skip) (use Cons.prems [of 0] in simp)
  moreover have "\<not> code_at (t @ rest) k" if "k < length t" "k + 3 < length (t @ rest)" for k
    using Cons.prems [of "Suc k"] that by (simp add: code_at_def)
  ultimately show ?case using Cons.IH by simp
qed

lemma starts_rendered:
  "list_all (wf_nal (if h then HEVC else H264)) ns \<Longrightarrow>
     starts_decodable_stream h (render_nals ns) = first_verdict h ns"
proof (induction ns)
  case Nil
  then show ?case by (simp add: render_nals_def)
next
  case (Cons n ns)
  let ?c = "if h then HEVC else H264"
  have wf: "wf_nal ?c n" using Cons.prems by simp
  then obtain b t where n: "n = b # t" by (cases n) (auto simp: wf_nal_def)
  have "starts_decodable_stream h (t @ render_nals ns) = starts_decodable_stream h (render_nals ns)"
  proof (rule starts_skip_list)
    fix k assume "k < length t" "k + 3 < length (t @ render_nals ns)"
    then have "\<not> code_at (n @ render_nals ns) (Suc k)"
      by (intro nal_no_code [OF wf render_nals_shape]) (simp_all add: n)
    then show "\<not> code_at (t @ render_nals ns) k" by (simp add: n code_at_def)
  qed
  moreover have "render_nals (n # ns) = 0 # 0 # 0 # 1 # b # t @ render_nals ns"
    by (simp add: n render_nals_def start_code_def)
  ultimately have "starts_decodable_stream h (render_nals (n # ns)) =
      (case start_verdict h b of Some v \<Rightarrow> v | None \<Rightarrow> starts_decodable_stream h (render_nals ns))"
    by (auto split: option.split)
  then show ?case using Cons n by (auto split: option.split)
qed

section \<open>Lemmas on the queue\<close>

text \<open>
  The operations on the queue as events. An answer is the payload the decode thread took, if any.
\<close>

datatype queue_event = Ingest pending_video | Take | Give_back | Clear | Quit

fun queue_step :: "video_queue \<Rightarrow> queue_event \<Rightarrow> video_queue \<times> pending_video option" where
  "queue_step q (Ingest p) = (ingestVideoBitstream p q, None)"
| "queue_step q Take = (case take_payload q of (p, q') \<Rightarrow> (q', p))"
| "queue_step q Give_back = (give_back q, None)"
| "queue_step q Clear = (clear_queue q, None)"
| "queue_step q Quit = (stopVideoThread q, None)"

definition queue_ok :: "video_queue \<Rightarrow> bool" where
  "queue_ok q = (length (m_video_queue q) \<le> kMaxQueuedVideo \<and> length (m_spare_video_buffers q) \<le> kSpareBuffers \<and>
     (m_waiting_for_keyframe q \<longrightarrow> m_video_queue q = []) \<and> (\<forall>p \<in> set (m_video_queue q). v_data p \<noteq> []))"

lemma queue_new_ok: "queue_ok queue_new"
  by (simp add: queue_ok_def queue_new_def)

lemma recycle_length: "length spare \<le> kSpareBuffers \<Longrightarrow> length (recycle spare) \<le> kSpareBuffers"
  by (simp add: recycle_def)

lemma fold_recycle_length:
  "length spare \<le> kSpareBuffers \<Longrightarrow> length (fold (\<lambda>_. recycle) ps spare) \<le> kSpareBuffers"
  by (induction ps arbitrary: spare) (simp_all add: recycle_length)

lemma drop_backlog_ok: "queue_ok q \<Longrightarrow> queue_ok (drop_backlog q)"
  by (simp add: queue_ok_def drop_backlog_def fold_recycle_length)

text \<open>A queue that is not waiting after the backlog was dropped has room.\<close>

lemma drop_backlog_room: "\<not> m_waiting_for_keyframe (drop_backlog q) \<Longrightarrow>
    drop_backlog q = q \<and> length (m_video_queue q) < kMaxQueuedVideo"
  by (auto simp: drop_backlog_def split: if_splits)

lemma ingest_cases:
  obtains (ignored) "v_data p = [] \<or> m_video_thread_quit q" "ingestVideoBitstream p q = q"
    | (refused) "v_data p \<noteq> []" "\<not> m_video_thread_quit q" "m_waiting_for_keyframe (drop_backlog q)"
      "\<not> starts_decodable_stream (v_is_h265 p) (v_data p)" "ingestVideoBitstream p q = drop_backlog q"
    | (resumed) "v_data p \<noteq> []" "\<not> m_video_thread_quit q" "m_waiting_for_keyframe (drop_backlog q)"
      "starts_decodable_stream (v_is_h265 p) (v_data p)"
      "ingestVideoBitstream p q = push_payload p ((drop_backlog q)\<lparr>m_waiting_for_keyframe := False\<rparr>)"
    | (queued) "v_data p \<noteq> []" "\<not> m_video_thread_quit q" "\<not> m_waiting_for_keyframe q"
      "length (m_video_queue q) < kMaxQueuedVideo" "ingestVideoBitstream p q = push_payload p q"
proof (cases "v_data p = [] \<or> m_video_thread_quit q")
  case True
  then show ?thesis using ignored by (simp add: ingestVideoBitstream_def)
next
  case outer: False
  show ?thesis
  proof (cases "m_waiting_for_keyframe (drop_backlog q)")
    case True
    then show ?thesis using outer refused resumed
      by (cases "starts_decodable_stream (v_is_h265 p) (v_data p)") (simp_all add: ingestVideoBitstream_def)
  next
    case False
    from drop_backlog_room [OF this] have d: "drop_backlog q = q" "length (m_video_queue q) < kMaxQueuedVideo"
      by simp_all
    then have "q\<lparr>m_waiting_for_keyframe := False\<rparr> = q" using False by (cases q) simp
    then show ?thesis using outer False d queued by (simp add: ingestVideoBitstream_def)
  qed
qed

lemma ingest_ok: assumes "queue_ok q" shows "queue_ok (ingestVideoBitstream p q)"
proof (cases rule: ingest_cases [where p = p and q = q])
  case resumed
  have "m_video_queue (drop_backlog q) = []"
    using drop_backlog_ok [OF assms] resumed(3) by (simp add: queue_ok_def)
  then show ?thesis
    using drop_backlog_ok [OF assms] resumed by (simp add: push_payload_def queue_ok_def kMaxQueuedVideo_def)
qed (use assms drop_backlog_ok [OF assms] in \<open>auto simp: push_payload_def queue_ok_def\<close>)

lemma take_ok: "queue_ok q \<Longrightarrow> queue_ok (snd (take_payload q))"
  by (auto simp: take_payload_def queue_ok_def split: list.split)

lemma queue_parts_ok:
  "queue_ok q \<Longrightarrow> queue_ok (give_back q)" "queue_ok q \<Longrightarrow> queue_ok (clear_queue q)"
  "queue_ok q \<Longrightarrow> queue_ok (stopVideoThread q)"
  by (simp_all add: queue_ok_def give_back_def clear_queue_def stopVideoThread_def recycle_length)

lemmas queue_oks = ingest_ok take_ok queue_parts_ok

interpretation queue_machine: machine queue_step "\<lambda>e. True" queue_ok
proof (unfold_locales, goal_cases)
  case (1 q e)
  then show ?case using take_ok [of q] by (cases e) (simp_all add: queue_oks split_beta)
qed

text \<open>
  A stream with payloads left out, every gap of which ends at a payload that a decoder can start
  from: \<open>resumes received kept gap\<close>, where \<open>gap\<close> says whether one is open at the end.
\<close>

inductive resumes :: "pending_video list \<Rightarrow> pending_video list \<Rightarrow> bool \<Rightarrow> bool" where
  start: "resumes [] [] False"
| keep: "resumes received sent gap \<Longrightarrow> gap \<longrightarrow> starts_decodable_stream (v_is_h265 p) (v_data p) \<Longrightarrow>
    resumes (received @ [p]) (sent @ [p]) False"
| skip: "resumes received sent gap \<Longrightarrow> resumes (received @ [p]) sent True"

lemma resumes_shorten: "resumes received (sent @ tail) gap \<Longrightarrow> tail \<noteq> [] \<Longrightarrow> resumes received sent True"
proof (induction received "sent @ tail" gap arbitrary: sent tail rule: resumes.induct)
  case start
  then show ?case by simp
next
  case (keep received sent0 gap p)
  obtain tail' where tail: "tail = tail' @ [p]" "sent0 = sent @ tail'"
    using keep.hyps(4) keep.prems by (cases tail rule: rev_cases) auto
  then have "resumes received sent (gap \<or> tail' \<noteq> [])"
    using keep.hyps(1,2) tail by (cases "tail' = []") auto
  then show ?case by (rule resumes.skip)
next
  case (skip received gap p)
  then show ?case using resumes.skip by blast
qed

text \<open>The payloads that were received, and those that are kept: taken by the decode thread, or queued.\<close>

fun received_by :: "queue_event list \<Rightarrow> pending_video list" where
  "received_by [] = []"
| "received_by (Ingest p # es) = (if v_data p = [] then received_by es else p # received_by es)"
| "received_by (_ # es) = received_by es"

lemma received_append: "received_by (es @ fs) = received_by es @ received_by fs"
  by (induction es rule: received_by.induct) simp_all

definition taken :: "pending_video option list \<Rightarrow> pending_video list" where
  "taken outs = List.map_filter id outs"

lemma taken_append: "taken (xs @ ys) = taken xs @ taken ys"
  by (simp add: taken_def map_filter_def)

definition stream_of :: "video_queue \<Rightarrow> pending_video list \<Rightarrow> pending_video list \<Rightarrow> bool" where
  "stream_of q received out =
     (\<exists>gap. resumes received (out @ m_video_queue q) gap \<and>
        (gap \<longrightarrow> m_waiting_for_keyframe q \<or> m_video_thread_quit q))"

lemma drop_backlog_stream:
  assumes "stream_of q received out" and "\<not> m_video_thread_quit q"
  shows "stream_of (drop_backlog q) received out"
  using assms resumes_shorten [of received out "m_video_queue q"]
  by (cases "m_video_queue q = []") (auto simp: stream_of_def drop_backlog_def kMaxQueuedVideo_def)

lemma ingest_stream:
  assumes "queue_ok q" and "stream_of q received out" and "v_data p \<noteq> []"
  shows "stream_of (ingestVideoBitstream p q) (received @ [p]) out"
proof (cases rule: ingest_cases [where p = p and q = q])
  case ignored
  obtain gap where "resumes received (out @ m_video_queue q) gap" using assms(2) by (auto simp: stream_of_def)
  from resumes.skip [OF this] show ?thesis using ignored assms(3) by (auto simp: stream_of_def)
next
  case refused
  obtain gap where "resumes received (out @ m_video_queue (drop_backlog q)) gap"
    using drop_backlog_stream [OF assms(2) refused(2)] by (auto simp: stream_of_def)
  from resumes.skip [OF this] show ?thesis using refused by (auto simp: stream_of_def)
next
  case resumed
  obtain gap where "resumes received (out @ m_video_queue (drop_backlog q)) gap"
    using drop_backlog_stream [OF assms(2) resumed(2)] by (auto simp: stream_of_def)
  from resumes.keep [OF this, of p] show ?thesis using resumed by (auto simp: stream_of_def push_payload_def)
next
  case queued
  then have "resumes received (out @ m_video_queue q) False" using assms(2) by (auto simp: stream_of_def)
  from resumes.keep [OF this, of p] show ?thesis using queued by (auto simp: stream_of_def push_payload_def)
qed

lemma take_stream:
  assumes "stream_of q received out" and "take_payload q = (p, q')"
  shows "stream_of q' received (out @ taken [p])"
  using assms by (auto simp: take_payload_def stream_of_def taken_def map_filter_def split: if_splits list.splits)

lemma queue_stream:
  "queue_ok q \<Longrightarrow> stream_of q received out \<Longrightarrow> list_all (\<lambda>e. e \<noteq> Clear) es \<Longrightarrow>
     run queue_step q es = (q', outs) \<Longrightarrow> stream_of q' (received @ received_by es) (out @ taken outs)"
proof (induction es arbitrary: q received out outs)
  case Nil
  then show ?case by (simp add: taken_def map_filter_def)
next
  case (Cons e es)
  obtain q1 o1 where st: "queue_step q e = (q1, o1)" by (metis prod.exhaust)
  obtain outs' where r: "run queue_step q1 es = (q', outs')" "outs = o1 # outs'"
    using Cons.prems(4) st by (auto split: prod.splits)
  have q1: "queue_ok q1" using queue_machine.step_inv [of q e] Cons.prems(1) st by simp
  have "stream_of q1 (received @ received_by [e]) (out @ taken [o1])"
  proof (cases e)
    case (Ingest p)
    then show ?thesis
      using ingest_stream [OF Cons.prems(1,2), of p] Cons.prems(2) st
      by (cases "v_data p = []") (auto simp: taken_def map_filter_def ingestVideoBitstream_def)
  next
    case Take
    then show ?thesis using take_stream [OF Cons.prems(2)] st by (auto split: prod.splits)
  qed (use Cons.prems st in \<open>auto simp: taken_def map_filter_def stream_of_def give_back_def stopVideoThread_def\<close>)
  from Cons.IH [OF q1 this _ r(1)] Cons.prems(3) r(2)
  show ?case using received_append [of "[e]" es] taken_append [of "[o1]" outs'] by simp
qed

section \<open>Lemmas on the stream clock\<close>

lemma normalize_near:
  assumes "normalizeTimestamp c source now = (r, c')"
  shows "unat r \<le> unat now + 5000000000 \<and> unat now \<le> unat r + 5000000000"
proof (cases "r > now")
  case True
  then have "r - now \<le> kMaximumClockDeltaNs"
    using assms by (auto simp: normalizeTimestamp_def resetAnchor_def split: if_splits option.splits)
  with True show ?thesis
    by (simp add: u64_le u64_less u64_sub kMaximumClockDeltaNs_def)
next
  case False
  then have "r = now \<or> now - r \<le> kMaximumClockDeltaNs"
    using assms by (auto simp: normalizeTimestamp_def resetAnchor_def split: if_splits option.splits)
  with False show ?thesis
    by (auto simp: u64_le u64_less u64_sub kMaximumClockDeltaNs_def)
qed

lemma translate_exact:
  assumes "translate c source = Some r"
  shows "int (unat r) - int (unat (m_timestamp_obs_origin c)) = int (unat source) - int (unat (m_timestamp_source_origin c))"
proof (cases "source \<ge> m_timestamp_source_origin c")
  case True
  let ?d = "source - m_timestamp_source_origin c"
  have d: "unat ?d = unat source - unat (m_timestamp_source_origin c)" using True by (simp add: u64_sub u64_le)
  have n: "\<not> - 1 - m_timestamp_obs_origin c < ?d" and r: "r = m_timestamp_obs_origin c + ?d"
    using assms True by (auto simp: translate_def Let_def split: if_splits)
  have less: "unat (m_timestamp_obs_origin c) \<le> 18446744073709551615"
    using unat_u64_less [of "m_timestamp_obs_origin c"] by linarith
  have m1: "unat (- 1 :: u64) = 18446744073709551615" by (simp add: unsigned_minus_1_eq_mask mask_eq_exp_minus_1)
  have top: "unat (- 1 - m_timestamp_obs_origin c) = 2 ^ 64 - 1 - unat (m_timestamp_obs_origin c)"
    using unat_u64_less [of "m_timestamp_obs_origin c"] by (subst u64_sub) (simp_all add: m1 less)
  have "unat (m_timestamp_obs_origin c) + unat ?d < 2 ^ 64"
    using n top less by (simp add: u64_less)
  then have "unat r = unat (m_timestamp_obs_origin c) + unat ?d" unfolding r by (rule u64_add)
  then show ?thesis using d True by (simp add: u64_le)
next
  case False
  let ?d = "m_timestamp_source_origin c - source"
  have d: "unat ?d = unat (m_timestamp_source_origin c) - unat source" using False by (simp add: u64_sub u64_le)
  have "\<not> ?d > m_timestamp_obs_origin c" and r: "r = m_timestamp_obs_origin c - ?d"
    using assms False by (auto simp: translate_def Let_def split: if_splits)
  then have "unat r = unat (m_timestamp_obs_origin c) - unat ?d" "unat ?d \<le> unat (m_timestamp_obs_origin c)"
    by (simp_all add: u64_sub u64_less)
  then show ?thesis using d False by (simp add: u64_le)
qed

lemma normalize_exact:
  assumes "normalizeTimestamp c source now = (r, c')" and "source \<noteq> 0"
  shows "m_timestamp_initialized c' \<and>
    int (unat r) - int (unat (m_timestamp_obs_origin c')) = int (unat source) - int (unat (m_timestamp_source_origin c'))"
  using assms translate_exact [of c source]
  by (auto simp: normalizeTimestamp_def resetAnchor_def split: if_splits option.splits)

section \<open>Properties of the queue and the clock\<close>

text \<open>
  Whether a mirrored payload can be started from is decided by its first NAL unit that is a
  sequence parameter set or a slice: the scan over the bytes agrees with reading the NAL units.
\<close>

theorem start_scan_reads_nal_units:
  assumes "list_all (wf_nal (if is_h265 then HEVC else H264)) nals"
  shows "starts_decodable_stream is_h265 (render_nals nals) = first_verdict is_h265 nals"
  using assms by (rule starts_rendered)

theorem start_scan_reads_nal_units_witness:
  "starts_decodable_stream False (render_nals [[9, 0xf0], [0x67, 1, 2], [0x65, 0x88]]) \<and>
   \<not> starts_decodable_stream True (render_nals [[0x02, 1, 0x80], [0x26, 1, 0x80]])"
proof -
  have "starts_decodable_stream False (render_nals [[9, 0xf0], [0x67, 1, 2], [0x65, 0x88]])"
    using start_scan_reads_nal_units [of False "[[9, 0xf0], [0x67, 1, 2], [0x65, 0x88]]"]
    by (simp add: wf_nal_def code_at_def start_verdict_def nth_Cons')
  moreover have "\<not> starts_decodable_stream True (render_nals [[0x02, 1, 0x80], [0x26, 1, 0x80]])"
    using start_scan_reads_nal_units [of True "[[0x02, 1, 0x80], [0x26, 1, 0x80]]"]
    by (simp add: wf_nal_def code_at_def start_verdict_def nth_Cons' drop_bit_eq_div)
  ultimately show ?thesis ..
qed

text \<open>
  C13. Within a stream, however receiving and decoding interleave: what the decode thread takes is
  the received stream in its order with gaps only where a backlog was dropped, every gap ends at a
  payload a decoder can start from, and at most sixty payloads and four spare buffers are held.
\<close>

theorem decode_order_resumes_at_keyframes:
  assumes "queue_ok q" and "list_all (\<lambda>e. e \<noteq> Clear) es" and "run queue_step (clear_queue q) es = (q', outs)"
  shows "length (m_video_queue q') \<le> 60 \<and> length (m_spare_video_buffers q') \<le> 4 \<and>
    (\<exists>gap. resumes (received_by es) (taken outs @ m_video_queue q') gap \<and>
       (gap \<longrightarrow> m_waiting_for_keyframe q' \<or> m_video_thread_quit q'))"
proof -
  have q: "queue_ok (clear_queue q)" using assms(1) by (rule queue_parts_ok(2))
  have "queue_ok q'" using queue_machine.run_inv [OF q, of es] assms(3) by (simp add: list_all_iff)
  moreover have "stream_of (clear_queue q) [] []"
    using resumes.start by (auto simp: stream_of_def clear_queue_def)
  from queue_stream [OF q this assms(2,3)] have "stream_of q' (received_by es) (taken outs)" by simp
  ultimately show ?thesis by (simp add: queue_ok_def stream_of_def kMaxQueuedVideo_def kSpareBuffers_def)
qed

definition slice_payload :: pending_video where
  "slice_payload = \<lparr>v_data = [0, 0, 1, 0x41], v_pts = 1, v_is_h265 = False, v_arrived_ns = 0\<rparr>"

theorem decode_order_resumes_at_keyframes_witness:
  "length (m_video_queue (fst (run queue_step (clear_queue queue_new) (Take # replicate 70 (Ingest slice_payload))))) \<le> 60"
proof -
  obtain q' outs where r: "run queue_step (clear_queue queue_new) (Take # replicate 70 (Ingest slice_payload)) = (q', outs)"
    by (metis prod.exhaust)
  from decode_order_resumes_at_keyframes [OF queue_new_ok _ r] have "length (m_video_queue q') \<le> 60"
    by (simp add: list_all_iff)
  with r show ?thesis by simp
qed

text \<open>
  A time on the OBS clock is within five seconds of the current time, and as long as the anchor
  is not moved two of the sender's timestamps, video or audio, keep their exact distance.
\<close>

theorem timestamps_keep_their_distance:
  assumes "normalizeTimestamp c t1 now1 = (r1, c1)" and "normalizeTimestamp c1 t2 now2 = (r2, c1)"
    and "t1 \<noteq> 0" and "t2 \<noteq> 0"
  shows "\<bar>int (unat r1) - int (unat now1)\<bar> \<le> 5000000000 \<and> \<bar>int (unat r2) - int (unat now2)\<bar> \<le> 5000000000 \<and>
    int (unat r2) - int (unat r1) = int (unat t2) - int (unat t1)"
  using normalize_exact [OF assms(1,3)] normalize_exact [OF assms(2,4)]
    normalize_near [OF assms(1)] normalize_near [OF assms(2)] by linarith

theorem timestamps_keep_their_distance_witness:
  "int (unat (fst (normalizeTimestamp (snd (normalizeTimestamp resetStreamClock 1000 7000000000)) 21000 7000030000))) -
     7000000000 = 20000"
proof -
  have a: "normalizeTimestamp resetStreamClock 1000 7000000000 = (7000000000,
      \<lparr>m_timestamp_initialized = True, m_timestamp_source_origin = 1000, m_timestamp_obs_origin = 7000000000\<rparr>)"
    by (simp add: normalizeTimestamp_def resetStreamClock_def resetAnchor_def)
  have b: "normalizeTimestamp \<lparr>m_timestamp_initialized = True, m_timestamp_source_origin = 1000, m_timestamp_obs_origin = 7000000000\<rparr>
      21000 7000030000 = (7000020000,
      \<lparr>m_timestamp_initialized = True, m_timestamp_source_origin = 1000, m_timestamp_obs_origin = 7000000000\<rparr>)"
    by (simp add: normalizeTimestamp_def translate_def kMaximumClockDeltaNs_def)
  show ?thesis using timestamps_keep_their_distance [OF a b] by (simp add: a b)
qed

section \<open>The server as a machine\<close>

text \<open>
  What the threads do, one event for what is done under one lock: UxPlay's threads ingest and
  reset, the decode thread takes, decodes and gives back, the player's threads output, and OBS
  registers sources. (\<open>resetDecoders\<close> is \<open>Reset_queue\<close> and then \<open>Reset_rest\<close>.)
\<close>

datatype ('p, 'f) server_event =
    Ingest_video bytes u64 bool
  | Take_payload
  | Decode_payload
  | Give_back_buffer
  | Ingest_audio bytes u8 u64
  | Set_audio_format audio_format
  | Reset_queue bool
  | Reset_rest bool bool
  | Media_video "'p media_video"
  | Media_audio "'f media_audio"
  | Register source
  | Unregister source
  | Stop

definition ingest_video :: "('w, 'p, 'f) env \<Rightarrow> bytes \<Rightarrow> u64 \<Rightarrow> bool \<Rightarrow> 'p server \<times> 'w \<Rightarrow> 'p server \<times> 'w" where
  "ingest_video E data pts is_h265 sw =
     (let (arrived, w') = now_if E (e_telemetry E (snd sw)) (snd sw);
          p = \<lparr>v_data = data, v_pts = pts, v_is_h265 = is_h265, v_arrived_ns = arrived\<rparr>
      in ((fst sw)\<lparr>m_queue := ingestVideoBitstream p (m_queue (fst sw))\<rparr>, w'))"

text \<open>The turns of \<open>videoDecodeLoop\<close>.\<close>

definition take_turn :: "'p server \<Rightarrow> 'p server" where
  "take_turn s =
     (if m_video_thread s = Waiting then
        (case take_payload (m_queue s) of
           (Some p, q) \<Rightarrow> s\<lparr>m_queue := q, m_video_thread := Decoding p\<rparr>
         | (None, q) \<Rightarrow> s\<lparr>m_queue := q\<rparr>)
      else s)"

definition decode_turn ::
    "('w, 'p, 'f) env \<Rightarrow> 'p server \<times> 'w \<Rightarrow> ('p server \<times> 'w) \<times> ('p, 'f) effect list" where
  "decode_turn E sw =
     (case m_video_thread (fst sw) of
        Decoding p \<Rightarrow>
          (case decodeAndOutputVideo E p sw of ((s', w'), effects) \<Rightarrow> ((s'\<lparr>m_video_thread := Decoded\<rparr>, w'), effects))
      | _ \<Rightarrow> (sw, []))"

definition give_back_turn :: "'p server \<Rightarrow> 'p server" where
  "give_back_turn s =
     (if m_video_thread s = Decoded then s\<lparr>m_queue := give_back (m_queue s), m_video_thread := Waiting\<rparr> else s)"

definition reset_rest ::
    "('w, 'p, 'f) env \<Rightarrow> bool \<Rightarrow> bool \<Rightarrow> 'p server \<times> 'w \<Rightarrow> ('p server \<times> 'w) \<times> ('p, 'f) effect list" where
  "reset_rest E clear_output flush_decoders sw =
     (case flush_all E flush_decoders sw of
        (s1, w1) \<Rightarrow> (case reset_output E clear_output w1 s1 of
           (s2, effects) \<Rightarrow> ((reset_clock s2, w1), effects)))"

lemma resetDecoders_parts: "resetDecoders E c f sw = reset_rest E c f (reset_queue f (fst sw), snd sw)"
  by (simp add: resetDecoders_def reset_rest_def)

fun server_step ::
    "('w, 'p, 'f) env \<Rightarrow> 'p server \<times> 'w \<Rightarrow> ('p, 'f) server_event \<Rightarrow> ('p server \<times> 'w) \<times> ('p, 'f) effect list" where
  "server_step E sw (Ingest_video data pts h) = (ingest_video E data pts h sw, [])"
| "server_step E (s, w) Take_payload = ((take_turn s, w), [])"
| "server_step E sw Decode_payload = decode_turn E sw"
| "server_step E (s, w) Give_back_buffer = ((give_back_turn s, w), [])"
| "server_step E sw (Ingest_audio data ct pts) = ingestAudioBitstream E data ct pts sw"
| "server_step E (s, w) (Set_audio_format f) = ((setAudioStreamFormat f s, w), [])"
| "server_step E (s, w) (Reset_queue f) = ((reset_queue f s, w), [])"
| "server_step E sw (Reset_rest c f) = reset_rest E c f sw"
| "server_step E sw (Media_video d) = outputMediaVideoFrame E d sw"
| "server_step E sw (Media_audio d) = outputMediaAudioFrame E d sw"
| "server_step E (s, w) (Register source) = ((registerSource E source s, w), [])"
| "server_step E (s, w) (Unregister source) = ((unregisterSource E w source s, w), [])"
| "server_step E (s, w) Stop = ((stop_server s, w), [])"

definition decoders_ok :: "'p server \<Rightarrow> bool" where
  "decoders_ok s = (pred_option video_ok (m_h264_decoder s) \<and> pred_option video_ok (m_h265_decoder s) \<and>
     pred_option decoder_ok (m_audio_decoder s))"

definition server_ok :: "'p server \<Rightarrow> bool" where
  "server_ok s = (queue_ok (m_queue s) \<and> decoders_ok s)"

lemmas server_ok_defs = server_ok_def decoders_ok_def

text \<open>The members the invariant does not speak of.\<close>

lemma server_ok_other [simp]:
  "server_ok (s\<lparr>m_clock := a\<rparr>) = server_ok s" "server_ok (s\<lparr>m_audio_retimer := b\<rparr>) = server_ok s"
  "server_ok (s\<lparr>m_reports := c\<rparr>) = server_ok s" "server_ok (s\<lparr>m_video_thread := d\<rparr>) = server_ok s"
  "server_ok (s\<lparr>m_audio_frame_counter := n\<rparr>) = server_ok s" "server_ok (s\<lparr>m_audio_window := f\<rparr>) = server_ok s"
  "server_ok (s\<lparr>m_video_frame_counter := n\<rparr>) = server_ok s" "server_ok (s\<lparr>m_logged_decoder_missing := g\<rparr>) = server_ok s"
  by (simp_all add: server_ok_defs)

lemma server_new_ok: "server_ok (fst (server_new E hardware allocated w))"
proof -
  obtain h264 w1 where 1: "video_decoder_new (e_video E) H264 hardware allocated w = (h264, w1)" by (metis prod.exhaust)
  obtain h265 w2 where 2: "video_decoder_new (e_video E) HEVC hardware allocated w1 = (h265, w2)" by (metis prod.exhaust)
  obtain a w3 where 3: "decoder_new (e_audio E) allocated w2 = (a, w3)" by (metis prod.exhaust)
  show ?thesis
    using video_decoder_new_ok [of "e_video E" H264 hardware allocated w] decoder_new_ok [of "e_audio E" allocated w2]
      video_decoder_new_ok [of "e_video E" HEVC hardware allocated w1]
    by (simp add: server_new_def 1 2 3 server_ok_defs queue_new_ok)
qed

lemma flush_video_ok: "pred_option video_ok d \<Longrightarrow> pred_option video_ok (fst (flush_video L d w))"
  using flush_ok by (auto simp: flush_video_def split: option.split prod.split)

lemma flush_audio_ok: "pred_option decoder_ok d \<Longrightarrow> pred_option decoder_ok (fst (flush_audio L d w))"
  using resetResampler_ok [of "the d" L]
  by (cases d) (simp_all add: flush_audio_def Audio_Decoder.flush_def decoder_ok_def)

lemma flush_all_ok:
  assumes "server_ok s" shows "server_ok (fst (flush_all E f (s, w)))"
proof -
  obtain a wa where a: "flush_video (e_video E) (m_h264_decoder s) w = (a, wa)" by (metis prod.exhaust)
  obtain b wb where b: "flush_video (e_video E) (m_h265_decoder s) wa = (b, wb)" by (metis prod.exhaust)
  obtain c wc where c: "flush_audio (e_audio E) (m_audio_decoder s) wb = (c, wc)" by (metis prod.exhaust)
  have "pred_option video_ok a" "pred_option video_ok b" "pred_option decoder_ok c"
    using assms flush_video_ok [of "m_h264_decoder s" "e_video E" w] flush_video_ok [of "m_h265_decoder s" "e_video E" wa]
      flush_audio_ok [of "m_audio_decoder s" "e_audio E" wb] by (simp_all add: a b c server_ok_defs)
  then show ?thesis
    using assms by (simp add: flush_all_def a b c resetAudioRetimer_def server_ok_defs)
qed

lemma server_simple_ok:
  assumes "server_ok s"
  shows "server_ok (take_turn s)" "server_ok (give_back_turn s)" "server_ok (setAudioStreamFormat f s)"
    "server_ok (reset_queue fl s)" "server_ok (reset_clock s)" "server_ok (fst (reset_output E c w s))"
    "server_ok (registerSource E source s)" "server_ok (unregisterSource E w source s)" "server_ok (stop_server s)"
    "server_ok (fst (ingest_video E data pts h (s, w)))"
proof -
  have q: "queue_ok (m_queue s)" and a: "pred_option decoder_ok (m_audio_decoder s)" using assms by (simp_all add: server_ok_defs)
  show "server_ok (take_turn s)"
    using assms take_ok [OF q] by (auto simp: take_turn_def server_ok_defs split: prod.split option.split)
  show "server_ok (setAudioStreamFormat f s)"
    using assms by (cases "m_audio_decoder s") (simp_all add: setAudioStreamFormat_def resetAudioRetimer_def server_ok_defs setStreamFormat_def decoder_ok_defs)
qed (use assms in \<open>auto simp: server_ok_defs give_back_turn_def queue_oks reset_queue_def reset_clock_def reset_output_def
    registerSource_def unregisterSource_def stop_server_def releaseSources_def ingest_video_def split_beta\<close>)

lemma set_video_decoder_ok: "server_ok s \<Longrightarrow> video_ok d \<Longrightarrow> server_ok (set_video_decoder h d s)"
  by (simp add: set_video_decoder_def server_ok_defs)

lemma output_picture_ok:
  assumes "server_ok s" and "video_ok decoder"
  shows "server_ok (fst (fst (output_picture E tele t0 p d decoder (s, w))))"
proof -
  have "video_ok (releaseFrame decoder)" using release_kept [OF assms(2)] by (simp add: kept_def)
  then show ?thesis using assms(1)
    by (simp add: output_picture_def split_beta Let_def set_video_decoder_def server_ok_defs count_mirror_frame_def)
qed

lemma decode_video_ok:
  assumes "server_ok s" shows "server_ok (fst (fst (decodeAndOutputVideo E p (s, w))))"
proof (cases "video_decoder_of (v_is_h265 p) s")
  case None
  then show ?thesis using assms by (simp add: decodeAndOutputVideo_def server_ok_defs)
next
  case (Some d)
  then have d: "video_ok d" using assms by (auto simp: video_decoder_of_def server_ok_defs split: if_splits)
  obtain t0 w1 where t: "now_if E (e_telemetry E w \<or> m_video_frame_counter s = 0) w = (t0, w1)" by (metis prod.exhaust)
  obtain out d' w2 where dec: "Video_Decoder.decode (e_video E) (v_data p) (sint (v_pts p)) (d, w1) = (out, (d', w2))"
    by (metis prod.exhaust)
  have "video_ok d'" using decode_kept [OF d dec] by (simp add: kept_def)
  then show ?thesis
    using assms by (cases out) (simp_all add: decodeAndOutputVideo_def Some t dec set_video_decoder_ok output_picture_ok)
qed

lemma output_sound_ok: "server_ok s \<Longrightarrow> server_ok (fst (fst (output_sound E tele d a (s, w))))"
  by (simp add: output_sound_def split_beta Let_def)

lemma retime_sound_ok: "server_ok s \<Longrightarrow> server_ok (fst (fst (retime_sound E tele d out pts (s, w))))"
  by (simp add: retime_sound_def split_beta Let_def output_sound_ok)

lemma ingest_audio_ok:
  assumes "server_ok s" shows "server_ok (fst (fst (ingestAudioBitstream E data ct pts (s, w))))"
proof (cases "m_audio_decoder s")
  case None
  then show ?thesis using assms by (simp add: ingestAudioBitstream_def)
next
  case (Some d)
  then have d: "decoder_ok d" using assms by (simp add: server_ok_defs)
  obtain t0 w1 where t: "now_if E (e_telemetry E w) w = (t0, w1)" by (metis prod.exhaust)
  obtain out d' w2 where dec: "Audio_Decoder.decode (e_audio E) (d, w1) data ct = (out, (d', w2))" by (metis prod.exhaust)
  have "decoder_ok d'" using decode_ok [OF d, of "e_audio E" w1 data ct] dec by simp
  then have "server_ok (s\<lparr>m_audio_decoder := Some d'\<rparr>)" using assms by (simp add: server_ok_defs)
  then show ?thesis
    using assms by (simp add: ingestAudioBitstream_def Some t dec Let_def split_beta retime_sound_ok)
qed

lemma output_media_ok:
  "server_ok s \<Longrightarrow> server_ok (fst (fst (outputMediaVideoFrame E dv (s, w))))"
  "server_ok s \<Longrightarrow> server_ok (fst (fst (outputMediaAudioFrame E da (s, w))))"
  by (simp_all add: outputMediaVideoFrame_def outputMediaAudioFrame_def split_beta Let_def server_ok_defs split: option.split)

lemma reset_rest_ok: "server_ok s \<Longrightarrow> server_ok (fst (fst (reset_rest E c f (s, w))))"
  using flush_all_ok [of s E f w] by (simp add: reset_rest_def split_beta server_simple_ok)

lemma decode_turn_ok: "server_ok s \<Longrightarrow> server_ok (fst (fst (decode_turn E (s, w))))"
  using decode_video_ok [of s E _ w]
  by (simp add: decode_turn_def split_beta split: decode_thread.split)

interpretation server_machine: machine "server_step E" "\<lambda>e. True" "\<lambda>sw. server_ok (fst sw)"
proof (unfold_locales, goal_cases)
  case (1 sw e)
  then show ?case
    by (cases sw; cases e) (simp_all add: server_simple_ok ingest_audio_ok output_media_ok reset_rest_ok decode_turn_ok)
qed

section \<open>Properties of the server\<close>

text \<open>
  C27. Whatever the threads do in whatever order, from the constructor on: at most sixty payloads and
  four spare buffers are held, a queue that waits for a keyframe is empty, and both video decoders
  and the audio decoder keep their invariants.
\<close>

theorem server_invariant:
  assumes "run (server_step E) (server_new E hardware allocated w0) es = ((s, w), outs)"
  shows "length (m_video_queue (m_queue s)) \<le> 60 \<and> length (m_spare_video_buffers (m_queue s)) \<le> 4 \<and>
    (m_waiting_for_keyframe (m_queue s) \<longrightarrow> m_video_queue (m_queue s) = []) \<and>
    pred_option video_ok (m_h264_decoder s) \<and> pred_option video_ok (m_h265_decoder s) \<and>
    pred_option decoder_ok (m_audio_decoder s)"
proof -
  have "server_ok (fst (fst (run (server_step E) (server_new E hardware allocated w0) es)))"
    by (rule server_machine.run_inv [OF server_new_ok]) (simp add: list_all_iff)
  with assms show ?thesis by (simp add: server_ok_defs queue_ok_def kMaxQueuedVideo_def kSpareBuffers_def)
qed

definition server_witness_env :: "(nat, unit, int) env" where
  "server_witness_env = \<lparr>e_video = video_witness_lib, e_audio = audio_witness_lib,
     e_now = (\<lambda>w. (1000000 * of_nat (w mod 1000), w + 1)), e_cpu = (\<lambda>w. (0, w)), e_telemetry = (\<lambda>w. False),
     e_weak = (\<lambda>s. s), e_source = (\<lambda>w s. Some s)\<rparr>"

theorem server_invariant_witness:
  "length (m_video_queue (m_queue (fst (fst (run (server_step server_witness_env) (server_new server_witness_env True True 0)
     (Register 3 # replicate 65 (Ingest_video [0, 0, 1, 0x67] 1 False) @ [Take_payload, Decode_payload, Reset_queue True])))))) \<le> 60"
proof -
  obtain s w outs where r: "run (server_step server_witness_env) (server_new server_witness_env True True 0)
     (Register 3 # replicate 65 (Ingest_video [0, 0, 1, 0x67] 1 False) @ [Take_payload, Decode_payload, Reset_queue True]) = ((s, w), outs)"
    by (metis prod.exhaust)
  show ?thesis using server_invariant [OF r] unfolding r by simp
qed

text \<open>
  A decoder reset at a stream boundary leaves no payload in the queue, no retimer state and no
  clock anchor, and counts frames from zero again; only a payload that the decode thread already
  holds stays to be decoded. A reset between URL items leaves decoders, queue and retimer alone.
\<close>

theorem reset_starts_a_new_stream:
  assumes "resetDecoders E clear_output flush_decoders (s, w) = ((s', w'), effects)"
  shows "m_clock s' = resetStreamClock \<and> m_video_frame_counter s' = 0 \<and> m_audio_frame_counter s' = 0 \<and>
    m_first_decoded_frame_ns s' = 0 \<and> m_video_thread s' = m_video_thread s \<and>
    m_registered_sources s' = m_registered_sources s \<and> last effects = Notify_frame_queued 0 \<and>
    (if flush_decoders
     then m_video_queue (m_queue s') = [] \<and> \<not> m_waiting_for_keyframe (m_queue s') \<and>
       m_audio_retimer s' = retimer_new \<and> m_reports s' = reports_new
     else m_queue s' = m_queue s \<and> m_h264_decoder s' = m_h264_decoder s \<and> m_h265_decoder s' = m_h265_decoder s \<and>
       m_audio_decoder s' = m_audio_decoder s \<and> m_audio_retimer s' = m_audio_retimer s \<and> w' = w)"
proof (cases flush_decoders)
  case True
  then show ?thesis
    using assms by (auto simp: resetDecoders_def flush_all_def reset_queue_def reset_output_def reset_clock_def
        resetAudioRetimer_def clear_queue_def retimer_reset_def split: prod.splits)
next
  case False
  then show ?thesis
    using assms by (auto simp: resetDecoders_def flush_all_def reset_queue_def reset_output_def reset_clock_def)
qed

theorem reset_starts_a_new_stream_witness:
  "m_video_queue (m_queue (fst (fst (resetDecoders server_witness_env True True
     (ingest_video server_witness_env [0, 0, 1, 0x67] 1 False (server_new server_witness_env True True 0)))))) = []"
proof -
  obtain s w where n: "ingest_video server_witness_env [0, 0, 1, 0x67] 1 False (server_new server_witness_env True True 0) = (s, w)" by (metis prod.exhaust)
  obtain s' w' effects where r: "resetDecoders server_witness_env True True (s, w) = ((s', w'), effects)" by (metis prod.exhaust)
  from reset_starts_a_new_stream [OF r] show ?thesis by (simp add: n r)
qed

section \<open>Sound is never late\<close>

lemma output_sound_effects:
  "output_sound E tele d a (s, w) = (sw', effects) \<Longrightarrow> Output_audio source b \<in> set effects \<Longrightarrow>
     b = a \<and> source \<in> set (live_sources E (snd (now_if E tele w)) s)"
  by (auto simp: output_sound_def split_beta Let_def)

lemma live_sources_registered:
  "source \<in> set (live_sources E w s) \<Longrightarrow> \<exists>weak \<in> set (m_registered_sources s). e_source E w weak = Some source"
  by (auto simp: live_sources_def map_filter_def)

text \<open>
  Mirrored sound that reaches OBS has as many left as right samples, goes only to registered
  sources that are alive, and is never late: its timestamp is at most 20 ms behind the clock read when
  it was timed, whatever times the sender gives (on a clock that is below 2^63 ns).
\<close>

theorem mirrored_sound_is_never_late:
  assumes "retime_sound E tele decode_ns out pts (s, w) = (sw', effects)" and "Output_audio source a \<in> set effects"
    and "\<forall>v. unat (fst (e_now E v)) < 2 ^ 63" and "length (p_left out) = length (p_right out)"
  shows "\<not> late (oa_timestamp a) (fst (e_now E w)) \<and> length (oa_left a) = length (oa_right a) \<and>
    (\<exists>weak \<in> set (m_registered_sources s). \<exists>v. e_source E v weak = Some source)"
proof -
  obtain now w1 where n: "e_now E w = (now, w1)" by (metis prod.exhaust)
  obtain t w2 where l: "e_now E w1 = (t, w2)" by (metis prod.exhaust)
  obtain ts c where ts: "normalizeTimestamp (m_clock s) pts t = (ts, c)" by (metis prod.exhaust)
  obtain r res where p: "process (m_audio_retimer s) ts (packet_duration (of_nat (length (p_left out))) (p_rate out)) now = (r, res)"
    by (metis prod.exhaust)
  let ?s1 = "s\<lparr>m_clock := c, m_audio_retimer := r, m_reports := report_retimer now r (m_reports s)\<rparr>"
  let ?a = "\<lparr>oa_left = p_left out, oa_right = p_right out, oa_frames = of_nat (length (p_left out)),
    oa_rate = word_of_int (p_rate out), oa_timestamp = r_timestamp res\<rparr>"
  have kept: "\<not> r_drop res" and o: "output_sound E tele decode_ns ?a (?s1, w2) = (sw', effects)"
    using assms(1,2) by (auto simp: retime_sound_def n l ts p Let_def split: if_splits)
  from output_sound_effects [OF o assms(2)] have a: "a = ?a"
    and src: "source \<in> set (live_sources E (snd (now_if E tele w2)) ?s1)" by simp_all
  have "unat now < 2 ^ 63" "unat t < 2 ^ 63" using assms(3) [rule_format, of w] assms(3) [rule_format, of w1] n l by simp_all
  with normalize_near [OF ts] process_never_late [OF p kept] have "\<not> late (r_timestamp res) now" by simp
  with a live_sources_registered [OF src] assms(4) n show ?thesis by auto
qed

theorem mirrored_sound_is_never_late_witness:
  "\<exists>a sw' effects. retime_sound server_witness_env False 0 \<lparr>p_left = [1], p_right = [2], p_rate = 44100, p_produced = True\<rparr> 0
     (registerSource server_witness_env 3 (fst (server_new server_witness_env True True 0)), 5) = (sw', effects) \<and>
     effects = [Output_audio 3 a] \<and> \<not> late (oa_timestamp a) 5000000"
proof -
  let ?s = "registerSource server_witness_env 3 (fst (server_new server_witness_env True True 0))"
  have s: "m_registered_sources ?s = [3]" "m_audio_retimer ?s = retimer_new"
    by (simp_all add: registerSource_def server_new_def split_beta Let_def server_witness_env_def)
  let ?out = "\<lparr>p_left = [1], p_right = [2], p_rate = 44100, p_produced = True\<rparr> :: int pcm"
  obtain sw' effects where r: "retime_sound server_witness_env False 0 ?out 0 (?s, 5) = (sw', effects)" by (metis prod.exhaust)
  have n: "e_now server_witness_env 5 = (5000000, 6)" "e_now server_witness_env 6 = (6000000, 7)"
    by (simp_all add: server_witness_env_def)
  have live: "live_sources server_witness_env v s = m_registered_sources s" for v and s :: "unit server"
    by (simp add: live_sources_def server_witness_env_def map_filter_def)
  have z: "normalizeTimestamp c 0 6000000 = (6000000, c)" for c by (simp add: normalizeTimestamp_def)
  obtain q res where p: "process retimer_new 6000000 (packet_duration 1 44100) 5000000 = (q, res)" by (metis prod.exhaust)
  then have "\<not> r_drop res"
    by (auto simp: process_defs begin_stream_def late_def retimer_new_def retimer_consts Let_def)
  then obtain a where e: "effects = [Output_audio 3 a]"
    using r by (auto simp: retime_sound_def output_sound_def live s now_if_def n z p Let_def)
  have small: "unat (1000000 * of_nat (v mod 1000) :: u64) < 2 ^ 63" for v :: nat
    by (rule le_less_trans [of _ "1000000 * (v mod 1000)"]) (simp_all add: unat_word_ariths unat_of_nat)
  have "\<not> late (oa_timestamp a) (fst (e_now server_witness_env 5))"
    using mirrored_sound_is_never_late [OF r, of 3 a] e small by (simp add: server_witness_env_def)
  then show ?thesis using r e by (simp add: server_witness_env_def)
qed

end
