(* ===== verification/Media_Info.thy ===== *)
theory Media_Info
  imports Main
begin

text \<open>
  \<^verbatim>\<open>src/media-player.hpp\<close>: the struct \<open>MediaPlaybackInfo\<close>, what the media player reports of the item it
  plays. The player (\<open>Player_Control\<close>) keeps one, the receiver (\<open>Uxplay_Session\<close>) hands it to UxPlay;
  \<open>'d\<close> stands for the floating point numbers.
\<close>

record 'd playback_info =
  pi_duration :: 'd
  pi_position :: 'd
  pi_seek_start :: 'd
  pi_seek_duration :: 'd
  pi_rate :: 'd
  pi_ready_to_play :: bool
  pi_buffer_empty :: bool
  pi_buffer_full :: bool
  pi_likely_to_keep_up :: bool
  pi_duration_known :: bool
  pi_has_video :: bool
  pi_has_audio :: bool
  pi_ended :: bool

text \<open>Its initial value: nothing is known, nothing plays.\<close>

definition no_playback :: "('d :: zero) playback_info" where
  "no_playback = \<lparr>pi_duration = 0, pi_position = 0, pi_seek_start = 0, pi_seek_duration = 0, pi_rate = 0,
     pi_ready_to_play = False, pi_buffer_empty = True, pi_buffer_full = False, pi_likely_to_keep_up = False,
     pi_duration_known = False, pi_has_video = False, pi_has_audio = False, pi_ended = False\<rparr>"

end
