(* ===== verification/Uxplay_Session.thy ===== *)
theory Uxplay_Session
  imports Url_Policy Audio_Decoder Media_Info
begin

text \<open>
  \<^verbatim>\<open>src/uxplay-integration.hpp\<close> and \<^verbatim>\<open>src/uxplay-integration.cpp\<close>, what happens while the receiver
  runs: the callbacks UxPlay makes (struct \<open>RaopCallbacks\<close>), the deferred clear of the picture, the
  state shown in the panel and the refusals. The members they share are the record \<open>airplay_session\<close>. A
  handler takes the session and returns it with the calls it makes, in their order; the calls go to
  the media player, to the plugin's own callbacks and to UxPlay. Starting, stopping and renaming the
  receiver is \<open>Uxplay_Lifecycle\<close>. Times of \<open>steady_clock\<close> are natural numbers of nanoseconds, those
  of \<open>os_gettime_ns\<close> words; a handler that reads a clock is given the time. A float of the sender
  that is only handed on is of the type \<open>'d\<close>. The object is never null and the media player exists
  as long as it does, so the tests for them are left out, as are log lines and thread priorities.
\<close>

section \<open>The state\<close>

datatype summary = AirPlay_State_Waiting | AirPlay_State_Connected | AirPlay_State_Mirroring | AirPlay_State_Video

datatype 'd call =
    Conn_reset bool bool
  | State_changed
  | Player_stop
  | Player_play string 'd
  | Player_seek 'd
  | Player_set_rate 'd
  | Audio_format audio_format
  | Video_frame bytes u64 bool
  | Audio_packet bytes u8 u64

record airplay_session =
  m_open_connections :: int
  m_media_active :: bool
  m_frame_shown :: bool
  m_clear_pending :: bool
  m_clear_exit :: bool
  m_clear_deadline :: nat
  m_clear_reason :: string
  m_clearing :: bool
  m_connection_timing_active :: bool
  m_connection_started_ns :: u64
  m_first_video_logged :: bool
  m_stream_nal_logged :: bool
  m_last_state :: "summary option"
  m_last_error :: string
  m_last_refusal :: string
  m_accept_video :: bool
  m_sender_only :: bool
  m_state_changed :: bool
  m_reset_callback :: bool
  m_video_callback :: bool
  m_audio_callback :: bool
  m_audio_format_callback :: bool

text \<open>
  \<open>m_clearing\<close> says that the deferred-clear thread has found a clear due and has left the lock, but
  has not cleared yet; a callback member is whether one is set, and no state at all has been
  reported (an empty \<open>m_last_state\<close>) is \<open>None\<close>.
\<close>

definition airplay_session_new :: airplay_session where
  "airplay_session_new = \<lparr>m_open_connections = 0, m_media_active = False, m_frame_shown = False, m_clear_pending = False,
     m_clear_exit = False, m_clear_deadline = 0, m_clear_reason = [], m_clearing = False,
     m_connection_timing_active = False, m_connection_started_ns = 0, m_first_video_logged = False,
     m_stream_nal_logged = False, m_last_state = None, m_last_error = [], m_last_refusal = [],
     m_accept_video = True, m_sender_only = True, m_state_changed = False, m_reset_callback = False,
     m_video_callback = False, m_audio_callback = False, m_audio_format_callback = False\<rparr>"

text \<open>Statements one after the other, with the calls they make.\<close>

type_synonym ('s, 'd) action = "'s \<Rightarrow> 's \<times> 'd call list"

fun actions :: "('s, 'd) action list \<Rightarrow> ('s, 'd) action" where
  "actions [] s = (s, [])"
| "actions (a # as) s = (case a s of (s', calls) \<Rightarrow> (case actions as s' of (s'', later) \<Rightarrow> (s'', calls @ later)))"

definition assign :: "('s \<Rightarrow> 's) \<Rightarrow> ('s, 'd) action" where
  "assign f s = (f s, [])"

definition invoke :: "'d call \<Rightarrow> ('s, 'd) action" where
  "invoke c s = (s, [c])"

definition only_if :: "('s \<Rightarrow> bool) \<Rightarrow> ('s, 'd) action \<Rightarrow> ('s, 'd) action" where
  "only_if c a s = (if c s then a s else (s, []))"

lemmas action_defs = assign_def invoke_def only_if_def

section \<open>State, errors and refusals for the panel\<close>

definition connectionState :: "airplay_session \<Rightarrow> summary" where
  "connectionState s =
     (if m_media_active s then AirPlay_State_Video
      else if m_open_connections s > 0 then
        (if m_frame_shown s then AirPlay_State_Mirroring else AirPlay_State_Connected)
      else AirPlay_State_Waiting)"

definition notifyStateChanged :: "(airplay_session, 'd) action" where
  "notifyStateChanged s =
     (if Some (connectionState s) = m_last_state s then (s, [])
      else (s\<lparr>m_last_state := Some (connectionState s)\<rparr>, if m_state_changed s then [State_changed] else []))"

definition changed_callback :: "(airplay_session, 'd) action" where
  "changed_callback s = (s, if m_state_changed s then [State_changed] else [])"

definition setLastError :: "string \<Rightarrow> (airplay_session, 'd) action" where
  "setLastError error = actions [assign (\<lambda>s. s\<lparr>m_last_error := error\<rparr>), changed_callback]"

text \<open>\<open>moment\<close> is the local time as \<open>HH:MM:SS\<close>, or empty if there is none.\<close>

definition recordRefusal :: "string \<Rightarrow> string \<Rightarrow> (airplay_session, 'd) action" where
  "recordRefusal moment reason =
     actions [assign (\<lambda>s. s\<lparr>m_last_refusal := moment @ '': '' @ reason\<rparr>), changed_callback]"

definition clearRefusal :: "(airplay_session, 'd) action" where
  "clearRefusal s =
     (if m_last_refusal s = [] then (s, [])
      else actions [assign (\<lambda>s. s\<lparr>m_last_refusal := []\<rparr>), changed_callback] s)"

definition processConnReset :: "bool \<Rightarrow> bool \<Rightarrow> (airplay_session, 'd) action" where
  "processConnReset clear_output flush_decoders =
     actions [only_if (\<lambda>s. flush_decoders) (assign (\<lambda>s. s\<lparr>m_stream_nal_logged := False\<rparr>)),
              only_if m_reset_callback (invoke (Conn_reset clear_output flush_decoders))]"

section \<open>The deferred clear\<close>

definition kGracePeriod :: nat where "kGracePeriod = 450 * 1000000"

definition scheduleDeferredClear :: "nat \<Rightarrow> string \<Rightarrow> (airplay_session, 'd) action" where
  "scheduleDeferredClear now reason =
     assign (\<lambda>s. s\<lparr>m_clear_pending := True, m_clear_reason := reason, m_clear_deadline := now + kGracePeriod\<rparr>)"

definition cancelDeferredClear :: "(airplay_session, 'd) action" where
  "cancelDeferredClear = assign (\<lambda>s. s\<lparr>m_clear_pending := False\<rparr>)"

definition onMirrorFrameOutput :: "(airplay_session, 'd) action" where
  "onMirrorFrameOutput s =
     actions [assign (\<lambda>s. s\<lparr>m_frame_shown := True\<rparr>),
              only_if (\<lambda>t. \<not> m_frame_shown s) notifyStateChanged,
              only_if m_clear_pending cancelDeferredClear] s"

text \<open>
  A turn of \<open>deferredClearLoop\<close> under the lock (\<open>clear_due\<close>), and what it does after unlocking when
  the clear is due (\<open>clear_fires\<close>).
\<close>

definition clear_due :: "nat \<Rightarrow> airplay_session \<Rightarrow> airplay_session" where
  "clear_due now s =
     (if \<not> m_clear_exit s \<and> \<not> m_clearing s \<and> m_clear_pending s \<and> m_clear_deadline s \<le> now
      then s\<lparr>m_clear_pending := False, m_clearing := True\<rparr> else s)"

definition clear_output :: "(airplay_session, 'd) action" where
  "clear_output s =
     (if m_open_connections s \<le> 0 then
        actions [only_if m_media_active (invoke Player_stop), assign (\<lambda>s. s\<lparr>m_media_active := False\<rparr>),
                 notifyStateChanged, processConnReset True True] s
      else processConnReset True False s)"

definition clear_fires :: "(airplay_session, 'd) action" where
  "clear_fires =
     only_if m_clearing
       (actions [assign (\<lambda>s. s\<lparr>m_frame_shown := False\<rparr>), clear_output, assign (\<lambda>s. s\<lparr>m_clearing := False\<rparr>)])"

section \<open>Connections\<close>

definition conn_init :: "u64 \<Rightarrow> (airplay_session, 'd) action" where
  "conn_init now =
     actions [assign (\<lambda>s. s\<lparr>m_open_connections := m_open_connections s + 1\<rparr>), notifyStateChanged,
              only_if (\<lambda>s. \<not> m_connection_timing_active s)
                (assign (\<lambda>s. s\<lparr>m_connection_timing_active := True, m_first_video_logged := False,
                               m_connection_started_ns := now\<rparr>))]"

definition last_connection_closed :: "nat \<Rightarrow> (airplay_session, 'd) action" where
  "last_connection_closed now =
     actions [assign (\<lambda>s. s\<lparr>m_open_connections := 0, m_connection_timing_active := False\<rparr>),
              only_if m_frame_shown (scheduleDeferredClear now ''the last AirPlay connection closed'')]"

definition conn_destroy :: "nat \<Rightarrow> (airplay_session, 'd) action" where
  "conn_destroy now s =
     actions [assign (\<lambda>s. s\<lparr>m_open_connections := m_open_connections s - 1\<rparr>),
              only_if (\<lambda>t. m_open_connections s \<le> 1) (last_connection_closed now),
              notifyStateChanged] s"

text \<open>The two flags are pointers; a null one is \<open>None\<close>.\<close>

definition conn_teardown :: "nat \<Rightarrow> bool option \<Rightarrow> bool option \<Rightarrow> (airplay_session, 'd) action" where
  "conn_teardown now teardown_96 teardown_110 s =
     (if teardown_96 = Some True \<or> teardown_110 = Some True then (s, [])
      else actions [processConnReset False True,
             only_if (\<lambda>s. \<not> m_media_active s \<and> m_frame_shown s)
               (scheduleDeferredClear now ''the device ended its AirPlay session'')] s)"

text \<open>A request ends: its method and URL.\<close>

definition request_done :: "string \<Rightarrow> string \<Rightarrow> (airplay_session, 'd) action" where
  "request_done method url =
     only_if (\<lambda>s. url \<noteq> ''/feedback'' \<and> url \<noteq> ''/playback-info'' \<and> method = ''TEARDOWN'')
       (assign (\<lambda>s. s\<lparr>m_connection_timing_active := False\<rparr>))"

definition conn_reset :: "(airplay_session, 'd) action" where
  "conn_reset s =
     actions [assign (\<lambda>s. s\<lparr>m_connection_timing_active := False\<rparr>), processConnReset (\<not> m_media_active s) True] s"

section \<open>The mirroring stream\<close>

text \<open>A payload without data is the empty list.\<close>

definition processVideoData :: "bytes \<Rightarrow> u64 \<Rightarrow> bool \<Rightarrow> (airplay_session, 'd) action" where
  "processVideoData data pts is_h265 =
     only_if (\<lambda>s. data \<noteq> [])
       (actions [assign (\<lambda>s. s\<lparr>m_first_video_logged := True\<rparr>),
                 only_if m_video_callback
                   (actions [assign (\<lambda>s. s\<lparr>m_stream_nal_logged := True\<rparr>), invoke (Video_frame data pts is_h265)])])"

definition processAudioData :: "bytes \<Rightarrow> u8 \<Rightarrow> u64 \<Rightarrow> (airplay_session, 'd) action" where
  "processAudioData data ct pts =
     only_if (\<lambda>s. data \<noteq> [] \<and> m_audio_callback s) (invoke (Audio_packet data ct pts))"

definition audio_get_format :: "u16 \<Rightarrow> u64 \<Rightarrow> (airplay_session, 'd) action" where
  "audio_get_format spf audio_format =
     only_if m_audio_format_callback (invoke (Audio_format (snd (formatFromSetup audio_format (ucast spf)))))"

definition video_set_codec :: "(airplay_session, 'd) action" where
  "video_set_codec = processConnReset False True"

datatype reset_type = RESET_TYPE_HLS_SHUTDOWN | RESET_TYPE_HLS_EOS | RESET_TYPE_NOHOLD | RESET_TYPE_OTHER nat

definition ends_item :: "reset_type \<Rightarrow> bool" where
  "ends_item t = (t \<in> {RESET_TYPE_HLS_SHUTDOWN, RESET_TYPE_HLS_EOS, RESET_TYPE_NOHOLD})"

definition video_reset :: "reset_type \<Rightarrow> (airplay_session, 'd) action" where
  "video_reset t s =
     (case only_if (\<lambda>s. ends_item t)
             (actions [invoke Player_stop, assign (\<lambda>s. s\<lparr>m_media_active := False\<rparr>), notifyStateChanged,
                       cancelDeferredClear]) s of
        (s', calls) \<Rightarrow> (case processConnReset (\<not> m_media_active s') True s' of (s'', later) \<Rightarrow> (s'', calls @ later)))"

section \<open>AirPlay video\<close>

definition refusal_off :: string where "refusal_off = ''AirPlay video is turned off on this receiver''"

text \<open>A null location is \<open>None\<close>.\<close>

definition on_video_play :: "string \<Rightarrow> string option \<Rightarrow> 'd \<Rightarrow> (airplay_session, 'd) action" where
  "on_video_play moment location start_position s =
     (case location of
        None \<Rightarrow> (s, [])
      | Some url \<Rightarrow>
          if url = [] then (s, [])
          else if \<not> m_accept_video s then recordRefusal moment refusal_off s
          else actions [clearRefusal, cancelDeferredClear, invoke Player_stop, processConnReset False False,
                 assign (\<lambda>s. s\<lparr>m_media_active := True\<rparr>), notifyStateChanged,
                 assign (\<lambda>s. s\<lparr>m_frame_shown := True\<rparr>), invoke (Player_play url start_position)] s)"

definition on_video_refused :: "string \<Rightarrow> string option \<Rightarrow> (airplay_session, 'd) action" where
  "on_video_refused moment reason =
     recordRefusal moment (case reason of None \<Rightarrow> ''refused'' | Some r \<Rightarrow> r)"

definition on_video_scrub :: "'d \<Rightarrow> (airplay_session, 'd) action" where
  "on_video_scrub position = invoke (Player_seek position)"

definition on_video_rate :: "'d \<Rightarrow> (airplay_session, 'd) action" where
  "on_video_rate rate = invoke (Player_set_rate rate)"

definition on_video_stop :: "nat \<Rightarrow> (airplay_session, 'd) action" where
  "on_video_stop now =
     actions [invoke Player_stop, assign (\<lambda>s. s\<lparr>m_media_active := False\<rparr>), notifyStateChanged,
              processConnReset False False,
              scheduleDeferredClear now ''no new AirPlay video item followed /stop'']"

definition set_video_policy :: "bool \<Rightarrow> bool \<Rightarrow> (airplay_session, 'd) action" where
  "set_video_policy accept_video sender_only =
     assign (\<lambda>s. s\<lparr>m_accept_video := accept_video, m_sender_only := sender_only\<rparr>)"

text \<open>What UxPlay is told of the media player's \<open>playback_info\<close>.\<close>

record 'd uxplay_info =
  ui_ended :: bool
  ui_duration :: 'd
  ui_position :: 'd
  ui_seek_start :: 'd
  ui_seek_duration :: 'd
  ui_rate :: 'd
  ui_ready_to_play :: bool
  ui_buffer_empty :: bool
  ui_buffer_full :: bool
  ui_likely_to_keep_up :: bool
  ui_stallcount :: nat
  ui_loaded_ranges :: nat
  ui_seekable_ranges :: nat

definition on_video_acquire_playback_info :: "('d :: {zero, one, uminus}) playback_info \<Rightarrow> 'd uxplay_info" where
  "on_video_acquire_playback_info i =
     \<lparr>ui_ended = pi_ended i,
      ui_duration = (if pi_ended i \<and> \<not> pi_duration_known i then - 1
                     else if pi_duration_known i then pi_duration i else 0),
      ui_position = pi_position i, ui_seek_start = pi_seek_start i, ui_seek_duration = pi_seek_duration i,
      ui_rate = pi_rate i, ui_ready_to_play = pi_ready_to_play i, ui_buffer_empty = pi_buffer_empty i,
      ui_buffer_full = pi_buffer_full i, ui_likely_to_keep_up = pi_likely_to_keep_up i, ui_stallcount = 0,
      ui_loaded_ranges = 0, ui_seekable_ranges = 0\<rparr>"

section \<open>The session as a machine\<close>

datatype 'd session_event =
    Conn_init u64
  | Conn_destroy nat
  | Conn_teardown nat "bool option" "bool option"
  | Request_done string string
  | Uxplay_reset
  | Video_data bytes u64 bool
  | Audio_data bytes u8 u64
  | Audio_setup u16 u64
  | Set_codec
  | Video_reset reset_type
  | Play string "string option" 'd
  | Refused string "string option"
  | Scrub 'd
  | Rate 'd
  | Video_stop nat
  | Set_policy bool bool
  | Mirror_frame
  | Clear_due nat
  | Clear_fires

fun session_step :: "airplay_session \<Rightarrow> 'd session_event \<Rightarrow> airplay_session \<times> 'd call list" where
  "session_step s (Conn_init now) = conn_init now s"
| "session_step s (Conn_destroy now) = conn_destroy now s"
| "session_step s (Conn_teardown now a b) = conn_teardown now a b s"
| "session_step s (Request_done method url) = request_done method url s"
| "session_step s Uxplay_reset = conn_reset s"
| "session_step s (Video_data data pts h) = processVideoData data pts h s"
| "session_step s (Audio_data data ct pts) = processAudioData data ct pts s"
| "session_step s (Audio_setup spf f) = audio_get_format spf f s"
| "session_step s Set_codec = video_set_codec s"
| "session_step s (Video_reset t) = video_reset t s"
| "session_step s (Play moment location start) = on_video_play moment location start s"
| "session_step s (Refused moment reason) = on_video_refused moment reason s"
| "session_step s (Scrub p) = on_video_scrub p s"
| "session_step s (Rate r) = on_video_rate r s"
| "session_step s (Video_stop now) = on_video_stop now s"
| "session_step s (Set_policy a b) = set_video_policy a b s"
| "session_step s Mirror_frame = onMirrorFrameOutput s"
| "session_step s (Clear_due now) = (clear_due now s, [])"
| "session_step s Clear_fires = clear_fires s"

section \<open>Lemmas on the handlers\<close>

lemmas session_actions = action_defs notifyStateChanged_def changed_callback_def processConnReset_def
  setLastError_def recordRefusal_def clearRefusal_def scheduleDeferredClear_def cancelDeferredClear_def
  onMirrorFrameOutput_def clear_due_def clear_output_def clear_fires_def

lemmas session_handlers = conn_init_def last_connection_closed_def conn_destroy_def conn_teardown_def
  request_done_def conn_reset_def processVideoData_def processAudioData_def audio_get_format_def
  video_set_codec_def video_reset_def on_video_play_def on_video_refused_def on_video_scrub_def
  on_video_rate_def on_video_stop_def set_video_policy_def

text \<open>What is on the panel is what was last reported to it.\<close>

definition informed :: "airplay_session \<Rightarrow> bool" where
  "informed s = (m_last_state s = Some (connectionState s))"

lemma notify_informed: "informed (fst (notifyStateChanged s))"
  by (simp add: informed_def notifyStateChanged_def connectionState_def)

text \<open>A reset that clears the picture.\<close>

fun is_clear :: "'d call \<Rightarrow> bool" where
  "is_clear (Conn_reset b f) = b"
| "is_clear _ = False"

definition clears :: "'d call list \<Rightarrow> bool" where
  "clears calls = list_ex is_clear calls"

lemma clears_simps [simp]: "\<not> clears []" "clears (c # cs) = (is_clear c \<or> clears cs)"
    "clears (cs @ ds) = (clears cs \<or> clears ds)"
  by (simp_all add: clears_def)

text \<open>Events that may ask for a clear, and events that always call off one.\<close>

fun asks :: "nat \<Rightarrow> 'd session_event \<Rightarrow> bool" where
  "asks t (Conn_destroy now) = (now = t)"
| "asks t (Conn_teardown now a b) = (now = t)"
| "asks t (Video_stop now) = (now = t)"
| "asks t _ = False"

fun calls_off :: "'d session_event \<Rightarrow> bool" where
  "calls_off Mirror_frame = True"
| "calls_off (Video_reset t) = ends_item t"
| "calls_off _ = False"

text \<open>The members the state on the panel does not depend on.\<close>

lemma connectionState_other [simp]:
  "connectionState (s\<lparr>m_last_state := a\<rparr>) = connectionState s" "connectionState (s\<lparr>m_clear_pending := b\<rparr>) = connectionState s"
  "connectionState (s\<lparr>m_clearing := c\<rparr>) = connectionState s" "connectionState (s\<lparr>m_last_refusal := r\<rparr>) = connectionState s"
  "connectionState (s\<lparr>m_last_error := r\<rparr>) = connectionState s" "connectionState (s\<lparr>m_stream_nal_logged := b\<rparr>) = connectionState s"
  "connectionState (s\<lparr>m_first_video_logged := b\<rparr>) = connectionState s"
  "connectionState (s\<lparr>m_connection_timing_active := b\<rparr>) = connectionState s"
  "connectionState (s\<lparr>m_connection_started_ns := n\<rparr>) = connectionState s"
  "connectionState (s\<lparr>m_clear_reason := r\<rparr>) = connectionState s" "connectionState (s\<lparr>m_clear_deadline := t\<rparr>) = connectionState s"
  "connectionState (s\<lparr>m_accept_video := b\<rparr>) = connectionState s" "connectionState (s\<lparr>m_sender_only := b\<rparr>) = connectionState s"
  by (simp_all add: connectionState_def)

lemma connectionState_video: "m_media_active s \<Longrightarrow> connectionState s = AirPlay_State_Video"
  by (simp add: connectionState_def)

lemma step_pending:
  assumes "session_step s e = (s', calls)" and "m_clear_pending s'"
  shows "\<not> calls_off e \<and>
    (m_clear_pending s \<and> m_clear_deadline s' = m_clear_deadline s \<or> (\<exists>t. asks t e \<and> m_clear_deadline s' = t + kGracePeriod))"
  using assms by (cases e) (auto simp: session_actions session_handlers split: if_splits option.splits)

lemma step_clearing:
  assumes "session_step s e = (s', calls)" and "m_clearing s'"
  shows "m_clearing s \<and> e \<noteq> Clear_fires \<or> (\<exists>now. e = Clear_due now \<and> m_clear_pending s \<and> m_clear_deadline s \<le> now)"
  using assms by (cases e) (auto simp: session_actions session_handlers split: if_splits option.splits)

definition session_ok :: "airplay_session \<Rightarrow> bool" where
  "session_ok s = (m_open_connections s \<ge> 0)"

lemma step_session_ok: "session_ok s \<Longrightarrow> session_ok (fst (session_step s e))"
  by (cases e) (auto simp: session_actions session_handlers session_ok_def split: option.splits)

interpretation session_machine: machine session_step "\<lambda>e. True" session_ok
  by unfold_locales (rule step_session_ok)

lemma run_snoc:
  assumes "run session_step s (es @ [e]) = (s'', outs)"
  obtains s' calls where "run session_step s es = (s', butlast outs)" "session_step s' e = (s'', calls)" "outs = butlast outs @ [calls]"
  using assms by (auto simp: session_machine.run_append split: prod.splits)

text \<open>What a pending clear, and one that is about to happen, say about the events so far.\<close>

definition asked :: "'d session_event list \<Rightarrow> nat \<Rightarrow> bool" where
  "asked es deadline = (\<exists>before e t since. es = before @ e # since \<and> asks t e \<and> deadline = t + kGracePeriod \<and>
     list_all (\<lambda>x. \<not> calls_off x) since)"

definition was_due :: "'d session_event list \<Rightarrow> bool" where
  "was_due es = (\<exists>before now after deadline. es = before @ Clear_due now # after \<and> asked before deadline \<and> deadline \<le> now \<and>
     Clear_fires \<notin> set after)"

lemma asked_new: "asks t e \<Longrightarrow> asked (es @ [e]) (t + kGracePeriod)"
  unfolding asked_def by (intro exI [of _ es] exI [of _ e] exI [of _ t] exI [of _ "[]"]) simp

lemma asked_snoc: "asked es deadline \<Longrightarrow> \<not> calls_off e \<Longrightarrow> asked (es @ [e]) deadline"
  unfolding asked_def by (elim exE) (rename_tac b x t a, rule_tac x = b in exI, rule_tac x = x in exI,
    rule_tac x = t in exI, rule_tac x = "a @ [e]" in exI, simp)

lemma was_due_new: "asked es deadline \<Longrightarrow> deadline \<le> now \<Longrightarrow> was_due (es @ [Clear_due now])"
  unfolding was_due_def by (intro exI [of _ es] exI [of _ now] exI [of _ "[]"] exI [of _ deadline]) simp

lemma was_due_snoc: "was_due es \<Longrightarrow> e \<noteq> Clear_fires \<Longrightarrow> was_due (es @ [e])"
  unfolding was_due_def by (elim exE) (rename_tac b n a d, rule_tac x = b in exI, rule_tac x = n in exI,
    rule_tac x = "a @ [e]" in exI, rule_tac x = d in exI, simp)

lemma clear_history:
  "\<not> m_clear_pending s0 \<Longrightarrow> \<not> m_clearing s0 \<Longrightarrow> run session_step s0 es = (s, outs) \<Longrightarrow>
     (m_clear_pending s \<longrightarrow> asked es (m_clear_deadline s)) \<and> (m_clearing s \<longrightarrow> was_due es)"
proof (induction es arbitrary: s outs rule: rev_induct)
  case Nil
  then show ?case by simp
next
  case (snoc e es)
  obtain s1 calls where r: "run session_step s0 es = (s1, butlast outs)" and st: "session_step s1 e = (s, calls)"
    by (rule run_snoc [OF snoc.prems(3)])
  note IH = snoc.IH [OF snoc.prems(1,2) r]
  have "asked (es @ [e]) (m_clear_deadline s)" if "m_clear_pending s"
    using step_pending [OF st that] IH asked_snoc asked_new by metis
  moreover have "was_due (es @ [e])" if "m_clearing s"
    using step_clearing [OF st that] IH was_due_snoc was_due_new by metis
  ultimately show ?case by simp
qed

section \<open>The picture of a device that has gone\<close>

text \<open>
  The deferred clear takes the picture away only after its grace period: when it clears, a
  connection was closed, a session torn down or an item stopped 450 ms or more before the clear
  became due, and in between no mirrored picture was shown and no item ended.
\<close>

theorem clear_waits_for_grace_period:
  assumes "\<not> m_clear_pending s0" and "\<not> m_clearing s0" and "run session_step s0 es = (s, outs)"
    and "session_step s Clear_fires = (s', calls)" and "clears calls"
  shows "\<exists>before e t since now after. es = before @ e # since @ Clear_due now # after \<and> asks t e \<and>
    t + 450000000 \<le> now \<and> list_all (\<lambda>x. \<not> calls_off x) since"
proof -
  have "m_clearing s" using assms(4,5) by (auto simp: clear_fires_def action_defs split: if_splits)
  then have "was_due es" using clear_history [OF assms(1-3)] by blast
  then show ?thesis unfolding was_due_def asked_def kGracePeriod_def by fastforce
qed

definition ready_session :: airplay_session where
  "ready_session = airplay_session_new\<lparr>m_state_changed := True, m_reset_callback := True, m_video_callback := True\<rparr>"

definition device_leaves :: "nat session_event list" where
  "device_leaves = [Conn_init 5, Video_data [1] 0 False, Mirror_frame, Conn_destroy 100, Clear_due 450000100]"

theorem clear_waits_for_grace_period_witness:
  "\<exists>before e t since now after. device_leaves = before @ e # since @ Clear_due now # after \<and> asks t e \<and>
     t + 450000000 \<le> now \<and> list_all (\<lambda>x. \<not> calls_off x) since"
proof -
  obtain s outs where r: "run session_step ready_session device_leaves = (s, outs)" by (metis prod.exhaust)
  obtain s' calls where f: "session_step s (Clear_fires :: nat session_event) = (s', calls)" by (metis prod.exhaust)
  have "clears calls"
    using r f by (auto simp: device_leaves_def ready_session_def airplay_session_new_def session_actions session_handlers
        kGracePeriod_def connectionState_def)
  from clear_waits_for_grace_period [OF _ _ r f this] show ?thesis by (simp add: ready_session_def airplay_session_new_def)
qed

text \<open>
  A device that has shown a picture and closes its last connection leaves neither picture nor
  playback behind: the clear that its going asks for clears the output, flushes the decoders, stops
  the player if an item was active, and the panel is told that the receiver waits for a device.
\<close>

theorem departed_device_is_cleared:
  assumes "m_open_connections s = 1" and "m_frame_shown s" and "\<not> m_clear_exit s" and "\<not> m_clearing s"
    and "m_reset_callback s" and "t0 + 450000000 \<le> t"
    and "run session_step s [Conn_destroy t0, Clear_due t, Clear_fires] = (s', [calls1, calls2, calls3])"
  shows "Conn_reset True True \<in> set (calls3 :: 'd call list) \<and> (m_media_active s \<longrightarrow> Player_stop \<in> set calls3) \<and>
    \<not> m_frame_shown s' \<and> \<not> m_media_active s' \<and> \<not> m_clear_pending s' \<and>
    connectionState s' = AirPlay_State_Waiting \<and> informed s'"
proof -
  define s1 where "s1 = fst (conn_destroy t0 s :: airplay_session \<times> 'd call list)"
  define s2 where "s2 = clear_due t s1"
  have s1: "m_open_connections s1 = 0" "m_clear_pending s1" "m_clear_deadline s1 \<le> t" "m_clearing s1 = m_clearing s"
      "m_clear_exit s1 = m_clear_exit s" "m_reset_callback s1" "m_media_active s1 = m_media_active s"
    using assms(1-6) by (simp_all add: s1_def session_actions session_handlers kGracePeriod_def)
  then have s2: "m_open_connections s2 = 0" "m_clearing s2" "\<not> m_clear_pending s2" "m_reset_callback s2"
      "m_media_active s2 = m_media_active s"
    using assms(3,4) by (simp_all add: s2_def clear_due_def)
  have "clear_fires s2 = (s', calls3)"
    using assms(7) by (auto simp: s1_def s2_def split_beta prod_eq_iff)
  then show ?thesis
    using s2 by (auto simp: session_actions informed_def connectionState_def split: if_splits)
qed

theorem departed_device_is_cleared_witness:
  "\<exists>s' calls1 calls2 calls3. run session_step (ready_session\<lparr>m_open_connections := 1, m_frame_shown := True\<rparr>)
      [Conn_destroy 7, Clear_due 450000007, (Clear_fires :: nat session_event)] = (s', [calls1, calls2, calls3]) \<and>
    \<not> m_frame_shown s' \<and> Conn_reset True True \<in> set calls3"
proof -
  let ?s = "ready_session\<lparr>m_open_connections := 1, m_frame_shown := True\<rparr>"
  obtain s' calls1 calls2 calls3 where r: "run session_step ?s
      [Conn_destroy 7, Clear_due 450000007, (Clear_fires :: nat session_event)] = (s', [calls1, calls2, calls3])"
    by (simp add: split_beta)
  from departed_device_is_cleared [OF _ _ _ _ _ _ r] show ?thesis
    unfolding r by (simp add: ready_session_def airplay_session_new_def)
qed

section \<open>AirPlay video stays on screen\<close>

text \<open>Connections come and go, but one stays open.\<close>

fun one_stays_open :: "int \<Rightarrow> 'd session_event list \<Rightarrow> bool" where
  "one_stays_open n [] = True"
| "one_stays_open n (Conn_init now # es) = one_stays_open (n + 1) es"
| "one_stays_open n (Conn_destroy now # es) = (n > 1 \<and> one_stays_open (n - 1) es)"
| "one_stays_open n (_ # es) = one_stays_open n es"

fun ends_playback :: "'d session_event \<Rightarrow> bool" where
  "ends_playback (Video_stop now) = True"
| "ends_playback (Video_reset t) = ends_item t"
| "ends_playback _ = False"

text \<open>An item is active, and a clear that is past its lock finds a connection open.\<close>

definition item_playing :: "airplay_session \<Rightarrow> bool" where
  "item_playing s = (m_media_active s \<and> \<not> m_clear_pending s \<and> (m_clearing s \<longrightarrow> 0 < m_open_connections s))"

definition clears_left :: "airplay_session \<Rightarrow> nat" where
  "clears_left s = (if m_clearing s then 1 else 0)"

lemma playing_step:
  assumes "item_playing s" and "\<not> ends_playback e" and "one_stays_open (m_open_connections s) (e # es)"
    and "session_step s e = (s', calls)"
  shows "item_playing s' \<and> one_stays_open (m_open_connections s') es \<and>
    (if clears calls then 1 else 0) + clears_left s' \<le> clears_left s"
  using assms
  by (cases e) (auto simp: item_playing_def clears_left_def session_actions session_handlers split: option.splits if_splits)

lemma playing_run:
  "item_playing s \<Longrightarrow> list_all (\<lambda>e. \<not> ends_playback e) es \<Longrightarrow> one_stays_open (m_open_connections s) es \<Longrightarrow>
     run session_step s es = (s', outs) \<Longrightarrow> item_playing s' \<and> length (filter clears outs) \<le> clears_left s"
proof (induction es arbitrary: s outs)
  case Nil
  then show ?case by simp
next
  case (Cons e es)
  obtain s1 calls where st: "session_step s e = (s1, calls)" by (metis prod.exhaust)
  obtain outs1 where r: "run session_step s1 es = (s', outs1)" "outs = calls # outs1"
    using Cons.prems(4) st by (auto split: prod.splits)
  have k: "item_playing s1 \<and> one_stays_open (m_open_connections s1) es \<and>
      (if clears calls then 1 else 0) + clears_left s1 \<le> clears_left s"
    by (rule playing_step [OF Cons.prems(1) _ Cons.prems(3) st]) (use Cons.prems(2) in simp)
  with Cons.IH [of s1 outs1] Cons.prems(2) r show ?case by (auto split: if_splits)
qed

text \<open>
  C10. An AirPlay video item is not blanked by the mirroring session that ends beside it: from a POST
  /play that is accepted while a connection is open until the item is stopped, reset by UxPlay or the
  last connection closes, the item stays active and nothing clears the output, whatever teardowns,
  resets, refusals and mirror data come in between. The exception is a deferred clear that was
  already due and past its lock when the item came: that one clears the output, once.
\<close>

theorem playing_item_is_not_blanked:
  assumes "m_clearing s0 \<Longrightarrow> 0 < m_open_connections s0" and "m_accept_video s0" and "url \<noteq> []"
    and "list_all (\<lambda>e. \<not> ends_playback e) es" and "one_stays_open (m_open_connections s0) es"
    and "run session_step s0 (Play moment (Some url) start # es) = (s, outs)"
  shows "connectionState s = AirPlay_State_Video \<and> length (filter clears outs) \<le> (if m_clearing s0 then 1 else 0)"
proof -
  obtain s1 calls where p: "session_step s0 (Play moment (Some url) start) = (s1, calls)" by (metis prod.exhaust)
  then have s1: "item_playing s1" "m_open_connections s1 = m_open_connections s0" "\<not> clears calls" "m_clearing s1 = m_clearing s0"
    using assms(1-3) by (auto simp: item_playing_def session_actions session_handlers split: if_splits)
  obtain outs1 where r: "run session_step s1 es = (s, outs1)" "outs = calls # outs1"
    using assms(6) p by (auto split: prod.splits)
  have "one_stays_open (m_open_connections s1) es" using assms(5) s1(2) by simp
  from playing_run [OF s1(1) assms(4) this r(1)] s1(3,4) r(2) show ?thesis
    by (simp add: item_playing_def connectionState_def clears_left_def)
qed

theorem playing_item_is_not_blanked_witness:
  "connectionState (fst (run session_step (ready_session\<lparr>m_open_connections := 2, m_clearing := True\<rparr>)
     [Play [] (Some ''http://a/b'') (0::nat), Clear_fires, Conn_teardown 3 None None, Uxplay_reset, Conn_destroy 4, Mirror_frame])) =
   AirPlay_State_Video"
proof -
  obtain s outs where r: "run session_step (ready_session\<lparr>m_open_connections := 2, m_clearing := True\<rparr>)
     (Play [] (Some ''http://a/b'') (0::nat) #
      [Clear_fires, Conn_teardown 3 None None, Uxplay_reset, Conn_destroy 4, Mirror_frame]) = (s, outs)"
    by (metis prod.exhaust)
  from playing_item_is_not_blanked [OF _ _ _ _ _ r] show ?thesis
    unfolding r by (simp add: ready_session_def airplay_session_new_def)
qed

text \<open>The clear that was past its lock does blank the item.\<close>

lemma overtaken_clear_blanks_the_item:
  "list_ex clears (snd (run session_step (ready_session\<lparr>m_open_connections := 1, m_clearing := True\<rparr>)
     [Play [] (Some ''http://a/b'') (0::nat), Clear_fires]))"
  by (simp add: ready_session_def airplay_session_new_def session_actions session_handlers connectionState_def)

section \<open>What the panel shows\<close>

lemma mirror_frame_informed: "informed s \<Longrightarrow> informed (fst (onMirrorFrameOutput s))"
proof (cases "m_frame_shown s")
  case True
  then have "connectionState (s\<lparr>m_frame_shown := True\<rparr>) = connectionState s" by (simp add: connectionState_def)
  with True show "informed s \<Longrightarrow> ?thesis" by (simp add: session_actions informed_def)
qed (simp add: session_actions informed_def)

lemma play_informed: "informed s \<Longrightarrow> informed (fst (on_video_play moment location start s))"
  by (auto simp: on_video_play_def session_actions informed_def connectionState_video split: option.split)

lemma step_informed:
  assumes "informed s" and "session_step s e = (s', calls)" and "e \<noteq> Clear_fires"
  shows "informed s'"
proof (cases e)
  case Mirror_frame
  then show ?thesis using mirror_frame_informed [OF assms(1)] assms(2) by (metis fst_conv session_step.simps(17))
next
  case (Play moment location start)
  then show ?thesis using play_informed [OF assms(1), of moment location start] assms(2) by simp
qed (use assms in \<open>auto simp: session_actions session_handlers informed_def split: if_splits\<close>)

text \<open>
  Every handler but one leaves the panel informed: the state last reported is the state there is.
  The exception is the deferred clear with a connection open: it changes ``screen mirroring'' to
  ``connected'' and does not report it.
\<close>

theorem panel_misses_only_the_deferred_clear:
  assumes "informed s" and "session_step s e = (s', calls)"
  shows "informed s' \<or> (e = Clear_fires \<and> connectionState s = AirPlay_State_Mirroring \<and>
    connectionState s' = AirPlay_State_Connected \<and> State_changed \<notin> set calls)"
proof (cases "e = Clear_fires")
  case True
  then show ?thesis
    using assms by (cases "m_open_connections s \<le> 0")
      (auto simp: session_actions informed_def connectionState_def split: if_splits)
next
  case False
  then show ?thesis using step_informed [OF assms] by simp
qed

theorem panel_misses_only_the_deferred_clear_witness:
  "informed (fst (session_step (ready_session\<lparr>m_last_state := Some AirPlay_State_Waiting\<rparr>) (Conn_init 5 :: nat session_event)))"
proof -
  let ?s = "ready_session\<lparr>m_last_state := Some AirPlay_State_Waiting\<rparr>"
  obtain s' calls where r: "session_step ?s (Conn_init 5 :: nat session_event) = (s', calls)" by (metis prod.exhaust)
  have "informed ?s" by (simp add: informed_def connectionState_def ready_session_def airplay_session_new_def)
  from panel_misses_only_the_deferred_clear [OF this r] show ?thesis unfolding r by simp
qed

section \<open>AirPlay video turned off\<close>

definition starts_item :: "'d call \<Rightarrow> bool" where
  "starts_item c = (case c of Player_play url start \<Rightarrow> True | _ \<Rightarrow> False)"

interpretation video_off: machine session_step "\<lambda>e. \<forall>only. e \<noteq> Set_policy True only" "\<lambda>s. \<not> m_accept_video s"
proof (unfold_locales, goal_cases)
  case (1 s e)
  then show ?case by (cases e) (auto simp: session_actions session_handlers split: option.split)
qed

lemma off_step:
  assumes "\<not> m_accept_video s" shows "\<not> list_ex starts_item (snd (session_step s e))"
  using assms by (cases e) (auto simp: session_actions session_handlers starts_item_def split: option.split)

text \<open>
  While AirPlay video is turned off no item starts playing, whatever the senders do; a request
  that still arrives is recorded as the latest refusal, and nothing else of the session changes.
\<close>

theorem no_item_starts_while_turned_off:
  assumes "\<not> m_accept_video s" and "list_all (\<lambda>e. \<forall>only. e \<noteq> Set_policy True only) es"
    and "run session_step s es = (s', outs)" and "url \<noteq> []"
  shows "list_all (\<lambda>calls. \<not> list_ex starts_item calls) outs \<and>
    fst (session_step s' (Play moment (Some url) start)) = s'\<lparr>m_last_refusal := moment @ '': '' @ refusal_off\<rparr>"
proof -
  have "list_all (\<lambda>calls. \<not> list_ex starts_item calls) (snd (run session_step s es))"
    using video_off.run_every [OF assms(1,2), of "\<lambda>calls. \<not> list_ex starts_item calls"] off_step by blast
  moreover have "\<not> m_accept_video s'" using video_off.run_inv [OF assms(1,2)] assms(3) by simp
  ultimately show ?thesis using assms(3,4) by (simp add: on_video_play_def session_actions)
qed

theorem no_item_starts_while_turned_off_witness:
  "m_last_refusal (fst (session_step (fst (run session_step (ready_session\<lparr>m_accept_video := False\<rparr>)
     [Conn_init 3, Play [] (Some ''x'') (0::nat)])) (Play ''12:00:00'' (Some ''y'') (0::nat)))) =
   ''12:00:00: AirPlay video is turned off on this receiver''"
proof -
  obtain s' outs where r: "run session_step (ready_session\<lparr>m_accept_video := False\<rparr>)
     [Conn_init 3, Play [] (Some ''x'') (0::nat)] = (s', outs)" by (metis prod.exhaust)
  have "fst (session_step s' (Play ''12:00:00'' (Some ''y'') (0::nat))) = s'\<lparr>m_last_refusal := ''12:00:00'' @ '': '' @ refusal_off\<rparr>"
    by (rule no_item_starts_while_turned_off [OF _ _ r, THEN conjunct2]) (simp_all add: ready_session_def)
  then show ?thesis unfolding r by (simp add: refusal_off_def)
qed

end
