(* ===== verification/Uxplay_Lifecycle.thy ===== *)
theory Uxplay_Lifecycle
  imports Uxplay_Session
begin

text \<open>
  \<^verbatim>\<open>src/uxplay-integration.cpp\<close>, how the receiver is started, renamed and stopped. UxPlay's library,
  Bonjour and the environment are the record \<open>uxlib\<close>, acting on a world \<open>'w\<close>. A context that UxPlay
  hands out (\<open>raop_t\<close>, \<open>dnssd_t\<close>) is a number, new for every one; the calls that make, use and free
  contexts are returned in their order, so that what is still allocated can be read off them.
  \<open>start\<close>, \<open>stop\<close> and \<open>updateServerName\<close> exclude each other (\<open>m_lifecycle_mutex\<close>), so each is one
  operation. C++ exceptions of \<open>start\<close> are not modelled.
\<close>

section \<open>Device ids\<close>

definition hex_value :: "char \<Rightarrow> nat" where
  "hex_value c =
     (if is_digit c then char_code c - 48
      else if char_code c \<ge> 97 then char_code c - 87 else char_code c - 55)"

fun hex_pairs :: "string \<Rightarrow> bytes" where
  "hex_pairs (a # b # rest) = of_nat (16 * hex_value a + hex_value b) # hex_pairs rest"
| "hex_pairs _ = []"

definition parse_device_id :: "string \<Rightarrow> bytes option" where
  "parse_device_id value =
     (let compact = filter (\<lambda>c. c \<noteq> CHR '':'') value
      in if length compact \<noteq> 12 \<or> \<not> list_all is_xdigit compact then None else Some (hex_pairs compact))"

definition hex_no_colon :: "string \<Rightarrow> string" where
  "hex_no_colon value = map to_upper (filter (\<lambda>c. c \<noteq> CHR '':'') value)"

section \<open>UxPlay's log\<close>

datatype obs_level = LOG_ERROR | LOG_WARNING | LOG_INFO | LOG_DEBUG

definition uxplay_level :: "int \<Rightarrow> obs_level" where
  "uxplay_level level =
     (if 0 \<le> level \<and> level \<le> 3 then LOG_ERROR else if level = 4 then LOG_WARNING
      else if level = 5 \<or> level = 6 then LOG_INFO else LOG_DEBUG)"

definition forward_uxplay_log :: "int \<Rightarrow> string \<Rightarrow> obs_level \<times> string" where
  "forward_uxplay_log level msg =
     (uxplay_level level,
      ''[UxPlay] '' @ (if msg \<noteq> [] \<and> last msg = char_of (10 :: nat) then butlast msg else msg))"

section \<open>The state\<close>

definition kDefaultPort :: int where "kDefaultPort = 7000"
definition kFallbackPort :: int where "kFallbackPort = 7001"

type_synonym context_id = nat

datatype uxcall =
    Raop_init context_id
  | Raop_destroy context_id
  | Raop_stop_httpd context_id
  | Raop_set_ports context_id "int list"
  | Raop_set_policy context_id bool bool
  | Raop_trace context_id
  | Raop_set_port context_id int
  | Raop_set_dnssd context_id context_id
  | Dnssd_init context_id string
  | Dnssd_destroy context_id
  | Dnssd_profile context_id bool
  | Dnssd_features context_id
  | Dnssd_register context_id int
  | Dnssd_unregister context_id
  | Panel_changed
  | Stop_player

record 'w uxlib =
  x_net_init :: "'w \<Rightarrow> int \<times> 'w"
  x_raop_init :: "'w \<Rightarrow> bool \<times> 'w"
  x_raop_init2 :: "'w \<Rightarrow> string \<Rightarrow> int \<times> 'w"
  x_set_plist :: "'w \<Rightarrow> int \<times> 'w"
  x_start_httpd :: "'w \<Rightarrow> int \<Rightarrow> (int \<times> int) \<times> 'w"
  x_dnssd_init :: "'w \<Rightarrow> string \<Rightarrow> bytes \<Rightarrow> (bool \<times> int) \<times> 'w"
  x_register_raop :: "'w \<Rightarrow> int \<Rightarrow> int \<times> 'w"
  x_register_airplay :: "'w \<Rightarrow> int \<Rightarrow> int \<times> 'w"
  x_getenv :: "string \<Rightarrow> string option"
  x_flag_file :: "string \<Rightarrow> bool"
  x_text :: "string \<Rightarrow> string"
  x_format :: "string \<Rightarrow> int \<Rightarrow> string"
  x_fast_connect :: bool

record receiver =
  r_session :: airplay_session
  r_policy :: policy
  m_running :: bool
  m_raop :: "context_id option"
  m_dnssd :: "context_id option"
  m_retired_dnssd :: "context_id option"
  m_hw_addr :: bytes
  m_server_name :: string
  m_actual_port :: int
  m_clear_thread :: bool
  r_made :: nat

text \<open>
  \<open>r_policy\<close> has the allowed ports (a global of the URL policy), \<open>m_clear_thread\<close> is whether that
  thread is joinable, \<open>r_made\<close> is the number of the next context.
\<close>

definition receiver_new :: "airplay_session \<Rightarrow> policy \<Rightarrow> receiver" where
  "receiver_new s g = \<lparr>r_session = s, r_policy = g, m_running = False, m_raop = None, m_dnssd = None,
     m_retired_dnssd = None, m_hw_addr = replicate 6 0, m_server_name = ''OBS AirPlay'', m_actual_port = 0,
     m_clear_thread = True, r_made = 0\<rparr>"

text \<open>
  A statement that can fail: whether it went on, the state after it, and the calls made. A sequence
  of them stops at the first that fails (an early return of false).
\<close>

type_synonym 's attempt = "'s \<Rightarrow> bool \<times> 's \<times> uxcall list"

fun attempts :: "'s attempt list \<Rightarrow> 's attempt" where
  "attempts [] s = (True, s, [])"
| "attempts (a # as) s =
     (case a s of
        (False, s', calls) \<Rightarrow> (False, s', calls)
      | (True, s', calls) \<Rightarrow> (case attempts as s' of (ok, s'', later) \<Rightarrow> (ok, s'', calls @ later)))"

definition set_error :: "string \<Rightarrow> receiver \<Rightarrow> receiver \<times> uxcall list" where
  "set_error error r =
     (r\<lparr>r_session := fst (setLastError error (r_session r) :: airplay_session \<times> unit call list)\<rparr>,
      if m_state_changed (r_session r) then [Panel_changed] else [])"

definition fail_with :: "string \<Rightarrow> (receiver \<times> 'w) attempt" where
  "fail_with error rw = (case set_error error (fst rw) of (r, calls) \<Rightarrow> (False, (r, snd rw), calls))"

section \<open>start\<close>

definition media_trace_requested :: "'w uxlib \<Rightarrow> bool" where
  "media_trace_requested X =
     (case x_getenv X ''OBS_AIRPLAY_MEDIA_TRACE'' of
        Some v \<Rightarrow> v \<noteq> [] \<and> v \<noteq> ''0''
      | None \<Rightarrow> x_flag_file X ''obs-airplay-media-trace'')"

definition mask_fairplay_video_requested :: "'w uxlib \<Rightarrow> bool" where
  "mask_fairplay_video_requested X = (x_getenv X ''OBS_AIRPLAY_MASK_FAIRPLAY_VIDEO'' = Some ''1'')"

definition apply_fast_connect_profile :: "'w uxlib \<Rightarrow> context_id \<Rightarrow> uxcall list" where
  "apply_fast_connect_profile X d =
     (if x_fast_connect X then [Dnssd_profile d (mask_fairplay_video_requested X)] else [])"

definition requested_ports :: "'w uxlib \<Rightarrow> policy \<Rightarrow> policy" where
  "requested_ports X g =
     (case x_getenv X ''OBS_AIRPLAY_MEDIA_PORTS'' of
        None \<Rightarrow> g
      | Some v \<Rightarrow> (let ports = parsePortList v in if ports = [] then g else setAllowedPorts ports g))"

definition configure_media :: "'w uxlib \<Rightarrow> (receiver \<times> 'w) attempt" where
  "configure_media X rw =
     (let r = fst rw; g = requested_ports X (r_policy r); raop = the (m_raop r)
      in (True, (r\<lparr>r_policy := g\<rparr>, snd rw),
          [Raop_set_ports raop (g_ports g),
           Raop_set_policy raop (m_accept_video (r_session r)) (m_sender_only (r_session r))] @
          (if media_trace_requested X then [Raop_trace raop] else [])))"

definition make_raop :: "'w uxlib \<Rightarrow> (receiver \<times> 'w) attempt" where
  "make_raop X rw =
     (case x_raop_init X (snd rw) of
        (False, w) \<Rightarrow> (False, (fst rw, w), [])
      | (True, w) \<Rightarrow> (True, ((fst rw)\<lparr>m_raop := Some (r_made (fst rw)), r_made := r_made (fst rw) + 1\<rparr>, w),
          [Raop_init (r_made (fst rw))]))"

definition fallback_id :: string where "fallback_id = ''AA:BB:CC:DD:EE:FF''"

definition device_address :: "string \<Rightarrow> bytes" where
  "device_address device_id =
     (case parse_device_id device_id of Some a \<Rightarrow> a | None \<Rightarrow> the (parse_device_id fallback_id))"

definition service_name :: "string \<Rightarrow> string \<Rightarrow> string" where
  "service_name wanted stored =
     (if wanted \<noteq> [] then wanted else if stored \<noteq> [] then stored else ''OBS AirPlay'')"

text \<open>\<open>dnssd_init\<close> may hand out a context and report an error: it is kept (and released by \<open>start\<close>).\<close>

definition make_dnssd :: "'w uxlib \<Rightarrow> string \<Rightarrow> string \<Rightarrow> (receiver \<times> 'w) attempt" where
  "make_dnssd X device_id server_name rw =
     (let r = (fst rw)\<lparr>m_server_name := service_name server_name (m_server_name (fst rw)),
                       m_hw_addr := device_address device_id\<rparr>
      in case x_dnssd_init X (snd rw) (m_server_name r) (m_hw_addr r) of
           ((made, error), w) \<Rightarrow>
             if \<not> made then (False, (r, w), [])
             else (error = 0, (r\<lparr>m_dnssd := Some (r_made r), r_made := r_made r + 1\<rparr>, w),
                   Dnssd_init (r_made r) (m_server_name r) #
                   (if error = 0 then apply_fast_connect_profile X (r_made r) else [])))"

definition init_raop :: "'w uxlib \<Rightarrow> string \<Rightarrow> int \<Rightarrow> (receiver \<times> 'w) attempt" where
  "init_raop X device_id wanted rw =
     (let raop = the (m_raop (fst rw)); dnssd = the (m_dnssd (fst rw))
      in case x_raop_init2 X (snd rw) device_id of
           (result, w) \<Rightarrow>
             if result \<noteq> 0
             then (case fail_with (x_text X ''AirPlay.Error.SetupFailed'') (fst rw, w) of
                     (ok, rw', calls) \<Rightarrow> (ok, rw', Raop_set_port raop wanted # calls))
             else (True, (fst rw, w), [Raop_set_port raop wanted, Raop_set_dnssd raop dnssd]))"

definition enable_hls :: "'w uxlib \<Rightarrow> (receiver \<times> 'w) attempt" where
  "enable_hls X rw =
     (case x_set_plist X (snd rw) of
        (result, w) \<Rightarrow>
          if result \<noteq> 0 then fail_with (x_text X ''AirPlay.Error.SetupFailed'') (fst rw, w)
          else (True, (fst rw, w), [Dnssd_features (the (m_dnssd (fst rw)))]))"

text \<open>The lambda \<open>listen_on\<close>; a port is cast to \<open>unsigned short\<close>.\<close>

definition listen_on :: "'w uxlib \<Rightarrow> int \<Rightarrow> 'w \<Rightarrow> int option \<times> 'w" where
  "listen_on X wanted w =
     (case x_start_httpd X w (wanted mod 65536) of
        ((result, actual), w') \<Rightarrow> (if result \<ge> 0 then Some actual else None, w'))"

definition set_actual_port :: "int \<Rightarrow> (receiver \<times> 'w) attempt" where
  "set_actual_port actual rw =
     (True, ((fst rw)\<lparr>m_actual_port := actual\<rparr>, snd rw), [Raop_set_port (the (m_raop (fst rw))) actual])"

definition listen :: "'w uxlib \<Rightarrow> int \<Rightarrow> (receiver \<times> 'w) attempt" where
  "listen X wanted rw =
     (case listen_on X wanted (snd rw) of
        (Some actual, w) \<Rightarrow> set_actual_port actual (fst rw, w)
      | (None, w) \<Rightarrow>
          if wanted \<noteq> kDefaultPort then fail_with (x_format X ''AirPlay.Error.PortBusy'' wanted) (fst rw, w)
          else (case listen_on X kFallbackPort w of
                  (Some actual, w') \<Rightarrow> set_actual_port actual (fst rw, w')
                | (None, w') \<Rightarrow> fail_with (x_text X ''AirPlay.Error.PortsBusy'') (fst rw, w')))"

definition bonjour_error :: "'w uxlib \<Rightarrow> int \<Rightarrow> int \<Rightarrow> string" where
  "bonjour_error X raop_error airplay_error =
     (if raop_error \<noteq> 0 \<or> airplay_error \<noteq> 0
      then x_format X ''AirPlay.Error.Bonjour'' (if raop_error \<noteq> 0 then raop_error else airplay_error) else [])"

text \<open>Registers both services of a context and says in the panel whether that worked.\<close>

definition register_services :: "'w uxlib \<Rightarrow> context_id \<Rightarrow> receiver \<times> 'w \<Rightarrow> (receiver \<times> 'w) \<times> uxcall list" where
  "register_services X d rw =
     (case x_register_raop X (snd rw) (m_actual_port (fst rw)) of
        (raop_error, w1) \<Rightarrow>
          (case x_register_airplay X w1 (m_actual_port (fst rw)) of
             (airplay_error, w2) \<Rightarrow>
               (case set_error (bonjour_error X raop_error airplay_error) (fst rw) of
                  (r, calls) \<Rightarrow> ((r, w2), Dnssd_register d (m_actual_port (fst rw)) # calls))))"

definition announce :: "'w uxlib \<Rightarrow> (receiver \<times> 'w) attempt" where
  "announce X rw =
     (case register_services X (the (m_dnssd (fst rw))) rw of
        ((r, w), calls) \<Rightarrow> (True, (r\<lparr>m_running := True\<rparr>, w), calls))"

text \<open>The scope guard of \<open>start\<close>.\<close>

definition release :: "receiver \<Rightarrow> receiver \<times> uxcall list" where
  "release r =
     (r\<lparr>m_raop := None, m_dnssd := None\<rparr>,
      (case m_raop r of None \<Rightarrow> [] | Some c \<Rightarrow> [Raop_destroy c]) @
      (case m_dnssd r of None \<Rightarrow> [] | Some d \<Rightarrow> [Dnssd_destroy d]))"

definition restart_clear_thread :: "receiver \<Rightarrow> receiver" where
  "restart_clear_thread r =
     (if m_clear_thread r then r
      else r\<lparr>m_clear_thread := True, r_session := (r_session r)\<lparr>m_clear_exit := False, m_clear_pending := False\<rparr>\<rparr>)"

definition start_steps :: "'w uxlib \<Rightarrow> string \<Rightarrow> int \<Rightarrow> string \<Rightarrow> (receiver \<times> 'w) attempt list" where
  "start_steps X device_id wanted server_name =
     [make_raop X, configure_media X, make_dnssd X device_id server_name, init_raop X device_id wanted,
      enable_hls X, listen X wanted, announce X]"

definition start_receiver :: "'w uxlib \<Rightarrow> string \<Rightarrow> int \<Rightarrow> string \<Rightarrow> (receiver \<times> 'w) attempt" where
  "start_receiver X device_id wanted server_name rw =
     (if m_running (fst rw) then (True, rw, [])
      else
        (case x_net_init X (snd rw) of
           (result, w) \<Rightarrow>
             if result \<noteq> 0 then (False, (restart_clear_thread (fst rw), w), [])
             else (case attempts (start_steps X device_id wanted server_name) (restart_clear_thread (fst rw), w) of
                     (True, rw', calls) \<Rightarrow> (True, rw', calls)
                   | (False, (r', w'), calls) \<Rightarrow>
                       (case release r' of (r'', freed) \<Rightarrow> (False, (r'', w'), calls @ freed)))))"

section \<open>stop, renaming and the policy\<close>

definition stop_calls :: "receiver \<Rightarrow> uxcall list" where
  "stop_calls r =
     (case m_raop r of None \<Rightarrow> [] | Some c \<Rightarrow> [Raop_stop_httpd c]) @ [Stop_player] @
     (case m_raop r of None \<Rightarrow> [] | Some c \<Rightarrow> [Raop_destroy c]) @
     (case m_dnssd r of None \<Rightarrow> [] | Some d \<Rightarrow> [Dnssd_unregister d, Dnssd_destroy d]) @
     (case m_retired_dnssd r of None \<Rightarrow> [] | Some d \<Rightarrow> [Dnssd_destroy d])"

definition stop_receiver :: "receiver \<Rightarrow> receiver \<times> uxcall list" where
  "stop_receiver r =
     (if \<not> m_running r then (r, [])
      else (r\<lparr>m_running := False, m_clear_thread := False, r_session := (r_session r)\<lparr>m_clear_exit := True\<rparr>,
              m_raop := None, m_dnssd := None, m_retired_dnssd := None\<rparr>, stop_calls r))"

text \<open>
  A rename with the receiver running: the new context is made first; the old one is unregistered
  once requests use the new one, and is freed only at the next rename (or stop).
\<close>

definition swap_dnssd :: "'w uxlib \<Rightarrow> string \<Rightarrow> context_id \<Rightarrow> receiver \<times> 'w \<Rightarrow> (receiver \<times> 'w) \<times> uxcall list" where
  "swap_dnssd X name new rw =
     (let r = fst rw; raop = the (m_raop r);
          before = apply_fast_connect_profile X new @ [Raop_set_dnssd raop new] @
            (case m_dnssd r of None \<Rightarrow> [] | Some old \<Rightarrow> [Dnssd_unregister old]) @
            (case m_retired_dnssd r of None \<Rightarrow> [] | Some d \<Rightarrow> [Dnssd_destroy d])
      in case register_services X new (r\<lparr>m_retired_dnssd := m_dnssd r, m_dnssd := Some new, m_server_name := name\<rparr>, snd rw) of
           (rw', calls) \<Rightarrow> (rw', before @ calls))"

definition updateServerName :: "'w uxlib \<Rightarrow> string \<Rightarrow> (receiver \<times> 'w) attempt" where
  "updateServerName X name rw =
     (let r = fst rw; svc_name = (if name = [] then ''OBS AirPlay'' else name); new = r_made r
      in if m_raop r = None \<or> \<not> m_running r then (True, (r\<lparr>m_server_name := svc_name\<rparr>, snd rw), [])
         else
           (case x_dnssd_init X (snd rw) svc_name (m_hw_addr r) of
              ((made, error), w) \<Rightarrow>
                if \<not> made \<or> error \<noteq> 0 then
                  (case fail_with (x_format X ''AirPlay.Error.RenameFailed'' error)
                          (if made then r\<lparr>r_made := new + 1\<rparr> else r, w) of
                     (ok, rw', calls) \<Rightarrow>
                       (ok, rw', (if made then [Dnssd_init new svc_name, Dnssd_destroy new] else []) @ calls))
                else
                  (case swap_dnssd X svc_name new (r\<lparr>r_made := new + 1\<rparr>, w) of
                     (rw', calls) \<Rightarrow> (True, rw', Dnssd_init new svc_name # calls))))"

definition setVideoPolicy :: "bool \<Rightarrow> bool \<Rightarrow> receiver \<Rightarrow> receiver \<times> uxcall list" where
  "setVideoPolicy accept_video sender_only r =
     (r\<lparr>r_session := fst (set_video_policy accept_video sender_only (r_session r) :: airplay_session \<times> unit call list)\<rparr>,
      (case m_raop r of None \<Rightarrow> [] | Some c \<Rightarrow> [Raop_set_policy c accept_video sender_only]))"

section \<open>The ledger of contexts\<close>

text \<open>
  Which contexts are allocated, and which Bonjour context the receiver reads. A call is refused
  when it uses or frees a context that is not allocated, makes one that is, or frees the one that
  is still read.
\<close>

type_synonym ledger = "context_id set \<times> context_id set \<times> context_id option"

fun book :: "uxcall \<Rightarrow> ledger \<Rightarrow> ledger option" where
  "book (Raop_init n) (R, D, u) = (if n \<in> R then None else Some (insert n R, D, u))"
| "book (Raop_destroy n) (R, D, u) = (if n \<in> R then Some (R - {n}, D, None) else None)"
| "book (Raop_stop_httpd n) (R, D, u) = (if n \<in> R then Some (R, D, u) else None)"
| "book (Raop_set_ports n ports) (R, D, u) = (if n \<in> R then Some (R, D, u) else None)"
| "book (Raop_set_policy n a b) (R, D, u) = (if n \<in> R then Some (R, D, u) else None)"
| "book (Raop_trace n) (R, D, u) = (if n \<in> R then Some (R, D, u) else None)"
| "book (Raop_set_port n p) (R, D, u) = (if n \<in> R then Some (R, D, u) else None)"
| "book (Raop_set_dnssd n d) (R, D, u) = (if n \<in> R \<and> d \<in> D then Some (R, D, Some d) else None)"
| "book (Dnssd_init d name) (R, D, u) = (if d \<in> D then None else Some (R, insert d D, u))"
| "book (Dnssd_destroy d) (R, D, u) = (if d \<in> D \<and> u \<noteq> Some d then Some (R, D - {d}, u) else None)"
| "book (Dnssd_profile d m) (R, D, u) = (if d \<in> D then Some (R, D, u) else None)"
| "book (Dnssd_features d) (R, D, u) = (if d \<in> D then Some (R, D, u) else None)"
| "book (Dnssd_register d p) (R, D, u) = (if d \<in> D then Some (R, D, u) else None)"
| "book (Dnssd_unregister d) (R, D, u) = (if d \<in> D then Some (R, D, u) else None)"
| "book Panel_changed l = Some l"
| "book Stop_player l = Some l"

fun book_all :: "uxcall list \<Rightarrow> ledger \<Rightarrow> ledger option" where
  "book_all [] l = Some l"
| "book_all (c # cs) l = (case book c l of None \<Rightarrow> None | Some l' \<Rightarrow> book_all cs l')"

lemma book_all_append:
  "book_all (cs @ ds) l = (case book_all cs l of None \<Rightarrow> None | Some l' \<Rightarrow> book_all ds l')"
  by (induction cs arbitrary: l) (simp_all split: option.split)

definition ledger_of :: "receiver \<Rightarrow> ledger" where
  "ledger_of r = (set_option (m_raop r), set_option (m_dnssd r) \<union> set_option (m_retired_dnssd r), m_dnssd r)"

definition receiver_ok :: "receiver \<Rightarrow> bool" where
  "receiver_ok r = ((m_running r \<longleftrightarrow> m_raop r \<noteq> None) \<and> (m_running r \<longleftrightarrow> m_dnssd r \<noteq> None) \<and>
     (\<not> m_running r \<longrightarrow> m_retired_dnssd r = None) \<and> (m_dnssd r = m_retired_dnssd r \<longrightarrow> m_dnssd r = None) \<and>
     (\<forall>n \<in> set_option (m_raop r) \<union> set_option (m_dnssd r) \<union> set_option (m_retired_dnssd r). n < r_made r))"

lemma set_error_result:
  assumes "set_error e r = (r', calls)"
  shows "book_all calls l = Some l \<and> (\<exists>s. r' = r\<lparr>r_session := s\<rparr>)"
  using assms by (auto simp: set_error_def)

text \<open>
  How far the start has come: whether the two contexts are there, and whether the receiver reads
  its Bonjour context already.
\<close>

definition stage :: "bool \<Rightarrow> bool \<Rightarrow> bool \<Rightarrow> receiver \<Rightarrow> context_id option \<Rightarrow> bool" where
  "stage raop dnssd reads r u =
     (m_retired_dnssd r = None \<and> \<not> m_running r \<and> (m_raop r \<noteq> None) = raop \<and> (m_dnssd r \<noteq> None) = dnssd \<and>
      u = (if reads then m_dnssd r else None) \<and>
      (\<forall>n \<in> set_option (m_raop r) \<union> set_option (m_dnssd r). n < r_made r))"

definition partial_ledger :: "receiver \<Rightarrow> context_id option \<Rightarrow> ledger" where
  "partial_ledger r u = (set_option (m_raop r), set_option (m_dnssd r), u)"

text \<open>A step of the start: what holds before it, after it, and at its early return.\<close>

definition abandoned :: "receiver \<Rightarrow> context_id option \<Rightarrow> bool" where
  "abandoned r u = (\<exists>a d reads. stage a d reads r u \<and> (reads \<longrightarrow> a \<and> d))"

definition step_ok :: "(receiver \<Rightarrow> context_id option \<Rightarrow> bool) \<Rightarrow> (receiver \<times> 'w) attempt \<Rightarrow>
    (receiver \<Rightarrow> context_id option \<Rightarrow> bool) \<Rightarrow> bool" where
  "step_ok P a Q =
     (\<forall>r w u ok r' w' calls. P r u \<longrightarrow> a (r, w) = (ok, (r', w'), calls) \<longrightarrow>
        (\<exists>u'. book_all calls (partial_ledger r u) = Some (partial_ledger r' u') \<and>
           (if ok then Q r' u' else abandoned r' u')))"

lemma step_okI:
  assumes "\<And>r w u ok r' w' calls. P r u \<Longrightarrow> a (r, w) = (ok, (r', w'), calls) \<Longrightarrow>
    \<exists>u'. book_all calls (partial_ledger r u) = Some (partial_ledger r' u') \<and> (if ok then Q r' u' else abandoned r' u')"
  shows "step_ok P a Q"
  using assms unfolding step_ok_def by blast

lemma step_ok_Nil: "step_ok P (attempts []) P"
  by (rule step_okI) auto

lemma step_ok_Cons:
  assumes a: "step_ok P a Q" and as: "step_ok Q (attempts as) R"
  shows "step_ok P (attempts (a # as)) R"
proof (rule step_okI)
  fix r w u ok r' w' calls
  assume P: "P r u" and run: "attempts (a # as) (r, w) = (ok, (r', w'), calls)"
  obtain ok1 r1 w1 calls1 where 1: "a (r, w) = (ok1, (r1, w1), calls1)" by (metis prod.exhaust)
  obtain u1 where u1: "book_all calls1 (partial_ledger r u) = Some (partial_ledger r1 u1)"
      "if ok1 then Q r1 u1 else abandoned r1 u1"
    using a [unfolded step_ok_def] P 1 by blast
  show "\<exists>u'. book_all calls (partial_ledger r u) = Some (partial_ledger r' u') \<and> (if ok then R r' u' else abandoned r' u')"
  proof (cases ok1)
    case False
    then show ?thesis using run 1 u1 by auto
  next
    case True
    obtain ok2 r2 w2 calls2 where 2: "attempts as (r1, w1) = (ok2, (r2, w2), calls2)" by (metis prod.exhaust)
    have Q: "Q r1 u1" using u1(2) True by simp
    obtain u2 where u2: "book_all calls2 (partial_ledger r1 u1) = Some (partial_ledger r2 u2)"
        "if ok2 then R r2 u2 else abandoned r2 u2"
      using as [unfolded step_ok_def] Q 2 by blast
    from run True 1 2 have "ok = ok2" "r' = r2" "calls = calls1 @ calls2" by auto
    then show ?thesis using u1(1) u2 by (auto simp: book_all_append)
  qed
qed

lemma fail_with_ok: "stage a d reads r u \<Longrightarrow> (reads \<longrightarrow> a \<and> d) \<Longrightarrow> fail_with e (r, w) = (ok, (r', w'), calls) \<Longrightarrow>
    \<not> ok \<and> abandoned r' u \<and> book_all calls l = Some l \<and> partial_ledger r' v = partial_ledger r v"
proof -
  assume s: "stage a d reads r u" "reads \<longrightarrow> a \<and> d" and f: "fail_with e (r, w) = (ok, (r', w'), calls)"
  obtain r1 calls1 where e: "set_error e r = (r1, calls1)" by (metis prod.exhaust)
  from set_error_result [OF e, of l] obtain x where x: "book_all calls1 l = Some l" "r1 = r\<lparr>r_session := x\<rparr>" by blast
  have "stage a d reads r1 u" using s(1) by (simp add: x(2) stage_def)
  then show ?thesis using s(2) f e x by (auto simp: fail_with_def abandoned_def partial_ledger_def)
qed

lemma make_raop_ok: "step_ok (stage False False False) (make_raop X) (stage True False False)"
  by (rule step_okI) (auto simp: make_raop_def stage_def partial_ledger_def abandoned_def split: prod.splits bool.splits)

lemma configure_media_ok: "step_ok (stage True False False) (configure_media X) (stage True False False)"
  by (rule step_okI) (auto simp: configure_media_def Let_def stage_def partial_ledger_def)

lemma make_dnssd_ok: "step_ok (stage True False False) (make_dnssd X device_id name) (stage True True False)"
proof (rule step_okI)
  fix r w u ok r' w' calls
  assume s: "stage True False False r u" and e: "make_dnssd X device_id name (r, w) = (ok, (r', w'), calls)"
  then obtain n where n: "m_raop r = Some n" "m_dnssd r = None" "u = None" by (auto simp: stage_def)
  let ?r = "r\<lparr>m_server_name := service_name name (m_server_name r), m_hw_addr := device_address device_id\<rparr>"
  obtain made error v where x: "x_dnssd_init X w (m_server_name ?r) (m_hw_addr ?r) = ((made, error), v)" by (metis prod.exhaust)
  have "abandoned r' u" if "\<not> ok"
  proof (cases made)
    case False
    then have "stage True False False r' u" using s e x by (auto simp: make_dnssd_def Let_def stage_def)
    then show ?thesis unfolding abandoned_def by blast
  next
    case True
    then have "stage True True False r' u" using s e x by (auto simp: make_dnssd_def Let_def stage_def)
    then show ?thesis unfolding abandoned_def by blast
  qed
  moreover have "stage True True False r' u" if ok
    using s e x that by (auto simp: make_dnssd_def Let_def stage_def split: if_splits)
  moreover have "book_all calls (partial_ledger r u) = Some (partial_ledger r' u)"
    using n e x by (auto simp: make_dnssd_def Let_def partial_ledger_def apply_fast_connect_profile_def split: if_splits)
  ultimately show "\<exists>u'. book_all calls (partial_ledger r u) = Some (partial_ledger r' u') \<and>
      (if ok then stage True True False r' u' else abandoned r' u')" by auto
qed

lemma init_raop_ok: "step_ok (stage True True False) (init_raop X device_id wanted) (stage True True True)"
proof (rule step_okI)
  fix r w u ok r' w' calls
  assume s: "stage True True False r u" and e: "init_raop X device_id wanted (r, w) = (ok, (r', w'), calls)"
  then obtain n d where n: "m_raop r = Some n" "m_dnssd r = Some d" "u = None" by (auto simp: stage_def)
  obtain result v where x: "x_raop_init2 X w device_id = (result, v)" by (metis prod.exhaust)
  show "\<exists>u'. book_all calls (partial_ledger r u) = Some (partial_ledger r' u') \<and>
      (if ok then stage True True True r' u' else abandoned r' u')"
  proof (cases "result = 0")
    case True
    then have "ok" "r' = r" "calls = [Raop_set_port n wanted, Raop_set_dnssd n d]" using e x n by (auto simp: init_raop_def Let_def)
    then show ?thesis using s n by (auto simp: stage_def partial_ledger_def)
  next
    case False
    obtain ok1 r1 w1 calls1 where f: "fail_with (x_text X ''AirPlay.Error.SetupFailed'') (r, v) = (ok1, (r1, w1), calls1)"
      by (metis prod.exhaust)
    from fail_with_ok [OF s _ f] have f1: "\<not> ok1" "abandoned r1 u" "book_all calls1 l = Some l"
        "partial_ledger r1 u = partial_ledger r u" for l by auto
    have "ok = ok1" "r' = r1" "calls = Raop_set_port n wanted # calls1" using e x n False f by (auto simp: init_raop_def Let_def)
    then show ?thesis using f1 n by (auto simp: partial_ledger_def)
  qed
qed

lemma enable_hls_ok: "step_ok (stage True True True) (enable_hls X) (stage True True True)"
proof (rule step_okI)
  fix r w u ok r' w' calls
  assume s: "stage True True True r u" and e: "enable_hls X (r, w) = (ok, (r', w'), calls)"
  then obtain n d where n: "m_raop r = Some n" "m_dnssd r = Some d" by (auto simp: stage_def)
  obtain result v where x: "x_set_plist X w = (result, v)" by (metis prod.exhaust)
  show "\<exists>u'. book_all calls (partial_ledger r u) = Some (partial_ledger r' u') \<and>
      (if ok then stage True True True r' u' else abandoned r' u')"
  proof (cases "result = 0")
    case True
    then have "ok" "r' = r" "calls = [Dnssd_features d]" using e x n by (auto simp: enable_hls_def)
    then show ?thesis using s n by (auto simp: partial_ledger_def)
  next
    case False
    then have f: "fail_with (x_text X ''AirPlay.Error.SetupFailed'') (r, v) = (ok, (r', w'), calls)"
      using e x by (simp add: enable_hls_def)
    from fail_with_ok [OF s _ f] show ?thesis by auto
  qed
qed

lemma set_actual_port_ok:
  "stage True True True r u \<Longrightarrow> set_actual_port p (r, w) = (ok, (r', w'), calls) \<Longrightarrow>
     ok \<and> stage True True True r' u \<and> book_all calls (partial_ledger r u) = Some (partial_ledger r' u)"
  by (auto simp: set_actual_port_def stage_def partial_ledger_def)

lemma listen_ok: "step_ok (stage True True True) (listen X wanted) (stage True True True)"
proof (rule step_okI)
  fix r w u ok r' w' calls
  assume s: "stage True True True r u" and e: "listen X wanted (r, w) = (ok, (r', w'), calls)"
  obtain p v where 1: "listen_on X wanted w = (p, v)" by (metis prod.exhaust)
  obtain q v' where 2: "listen_on X kFallbackPort v = (q, v')" by (metis prod.exhaust)
  have "(\<exists>a v. set_actual_port a (r, v) = (ok, (r', w'), calls)) \<or> (\<exists>x v. fail_with x (r, v) = (ok, (r', w'), calls))"
    using e 1 2 by (auto simp: listen_def split: if_splits option.splits)
  then show "\<exists>u'. book_all calls (partial_ledger r u) = Some (partial_ledger r' u') \<and>
      (if ok then stage True True True r' u' else abandoned r' u')"
    using set_actual_port_ok [OF s] fail_with_ok [OF s] by (metis (full_types))
qed

lemma register_services_result:
  assumes "register_services X d (r, w) = ((r', w'), calls)"
  shows "(\<exists>x. r' = r\<lparr>r_session := x\<rparr>) \<and> (d \<in> D \<longrightarrow> book_all calls (R, D, u) = Some (R, D, u))"
proof -
  obtain e1 w1 where 1: "x_register_raop X w (m_actual_port r) = (e1, w1)" by (metis prod.exhaust)
  obtain e2 w2 where 2: "x_register_airplay X w1 (m_actual_port r) = (e2, w2)" by (metis prod.exhaust)
  obtain r1 calls1 where 3: "set_error (bonjour_error X e1 e2) r = (r1, calls1)" by (metis prod.exhaust)
  have "r' = r1" "calls = Dnssd_register d (m_actual_port r) # calls1"
    using assms by (auto simp: register_services_def 1 2 3)
  with set_error_result [OF 3, of "(R, D, u)"] show ?thesis by auto
qed

definition started :: "receiver \<Rightarrow> context_id option \<Rightarrow> bool" where
  "started r u = (receiver_ok r \<and> m_running r \<and> m_retired_dnssd r = None \<and> u = m_dnssd r)"

lemma announce_ok: "step_ok (stage True True True) (announce X) started"
proof (rule step_okI)
  fix r w u ok r' w' calls
  assume s: "stage True True True r u" and e: "announce X (r, w) = (ok, (r', w'), calls)"
  then obtain n d where n: "m_raop r = Some n" "m_dnssd r = Some d" "u = Some d" "m_retired_dnssd r = None"
      "n < r_made r" "d < r_made r" by (auto simp: stage_def)
  obtain r1 w1 calls1 where g: "register_services X d (r, w) = ((r1, w1), calls1)" by (metis prod.exhaust)
  from register_services_result [OF g, of "{d}" "{n}" u] obtain x where x: "r1 = r\<lparr>r_session := x\<rparr>"
      "book_all calls1 ({n}, {d}, u) = Some ({n}, {d}, u)" by blast
  have "ok" "r' = r1\<lparr>m_running := True\<rparr>" "calls = calls1" using e g n by (auto simp: announce_def)
  then show "\<exists>u'. book_all calls (partial_ledger r u) = Some (partial_ledger r' u') \<and>
      (if ok then started r' u' else abandoned r' u')"
    using x n by (auto simp: partial_ledger_def started_def receiver_ok_def)
qed

lemma start_steps_ok: "step_ok (stage False False False) (attempts (start_steps X device_id wanted name)) started"
  unfolding start_steps_def
  by (intro step_ok_Cons [OF make_raop_ok] step_ok_Cons [OF configure_media_ok] step_ok_Cons [OF make_dnssd_ok]
      step_ok_Cons [OF init_raop_ok] step_ok_Cons [OF enable_hls_ok] step_ok_Cons [OF listen_ok]
      step_ok_Cons [OF announce_ok] step_ok_Nil)

lemma release_ok:
  assumes "abandoned r u" and "release r = (r', calls)"
  shows "receiver_ok r' \<and> \<not> m_running r' \<and> book_all calls (partial_ledger r u) = Some ({}, {}, None)"
  using assms
  by (auto simp: abandoned_def stage_def release_def partial_ledger_def receiver_ok_def split: option.splits if_splits)

lemma restart_ok: "receiver_ok r \<Longrightarrow> receiver_ok (restart_clear_thread r) \<and> ledger_of (restart_clear_thread r) = ledger_of r \<and>
    m_running (restart_clear_thread r) = m_running r"
  by (auto simp: restart_clear_thread_def receiver_ok_def ledger_of_def)

lemma idle_ledger: "receiver_ok r \<Longrightarrow> \<not> m_running r \<Longrightarrow> ledger_of r = ({}, {}, None)"
  by (auto simp: receiver_ok_def ledger_of_def)

lemma start_ok:
  assumes "receiver_ok r" and "start_receiver X device_id wanted name (r, w) = (ok, (r', w'), calls)"
  shows "receiver_ok r' \<and> (ok \<longleftrightarrow> m_running r') \<and> book_all calls (ledger_of r) = Some (ledger_of r')"
proof (cases "m_running r")
  case True
  then show ?thesis using assms by (auto simp: start_receiver_def)
next
  case idle: False
  let ?r = "restart_clear_thread r"
  obtain result v where x: "x_net_init X w = (result, v)" by (metis prod.exhaust)
  have r: "receiver_ok ?r" "ledger_of ?r = ledger_of r" "\<not> m_running ?r" using restart_ok [OF assms(1)] idle by auto
  then have fresh: "stage False False False ?r None" "partial_ledger ?r None = ledger_of r"
    by (auto simp: receiver_ok_def stage_def partial_ledger_def ledger_of_def)
  show ?thesis
  proof (cases "result = 0")
    case False
    then show ?thesis using assms(2) idle x r by (auto simp: start_receiver_def)
  next
    case True
    obtain ok1 r1 w1 calls1 where a: "attempts (start_steps X device_id wanted name) (?r, v) = (ok1, (r1, w1), calls1)"
      by (metis prod.exhaust)
    obtain u where u: "book_all calls1 (ledger_of r) = Some (partial_ledger r1 u)" "if ok1 then started r1 u else abandoned r1 u"
      using start_steps_ok [unfolded step_ok_def, rule_format, OF fresh(1) a] fresh(2) by auto
    show ?thesis
    proof (cases ok1)
      case True
      then have "ok" "r' = r1" "calls = calls1" using assms(2) idle x \<open>result = 0\<close> a by (auto simp: start_receiver_def)
      then show ?thesis using u True by (auto simp: started_def partial_ledger_def ledger_of_def)
    next
      case False
      obtain r2 freed where f: "release r1 = (r2, freed)" by (metis prod.exhaust)
      have "\<not> ok" "r' = r2" "calls = calls1 @ freed"
        using assms(2) idle x \<open>result = 0\<close> a False f by (auto simp: start_receiver_def)
      moreover have "ledger_of r2 = ({}, {}, None)"
        using release_ok [OF _ f] u False by (auto intro: idle_ledger)
      ultimately show ?thesis using release_ok [OF _ f] u False by (auto simp: book_all_append)
    qed
  qed
qed

lemma stop_ok:
  assumes "receiver_ok r" and "stop_receiver r = (r', calls)"
  shows "receiver_ok r' \<and> \<not> m_running r' \<and> book_all calls (ledger_of r) = Some (ledger_of r')"
  using assms
  by (auto simp: stop_receiver_def stop_calls_def receiver_ok_def ledger_of_def split: if_splits option.splits)

lemma policy_ok:
  assumes "receiver_ok r" and "setVideoPolicy a b r = (r', calls)"
  shows "receiver_ok r' \<and> book_all calls (ledger_of r) = Some (ledger_of r')"
  using assms by (auto simp: setVideoPolicy_def receiver_ok_def ledger_of_def split: option.splits)

lemma swap_ok:
  assumes "receiver_ok r" and "m_running r" and "swap_dnssd X name new (r\<lparr>r_made := new + 1\<rparr>, w) = ((r', w'), calls)"
    and "new = r_made r"
  shows "receiver_ok r' \<and> m_running r' \<and> m_server_name r' = name \<and> m_dnssd r' = Some new \<and> m_retired_dnssd r' = m_dnssd r \<and>
    book_all (Dnssd_init new name # calls) (ledger_of r) = Some (ledger_of r')"
proof -
  obtain n d where n: "m_raop r = Some n" "m_dnssd r = Some d" "n < new" "d < new"
    using assms(1,2,4) by (auto simp: receiver_ok_def)
  have retired: "\<forall>x \<in> set_option (m_retired_dnssd r). x < new \<and> x \<noteq> d"
    using assms(1,4) n by (auto simp: receiver_ok_def)
  let ?r = "r\<lparr>r_made := new + 1, m_retired_dnssd := m_dnssd r, m_dnssd := Some new, m_server_name := name\<rparr>"
  obtain r1 w1 calls1 where g: "register_services X new (?r, w) = ((r1, w1), calls1)" by (metis prod.exhaust)
  from register_services_result [OF g, of "{new, d}" "{n}" "Some new"] obtain x where x: "r1 = ?r\<lparr>r_session := x\<rparr>"
      "book_all calls1 ({n}, {new, d}, Some new) = Some ({n}, {new, d}, Some new)" by blast
  have r': "r' = r1" and calls: "calls = apply_fast_connect_profile X new @ [Raop_set_dnssd n new] @ [Dnssd_unregister d] @
      (case m_retired_dnssd r of None \<Rightarrow> [] | Some y \<Rightarrow> [Dnssd_destroy y]) @ calls1"
    using assms(3) g n by (auto simp: swap_dnssd_def)
  have "receiver_ok r1" using assms(1,2) n x(1) by (auto simp: receiver_ok_def)
  moreover have "ledger_of r1 = ({n}, {new, d}, Some new)" using n x(1) by (auto simp: ledger_of_def)
  moreover have "insert new (insert d {y}) - {y} = {new, d}" if "y < new" "y \<noteq> d" for y using that by auto
  ultimately show ?thesis
    using retired n x calls r' assms(2)
    by (cases "m_retired_dnssd r") (auto simp: ledger_of_def apply_fast_connect_profile_def book_all_append insert_commute)
qed

lemma rename_failed:
  assumes "receiver_ok r" and "m_running r" and "x_dnssd_init X w (if name = [] then ''OBS AirPlay'' else name) (m_hw_addr r) = ((made, error), v)"
    and "\<not> made \<or> error \<noteq> 0" and "updateServerName X name (r, w) = (ok, (r', w'), calls)"
  shows "\<not> ok \<and> receiver_ok r' \<and> book_all calls (ledger_of r) = Some (ledger_of r') \<and> m_dnssd r' = m_dnssd r \<and>
    m_server_name r' = m_server_name r \<and> m_running r' \<and> m_last_error (r_session r') = x_format X ''AirPlay.Error.RenameFailed'' error"
proof -
  let ?r = "if made then r\<lparr>r_made := r_made r + 1\<rparr> else r"
  obtain r1 calls1 where e: "set_error (x_format X ''AirPlay.Error.RenameFailed'' error) ?r = (r1, calls1)" by (metis prod.exhaust)
  have raop: "m_raop r \<noteq> None" using assms(1,2) by (simp add: receiver_ok_def)
  have ok: "\<not> ok" and r': "r' = r1" and calls: "calls = (if made then
      [Dnssd_init (r_made r) (if name = [] then ''OBS AirPlay'' else name), Dnssd_destroy (r_made r)] else []) @ calls1"
    using assms(2,4,5) raop by (auto simp: updateServerName_def assms(3) fail_with_def e Let_def)
  from set_error_result [OF e, of "ledger_of r"] obtain x where x: "book_all calls1 (ledger_of r) = Some (ledger_of r)"
      "r1 = ?r\<lparr>r_session := x\<rparr>" by blast
  have "m_last_error (r_session r1) = x_format X ''AirPlay.Error.RenameFailed'' error"
    using e by (auto simp: set_error_def setLastError_def changed_callback_def assign_def)
  moreover have "receiver_ok r1" using assms(1) x(2) by (auto simp: receiver_ok_def)
  moreover have "r_made r \<notin> set_option (m_dnssd r) \<union> set_option (m_retired_dnssd r)"
    using assms(1) by (auto simp: receiver_ok_def)
  ultimately show ?thesis
    using ok r' calls x assms(2) by (auto simp: ledger_of_def book_all_append)
qed

lemma rename_ok:
  assumes "receiver_ok r" and "updateServerName X name (r, w) = (ok, (r', w'), calls)"
  shows "receiver_ok r' \<and> book_all calls (ledger_of r) = Some (ledger_of r')"
proof (cases "m_running r")
  case False
  then have "r' = r\<lparr>m_server_name := if name = [] then ''OBS AirPlay'' else name\<rparr>" "calls = []"
    using assms by (auto simp: updateServerName_def receiver_ok_def)
  then show ?thesis using assms(1) by (auto simp: receiver_ok_def ledger_of_def)
next
  case True
  let ?name = "if name = [] then ''OBS AirPlay'' else name"
  obtain made error v where x: "x_dnssd_init X w ?name (m_hw_addr r) = ((made, error), v)" by (metis prod.exhaust)
  show ?thesis
  proof (cases "\<not> made \<or> error \<noteq> 0")
    case True
    from rename_failed [OF assms(1) \<open>m_running r\<close> x this assms(2)] show ?thesis by simp
  next
    case False
    obtain r1 w1 calls1 where s: "swap_dnssd X ?name (r_made r) (r\<lparr>r_made := r_made r + 1\<rparr>, v) = ((r1, w1), calls1)"
      by (metis prod.exhaust)
    have "m_raop r \<noteq> None" using assms(1) True by (simp add: receiver_ok_def)
    then have "r' = r1" "calls = Dnssd_init (r_made r) ?name # calls1"
      using assms(2) True False x s by (auto simp: updateServerName_def Let_def)
    with swap_ok [OF assms(1) True s] show ?thesis by simp
  qed
qed

section \<open>The lifecycle as a machine\<close>

datatype lifecycle_event = Start string int string | Rename string | Policy bool bool | Stop

fun lifecycle_step :: "'w uxlib \<Rightarrow> receiver \<times> 'w \<Rightarrow> lifecycle_event \<Rightarrow> (receiver \<times> 'w) \<times> uxcall list" where
  "lifecycle_step X rw (Start device_id wanted name) = (case start_receiver X device_id wanted name rw of (ok, rw', calls) \<Rightarrow> (rw', calls))"
| "lifecycle_step X rw (Rename name) = (case updateServerName X name rw of (ok, rw', calls) \<Rightarrow> (rw', calls))"
| "lifecycle_step X (r, w) (Policy a b) = (case setVideoPolicy a b r of (r', calls) \<Rightarrow> ((r', w), calls))"
| "lifecycle_step X (r, w) Stop = (case stop_receiver r of (r', calls) \<Rightarrow> ((r', w), calls))"

text \<open>A machine whose answers keep a ledger: what a state owns is what its answers add up to.\<close>

locale booked_machine = machine +
  fixes owned :: "'a \<Rightarrow> 'l"
    and account :: "'c \<Rightarrow> 'l \<Rightarrow> 'l option"
  assumes step_account:
    "inv s \<Longrightarrow> admissible e \<Longrightarrow> account (snd (step s e)) (owned s) = Some (owned (fst (step s e)))"
begin

lemma run_account:
  "inv s \<Longrightarrow> list_all admissible es \<Longrightarrow>
     fold (\<lambda>out l. Option.bind l (account out)) (snd (run step s es)) (Some (owned s)) = Some (owned (fst (run step s es)))"
proof (induction es arbitrary: s)
  case Nil
  then show ?case by simp
next
  case (Cons e es)
  then show ?case using step_account [of s e] step_inv [of s e] by (simp add: split_beta)
qed

end

lemma lifecycle_step_ok:
  assumes "receiver_ok r" and "lifecycle_step X (r, w) e = ((r', w'), calls)"
  shows "receiver_ok r' \<and> book_all calls (ledger_of r) = Some (ledger_of r')"
proof (cases e)
  case (Start device_id wanted name)
  then show ?thesis using assms start_ok [OF assms(1), of X device_id wanted name w] by (auto split: prod.splits)
next
  case (Rename name)
  then show ?thesis using assms rename_ok [OF assms(1), of X name w] by (auto split: prod.splits)
next
  case (Policy a b)
  then show ?thesis using assms policy_ok [OF assms(1), of a b] by (auto split: prod.splits)
next
  case Stop
  then show ?thesis using assms stop_ok [OF assms(1)] by (auto split: prod.splits)
qed

interpretation lifecycle: booked_machine "lifecycle_step X" "\<lambda>e. True" "\<lambda>rw. receiver_ok (fst rw)"
    "\<lambda>rw. ledger_of (fst rw)" book_all
proof (unfold_locales, goal_cases)
  case (1 rw e)
  obtain r w where rw: "rw = (r, w)" by (cases rw)
  obtain r' w' calls where s: "lifecycle_step X (r, w) e = ((r', w'), calls)" by (metis prod.exhaust)
  show ?case using lifecycle_step_ok [OF _ s] 1 by (simp add: rw s)
next
  case (2 rw e)
  obtain r w where rw: "rw = (r, w)" by (cases rw)
  obtain r' w' calls where s: "lifecycle_step X (r, w) e = ((r', w'), calls)" by (metis prod.exhaust)
  show ?case using lifecycle_step_ok [OF _ s] 2 by (simp add: rw s)
qed

lemma book_all_concat:
  "fold (\<lambda>out l. Option.bind l (book_all out)) outs (Some l) = book_all (concat outs) l"
proof (induction outs arbitrary: l)
  case Nil
  then show ?case by simp
next
  case (Cons out outs)
  have none: "fold (\<lambda>out l. Option.bind l (book_all out)) outs None = None" by (induction outs) simp_all
  show ?case by (cases "book_all out l") (simp_all add: Cons none book_all_append)
qed

lemma receiver_new_ok: "receiver_ok (receiver_new s g)"
  by (simp add: receiver_new_def receiver_ok_def)

text \<open>
  C11. Through any starts, renames, policy changes and stops, failing ones included: UxPlay's contexts
  are used only while they are allocated, freed once, never freed while the receiver reads them, and
  exactly those the object still points to stay allocated (none when the receiver does not run).
\<close>

theorem contexts_are_accounted_for:
  assumes "run (lifecycle_step X) (receiver_new s g, w) es = ((r, w'), outs)"
  shows "book_all (concat outs) ({}, {}, None) = Some (ledger_of r) \<and>
    (\<not> m_running r \<longrightarrow> ledger_of r = ({}, {}, None)) \<and> (m_running r \<longleftrightarrow> m_raop r \<noteq> None)"
proof -
  have ok: "receiver_ok r"
    using lifecycle.run_inv [of "(receiver_new s g, w)" es X] assms receiver_new_ok by (simp add: list_all_iff)
  have "book_all (concat outs) (ledger_of (receiver_new s g)) = Some (ledger_of r)"
    using lifecycle.run_account [of "(receiver_new s g, w)" es X] assms receiver_new_ok
    by (simp add: list_all_iff book_all_concat)
  then show ?thesis using ok idle_ledger [OF ok] by (simp add: receiver_new_def ledger_of_def receiver_ok_def)
qed

text \<open>A library that works, except that the default port is taken.\<close>

definition witness_uxlib :: "nat uxlib" where
  "witness_uxlib = \<lparr>x_net_init = (\<lambda>w. (0, w)), x_raop_init = (\<lambda>w. (True, w)), x_raop_init2 = (\<lambda>w d. (0, w)),
     x_set_plist = (\<lambda>w. (0, w)), x_start_httpd = (\<lambda>w p. ((if p = 7000 then -1 else 0, p), w)),
     x_dnssd_init = (\<lambda>w name addr. ((True, if name = ''bad'' then 1 else 0), w)), x_register_raop = (\<lambda>w p. (0, w)),
     x_register_airplay = (\<lambda>w p. (0, w)), x_getenv = (\<lambda>v. None), x_flag_file = (\<lambda>f. False), x_text = (\<lambda>k. k),
     x_format = (\<lambda>k n. k), x_fast_connect = True\<rparr>"

theorem contexts_are_accounted_for_witness:
  "book_all (concat (snd (run (lifecycle_step witness_uxlib) (receiver_new airplay_session_new policy_initial, 0)
     [Start ''AA:BB:CC:DD:EE:FF'' 7000 ''x'', Rename ''bad'', Rename ''y'', Rename ''z'', Stop]))) ({}, {}, None) =
   Some ({}, {}, None)"
proof -
  obtain r w' outs where r: "run (lifecycle_step witness_uxlib) (receiver_new airplay_session_new policy_initial, 0)
     [Start ''AA:BB:CC:DD:EE:FF'' 7000 ''x'', Rename ''bad'', Rename ''y'', Rename ''z'', Stop] = ((r, w'), outs)"
    by (metis prod.exhaust)
  then have "\<not> m_running r" by (auto simp: stop_receiver_def split: prod.splits if_splits)
  with contexts_are_accounted_for [OF r] show ?thesis unfolding r by simp
qed

text \<open>
  The doc of \<open>lastError\<close> promises the reason of a failed start; one whose \<open>raop_init\<close> fails leaves the
  message as it was.
\<close>

lemma silent_start_failure:
  assumes "\<not> m_running r" and "x_net_init X w = (0, w1)" and "x_raop_init X w1 = (False, w2)"
    and "start_receiver X device_id wanted name (r, w) = (ok, (r', w'), calls)"
  shows "\<not> ok \<and> m_last_error (r_session r') = m_last_error (r_session r)"
  using assms by (auto simp: start_receiver_def start_steps_def make_raop_def release_def restart_clear_thread_def)

end
