(* ===== verification/Resilient_Io.thy ===== *)
theory Resilient_Io
  imports Prelude Av_Errors
begin

text \<open>
  \<^verbatim>\<open>src/media-player.cpp\<close>, class \<open>ResilientHttpIo\<close>: the input of progressive HTTP media, which goes on
  with a fresh request at the exact byte when a response stops short of the file's size. The
  responses come from FFmpeg's HTTP input (opened by \<open>media_fetch::Session\<close>), the record \<open>io_lib\<close>
  on a world \<open>'w\<close>: opening a URL at an offset gives a result and the URL the redirects led to.
  Positions and sizes (\<open>int64_t\<close>, far below the limit) are integers.
\<close>

section \<open>The input\<close>

record 'w io_lib =
  i_open :: "'w \<Rightarrow> string \<Rightarrow> int \<Rightarrow> (int \<times> string) \<times> 'w"
  i_size :: "'w \<Rightarrow> int"
  i_read :: "'w \<Rightarrow> int \<Rightarrow> (int + bytes) \<times> 'w"
  i_interrupted :: "'w \<Rightarrow> bool \<times> 'w"
  i_sleep :: "'w \<Rightarrow> 'w"
  i_close :: "'w \<Rightarrow> 'w"
  i_alloc :: "'w \<Rightarrow> bool \<times> 'w"

definition kMaxAttempts :: nat where "kMaxAttempts = 5"
definition kForwardSkipBytes :: int where "kForwardSkipBytes = 256 * 1024"

text \<open>\<open>m_inner\<close> and \<open>m_context\<close> are whether those are there.\<close>

record http_io =
  m_url :: string
  m_inner :: bool
  m_context :: bool
  m_position :: int
  m_size :: int
  m_reopens :: int
  m_refused :: bool

definition io_new :: "string \<Rightarrow> http_io" where
  "io_new url = \<lparr>m_url = url, m_inner = False, m_context = False, m_position = 0, m_size = -1, m_reopens = 0,
     m_refused = False\<rparr>"

text \<open>Waits in steps of 10 ms; false when interrupted.\<close>

fun wait_steps :: "'w io_lib \<Rightarrow> nat \<Rightarrow> 'w \<Rightarrow> bool \<times> 'w" where
  "wait_steps E 0 w = (case i_interrupted E w of (stop, w') \<Rightarrow> (\<not> stop, w'))"
| "wait_steps E (Suc n) w =
     (case i_interrupted E w of
        (True, w') \<Rightarrow> (False, w')
      | (False, w') \<Rightarrow> wait_steps E n (i_sleep E w'))"

definition backOff :: "'w io_lib \<Rightarrow> nat \<Rightarrow> 'w \<Rightarrow> bool \<times> 'w" where
  "backOff E attempt w = wait_steps E (5 * (attempt + 1)) w"

datatype reopen_result = Opened | Failed | Refused

definition close_inner :: "'w io_lib \<Rightarrow> http_io \<times> 'w \<Rightarrow> http_io \<times> 'w" where
  "close_inner E sw = (if m_inner (fst sw) then ((fst sw)\<lparr>m_inner := False\<rparr>, i_close E (snd sw)) else sw)"

definition reopen :: "'w io_lib \<Rightarrow> int \<Rightarrow> http_io \<times> 'w \<Rightarrow> reopen_result \<times> (http_io \<times> 'w)" where
  "reopen E offset sw =
     (case close_inner E sw of
        (s, w) \<Rightarrow>
          (case i_open E w (m_url s) offset of
             ((result, final_url), w') \<Rightarrow>
               if result < 0 then (if result = AVERROR_EPERM then Refused else Failed, (s, w'))
               else (Opened,
                 (s\<lparr>m_inner := True, m_url := (if final_url \<noteq> [] then final_url else m_url s),
                    m_size := (if m_size s \<le> 0 then (if i_size E w' > 0 then i_size E w' else -1) else m_size s),
                    m_position := offset\<rparr>, w'))))"

definition open_io :: "'w io_lib \<Rightarrow> http_io \<times> 'w \<Rightarrow> bool \<times> (http_io \<times> 'w)" where
  "open_io E sw =
     (case reopen E 0 sw of
        (opened, (s0, w)) \<Rightarrow>
          (let s = s0\<lparr>m_refused := (opened = Refused)\<rparr>
           in if opened \<noteq> Opened \<or> m_size s \<le> 0 then (False, (s, w))
              else (case i_alloc E w of
                      (False, w') \<Rightarrow> (False, (s, w'))
                    | (True, w') \<Rightarrow> (True, (s\<lparr>m_context := True, m_reopens := 0\<rparr>, w')))))"

section \<open>read\<close>

text \<open>
  What \<open>avio_read_partial\<close> gives: bytes, or a number that is zero or an error. The loop counts the
  attempts that are left; \<open>short\<close> is what the latest short read gave.
\<close>

definition take_bytes :: "'w io_lib \<Rightarrow> int \<Rightarrow> http_io \<times> 'w \<Rightarrow> int \<Rightarrow> (int + bytes) \<times> (http_io \<times> 'w)" where
  "take_bytes E wanted sw short =
     (if \<not> m_inner (fst sw) then (Inl short, sw)
      else (case i_read E (snd sw) wanted of
              (Inr bs, w') \<Rightarrow>
                if bs = [] then (Inl AVERROR_EOF, (fst sw, w'))
                else (Inr bs, ((fst sw)\<lparr>m_position := m_position (fst sw) + int (length bs)\<rparr>, w'))
            | (Inl got, w') \<Rightarrow> (Inl (if got < 0 then got else AVERROR_EOF), (fst sw, w'))))"

fun read_attempts :: "'w io_lib \<Rightarrow> int \<Rightarrow> nat \<Rightarrow> int \<Rightarrow> http_io \<times> 'w \<Rightarrow> (int + bytes) \<times> (http_io \<times> 'w)" where
  "read_attempts E wanted 0 short sw = (Inl (if short = AVERROR_EOF then AVERROR_EIO else short), sw)"
| "read_attempts E wanted (Suc left) short (s, w) =
     (case i_interrupted E w of
        (True, w1) \<Rightarrow> (Inl AVERROR_EXIT, (s, w1))
      | (False, w1) \<Rightarrow>
          (case take_bytes E wanted (s, w1) short of
             (Inr bs, sw2) \<Rightarrow> (Inr bs, sw2)
           | (Inl short', (s2, w2)) \<Rightarrow>
               if m_size s2 \<le> 0 \<or> m_position s2 \<ge> m_size s2 then (Inl short', (s2, w2))
               else
                 (case reopen E (m_position s2) (s2\<lparr>m_reopens := m_reopens s2 + 1\<rparr>, w2) of
                    (Refused, sw3) \<Rightarrow> (Inl AVERROR_EPERM, sw3)
                  | (Opened, sw3) \<Rightarrow> read_attempts E wanted left short' sw3
                  | (Failed, (s3, w3)) \<Rightarrow>
                      (case backOff E (kMaxAttempts - Suc left) w3 of
                         (False, w4) \<Rightarrow> (Inl AVERROR_EXIT, (s3, w4))
                       | (True, w4) \<Rightarrow> read_attempts E wanted left short' (s3, w4)))))"

definition read_io :: "'w io_lib \<Rightarrow> int \<Rightarrow> http_io \<times> 'w \<Rightarrow> (int + bytes) \<times> (http_io \<times> 'w)" where
  "read_io E wanted sw =
     (if m_size (fst sw) > 0 \<and> m_position (fst sw) \<ge> m_size (fst sw) then (Inl AVERROR_EOF, sw)
      else read_attempts E wanted kMaxAttempts AVERROR_EOF sw)"

text \<open>A read that gives bytes moves the position by as many; others leave it.\<close>

lemma close_inner_position: "m_position (fst (close_inner E sw)) = m_position (fst sw)"
    "m_size (fst (close_inner E sw)) = m_size (fst sw)" "m_url (fst (close_inner E sw)) = m_url (fst sw)"
    "\<not> m_inner (fst (close_inner E sw))" "m_reopens (fst (close_inner E sw)) = m_reopens (fst sw)"
  by (simp_all add: close_inner_def)

lemma reopen_cases:
  assumes "reopen E offset (s, w) = (r, (s', w'))"
  obtains (opened) w0 result final_url where "r = Opened" "m_inner s'" "m_position s' = offset"
      "i_open E w0 (m_url s) offset = ((result, final_url), w')" "0 \<le> result"
      "m_size s > 0 \<Longrightarrow> m_size s' = m_size s" "m_reopens s' = m_reopens s"
    | (failed) "r \<noteq> Opened" "\<not> m_inner s'" "m_position s' = m_position s" "m_size s' = m_size s"
proof -
  obtain s0 w0 where c: "close_inner E (s, w) = (s0, w0)" by (metis prod.exhaust)
  from close_inner_position [of E "(s, w)"] c have s0: "m_position s0 = m_position s" "m_size s0 = m_size s"
      "m_url s0 = m_url s" "\<not> m_inner s0" "m_reopens s0 = m_reopens s" by simp_all
  obtain result final_url w1 where o: "i_open E w0 (m_url s) offset = ((result, final_url), w1)" by (metis prod.exhaust)
  show thesis
  proof (cases "result < 0")
    case True
    then show ?thesis using assms c o s0 failed by (auto simp: reopen_def split: if_splits)
  next
    case False
    then have "r = Opened" "m_inner s'" "m_position s' = offset" "w' = w1" "m_size s > 0 \<Longrightarrow> m_size s' = m_size s"
        "m_reopens s' = m_reopens s"
      using assms c o s0 by (auto simp: reopen_def)
    with False o show ?thesis by (intro opened [of w0 result final_url]) simp_all
  qed
qed

lemma reopen_at_position:
  assumes "reopen E (m_position s) (s, w) = (r, (s', w'))"
  shows "m_position s' = m_position s \<and> (m_size s > 0 \<longrightarrow> m_size s' = m_size s)"
  using assms by (cases rule: reopen_cases) auto

definition got_length :: "int + bytes \<Rightarrow> int" where
  "got_length r = (case r of Inr bs \<Rightarrow> int (length bs) | Inl e \<Rightarrow> 0)"

lemma got_length_simps [simp]: "got_length (Inr bs) = int (length bs)" "got_length (Inl e) = 0"
  by (simp_all add: got_length_def)

lemma read_attempts_position:
  "read_attempts E wanted n short (s, w) = (r, (s', w')) \<Longrightarrow>
     (m_size s > 0 \<longrightarrow> m_size s' = m_size s) \<and> m_position s' = m_position s + got_length r \<and> r \<noteq> Inr []"
proof (induction n arbitrary: s w short)
  case 0
  then show ?case by auto
next
  case (Suc n)
  obtain stop w1 where i: "i_interrupted E w = (stop, w1)" by (metis prod.exhaust)
  show ?case
  proof (cases stop)
    case True
    then show ?thesis using Suc.prems i by auto
  next
    case go: False
    obtain got s2 w2 where t: "take_bytes E wanted (s, w1) short = (got, (s2, w2))" by (metis prod.exhaust)
    have s2: "m_size s2 = m_size s" "m_position s2 = m_position s + got_length got" "got \<noteq> Inr []"
      using t by (auto simp: take_bytes_def split: if_splits sum.splits prod.splits)
    show ?thesis
    proof (cases got)
      case (Inr bs)
      then show ?thesis using Suc.prems go i t s2 by auto
    next
      case (Inl e)
      show ?thesis
      proof (cases "m_size s2 \<le> 0 \<or> m_position s2 \<ge> m_size s2")
        case True
        then show ?thesis using Suc.prems go i t s2 Inl by auto
      next
        case False
        let ?s2 = "s2\<lparr>m_reopens := m_reopens s2 + 1\<rparr>"
        obtain o3 s3 w3 where o: "reopen E (m_position s2) (?s2, w2) = (o3, (s3, w3))" by (metis prod.exhaust)
        from reopen_at_position [of E ?s2 w2] o s2 Inl
        have s3: "m_position s3 = m_position s" "m_size s > 0 \<longrightarrow> m_size s3 = m_size s" by simp_all
        show ?thesis
        proof (cases o3)
          case Opened
          then have "read_attempts E wanted n e (s3, w3) = (r, (s', w'))"
            using Suc.prems go i t s2 Inl False o by simp
          from Suc.IH [OF this] s3 show ?thesis by auto
        next
          case Refused
          then show ?thesis using Suc.prems go i t s2 Inl False o s3 by auto
        next
          case Failed
          obtain ok w4 where b: "backOff E (kMaxAttempts - Suc n) w3 = (ok, w4)" by (metis prod.exhaust)
          show ?thesis
          proof (cases ok)
            case True
            then have "read_attempts E wanted n e (s3, w4) = (r, (s', w'))"
              using Suc.prems go i t s2 Inl False o Failed b by simp
            from Suc.IH [OF this] s3 show ?thesis by auto
          next
            case False
            then show ?thesis using Suc.prems go i t s2 Inl \<open>\<not> (m_size s2 \<le> 0 \<or> m_position s2 \<ge> m_size s2)\<close> o Failed b s3 by auto
          qed
        qed
      qed
    qed
  qed
qed

lemma read_io_position:
  assumes "read_io E wanted (s, w) = (r, (s', w'))"
  shows "(m_size s > 0 \<longrightarrow> m_size s' = m_size s) \<and> m_position s' = m_position s + got_length r \<and> r \<noteq> Inr []"
  using assms read_attempts_position [of E wanted kMaxAttempts AVERROR_EOF s w r s' w']
  by (auto simp: read_io_def split: if_splits)

section \<open>seek\<close>

datatype whence = AVSEEK_SIZE | SEEK_SET | SEEK_CUR | SEEK_END | SEEK_OTHER int

text \<open>Reads through the current response up to the target, in chunks.\<close>

function skip_to :: "'w io_lib \<Rightarrow> int \<Rightarrow> http_io \<times> 'w \<Rightarrow> http_io \<times> 'w" where
  "skip_to E target (s, w) =
     (if m_position s < target then
        (case read_io E (min 16384 (target - m_position s)) (s, w) of
           (Inl e, sw') \<Rightarrow> sw'
         | (Inr bs, sw') \<Rightarrow> skip_to E target sw')
      else (s, w))"
  by pat_completeness auto
termination
proof (relation "measure (\<lambda>(E, target, (s, w)). nat (target - m_position s))", goal_cases)
  case 1
  then show ?case by simp
next
  case (2 E target s w r sw' bs)
  obtain s' w' where sw': "sw' = (s', w')" by (cases sw')
  from read_io_position [of E "min 16384 (target - m_position s)" s w "Inr bs" s' w'] 2 sw'
  have "m_position s' = m_position s + int (length bs)" "bs \<noteq> []" by auto
  then show ?case using 2 sw' by (cases bs) auto
qed

declare skip_to.simps [simp del]

fun seek_attempts :: "'w io_lib \<Rightarrow> int \<Rightarrow> nat \<Rightarrow> http_io \<times> 'w \<Rightarrow> int \<times> (http_io \<times> 'w)" where
  "seek_attempts E target 0 sw = (AVERROR_EIO, sw)"
| "seek_attempts E target (Suc left) (s, w) =
     (case i_interrupted E w of
        (True, w1) \<Rightarrow> (AVERROR_EXIT, (s, w1))
      | (False, w1) \<Rightarrow>
          (case reopen E target (s, w1) of
             (Opened, sw2) \<Rightarrow> (target, sw2)
           | (Refused, sw2) \<Rightarrow> (AVERROR_EPERM, sw2)
           | (Failed, (s2, w2)) \<Rightarrow>
               (case backOff E (kMaxAttempts - Suc left) w2 of
                  (False, w3) \<Rightarrow> (AVERROR_EXIT, (s2, w3))
                | (True, w3) \<Rightarrow> seek_attempts E target left (s2, w3))))"

definition seek_target :: "http_io \<Rightarrow> int \<Rightarrow> whence \<Rightarrow> int" where
  "seek_target s offset wh =
     (case wh of
        SEEK_SET \<Rightarrow> offset
      | SEEK_CUR \<Rightarrow> m_position s + offset
      | SEEK_END \<Rightarrow> if m_size s > 0 then m_size s + offset else -1
      | _ \<Rightarrow> -1)"

text \<open>A seek that the current response cannot serve: to the end, or with a fresh request.\<close>

definition seek_far :: "'w io_lib \<Rightarrow> int \<Rightarrow> http_io \<times> 'w \<Rightarrow> int \<times> (http_io \<times> 'w)" where
  "seek_far E target sw =
     (if target \<ge> m_size (fst sw) \<and> m_size (fst sw) > 0
      then (case close_inner E sw of (s, w) \<Rightarrow> (target, (s\<lparr>m_position := target\<rparr>, w)))
      else seek_attempts E target kMaxAttempts sw)"

definition seek_io :: "'w io_lib \<Rightarrow> int \<Rightarrow> whence \<Rightarrow> http_io \<times> 'w \<Rightarrow> int \<times> (http_io \<times> 'w)" where
  "seek_io E offset wh sw =
     (if wh = AVSEEK_SIZE then (if m_size (fst sw) > 0 then m_size (fst sw) else AVERROR_ENOSYS, sw)
      else
        (let s = fst sw; target = seek_target s offset wh
         in if target < 0 then (AVERROR_EINVAL, sw)
            else if target = m_position s \<and> m_inner s then (target, sw)
            else if m_inner s \<and> target > m_position s \<and> target - m_position s \<le> kForwardSkipBytes then
              (case skip_to E target sw of
                 sw' \<Rightarrow> if m_position (fst sw') = target then (target, sw') else seek_far E target sw')
            else seek_far E target sw))"

section \<open>What the input promises\<close>

text \<open>
  What the code relies on of FFmpeg's HTTP input when it is opened on one \<open>file\<close>; \<open>cursor\<close> is the
  place in the file the open response stands at. An open at an offset starts there, a read gives
  bytes of the file from the cursor on and moves it past them, a read that gives nothing leaves it,
  and the size that is reported (when one is) is the whole file's.
\<close>

definition piece :: "bytes \<Rightarrow> int \<Rightarrow> bytes \<Rightarrow> bool" where
  "piece file p bs \<longleftrightarrow> bs = take (length bs) (drop (nat p) file)"

definition serves :: "bytes \<Rightarrow> ('w \<Rightarrow> int) \<Rightarrow> 'w io_lib \<Rightarrow> bool" where
  "serves file cursor E \<longleftrightarrow>
     (\<forall>w url offset result final_url w'.
        i_open E w url offset = ((result, final_url), w') \<and> 0 \<le> result \<longrightarrow> cursor w' = offset) \<and>
     (\<forall>w wanted bs w'. i_read E w wanted = (Inr bs, w') \<longrightarrow>
        piece file (cursor w) bs \<and> int (length bs) \<le> max 0 wanted \<and>
        cursor w' = cursor w + int (length bs)) \<and>
     (\<forall>w wanted e w'. i_read E w wanted = (Inl e, w') \<longrightarrow> cursor w' = cursor w) \<and>
     (\<forall>w. i_size E w \<le> 0 \<or> i_size E w = int (length file)) \<and>
     (\<forall>w. cursor (snd (i_interrupted E w)) = cursor w) \<and> (\<forall>w. cursor (i_sleep E w) = cursor w) \<and>
     (\<forall>w. cursor (snd (i_alloc E w)) = cursor w)"

lemma servesD:
  assumes "serves file cursor E"
  shows "i_open E w url offset = ((result, final_url), w') \<Longrightarrow> 0 \<le> result \<Longrightarrow> cursor w' = offset"
    "i_read E w wanted = (Inr bs, w') \<Longrightarrow> piece file (cursor w) bs"
    "i_read E w wanted = (Inr bs, w') \<Longrightarrow> int (length bs) \<le> max 0 wanted"
    "i_read E w wanted = (Inr bs, w') \<Longrightarrow> cursor w' = cursor w + int (length bs)"
    "i_read E w wanted = (Inl e, w') \<Longrightarrow> cursor w' = cursor w"
    "i_size E w \<le> 0 \<or> i_size E w = int (length file)"
    "i_interrupted E w = (b, w') \<Longrightarrow> cursor w' = cursor w"
    "cursor (i_sleep E w) = cursor w"
    "i_alloc E w = (b, w') \<Longrightarrow> cursor w' = cursor w"
  using assms unfolding serves_def by (metis snd_conv)+

text \<open>The open response stands at the input's position.\<close>

definition at_cursor :: "bytes \<Rightarrow> ('w \<Rightarrow> int) \<Rightarrow> http_io \<times> 'w \<Rightarrow> bool" where
  "at_cursor file cursor sw \<longleftrightarrow> 0 \<le> m_position (fst sw) \<and> m_size (fst sw) = int (length file) \<and>
     file \<noteq> [] \<and> (m_inner (fst sw) \<longrightarrow> cursor (snd sw) = m_position (fst sw))"

lemma at_cursor_pair [simp]:
  "at_cursor file cursor (s, w) \<longleftrightarrow> 0 \<le> m_position s \<and> m_size s = int (length file) \<and> file \<noteq> [] \<and>
     (m_inner s \<longrightarrow> cursor w = m_position s)"
  by (simp add: at_cursor_def)

lemma wait_steps_cursor:
  assumes E: "serves file cursor E"
  shows "wait_steps E n w = (ok, w') \<Longrightarrow> cursor w' = cursor w"
proof (induction n arbitrary: w)
  case 0
  then show ?case using servesD(7) [OF E] by (auto split: prod.splits)
next
  case (Suc n)
  obtain stop w1 where i: "i_interrupted E w = (stop, w1)" by (metis prod.exhaust)
  then show ?case using Suc.prems Suc.IH [of "i_sleep E w1"] servesD(7,8) [OF E] by (cases stop) auto
qed

lemma reopen_at_cursor:
  assumes E: "serves file cursor E" and "at_cursor file cursor (s, w)" "0 \<le> offset"
    and r: "reopen E offset (s, w) = (r, sw')"
  shows "at_cursor file cursor sw' \<and> m_position (fst sw') = (if r = Opened then offset else m_position s)"
proof -
  obtain s' w' where sw': "sw' = (s', w')" by (cases sw')
  from r [unfolded sw'] show ?thesis
  proof (cases rule: reopen_cases)
    case (opened w0 result final_url)
    with servesD(1) [OF E opened(4,5)] assms(2,3) show ?thesis by (simp add: sw')
  next
    case failed
    with assms(2) show ?thesis by (simp add: sw')
  qed
qed

lemma take_bytes_at_cursor:
  assumes E: "serves file cursor E" and s: "at_cursor file cursor (s, w)"
    and t: "take_bytes E wanted (s, w) short = (got, sw')"
  shows "at_cursor file cursor sw' \<and>
    (case got of
       Inr bs \<Rightarrow> bs \<noteq> [] \<and> piece file (m_position s) bs \<and> int (length bs) \<le> max 0 wanted
     | Inl e \<Rightarrow> fst sw' = s)"
proof (cases "m_inner s")
  case False
  then show ?thesis using t s by (auto simp: take_bytes_def)
next
  case True
  obtain i w1 where i: "i_read E w wanted = (i, w1)" by (metis prod.exhaust)
  show ?thesis
  proof (cases i)
    case (Inl e)
    then show ?thesis using True t s i servesD(5) [OF E] by (auto simp: take_bytes_def)
  next
    case (Inr bs)
    from servesD(2,3,4) [OF E i [unfolded Inr]] show ?thesis
      using True t s i Inr by (auto simp: take_bytes_def split: if_splits)
  qed
qed

text \<open>What one read gives: bytes of the file at the position, or an error that is end of file only there.\<close>

definition right_bytes :: "bytes \<Rightarrow> int \<Rightarrow> int \<Rightarrow> int + bytes \<Rightarrow> bool" where
  "right_bytes file p wanted r =
     (case r of
        Inr bs \<Rightarrow> bs \<noteq> [] \<and> piece file p bs \<and> int (length bs) \<le> max 0 wanted
      | Inl e \<Rightarrow> e = AVERROR_EOF \<longrightarrow> int (length file) \<le> p)"

lemma errors_not_eof: "AVERROR_EXIT \<noteq> AVERROR_EOF" "AVERROR_EPERM \<noteq> AVERROR_EOF" "AVERROR_EIO \<noteq> AVERROR_EOF"
  by (simp_all add: averrors)

lemma read_attempts_at_cursor:
  assumes E: "serves file cursor E"
  shows "at_cursor file cursor (s, w) \<Longrightarrow> read_attempts E wanted n short (s, w) = (r, sw') \<Longrightarrow>
    at_cursor file cursor sw' \<and> right_bytes file (m_position s) wanted r"
proof (induction n arbitrary: s w short)
  case 0
  then show ?case by (auto simp: right_bytes_def errors_not_eof)
next
  case (Suc n)
  obtain stop w1 where i: "i_interrupted E w = (stop, w1)" by (metis prod.exhaust)
  with Suc.prems(1) servesD(7) [OF E i] have s1: "at_cursor file cursor (s, w1)" by simp
  show ?case
  proof (cases stop)
    case True
    then show ?thesis using Suc.prems i s1 by (auto simp: right_bytes_def errors_not_eof)
  next
    case go: False
    obtain got s2 w2 where t: "take_bytes E wanted (s, w1) short = (got, (s2, w2))" by (metis prod.exhaust)
    note s2 = take_bytes_at_cursor [OF E s1 t]
    show ?thesis
    proof (cases got)
      case (Inr bs)
      then show ?thesis using Suc.prems go i t s2 by (auto simp: right_bytes_def)
    next
      case (Inl e)
      with s2 have st: "s2 = s" "at_cursor file cursor (s, w2)" by auto
      show ?thesis
      proof (cases "m_position s \<ge> m_size s")
        case True
        then show ?thesis using Suc.prems go i t st Inl by (auto simp: right_bytes_def)
      next
        case False
        let ?s2 = "s\<lparr>m_reopens := m_reopens s + 1\<rparr>"
        obtain o3 s3 w3 where o: "reopen E (m_position s) (?s2, w2) = (o3, (s3, w3))" by (metis prod.exhaust)
        have s3: "at_cursor file cursor (s3, w3)" "m_position s3 = m_position s"
          using reopen_at_cursor [OF E _ _ o] st by (auto split: if_splits)
        note step = go i t st Inl False o
        show ?thesis
        proof (cases o3)
          case Opened
          then have "read_attempts E wanted n e (s3, w3) = (r, sw')" using Suc.prems step by simp
          from Suc.IH [OF s3(1) this] s3(2) show ?thesis by simp
        next
          case Refused
          then show ?thesis using Suc.prems step s3 by (auto simp: right_bytes_def errors_not_eof)
        next
          case Failed
          obtain ok w4 where b: "backOff E (kMaxAttempts - Suc n) w3 = (ok, w4)" by (metis prod.exhaust)
          have s4: "at_cursor file cursor (s3, w4)" using wait_steps_cursor [OF E b [unfolded backOff_def]] s3 by simp
          show ?thesis
          proof (cases ok)
            case True
            then have "read_attempts E wanted n e (s3, w4) = (r, sw')" using Suc.prems step Failed b by simp
            from Suc.IH [OF s4 this] s3(2) show ?thesis by simp
          next
            case False
            then show ?thesis
              using Suc.prems go i t st Inl \<open>\<not> m_position s \<ge> m_size s\<close> o Failed b s4
              by (auto simp: right_bytes_def errors_not_eof)
          qed
        qed
      qed
    qed
  qed
qed

lemma read_io_at_cursor:
  assumes E: "serves file cursor E" and s: "at_cursor file cursor (s, w)" and r: "read_io E wanted (s, w) = (r, sw')"
  shows "at_cursor file cursor sw' \<and> right_bytes file (m_position s) wanted r \<and>
    m_position (fst sw') = m_position s + got_length r"
proof (cases "m_position s \<ge> m_size s")
  case True
  with r s show ?thesis by (auto simp: read_io_def right_bytes_def)
next
  case False
  with r s have a: "read_attempts E wanted kMaxAttempts AVERROR_EOF (s, w) = (r, sw')" by (simp add: read_io_def)
  obtain s' w' where sw': "sw' = (s', w')" by (cases sw')
  show ?thesis
    using read_attempts_at_cursor [OF E s a] read_attempts_position [OF a [unfolded sw']] by (simp add: sw')
qed

lemma skip_to_at_cursor:
  "serves file cursor E \<Longrightarrow> at_cursor file cursor sw \<Longrightarrow> at_cursor file cursor (skip_to E target sw)"
proof (induction E target sw rule: skip_to.induct)
  case (1 E target s w)
  obtain r sw' where r: "read_io E (min 16384 (target - m_position s)) (s, w) = (r, sw')" by (metis prod.exhaust)
  have "at_cursor file cursor sw'" using read_io_at_cursor [OF 1(2,3) r] by simp
  moreover have "at_cursor file cursor (skip_to E target sw')" if "m_position s < target" "r = Inr bs" for bs
    using 1(1) [OF that(1) r [symmetric] that(2)] 1(2) calculation by simp
  ultimately show ?case using 1(3) r by (subst skip_to.simps) (auto split: sum.split)
qed

lemma skip_to_position:
  "serves file cursor E \<Longrightarrow> at_cursor file cursor sw \<Longrightarrow> m_position (fst sw) \<le> target \<Longrightarrow>
     m_position (fst sw) \<le> m_position (fst (skip_to E target sw)) \<and> m_position (fst (skip_to E target sw)) \<le> target"
proof (induction E target sw rule: skip_to.induct)
  case (1 E target s w)
  obtain r sw' where r: "read_io E (min 16384 (target - m_position s)) (s, w) = (r, sw')" by (metis prod.exhaust)
  have k: "at_cursor file cursor sw'" "right_bytes file (m_position s) (min 16384 (target - m_position s)) r"
      "m_position (fst sw') = m_position s + got_length r"
    using read_io_at_cursor [OF 1(2,3) r] by simp_all
  show ?case
  proof (cases "m_position s < target")
    case True
    then have l: "0 \<le> got_length r" "got_length r \<le> target - m_position s"
      using k(2) by (auto simp: right_bytes_def got_length_def split: sum.splits)
    show ?thesis
    proof (cases r)
      case (Inl e)
      then show ?thesis using r k(3) True by (simp add: skip_to.simps)
    next
      case (Inr bs)
      have "m_position (fst sw') \<le> m_position (fst (skip_to E target sw')) \<and> m_position (fst (skip_to E target sw')) \<le> target"
        by (rule 1(1) [OF True r [symmetric] Inr 1(2) k(1)]) (use k(3) l in simp)
      then show ?thesis using r True Inr k(3) l by (simp add: skip_to.simps [of E target s w])
    qed
  next
    case False
    then show ?thesis using 1(4) by (simp add: skip_to.simps)
  qed
qed

lemma seek_attempts_at_cursor:
  assumes E: "serves file cursor E" and t: "0 \<le> target"
  shows "at_cursor file cursor (s, w) \<Longrightarrow> seek_attempts E target n (s, w) = (r, sw') \<Longrightarrow>
    at_cursor file cursor sw' \<and> (r < 0 \<and> m_position (fst sw') = m_position s \<or> r = target \<and> m_position (fst sw') = target)"
proof (induction n arbitrary: s w)
  case 0
  then show ?case by (auto simp: averrors)
next
  case (Suc n)
  obtain stop w1 where i: "i_interrupted E w = (stop, w1)" by (metis prod.exhaust)
  with Suc.prems(1) servesD(7) [OF E i] have s1: "at_cursor file cursor (s, w1)" by simp
  obtain o2 s2 w2 where o: "reopen E target (s, w1) = (o2, (s2, w2))" by (metis prod.exhaust)
  note s2 = reopen_at_cursor [OF E s1 t o]
  have p: "o2 \<noteq> Opened \<Longrightarrow> m_position s2 = m_position s" using o by (cases rule: reopen_cases) simp_all
  show ?case
  proof (cases "stop \<or> o2 \<noteq> Failed")
    case True
    then show ?thesis using Suc.prems i s1 o s2 p by (cases stop; cases o2) (auto simp: averrors)
  next
    case False
    obtain ok w3 where b: "backOff E (kMaxAttempts - Suc n) w2 = (ok, w3)" by (metis prod.exhaust)
    have s3: "at_cursor file cursor (s2, w3)" using wait_steps_cursor [OF E b [unfolded backOff_def]] s2 by simp
    show ?thesis
    proof (cases ok)
      case True
      then have "seek_attempts E target n (s2, w3) = (r, sw')" using Suc.prems(2) i o b False by simp
      from Suc.IH [OF s3 this] show ?thesis using p False by simp
    next
      case nok: False
      then show ?thesis using Suc.prems(2) i o b False s3 p by (auto simp: averrors)
    qed
  qed
qed

lemma seek_far_at_cursor:
  assumes E: "serves file cursor E" and s: "at_cursor file cursor (s, w)" and t: "0 \<le> target"
    and r: "seek_far E target (s, w) = (r, sw')"
  shows "at_cursor file cursor sw' \<and> (r < 0 \<and> m_position (fst sw') = m_position s \<or> r = target \<and> m_position (fst sw') = target)"
proof (cases "target \<ge> m_size s")
  case True
  obtain s1 w1 where c: "close_inner E (s, w) = (s1, w1)" by (metis prod.exhaust)
  from close_inner_position [of E "(s, w)"] c True s r t show ?thesis by (auto simp: seek_far_def)
next
  case False
  then show ?thesis using seek_attempts_at_cursor [OF E t s] r by (simp add: seek_far_def)
qed

text \<open>
  Where a seek is to lead, and where one that fails leaves the input: where it was, or part of the way
  of a short forward skip further.
\<close>

definition seek_aim :: "bytes \<Rightarrow> int \<Rightarrow> int \<Rightarrow> whence \<Rightarrow> int" where
  "seek_aim file p offset wh =
     (case wh of
        SEEK_SET \<Rightarrow> offset
      | SEEK_CUR \<Rightarrow> p + offset
      | SEEK_END \<Rightarrow> int (length file) + offset
      | _ \<Rightarrow> -1)"

definition left_by_failed_seek :: "bytes \<Rightarrow> int \<Rightarrow> int \<Rightarrow> whence \<Rightarrow> int \<Rightarrow> bool" where
  "left_by_failed_seek file p offset wh p' \<longleftrightarrow>
     p' = p \<or> p < p' \<and> p' < seek_aim file p offset wh \<and> seek_aim file p offset wh - p \<le> 256 * 1024"

lemma seek_target_aim: "at_cursor file cursor (s, w) \<Longrightarrow> seek_target s offset wh = seek_aim file (m_position s) offset wh"
  by (auto simp: seek_target_def seek_aim_def split: whence.split)

lemma seek_io_at_cursor:
  assumes E: "serves file cursor E" and s: "at_cursor file cursor (s, w)" and r: "seek_io E offset wh (s, w) = (r, sw')"
    and wh: "wh \<noteq> AVSEEK_SIZE"
  shows "at_cursor file cursor sw' \<and>
    (r < 0 \<and> left_by_failed_seek file (m_position s) offset wh (m_position (fst sw')) \<or>
     0 \<le> r \<and> r = seek_aim file (m_position s) offset wh \<and> m_position (fst sw') = r)"
proof -
  define target where "target = seek_aim file (m_position s) offset wh"
  note aim = seek_target_aim [OF s, of offset wh, folded target_def]
  have skip: "at_cursor file cursor (skip_to E target (s, w))" by (rule skip_to_at_cursor [OF E s])
  obtain s1 w1 where k: "skip_to E target (s, w) = (s1, w1)" by (metis prod.exhaust)
  have left: "left_by_failed_seek file (m_position s) offset wh (m_position s)" by (simp add: left_by_failed_seek_def)
  consider (neg) "target < 0" | (there) "0 \<le> target" "target = m_position s \<and> m_inner s"
    | (far) "0 \<le> target" "seek_far E target (s, w) = (r, sw')"
    | (near) "0 \<le> target" "m_position s1 = target" "r = target" "sw' = (s1, w1)"
    | (nearfar) "0 \<le> target" "seek_far E target (s1, w1) = (r, sw')" "m_position s < target"
        "target - m_position s \<le> kForwardSkipBytes" "m_position s1 \<noteq> target"
    using r wh k by (auto simp: seek_io_def Let_def aim split: if_splits)
  then show ?thesis
  proof cases
    case neg
    then show ?thesis using r s wh left by (auto simp: seek_io_def Let_def averrors aim)
  next
    case there
    then show ?thesis using r s wh by (auto simp: seek_io_def Let_def aim target_def [symmetric])
  next
    case far
    then show ?thesis using seek_far_at_cursor [OF E s _ far(2)] left by (simp add: target_def [symmetric]) metis
  next
    case near
    then show ?thesis using skip k by (simp add: target_def [symmetric])
  next
    case nearfar
    have "m_position s \<le> m_position s1 \<and> m_position s1 \<le> target"
      using skip_to_position [OF E s, of target] k nearfar(3) by simp
    then have "left_by_failed_seek file (m_position s) offset wh (m_position s1)"
      using nearfar(4,5) by (auto simp: left_by_failed_seek_def target_def [symmetric] kForwardSkipBytes_def)
    then show ?thesis
      using seek_far_at_cursor [OF E _ _ nearfar(2)] skip k nearfar(1) by (simp add: target_def [symmetric]) metis
  qed
qed

lemma reopen_size:
  assumes "reopen E offset (s, w) = (Opened, (s', w'))" "m_size s \<le> 0" "0 < m_size s'"
  shows "m_size s' = i_size E w'"
  using assms close_inner_position [of E "(s, w)"] by (auto simp: reopen_def split: prod.splits if_splits)

lemma open_io_at_cursor:
  assumes E: "serves file cursor E" and o: "open_io E (io_new url, w) = (True, sw)"
  shows "at_cursor file cursor sw \<and> m_position (fst sw) = 0"
proof -
  obtain r s' w' where r: "reopen E 0 (io_new url, w) = (r, (s', w'))" by (metis prod.exhaust)
  obtain a w'' where a: "i_alloc E w' = (a, w'')" by (metis prod.exhaust)
  from o r a have *: "r = Opened" "0 < m_size s'"
      "sw = (s'\<lparr>m_refused := False, m_context := True, m_reopens := 0\<rparr>, w'')"
    by (auto simp: open_io_def Let_def split: if_splits bool.splits)
  from reopen_size [OF r [unfolded *(1)]] *(2) servesD(6) [OF E, of w'] have "m_size s' = int (length file)"
    by (auto simp: io_new_def)
  with r [unfolded *(1)] * show ?thesis
    by (cases rule: reopen_cases) (use servesD(1,9) [OF E] a in auto)
qed

text \<open>A client's reads and seeks, and what a file read through them gives from position \<open>p\<close> on.\<close>

datatype io_op = Read int | Seek int whence
datatype io_result = Gave "int + bytes" | Moved int

fun run_io :: "'w io_lib \<Rightarrow> io_op list \<Rightarrow> http_io \<times> 'w \<Rightarrow> io_result list \<times> (http_io \<times> 'w)" where
  "run_io E [] sw = ([], sw)"
| "run_io E (Read wanted # ops) sw =
     (case read_io E wanted sw of (r, sw1) \<Rightarrow> (case run_io E ops sw1 of (rs, sw2) \<Rightarrow> (Gave r # rs, sw2)))"
| "run_io E (Seek offset wh # ops) sw =
     (case seek_io E offset wh sw of (r, sw1) \<Rightarrow> (case run_io E ops sw1 of (rs, sw2) \<Rightarrow> (Moved r # rs, sw2)))"

fun reads_file :: "bytes \<Rightarrow> int \<Rightarrow> io_op list \<Rightarrow> io_result list \<Rightarrow> bool" where
  "reads_file file p [] [] = True"
| "reads_file file p (Read n # ops) (Gave r # rs) =
     (right_bytes file p n r \<and> reads_file file (p + got_length r) ops rs)"
| "reads_file file p (Seek offset wh # ops) (Moved r # rs) =
     (if wh = AVSEEK_SIZE then r = int (length file) \<and> reads_file file p ops rs
      else if r < 0 then (\<exists>p'. left_by_failed_seek file p offset wh p' \<and> reads_file file p' ops rs)
      else r = seek_aim file p offset wh \<and> reads_file file r ops rs)"
| "reads_file file p _ _ = False"

lemma run_io_reads_file:
  assumes E: "serves file cursor E"
  shows "at_cursor file cursor (s, w) \<Longrightarrow> run_io E ops (s, w) = (rs, sw') \<Longrightarrow> reads_file file (m_position s) ops rs"
proof (induction ops arbitrary: s w rs sw')
  case Nil
  then show ?case by simp
next
  case (Cons a ops)
  show ?case
  proof (cases a)
    case (Read n)
    obtain r s1 w1 where r: "read_io E n (s, w) = (r, (s1, w1))" by (metis prod.exhaust)
    obtain rs1 sw2 where k: "run_io E ops (s1, w1) = (rs1, sw2)" by (metis prod.exhaust)
    from read_io_at_cursor [OF E Cons.prems(1) r]
    have s1: "at_cursor file cursor (s1, w1)" "right_bytes file (m_position s) n r" "m_position s1 = m_position s + got_length r"
      by simp_all
    have "reads_file file (m_position s1) ops rs1" by (rule Cons.IH [OF s1(1) k])
    then show ?thesis using Cons.prems(2) Read r k s1 by auto
  next
    case (Seek offset wh)
    obtain r s1 w1 where r: "seek_io E offset wh (s, w) = (r, (s1, w1))" by (metis prod.exhaust)
    obtain rs1 sw2 where k: "run_io E ops (s1, w1) = (rs1, sw2)" by (metis prod.exhaust)
    have rs: "rs = Moved r # rs1" using Cons.prems(2) Seek r k by simp
    show ?thesis
    proof (cases "wh = AVSEEK_SIZE")
      case True
      with r Cons.prems(1) have "(s1, w1) = (s, w)" "r = int (length file)" by (auto simp: seek_io_def split: if_splits)
      then show ?thesis using Cons.IH [OF Cons.prems(1), of rs1 sw2] k True rs Seek by simp
    next
      case False
      note s1 = seek_io_at_cursor [OF E Cons.prems(1) r False]
      then have "reads_file file (m_position s1) ops rs1" using Cons.IH [OF _ k] by simp
      then show ?thesis using False rs Seek s1 by auto
    qed
  qed
qed

text \<open>
  C12. The input is the file, whatever the server does: after an open that succeeded, through any
  reads and seeks, with responses that stop short, connections that close and requests that fail
  between them, every read gives the file's own bytes at the position of the input (at least one, at
  most as many as it wanted) and moves it past them, and end of file is reported only at the file's
  end. A seek that succeeds leads where it was asked to, the size is the file's, and a seek that fails
  leaves the position where it was or, when it was a forward skip of at most 256 KiB, somewhere
  before its target; the reads that follow go on from there.
\<close>

theorem input_is_the_file:
  assumes "serves file cursor E" "open_io E (io_new url, w) = (True, sw)"
  shows "reads_file file 0 ops (fst (run_io E ops sw))"
proof -
  obtain s w1 where sw: "sw = (s, w1)" by (cases sw)
  obtain rs sw' where k: "run_io E ops (s, w1) = (rs, sw')" by (metis prod.exhaust)
  from open_io_at_cursor [OF assms] sw have "at_cursor file cursor (s, w1)" "m_position s = 0" by simp_all
  from run_io_reads_file [OF assms(1) this(1) k] this(2) show ?thesis by (simp add: sw k)
qed

text \<open>
  A server for examples: its responses end after three bytes, and it grants a limited number of
  requests or any number. The world is the place in the file, the bytes the response still gives and the requests left.
\<close>

definition short_server :: "bool \<Rightarrow> bytes \<Rightarrow> (int \<times> nat \<times> nat) io_lib" where
  "short_server limited file = \<lparr>
     i_open = (\<lambda>(at, left, requests) url offset.
        if limited \<and> requests = 0 then ((AVERROR_EIO, []), (at, left, 0)) else ((0, []), (offset, 3, requests - 1))),
     i_size = (\<lambda>_. int (length file)),
     i_read = (\<lambda>(at, left, requests) wanted.
        let bs = take (min left (nat wanted)) (drop (nat at) file)
        in if bs = [] then (Inl AVERROR_EOF, (at, left, requests))
           else (Inr bs, (at + int (length bs), left - length bs, requests))),
     i_interrupted = (\<lambda>w. (False, w)), i_sleep = (\<lambda>w. w), i_close = (\<lambda>w. w), i_alloc = (\<lambda>w. (True, w))\<rparr>"

lemma piece_take: "piece file at (take n (drop (nat at) file))"
  by (simp add: piece_def min.commute [of n]) (metis length_drop min.commute take_all_iff take_take nle_le)

lemma short_server_serves: "serves file fst (short_server limited file)"
  by (auto simp: serves_def short_server_def Let_def piece_take averrors split: if_splits)

definition short_start :: "nat \<Rightarrow> bool \<times> (http_io \<times> (int \<times> nat \<times> nat))" where
  "short_start requests = open_io (short_server True [1, 2, 3, 4, 5]) (io_new ''u'', (0, 0, requests))"

lemma input_is_the_file_witness:
  "fst (short_start 9) \<and>
   fst (run_io (short_server True [1, 2, 3, 4, 5]) [Read 2, Read 4, Read 4, Read 4, Seek 1 SEEK_SET, Read 4] (snd (short_start 9))) =
     [Gave (Inr [1, 2]), Gave (Inr [3]), Gave (Inr [4, 5]), Gave (Inl AVERROR_EOF), Moved 1, Gave (Inr [2, 3, 4])] \<and>
   reads_file [1, 2, 3, 4, 5] 0 [Read 2, Read 4, Read 4, Read 4, Seek 1 SEEK_SET, Read 4]
     (fst (run_io (short_server True [1, 2, 3, 4, 5]) [Read 2, Read 4, Read 4, Read 4, Seek 1 SEEK_SET, Read 4] (snd (short_start 9))))"
proof -
  have o: "fst (short_start 9)" by code_simp
  then have "open_io (short_server True [1, 2, 3, 4, 5]) (io_new ''u'', (0, 0, 9)) = (True, snd (short_start 9))"
    by (simp add: short_start_def prod_eq_iff)
  note p = input_is_the_file [OF short_server_serves this]
  have "fst (run_io (short_server True [1, 2, 3, 4, 5]) [Read 2, Read 4, Read 4, Read 4, Seek 1 SEEK_SET, Read 4] (snd (short_start 9))) =
     [Gave (Inr [1, 2]), Gave (Inr [3]), Gave (Inr [4, 5]), Gave (Inl AVERROR_EOF), Moved 1, Gave (Inr [2, 3, 4])]"
    by code_simp
  with o p show ?thesis by blast
qed

text \<open>A forward seek that fails can leave the input elsewhere than where it was.\<close>

lemma failed_seek_moves_position:
  "fst (short_start 1) \<and> m_position (fst (snd (short_start 1))) = 0 \<and>
   fst (seek_io (short_server True [1, 2, 3, 4, 5]) 4 SEEK_SET (snd (short_start 1))) = AVERROR_EIO \<and>
   m_position (fst (snd (seek_io (short_server True [1, 2, 3, 4, 5]) 4 SEEK_SET (snd (short_start 1))))) = 3"
  by code_simp


section \<open>The whole file arrives\<close>

text \<open>A server one can depend on: it grants every request and its responses give at least one byte.\<close>

definition dependable :: "bytes \<Rightarrow> 'w io_lib \<Rightarrow> bool" where
  "dependable file E \<longleftrightarrow>
     (\<forall>w. \<not> fst (i_interrupted E w)) \<and> (\<forall>w. fst (i_alloc E w)) \<and> (\<forall>w. 0 < i_size E w) \<and>
     (\<forall>w url offset. 0 \<le> fst (fst (i_open E w url offset)) \<and>
        (offset < int (length file) \<longrightarrow>
          (\<forall>n>0. \<exists>bs. bs \<noteq> [] \<and> fst (i_read E (snd (i_interrupted E (snd (i_open E w url offset)))) n) = Inr bs)))"

text \<open>Reads until the end of the file, at most so many times.\<close>

fun read_to_end :: "'w io_lib \<Rightarrow> int \<Rightarrow> nat \<Rightarrow> http_io \<times> 'w \<Rightarrow> bytes option" where
  "read_to_end E n 0 sw = None"
| "read_to_end E n (Suc k) sw =
     (case read_io E n sw of
        (Inr bs, sw') \<Rightarrow> map_option (append bs) (read_to_end E n k sw')
      | (Inl e, sw') \<Rightarrow> if e = AVERROR_EOF then Some [] else None)"

lemma reopen_dependable:
  assumes "dependable file E"
  shows "\<exists>s' w0 url. reopen E offset (s, w) = (Opened, (s', snd (i_open E w0 url offset))) \<and> m_inner s'"
  using assms close_inner_position [of E "(s, w)"]
  by (auto simp: reopen_def dependable_def split: prod.splits) (metis fst_conv linorder_not_less snd_conv)+

lemma fresh_response_gives_bytes:
  assumes E: "dependable file E" and s: "m_inner s" "offset < int (length file)" and n: "0 < n"
  shows "\<exists>bs. fst (read_attempts E n (Suc k) short (s, snd (i_open E w0 url offset))) = Inr bs"
proof -
  let ?w = "snd (i_open E w0 url offset)"
  obtain w1 where i: "i_interrupted E ?w = (False, w1)"
    using E by (metis (full_types) dependable_def prod.exhaust_sel)
  obtain bs w2 where r: "i_read E w1 n = (Inr bs, w2)" "bs \<noteq> []"
    using E s(2) n i unfolding dependable_def by (metis prod.collapse snd_conv)
  show ?thesis using i r s(1) by (simp add: take_bytes_def)
qed

lemma dependable_read_gives_bytes:
  assumes E: "dependable file E" and s: "m_position s < m_size s" "m_size s = int (length file)" "0 < m_size s" and n: "0 < n"
  shows "\<exists>bs. fst (read_io E n (s, w)) = Inr bs"
proof -
  obtain w1 where i: "i_interrupted E w = (False, w1)" using E by (metis (full_types) dependable_def prod.exhaust_sel)
  obtain got s2 w2 where t: "take_bytes E n (s, w1) AVERROR_EOF = (got, (s2, w2))" by (metis prod.exhaust)
  obtain m where k: "kMaxAttempts = Suc (Suc m)" by (simp add: kMaxAttempts_def numeral_eq_Suc)
  have a: "fst (read_io E n (s, w)) = fst (read_attempts E n (Suc (Suc m)) AVERROR_EOF (s, w))"
    using s by (simp add: read_io_def k)
  show ?thesis
  proof (cases got)
    case (Inr bs)
    then show ?thesis using i t by (simp add: a)
  next
    case (Inl e)
    then have s2: "s2 = s" using t by (auto simp: take_bytes_def split: if_splits sum.splits prod.splits)
    obtain s3 w0 url where o: "reopen E (m_position s) (s\<lparr>m_reopens := m_reopens s + 1\<rparr>, w2) =
        (Opened, (s3, snd (i_open E w0 url (m_position s))))" "m_inner s3"
      using reopen_dependable [OF E] by metis
    then have "fst (read_io E n (s, w)) = fst (read_attempts E n (Suc m) e (s3, snd (i_open E w0 url (m_position s))))"
      using i t Inl s2 s by (simp add: a read_attempts.simps(2) [of E n "Suc m"] del: read_attempts.simps(2))
    with fresh_response_gives_bytes [OF E o(2) _ n] s show ?thesis by simp
  qed
qed


lemma reads_reach_the_end:
  assumes E: "serves file cursor E" and D: "dependable file E" and n: "0 < n"
  shows "at_cursor file cursor (s, w) \<Longrightarrow> m_position s \<le> int (length file) \<Longrightarrow>
    nat (int (length file) - m_position s) < k \<Longrightarrow>
    read_to_end E n k (s, w) = Some (drop (nat (m_position s)) file)"
proof (induction k arbitrary: s w)
  case 0
  then show ?case by simp
next
  case (Suc k)
  obtain r s1 w1 where r: "read_io E n (s, w) = (r, (s1, w1))" by (metis prod.exhaust)
  from read_io_at_cursor [OF E Suc.prems(1) r]
  have s1: "at_cursor file cursor (s1, w1)" "right_bytes file (m_position s) n r" "m_position s1 = m_position s + got_length r"
    by simp_all
  show ?case
  proof (cases "m_position s = int (length file)")
    case True
    then have "r = Inl AVERROR_EOF" using r Suc.prems(1) by (auto simp: read_io_def)
    then show ?thesis using r True by simp
  next
    case False
    with Suc.prems have "m_position s < m_size s" "0 < m_size s" by auto
    from dependable_read_gives_bytes [OF D this(1) _ this(2) n, of w] Suc.prems(1) r obtain bs where bs: "r = Inr bs" by auto
    let ?p = "nat (m_position s)"
    from s1 bs have b: "bs \<noteq> []" "bs = take (length bs) (drop ?p file)" "m_position s1 = m_position s + int (length bs)"
      by (auto simp: right_bytes_def piece_def)
    from b(2) have l: "length bs \<le> length file - ?p" by (metis length_drop length_take min.cobounded1)
    have "read_to_end E n k (s1, w1) = Some (drop (nat (m_position s1)) file)"
      by (rule Suc.IH [OF s1(1)]) (use b l Suc.prems in \<open>cases bs; auto\<close>)+
    moreover have "bs @ drop (nat (m_position s1)) file = drop ?p file"
      using b Suc.prems(1) by (metis append_take_drop_id drop_drop at_cursor_pair nat_add_distrib nat_int of_nat_0_le_iff add.commute)
    ultimately show ?thesis using r bs by simp
  qed
qed

text \<open>
  C20. Data is never lost to responses that stop short: when the server grants the requests and each
  response gives at least one byte, reading to the end gives the whole file, in at most one read a
  byte (and one for the end), whatever the size of the reads and wherever the responses stop.
\<close>

theorem whole_file_arrives:
  assumes "serves file cursor E" "dependable file E" "open_io E (io_new url, w) = (True, sw)" "0 < n"
  shows "read_to_end E n (Suc (length file)) sw = Some file"
proof -
  obtain s w1 where sw: "sw = (s, w1)" by (cases sw)
  from open_io_at_cursor [OF assms(1,3)] sw have "at_cursor file cursor (s, w1)" "m_position s = 0" by simp_all
  with reads_reach_the_end [OF assms(1,2,4), of s w1 "Suc (length file)"] show ?thesis by (simp add: sw)
qed

lemma short_server_dependable:
  assumes "file \<noteq> []"
  shows "dependable file (short_server False file)"
proof -
  from assms have "\<not> length file \<le> nat offset" if "offset < int (length file)" for offset
    using that by (cases "0 \<le> offset") (auto simp: not_le)
  with assms show ?thesis by (auto simp: dependable_def short_server_def Let_def)
qed

lemma whole_file_arrives_witness:
  "fst (open_io (short_server False [1, 2, 3, 4, 5, 6, 7]) (io_new ''u'', (0, 0, 0))) \<and>
   read_to_end (short_server False [1, 2, 3, 4, 5, 6, 7]) 2 8
     (snd (open_io (short_server False [1, 2, 3, 4, 5, 6, 7]) (io_new ''u'', (0, 0, 0)))) = Some [1, 2, 3, 4, 5, 6, 7]"
proof -
  have o: "fst (open_io (short_server False [1, 2, 3, 4, 5, 6, 7]) (io_new ''u'', (0, 0, 0)))" by code_simp
  have "read_to_end (short_server False [1, 2, 3, 4, 5, 6, 7]) 2 (Suc (length [1, 2, 3, 4, 5, 6, 7::u8]))
     (snd (open_io (short_server False [1, 2, 3, 4, 5, 6, 7]) (io_new ''u'', (0, 0, 0)))) = Some [1, 2, 3, 4, 5, 6, 7]"
    by (rule whole_file_arrives [OF short_server_serves short_server_dependable]) (use o in \<open>auto simp: prod_eq_iff\<close>)
  with o show ?thesis by (simp del: read_to_end.simps add: eval_nat_numeral)
qed

end
