(* ===== verification/Player_Control.thy ===== *)
theory Player_Control
  imports Prelude Media_Info Complex_Main
begin

text \<open>
  \<^verbatim>\<open>src/media-player.cpp\<close>, class \<open>MediaPlayer::Impl\<close>: the state its threads share under
  \<open>m_state_mutex\<close>, and the operations on it, each of which is one stretch of code that holds the lock:
  the sender's commands (play, stop, scrub, rate), what the worker does to it (it opens the item, takes
  a scrub, comes to the end of the input) and the decisions of the presenter (is this picture shown,
  and when). The threads that run them are \<open>Player_Threads\<close>.

  Doubles are rational numbers (\<open>rat\<close>; rounding is not modelled), those a sender gives can be infinite
  or not a number (\<open>c_double\<close>). \<open>steady_clock\<close> is in nanoseconds (\<open>int\<close>), and an operation that reads
  it is given the time (two readings while the lock is held are one). Counters of 64 bits are natural numbers, log lines are left out.
\<close>

section \<open>Numbers and times\<close>

datatype c_double = Finite rat | Infinity_pos | Infinity_neg | Not_a_number

fun c_isfinite :: "c_double \<Rightarrow> bool" where
  "c_isfinite (Finite _) = True"
| "c_isfinite _ = False"

definition kMaxPositionSeconds :: rat where "kMaxPositionSeconds = 10000000"

fun clamp_position :: "c_double \<Rightarrow> rat" where
  "clamp_position (Finite seconds) = min (max 0 seconds) kMaxPositionSeconds"
| "clamp_position _ = 0"

text \<open>\<open>std::llrint\<close> in the default mode: to the nearest integer, halves to the even one.\<close>

definition llrint :: "rat \<Rightarrow> int" where
  "llrint x = (let n = \<lfloor>x\<rfloor>; d = x - of_int n
               in if d < 1 / 2 then n else if d > 1 / 2 then n + 1 else if even n then n else n + 1)"

definition seek_timestamp :: "rat \<Rightarrow> rat \<Rightarrow> int" where
  "seek_timestamp position start_seconds =
     llrint ((clamp_position (Finite position) + clamp_position (Finite start_seconds)) * 1000000)"

text \<open>Between durations in seconds and nanoseconds of the clock (\<open>duration_cast\<close> drops the fraction).\<close>

definition seconds :: "int \<Rightarrow> rat" where "seconds ns = of_int ns / 1000000000"

definition to_ns :: "rat \<Rightarrow> int" where
  "to_ns s = (if 0 \<le> s then \<lfloor>s * 1000000000\<rfloor> else \<lceil>s * 1000000000\<rceil>)"

definition milliseconds :: "int \<Rightarrow> int" where "milliseconds n = n * 1000000"

section \<open>The state\<close>

text \<open>\<open>g_follow\<close> is the global \<open>g_follow_sender_clock\<close>; \<open>m_queue_epoch\<close> is advanced under the lock.\<close>

record player =
  m_info :: "rat playback_info"
  m_current_location :: string
  m_seek_pending :: bool
  m_seek_target :: rat
  m_seek_generation :: nat
  m_last_seek_at :: int
  m_coarse_preview_after :: int
  m_scrub_burst :: bool
  m_coarse_preview_shown :: bool
  m_last_seek_target :: rat
  m_discard_video_before :: rat
  m_discard_audio_before :: rat
  m_preview_pending :: bool
  m_resync_on_resume :: bool
  m_anchor_valid :: bool
  m_anchor_position :: rat
  m_anchor_wall_time :: int
  m_catching_up_video :: bool
  m_catching_up_audio :: bool
  m_skipped_video_frames :: nat
  m_clock_initialized :: bool
  m_clock_media_position :: rat
  m_clock_wall_time :: int
  m_stop_requested :: bool
  m_queue_epoch :: nat
  g_follow :: bool

definition player_new :: player where
  "player_new = \<lparr>m_info = no_playback, m_current_location = [], m_seek_pending = False, m_seek_target = 0,
     m_seek_generation = 0, m_last_seek_at = 0, m_coarse_preview_after = 0, m_scrub_burst = False,
     m_coarse_preview_shown = False, m_last_seek_target = -1, m_discard_video_before = -1,
     m_discard_audio_before = -1, m_preview_pending = False, m_resync_on_resume = False,
     m_anchor_valid = False, m_anchor_position = 0, m_anchor_wall_time = 0, m_catching_up_video = False,
     m_catching_up_audio = False, m_skipped_video_frames = 0, m_clock_initialized = False,
     m_clock_media_position = 0, m_clock_wall_time = 0, m_stop_requested = True, m_queue_epoch = 0,
     g_follow = False\<rparr>"

abbreviation position :: "player \<Rightarrow> rat" where "position s \<equiv> pi_position (m_info s)"
abbreviation rate :: "player \<Rightarrow> rat" where "rate s \<equiv> pi_rate (m_info s)"
abbreviation ended :: "player \<Rightarrow> bool" where "ended s \<equiv> pi_ended (m_info s)"

definition set_position :: "rat \<Rightarrow> player \<Rightarrow> player" where
  "set_position p s = s\<lparr>m_info := (m_info s)\<lparr>pi_position := p\<rparr>\<rparr>"

definition set_rate :: "rat \<Rightarrow> player \<Rightarrow> player" where
  "set_rate r s = s\<lparr>m_info := (m_info s)\<lparr>pi_rate := r\<rparr>\<rparr>"

section \<open>The sender's commands\<close>

text \<open>
  \<open>play\<close> for a location: the part under the lock, after the previous worker has been joined. The
  start position is the sender's; \<open>initial_rate\<close> is 1 or, for a scrub after the end, 0.
\<close>

definition play_state :: "string \<Rightarrow> c_double \<Rightarrow> rat \<Rightarrow> int \<Rightarrow> player \<Rightarrow> player" where
  "play_state location start initial_rate now s =
     (let start_position = clamp_position start;
          discard = (if start_position > 0 then start_position else -1)
      in s\<lparr>m_info := no_playback\<lparr>pi_position := start_position, pi_rate := initial_rate\<rparr>,
           m_current_location := location, m_seek_generation := 0, m_last_seek_at := 0,
           m_coarse_preview_after := 0, m_anchor_valid := initial_rate > 0,
           m_anchor_position := start_position, m_anchor_wall_time := now,
           m_catching_up_video := True, m_catching_up_audio := True, m_skipped_video_frames := 0,
           m_seek_pending := False, m_seek_target := start_position,
           m_discard_video_before := discard, m_discard_audio_before := discard,
           m_preview_pending := True, m_resync_on_resume := False, m_last_seek_target := -1,
           m_scrub_burst := False, m_coarse_preview_shown := False, m_clock_initialized := False\<rparr>)"

text \<open>The two halves of \<open>stopLocked\<close>, before and after the worker is joined.\<close>

definition request_stop :: "player \<Rightarrow> player" where
  "request_stop s = s\<lparr>m_stop_requested := True\<rparr>"

definition finish_stop :: "player \<Rightarrow> player" where
  "finish_stop s =
     s\<lparr>m_info := (m_info s)\<lparr>pi_rate := 0, pi_ready_to_play := False, pi_buffer_empty := True,
         pi_buffer_full := False, pi_likely_to_keep_up := False\<rparr>,
       m_clock_initialized := False, m_anchor_valid := False\<rparr>"

definition markOpenFailure :: "player \<Rightarrow> player" where
  "markOpenFailure s =
     s\<lparr>m_info := (m_info s)\<lparr>pi_ready_to_play := False, pi_buffer_empty := True, pi_buffer_full := False,
         pi_likely_to_keep_up := False, pi_rate := 0, pi_ended := True\<rparr>\<rparr>"

text \<open>The end of \<open>play\<close>: the worker thread starts, or cannot.\<close>

definition start_worker :: "bool \<Rightarrow> player \<Rightarrow> player" where
  "start_worker starts s =
     (let s' = s\<lparr>m_stop_requested := False\<rparr>
      in if starts then s' else markOpenFailure (s'\<lparr>m_stop_requested := True\<rparr>))"

definition kPlayingSeekTolerance :: rat where "kPlayingSeekTolerance = 35 / 100"
definition kSamePositionTolerance :: rat where "kSamePositionTolerance = 5 / 10000"

text \<open>A scrub the output already meets: a correction while playing, or the same position again.\<close>

definition scrub_is_met :: "rat \<Rightarrow> player \<Rightarrow> bool" where
  "scrub_is_met p s \<longleftrightarrow>
     rate s > 0 \<and> pi_ready_to_play (m_info s) \<and> \<not> ended s \<and> \<not> m_seek_pending s \<and> m_clock_initialized s \<and>
       \<bar>p - position s\<bar> < kPlayingSeekTolerance \<or>
     rate s \<le> 0 \<and> \<not> ended s \<and> \<not> m_seek_pending s \<and> \<not> m_preview_pending s \<and> m_last_seek_target s \<ge> 0 \<and>
       \<bar>p - m_last_seek_target s\<bar> < kSamePositionTolerance"

definition scrub_timing :: "int \<Rightarrow> player \<Rightarrow> player" where
  "scrub_timing now s =
     (let gap = now - m_last_seek_at s;
          burst = (m_seek_generation s > 0 \<and> gap < milliseconds 200)
      in s\<lparr>m_scrub_burst := burst,
           m_coarse_preview_after := (if burst then now + min (gap div 2) (milliseconds 60) else m_coarse_preview_after s),
           m_last_seek_at := now, m_coarse_preview_shown := False\<rparr>)"

definition scrub_to :: "rat \<Rightarrow> int \<Rightarrow> player \<Rightarrow> player" where
  "scrub_to p now s =
     (let target = max 0 p
      in set_position target
          (s\<lparr>m_last_seek_target := target, m_seek_target := target, m_seek_pending := True,
             m_seek_generation := m_seek_generation s + 1, m_anchor_valid := rate s > 0,
             m_anchor_position := target, m_anchor_wall_time := now,
             m_catching_up_video := True, m_catching_up_audio := True, m_skipped_video_frames := 0,
             m_discard_video_before := target, m_discard_audio_before := target,
             m_resync_on_resume := False, m_preview_pending := True, m_clock_initialized := False\<rparr>))"

definition seekLocked :: "rat \<Rightarrow> int \<Rightarrow> player \<Rightarrow> player" where
  "seekLocked p now s = (if scrub_is_met p s then s else scrub_to p now (scrub_timing now s))"

text \<open>
  \<open>seek\<close> up to its first unlock: it is ignored, done, or the item is opened again at a position,
  paused, by \<open>play\<close>.
\<close>

datatype seek_outcome = Seek_ignored | Seek_done player | Seek_reopens string rat

definition seek :: "c_double \<Rightarrow> int \<Rightarrow> player \<Rightarrow> seek_outcome" where
  "seek p now s =
     (if \<not> c_isfinite p then Seek_ignored
      else
        (let q = clamp_position p;
             target = (if pi_duration_known (m_info s) \<and> pi_duration (m_info s) > 0
                       then min q (pi_duration (m_info s)) else q)
         in if ended s \<and> m_current_location s \<noteq> [] then Seek_reopens (m_current_location s) target
            else Seek_done (seekLocked target now s)))"

text \<open>The anchor of the sender's clock at a new rate, and the item's own clock.\<close>

definition move_anchor :: "rat \<Rightarrow> int \<Rightarrow> player \<Rightarrow> player" where
  "move_anchor previous now s =
     (if rate s \<le> 0 then s\<lparr>m_anchor_valid := False\<rparr>
      else if previous \<le> 0 then
        s\<lparr>m_anchor_valid := True, m_anchor_position := (if m_seek_pending s then m_seek_target s else position s),
          m_anchor_wall_time := now, m_catching_up_video := True, m_catching_up_audio := True,
          m_skipped_video_frames := 0\<rparr>
      else if m_anchor_valid s \<and> previous \<noteq> rate s then
        s\<lparr>m_anchor_position := m_anchor_position s + seconds (now - m_anchor_wall_time s) * previous,
          m_anchor_wall_time := now\<rparr>
      else s)"

definition move_clock :: "int \<Rightarrow> player \<Rightarrow> player" where
  "move_clock now s =
     (if m_clock_initialized s then s\<lparr>m_clock_media_position := position s, m_clock_wall_time := now\<rparr> else s)"

definition resume :: "player \<Rightarrow> player" where
  "resume s =
     (if rate s > 0 then
        (if m_resync_on_resume s \<and> \<not> m_seek_pending s
         then s\<lparr>m_preview_pending := False, m_seek_target := position s, m_seek_pending := True,
                m_discard_video_before := position s, m_discard_audio_before := position s,
                m_resync_on_resume := False\<rparr>
         else s\<lparr>m_preview_pending := False, m_resync_on_resume := False\<rparr>)
      else s)"

fun rate_of :: "c_double \<Rightarrow> rat" where
  "rate_of (Finite r) = r"
| "rate_of _ = 0"

definition setRate :: "c_double \<Rightarrow> int \<Rightarrow> player \<Rightarrow> player" where
  "setRate r now s =
     (if ended s \<and> rate_of r > 0 then s
      else resume (move_clock now (move_anchor (rate s) now (set_rate (max 0 (rate_of r)) s))))"

definition pauseForPlaylistRemoval :: "player \<Rightarrow> rat \<times> player" where
  "pauseForPlaylistRemoval s =
     (position s, (set_rate 0 s)\<lparr>m_clock_initialized := False, m_anchor_valid := False\<rparr>)"

section \<open>The sender's clock\<close>

definition followsSenderClock :: "player \<Rightarrow> bool" where
  "followsSenderClock s \<longleftrightarrow> m_anchor_valid s \<and> rate s > 0 \<and> pi_duration_known (m_info s) \<and>
     pi_duration (m_info s) > 0 \<and> g_follow s"

definition senderPositionLocked :: "int \<Rightarrow> player \<Rightarrow> rat" where
  "senderPositionLocked now s = m_anchor_position s + seconds (now - m_anchor_wall_time s) * rate s"

definition kKeptAtEnd :: rat where "kKeptAtEnd = 25 / 100"

definition catchUpPositionLocked :: "int \<Rightarrow> player \<Rightarrow> rat" where
  "catchUpPositionLocked now s =
     (if \<not> pi_duration_known (m_info s) \<or> pi_duration (m_info s) \<le> 0 then m_anchor_position s
      else min (senderPositionLocked now s) (max (m_anchor_position s) (pi_duration (m_info s) - kKeptAtEnd)))"

section \<open>Is this frame shown?\<close>

text \<open>
  \<open>epoch\<close> is the epoch of the frame the presenter holds (\<open>m_presenting_epoch\<close>), or none for a frame of
  audio, which the worker presents itself.
\<close>

definition stale :: "nat option \<Rightarrow> player \<Rightarrow> bool" where
  "stale epoch s \<longleftrightarrow> (case epoch of Some e \<Rightarrow> e \<noteq> m_queue_epoch s | None \<Rightarrow> False)"

definition kFrameTolerance :: rat where "kFrameTolerance = 20 / 1000"

definition catching_up :: "bool \<Rightarrow> player \<Rightarrow> bool" where
  "catching_up video s = (if video then m_catching_up_video s else m_catching_up_audio s)"

definition discard_before :: "bool \<Rightarrow> player \<Rightarrow> rat" where
  "discard_before video s = (if video then m_discard_video_before s else m_discard_audio_before s)"

text \<open>The frame ended before the place the sender is at.\<close>

definition sender_has_passed :: "rat \<Rightarrow> rat \<Rightarrow> int \<Rightarrow> player \<Rightarrow> bool" where
  "sender_has_passed p shown_for now s \<longleftrightarrow>
     followsSenderClock s \<and> p + max 0 shown_for + kFrameTolerance < catchUpPositionLocked now s"

definition caught_up :: "bool \<Rightarrow> player \<Rightarrow> player" where
  "caught_up video s = (if video then s\<lparr>m_catching_up_video := False\<rparr> else s\<lparr>m_catching_up_audio := False\<rparr>)"

definition target_reached :: "bool \<Rightarrow> player \<Rightarrow> player" where
  "target_reached video s = (if video then s\<lparr>m_discard_video_before := -1\<rparr> else s\<lparr>m_discard_audio_before := -1\<rparr>)"

definition skipped :: "bool \<Rightarrow> player \<Rightarrow> player" where
  "skipped video s = (if video then s\<lparr>m_skipped_video_frames := m_skipped_video_frames s + 1\<rparr> else s)"

text \<open>Frames before a start or scrub target are decoded and not shown.\<close>

definition before_target :: "rat \<Rightarrow> bool \<Rightarrow> player \<Rightarrow> bool \<times> player" where
  "before_target p video s =
     (if discard_before video s < 0 then (False, s)
      else if p + kFrameTolerance < discard_before video s then (True, s)
      else (False, target_reached video s))"

definition shouldDiscard :: "rat \<Rightarrow> nat option \<Rightarrow> rat \<Rightarrow> int \<Rightarrow> player \<Rightarrow> bool \<times> player" where
  "shouldDiscard p epoch shown_for now s =
     (let video = (epoch \<noteq> None)
      in if m_seek_pending s \<or> stale epoch s then (True, s)
         else if catching_up video s
              then (if sender_has_passed p shown_for now s then (True, skipped video s)
                    else before_target p video (caught_up video s))
              else before_target p video s)"

definition kWorthwhileGap :: rat where "kWorthwhileGap = 15 / 100"

definition takeCoarsePreview :: "rat \<Rightarrow> nat \<Rightarrow> int \<Rightarrow> player \<Rightarrow> bool \<times> player" where
  "takeCoarsePreview p epoch now s =
     (if m_seek_pending s \<or> stale (Some epoch) s \<or> rate s > 0 \<or> \<not> m_preview_pending s \<or> \<not> m_scrub_burst s \<or>
         m_coarse_preview_shown s \<or> m_discard_video_before s < 0 \<or>
         m_discard_video_before s - p < kWorthwhileGap \<or> now < m_coarse_preview_after s
      then (False, s) else (True, s\<lparr>m_coarse_preview_shown := True\<rparr>))"

section \<open>When is it shown?\<close>

text \<open>
  One turn of the loop of \<open>waitForPresentation\<close>: the frame is given up, shown with a timestamp for
  OBS, or the thread waits (for a change, or until a time at the latest) and takes another turn. The
  turn that only logs that playback is paused is left out.
\<close>

datatype turn = Give_up | Present int | Wait_for_change | Wait_until int

definition kAudioLeadSeconds :: rat where "kAudioLeadSeconds = 150 / 1000"
definition kClockToleranceNs :: int where "kClockToleranceNs = 5000000000"

definition start_clock :: "rat \<Rightarrow> int \<Rightarrow> player \<Rightarrow> player" where
  "start_clock p now s =
     (if m_clock_initialized s then s
      else if followsSenderClock s
      then s\<lparr>m_clock_initialized := True, m_clock_media_position := m_anchor_position s,
             m_clock_wall_time := m_anchor_wall_time s\<rparr>
      else s\<lparr>m_clock_initialized := True, m_clock_media_position := p, m_clock_wall_time := now\<rparr>)"

definition due_at :: "rat \<Rightarrow> player \<Rightarrow> int" where
  "due_at p s =
     m_clock_wall_time s + to_ns (max 0 (p - m_clock_media_position s) / max (1 / 1000) (rate s))"

definition obs_timestamp :: "int \<Rightarrow> int \<Rightarrow> int" where
  "obs_timestamp target obs_now =
     (let candidate = (if target > 0 then target else obs_now)
      in if candidate > obs_now + kClockToleranceNs \<or> obs_now > candidate + kClockToleranceNs
         then obs_now else candidate)"

text \<open>The reported position follows the picture, or without one what is audible.\<close>

definition report_position :: "rat \<Rightarrow> bool \<Rightarrow> int \<Rightarrow> int \<Rightarrow> player \<Rightarrow> player" where
  "report_position p video target now s =
     (if video then set_position (max (position s) p) s
      else if \<not> pi_has_video (m_info s)
      then set_position (max (position s) (p - max 0 (seconds (target - now) * rate s))) s
      else s)"

definition preview :: "rat \<Rightarrow> player \<Rightarrow> player" where
  "preview p s =
     set_position p (s\<lparr>m_preview_pending := False, m_resync_on_resume := True, m_clock_initialized := False\<rparr>)"

definition paused_turn :: "rat \<Rightarrow> bool \<Rightarrow> int \<Rightarrow> player \<Rightarrow> turn \<times> player" where
  "paused_turn p video obs_now s =
     (if m_preview_pending s \<and> pi_has_video (m_info s)
      then (if video then (Present obs_now, preview p s) else (Give_up, s))
      else (Wait_for_change, s))"

definition playing_turn :: "rat \<Rightarrow> bool \<Rightarrow> int \<Rightarrow> int \<Rightarrow> player \<Rightarrow> turn \<times> player" where
  "playing_turn p video now obs_now s0 =
     (let s = start_clock p now s0;
          target = due_at p s;
          wake = (if video then target else target - to_ns kAudioLeadSeconds)
      in if now \<ge> wake then (Present (obs_timestamp target obs_now), report_position p video target now s)
         else (Wait_until wake, s))"

definition waitForPresentation :: "rat \<Rightarrow> nat option \<Rightarrow> int \<Rightarrow> int \<Rightarrow> player \<Rightarrow> turn \<times> player" where
  "waitForPresentation p epoch now obs_now s =
     (if m_stop_requested s \<or> m_seek_pending s \<or> stale epoch s then (Give_up, s)
      else if rate s \<le> 0 then paused_turn p (epoch \<noteq> None) obs_now s
      else playing_turn p (epoch \<noteq> None) now obs_now s)"

section \<open>The worker\<close>

text \<open>\<open>openItem\<close> publishes what it found.\<close>

definition publish :: "rat option \<Rightarrow> bool \<Rightarrow> bool \<Rightarrow> player \<Rightarrow> player" where
  "publish duration has_video has_audio s =
     (let d = (case duration of Some x \<Rightarrow> x | None \<Rightarrow> 0)
      in s\<lparr>m_info := (m_info s)\<lparr>
             pi_position := (if duration \<noteq> None then min (position s) d else position s),
             pi_duration := d, pi_seek_start := 0, pi_seek_duration := d, pi_duration_known := duration \<noteq> None,
             pi_has_video := has_video, pi_has_audio := has_audio, pi_ready_to_play := True,
             pi_buffer_empty := False, pi_buffer_full := True, pi_likely_to_keep_up := True\<rparr>\<rparr>)"

text \<open>\<open>handlePendingSeek\<close> under the lock: the target, if a seek is pending.\<close>

definition take_seek :: "player \<Rightarrow> rat option \<times> player" where
  "take_seek s =
     (if m_seek_pending s
      then (Some (m_seek_target s),
            s\<lparr>m_seek_pending := False, m_clock_initialized := False, m_queue_epoch := m_queue_epoch s + 1\<rparr>)
      else (None, s))"

text \<open>The worker asks itself for a seek to the position on screen.\<close>

definition seek_here :: "player \<Rightarrow> player" where
  "seek_here s =
     s\<lparr>m_seek_target := position s, m_seek_pending := True, m_discard_video_before := position s,
       m_discard_audio_before := position s, m_clock_initialized := False\<rparr>"

text \<open>The end of \<open>decodePacket\<close>, after the decoder was opened again in software.\<close>

definition continue_in_software :: "player \<Rightarrow> player" where
  "continue_in_software s = (if m_seek_pending s then s else seek_here s)"

text \<open>One turn of \<open>holdUntilEnd\<close>: it returns, or waits.\<close>

datatype hold = Held bool | Hold_on "int option"

definition hold_turn :: "rat \<Rightarrow> int \<Rightarrow> player \<Rightarrow> hold \<times> player" where
  "hold_turn end_at now s =
     (if m_stop_requested s then (Held True, s)
      else if m_seek_pending s then (Held False, s)
      else if end_at \<le> position s \<or> \<not> m_clock_initialized s then (Held True, s)
      else if rate s \<le> 0 then (Hold_on None, s)
      else if now \<ge> due_at end_at s then (Held True, set_position end_at s)
      else (Hold_on (Some (due_at end_at s)), s))"

definition markEnded :: "player \<Rightarrow> player" where
  "markEnded s =
     s\<lparr>m_info := (m_info s)\<lparr>pi_ended := True, pi_rate := 0, pi_buffer_empty := True, pi_buffer_full := False\<rparr>\<rparr>"

section \<open>An input that ends early\<close>

text \<open>The struct \<open>ReadProgress\<close>.\<close>

record read_progress =
  recoveries :: nat
  position_at_recovery :: rat
  seek_generation_at_recovery :: nat
  demuxed_until :: rat
  demuxed_generation :: nat
  demuxed_since_seek :: bool

definition progress_new :: read_progress where
  "progress_new = \<lparr>recoveries = 0, position_at_recovery = -1, seek_generation_at_recovery = 0, demuxed_until = 0,
     demuxed_generation = 0, demuxed_since_seek = False\<rparr>"

definition rewindEndOfFile :: "read_progress \<Rightarrow> read_progress" where
  "rewindEndOfFile r = r\<lparr>demuxed_since_seek := False\<rparr>"

text \<open>
  Where a packet with a time stamp ends; \<open>time_base\<close> is that of the stream the packet names, if there
  is such a stream.
\<close>

definition packet_end :: "int \<Rightarrow> int \<Rightarrow> rat \<Rightarrow> rat \<Rightarrow> rat" where
  "packet_end pts duration time_base format_start = of_int (pts + max 0 duration) * time_base - format_start"

definition noteDemuxed :: "int option \<Rightarrow> int \<Rightarrow> rat option \<Rightarrow> rat \<Rightarrow> player \<Rightarrow> read_progress \<Rightarrow> read_progress" where
  "noteDemuxed pts duration time_base format_start s r =
     (case (pts, time_base) of
        (Some t, Some tb) \<Rightarrow>
          (let r' = (if demuxed_generation r \<noteq> m_seek_generation s
                     then r\<lparr>demuxed_generation := m_seek_generation s, demuxed_until := 0\<rparr> else r)
           in r'\<lparr>demuxed_until := max (demuxed_until r') (packet_end t duration tb format_start),
                 demuxed_since_seek := True\<rparr>)
      | _ \<Rightarrow> r)"

definition kMaxReadRecoveries :: nat where "kMaxReadRecoveries = 3"
definition kRecoveryProgress :: rat where "kRecoveryProgress = 5 / 10"
definition kEndTolerance :: rat where "kEndTolerance = 1"
definition kDemuxedEndTolerance :: rat where "kDemuxedEndTolerance = 1 / 10"

text \<open>Real progress earns a fresh set of attempts.\<close>

definition renew :: "player \<Rightarrow> read_progress \<Rightarrow> read_progress" where
  "renew s r =
     (let r' = (if position s > position_at_recovery r + kRecoveryProgress \<or>
                   m_seek_generation s \<noteq> seek_generation_at_recovery r
                then r\<lparr>recoveries := 0\<rparr> else r)
      in r'\<lparr>seek_generation_at_recovery := m_seek_generation s\<rparr>)"

text \<open>
  The end of the input is early: not at the end of the bytes after a packet was read, well before
  the stated duration, which no packet reached since the last scrub.
\<close>

definition ends_early :: "bool \<Rightarrow> rat option \<Rightarrow> player \<Rightarrow> read_progress \<Rightarrow> bool" where
  "ends_early bytes_at_end duration s r \<longleftrightarrow>
     \<not> (bytes_at_end \<and> demuxed_since_seek r) \<and>
     (case duration of
        None \<Rightarrow> False
      | Some d \<Rightarrow> position s < d - kEndTolerance \<and>
          \<not> (demuxed_generation r = m_seek_generation s \<and> demuxed_until r \<ge> d - kDemuxedEndTolerance))"

text \<open>\<open>bytes_at_end\<close>: the input has a size and its position is at or past it.\<close>

definition readOnAfterEnd :: "bool \<Rightarrow> rat option \<Rightarrow> player \<Rightarrow> read_progress \<Rightarrow> bool \<times> (player \<times> read_progress)" where
  "readOnAfterEnd bytes_at_end duration s r0 =
     (let r = renew s r0
      in if m_seek_pending s then (True, (s, rewindEndOfFile r))
         else if ends_early bytes_at_end duration s r \<and> recoveries r < kMaxReadRecoveries
         then (True, (seek_here s,
                      rewindEndOfFile (r\<lparr>recoveries := recoveries r + 1, position_at_recovery := position s\<rparr>)))
         else (False, (s, r)))"

section \<open>What always holds\<close>

text \<open>
  What is reported to the sender fits together, and what the threads keep for themselves: a pending
  seek stops the clock and discards what is before its target, and a position that was previewed
  while paused is still paused at.
\<close>

definition info_ok :: "rat playback_info \<Rightarrow> bool" where
  "info_ok i \<longleftrightarrow> 0 \<le> pi_rate i \<and> (pi_ended i \<longrightarrow> pi_rate i = 0) \<and> 0 \<le> pi_position i \<and>
     (pi_duration_known i \<longleftrightarrow> 0 < pi_duration i) \<and> 0 \<le> pi_duration i \<and>
     pi_seek_start i = 0 \<and> pi_seek_duration i = pi_duration i \<and>
     (pi_buffer_full i \<longleftrightarrow> \<not> pi_buffer_empty i) \<and> (pi_ready_to_play i \<longrightarrow> pi_has_video i \<or> pi_has_audio i) \<and>
     (pi_likely_to_keep_up i \<longleftrightarrow> pi_ready_to_play i) \<and> (pi_buffer_full i \<longrightarrow> pi_ready_to_play i)"

definition player_ok :: "player \<Rightarrow> bool" where
  "player_ok s \<longleftrightarrow> info_ok (m_info s) \<and> 0 \<le> m_seek_target s \<and>
     (m_seek_pending s \<longrightarrow> \<not> m_clock_initialized s \<and> m_discard_video_before s = m_seek_target s \<and>
        m_discard_audio_before s = m_seek_target s) \<and>
     (m_resync_on_resume s \<longrightarrow> rate s = 0 \<and> \<not> m_clock_initialized s)"

lemmas player_oks = player_ok_def info_ok_def

lemma info_ok_position: "info_ok i \<Longrightarrow> 0 \<le> p \<Longrightarrow> info_ok (i\<lparr>pi_position := p\<rparr>)"
  by (simp add: info_ok_def)

lemma info_ok_rate: "info_ok i \<Longrightarrow> 0 \<le> r \<Longrightarrow> (pi_ended i \<Longrightarrow> r = 0) \<Longrightarrow> info_ok (i\<lparr>pi_rate := r\<rparr>)"
  by (simp add: info_ok_def)

lemma info_ok_nonneg: "info_ok i \<Longrightarrow> 0 \<le> pi_position i" "info_ok i \<Longrightarrow> 0 \<le> pi_rate i"
  "info_ok i \<Longrightarrow> pi_ended i \<Longrightarrow> pi_rate i = 0" "info_ok i \<Longrightarrow> 0 \<le> pi_duration i"
  by (simp_all add: info_ok_def)

lemmas info_oks = info_ok_position info_ok_rate info_ok_nonneg

lemma player_ok_simps:
  assumes "player_ok s"
  shows "0 \<le> position s" "0 \<le> rate s" "ended s \<Longrightarrow> rate s = 0" "0 \<le> pi_duration (m_info s)" "0 \<le> m_seek_target s"
  using assms info_oks(3-6) [of "m_info s"] by (simp_all add: player_ok_def)

lemma clamp_position_bounds: "0 \<le> clamp_position p" "clamp_position p \<le> kMaxPositionSeconds"
  by (cases p; simp add: kMaxPositionSeconds_def)+

lemma player_new_ok: "player_ok player_new"
  by (simp add: player_oks player_new_def no_playback_def)

lemma play_state_ok: "0 \<le> r \<Longrightarrow> player_ok (play_state location p r now s)"
  by (simp add: player_oks play_state_def no_playback_def Let_def clamp_position_bounds)

lemma request_stop_ok: "player_ok s \<Longrightarrow> player_ok (request_stop s)"
  by (simp add: player_oks request_stop_def)

lemma finish_stop_ok: "player_ok s \<Longrightarrow> player_ok (finish_stop s)"
  by (simp add: player_oks finish_stop_def)

lemma markOpenFailure_ok: "player_ok s \<Longrightarrow> player_ok (markOpenFailure s)"
  by (simp add: player_oks markOpenFailure_def)

lemma start_worker_ok: "player_ok s \<Longrightarrow> player_ok (start_worker starts s)"
  by (auto simp: start_worker_def Let_def intro!: markOpenFailure_ok) (simp_all add: player_oks)

lemma scrub_timing_simps [simp]:
  "m_info (scrub_timing now s) = m_info s" "m_seek_target (scrub_timing now s) = m_seek_target s"
  by (simp_all add: scrub_timing_def Let_def)

lemma seekLocked_ok: "player_ok s \<Longrightarrow> player_ok (seekLocked p now s)"
  by (simp add: player_ok_def seekLocked_def scrub_to_def Let_def set_position_def info_oks)

lemma seek_done_ok: "player_ok s \<Longrightarrow> seek p now s = Seek_done s' \<Longrightarrow> player_ok s'"
  by (simp add: seek_def Let_def split: if_splits) (metis seekLocked_ok)+

lemma seek_reopens_in_range:
  "player_ok s \<Longrightarrow> seek p now s = Seek_reopens location q \<Longrightarrow> 0 \<le> q \<and> q \<le> kMaxPositionSeconds"
  using clamp_position_bounds [of p]
  by (auto simp: seek_def Let_def player_ok_def info_oks min_le_iff_disj split: if_splits)

lemma move_anchor_simps [simp]:
  "m_info (move_anchor r now s) = m_info s" "m_seek_pending (move_anchor r now s) = m_seek_pending s"
  "m_seek_target (move_anchor r now s) = m_seek_target s"
  "m_clock_initialized (move_anchor r now s) = m_clock_initialized s"
  "m_discard_video_before (move_anchor r now s) = m_discard_video_before s"
  "m_discard_audio_before (move_anchor r now s) = m_discard_audio_before s"
  "m_resync_on_resume (move_anchor r now s) = m_resync_on_resume s"
  "m_queue_epoch (move_anchor r now s) = m_queue_epoch s"
  by (simp_all add: move_anchor_def)

lemma move_clock_simps [simp]:
  "m_info (move_clock now s) = m_info s" "m_seek_pending (move_clock now s) = m_seek_pending s"
  "m_seek_target (move_clock now s) = m_seek_target s"
  "m_clock_initialized (move_clock now s) = m_clock_initialized s"
  "m_discard_video_before (move_clock now s) = m_discard_video_before s"
  "m_discard_audio_before (move_clock now s) = m_discard_audio_before s"
  "m_resync_on_resume (move_clock now s) = m_resync_on_resume s"
  "m_queue_epoch (move_clock now s) = m_queue_epoch s"
  by (simp_all add: move_clock_def)

lemma set_rate_ok: "player_ok s \<Longrightarrow> 0 \<le> r \<Longrightarrow> (ended s \<Longrightarrow> r = 0) \<Longrightarrow> info_ok (m_info (set_rate r s))"
  by (simp add: set_rate_def player_ok_def info_oks)

lemma setRate_ok:
  assumes s: "player_ok s"
  shows "player_ok (setRate r now s)"
proof (cases "ended s \<and> rate_of r > 0")
  case True
  then show ?thesis using s by (simp add: setRate_def)
next
  case False
  let ?t = "move_clock now (move_anchor (rate s) now (set_rate (max 0 (rate_of r)) s))"
  have i: "info_ok (m_info ?t)" using False s by (auto intro!: set_rate_ok)
  have t: "m_seek_pending ?t = m_seek_pending s" "m_clock_initialized ?t = m_clock_initialized s"
      "m_seek_target ?t = m_seek_target s" "m_discard_video_before ?t = m_discard_video_before s"
      "m_discard_audio_before ?t = m_discard_audio_before s" "m_resync_on_resume ?t = m_resync_on_resume s"
      "position ?t = position s"
    by (simp_all add: set_rate_def)
  have "setRate r now s = resume ?t" using False by (auto simp: setRate_def)
  then show ?thesis
    using i t s info_ok_nonneg [OF i]
    by (cases "rate ?t > 0") (auto simp: resume_def player_ok_def)
qed

lemma pauseForPlaylistRemoval_ok: "player_ok s \<Longrightarrow> player_ok (snd (pauseForPlaylistRemoval s))"
  by (simp add: player_ok_def pauseForPlaylistRemoval_def set_rate_def info_oks)

lemma before_target_ok: "player_ok s \<Longrightarrow> \<not> m_seek_pending s \<Longrightarrow> player_ok (snd (before_target p video s))"
  by (auto simp: before_target_def target_reached_def player_oks)

lemma caught_up_ok: "player_ok s \<Longrightarrow> player_ok (caught_up video s)" "m_seek_pending (caught_up video s) = m_seek_pending s"
  by (simp_all add: caught_up_def player_oks)

lemma shouldDiscard_ok: "player_ok s \<Longrightarrow> player_ok (snd (shouldDiscard p epoch shown_for now s))"
  by (auto simp: shouldDiscard_def Let_def caught_up_ok before_target_ok) (simp add: skipped_def player_oks)

lemma takeCoarsePreview_ok: "player_ok s \<Longrightarrow> player_ok (snd (takeCoarsePreview p epoch now s))"
  by (simp add: takeCoarsePreview_def player_oks)

lemma start_clock_ok: "player_ok s \<Longrightarrow> rate s > 0 \<Longrightarrow> \<not> m_seek_pending s \<Longrightarrow> player_ok (start_clock p now s)"
  by (auto simp: start_clock_def player_ok_def)

lemma set_position_ok: "player_ok s \<Longrightarrow> 0 \<le> p \<Longrightarrow> player_ok (set_position p s)"
  by (simp add: player_ok_def set_position_def info_oks)

lemma report_position_ok: "player_ok s \<Longrightarrow> 0 \<le> p \<Longrightarrow> player_ok (report_position p video target now s)"
  by (auto simp: report_position_def le_max_iff_disj player_ok_simps intro!: set_position_ok)

lemma preview_ok: "player_ok s \<Longrightarrow> 0 \<le> p \<Longrightarrow> rate s \<le> 0 \<Longrightarrow> \<not> m_seek_pending s \<Longrightarrow> player_ok (preview p s)"
  by (auto simp: preview_def player_ok_def set_position_def info_oks intro: antisym)

lemma playing_turn_ok:
  assumes "player_ok s" "0 \<le> p" "rate s > 0" "\<not> m_seek_pending s"
  shows "player_ok (snd (playing_turn p video now obs_now s))"
  using assms by (auto simp: playing_turn_def Let_def intro!: report_position_ok start_clock_ok)

lemma waitForPresentation_ok:
  assumes "player_ok s" "0 \<le> p"
  shows "player_ok (snd (waitForPresentation p epoch now obs_now s))"
  using assms
  by (auto simp: waitForPresentation_def paused_turn_def intro!: preview_ok playing_turn_ok)

lemma publish_ok:
  assumes "player_ok s" "\<forall>d. duration = Some d \<longrightarrow> 0 < d" "has_video \<or> has_audio"
  shows "player_ok (publish duration has_video has_audio s)"
  using assms by (cases duration) (auto simp: publish_def player_oks)

lemma take_seek_ok: "player_ok s \<Longrightarrow> player_ok (snd (take_seek s))"
  by (simp add: take_seek_def player_oks)

lemma seek_here_ok: "player_ok s \<Longrightarrow> player_ok (seek_here s)"
  by (simp add: seek_here_def player_oks)

lemma continue_in_software_ok: "player_ok s \<Longrightarrow> player_ok (continue_in_software s)"
  by (simp add: continue_in_software_def seek_here_ok)

lemma hold_turn_ok: "player_ok s \<Longrightarrow> player_ok (snd (hold_turn end_at now s))"
  using player_ok_simps(1) [of s] by (auto simp: hold_turn_def not_le intro!: set_position_ok)

lemma markEnded_ok: "player_ok s \<Longrightarrow> player_ok (markEnded s)"
  by (simp add: markEnded_def player_oks)

lemma readOnAfterEnd_ok: "player_ok s \<Longrightarrow> player_ok (fst (snd (readOnAfterEnd at_end duration s r)))"
  by (simp add: readOnAfterEnd_def Let_def seek_here_ok)

lemmas player_steps_ok = request_stop_ok finish_stop_ok markOpenFailure_ok start_worker_ok seekLocked_ok setRate_ok
  pauseForPlaylistRemoval_ok shouldDiscard_ok takeCoarsePreview_ok take_seek_ok continue_in_software_ok hold_turn_ok
  markEnded_ok readOnAfterEnd_ok

end
