(* ===== verification/Player_Threads.thy ===== *)
theory Player_Threads
  imports Player_Control
begin

text \<open>
  \<^verbatim>\<open>src/media-player.cpp\<close>, class \<open>MediaPlayer::Impl\<close>: the threads of the player and the queue of
  decoded pictures between them. The worker reads, decodes and queues pictures and presents sound; the
  presenter takes pictures from the queue and shows them; the sender's commands come from other
  threads at any time. A step is one stretch of code under a lock, and the steps of the threads
  interleave freely. Within a thread the worker's steps are allowed in any order (the order the code
  has them in is \<open>Player_Worker\<close>), so what holds here holds for whatever the demuxer and the decoders give.
\<close>

section \<open>Frames in the queue\<close>

text \<open>
  What a decoded frame and its stream say about time; \<open>AV_NOPTS_VALUE\<close> is no time stamp. For the
  properties a frame also carries the furthest position of the frames that were queued before it
  since the latest seek (\<open>qf_before\<close>, negative if there is none); no code reads it.
\<close>

record av_stream =
  time_base :: rat
  avg_frame_rate :: "int \<times> int"
  r_frame_rate :: "int \<times> int"

record queued_frame =
  qf_timestamp :: "int option"
  qf_duration :: int
  qf_stream :: av_stream
  qf_start :: rat
  qf_epoch :: nat
  qf_before :: rat

definition timestamp_seconds :: "int option \<Rightarrow> av_stream \<Rightarrow> rat \<Rightarrow> rat" where
  "timestamp_seconds timestamp stream start =
     (case timestamp of None \<Rightarrow> -1 | Some t \<Rightarrow> max 0 (of_int t * time_base stream - start))"

definition frameSeconds :: "int \<Rightarrow> av_stream \<Rightarrow> rat" where
  "frameSeconds duration stream =
     (if duration > 0 then of_int duration * time_base stream
      else (case (if fst (avg_frame_rate stream) > 0 \<and> snd (avg_frame_rate stream) > 0
                  then avg_frame_rate stream else r_frame_rate stream) of
              (n, d) \<Rightarrow> if n > 0 \<and> d > 0 then of_int d / of_int n else 0))"

definition q_position :: "queued_frame \<Rightarrow> rat" where
  "q_position q = timestamp_seconds (qf_timestamp q) (qf_stream q) (qf_start q)"

definition q_shown_for :: "queued_frame \<Rightarrow> rat" where
  "q_shown_for q = frameSeconds (qf_duration q) (qf_stream q)"

definition kVideoQueueFrames :: nat where "kVideoQueueFrames = 3"

section \<open>The threads\<close>

text \<open>Where the presenter is: it waits for a frame, or is at a place of \<open>emitVideo\<close> with one.\<close>

datatype presenter =
    Waits
  | Has queued_frame
  | Begins queued_frame
  | Late queued_frame
  | Shows queued_frame
  | Shows_coarse queued_frame

text \<open>
  Pictures that were handed to OBS, for the properties: the frame's epoch and position, the seeks
  carried out until then, the target of the latest one (negative when playback started at the
  beginning), and the furthest position decoded since then before this frame.
\<close>

record picture =
  pic_epoch :: nat
  pic_position :: rat
  pic_exact :: bool
  pic_seeks :: nat
  pic_target :: rat
  pic_before :: rat

text \<open>
  \<open>aim\<close> is the target the frames of the current epoch are meant for and \<open>newest\<close> the furthest position
  of those that were queued; no code reads them.
\<close>

record threads =
  pl :: player
  m_video_queue :: "queued_frame list"
  presenter :: presenter
  worker_runs :: bool
  aim :: rat
  newest :: rat
  pictures :: "picture list"

definition threads_new :: threads where
  "threads_new = \<lparr>pl = player_new, m_video_queue = [], presenter = Waits, worker_runs = False, aim = -1, newest = -1,
     pictures = []\<rparr>"

section \<open>The presenter\<close>

definition take_frame :: "threads \<Rightarrow> threads" where
  "take_frame t =
     (case m_video_queue t of [] \<Rightarrow> t | q # qs \<Rightarrow> t\<lparr>m_video_queue := qs, presenter := Has q\<rparr>)"

text \<open>The start of \<open>emitVideo\<close>: a frame without a position or of an older epoch is dropped.\<close>

definition begin_frame :: "threads \<Rightarrow> threads" where
  "begin_frame t =
     (case presenter t of
        Has q \<Rightarrow>
          t\<lparr>presenter := (if q_position q < 0 \<or> qf_epoch q \<noteq> m_queue_epoch (pl t) then Waits else Begins q)\<rparr>
      | _ \<Rightarrow> t)"

definition check_frame :: "int \<Rightarrow> threads \<Rightarrow> threads" where
  "check_frame now t =
     (case presenter t of
        Begins q \<Rightarrow>
          (case shouldDiscard (q_position q) (Some (qf_epoch q)) (q_shown_for q) now (pl t) of
             (dropped, s) \<Rightarrow> t\<lparr>pl := s, presenter := (if dropped then Late q else Shows q)\<rparr>)
      | _ \<Rightarrow> t)"

definition coarse_frame :: "int \<Rightarrow> threads \<Rightarrow> threads" where
  "coarse_frame now t =
     (case presenter t of
        Late q \<Rightarrow>
          (case takeCoarsePreview (q_position q) (qf_epoch q) now (pl t) of
             (taken, s) \<Rightarrow> t\<lparr>pl := s, presenter := (if taken then Shows_coarse q else Waits)\<rparr>)
      | _ \<Rightarrow> t)"

definition show_picture :: "queued_frame \<Rightarrow> bool \<Rightarrow> player \<Rightarrow> threads \<Rightarrow> threads" where
  "show_picture q exact s t =
     t\<lparr>pl := s, presenter := Waits,
       pictures := \<lparr>pic_epoch = qf_epoch q, pic_position = q_position q, pic_exact = exact,
         pic_seeks = m_queue_epoch s, pic_target = aim t, pic_before = qf_before q\<rparr> # pictures t\<rparr>"

definition show_frame :: "int \<Rightarrow> int \<Rightarrow> threads \<Rightarrow> threads" where
  "show_frame now obs_now t =
     (case presenter t of
        Shows q \<Rightarrow>
          (case waitForPresentation (q_position q) (Some (qf_epoch q)) now obs_now (pl t) of
             (Give_up, s) \<Rightarrow> t\<lparr>pl := s, presenter := Waits\<rparr>
           | (Present ts, s) \<Rightarrow> show_picture q True s t
           | (_, s) \<Rightarrow> t\<lparr>pl := s\<rparr>)
      | Shows_coarse q \<Rightarrow> show_picture q False (pl t) t
      | _ \<Rightarrow> t)"

section \<open>The worker\<close>

text \<open>\<open>queueVideoFrame\<close>, once there is room, and \<open>clearVideoQueue\<close>.\<close>

definition queueVideoFrame :: "queued_frame \<Rightarrow> threads \<Rightarrow> threads" where
  "queueVideoFrame q t =
     t\<lparr>m_video_queue := m_video_queue t @ [q\<lparr>qf_epoch := m_queue_epoch (pl t), qf_before := newest t\<rparr>],
       newest := max (newest t) (q_position q)\<rparr>"

definition clearVideoQueue :: "threads \<Rightarrow> threads" where
  "clearVideoQueue t = t\<lparr>m_video_queue := []\<rparr>"

definition take_pending_seek :: "threads \<Rightarrow> threads" where
  "take_pending_seek t =
     (case take_seek (pl t) of
        (Some target, s) \<Rightarrow> t\<lparr>pl := s, aim := target, newest := -1\<rparr>
      | (None, s) \<Rightarrow> t)"

section \<open>The steps\<close>

datatype player_event =
    Cmd_play string c_double rat int
  | Cmd_request_stop
  | Cmd_finish_stop
  | Cmd_start_worker bool
  | Cmd_seek c_double int
  | Cmd_rate c_double int
  | Cmd_pause
  | Cmd_follow bool
  | W_publish "rat option" bool bool
  | W_open_failed
  | W_take_seek
  | W_clear_queue
  | W_queue queued_frame
  | W_software
  | W_check_sound rat int
  | W_sound_turn rat int int
  | W_read_ended bool "rat option" read_progress
  | W_hold rat int
  | W_ended
  | W_exits
  | P_take
  | P_begin
  | P_check int
  | P_coarse int
  | P_show int int
  | P_cannot_convert

fun perform :: "threads \<Rightarrow> player_event \<Rightarrow> threads" where
  "perform t (Cmd_play location p r now) =
     (let s = play_state location p r now (pl t) in t\<lparr>pl := s, aim := m_discard_video_before s, newest := -1\<rparr>)"
| "perform t Cmd_request_stop = t\<lparr>pl := request_stop (pl t)\<rparr>"
| "perform t Cmd_finish_stop = t\<lparr>pl := finish_stop (pl t)\<rparr>"
| "perform t (Cmd_start_worker starts) = t\<lparr>pl := start_worker starts (pl t), worker_runs := starts\<rparr>"
| "perform t (Cmd_seek p now) = (case seek p now (pl t) of Seek_done s \<Rightarrow> t\<lparr>pl := s\<rparr> | _ \<Rightarrow> t)"
| "perform t (Cmd_rate r now) = t\<lparr>pl := setRate r now (pl t)\<rparr>"
| "perform t Cmd_pause = t\<lparr>pl := snd (pauseForPlaylistRemoval (pl t))\<rparr>"
| "perform t (Cmd_follow follow) = t\<lparr>pl := (pl t)\<lparr>g_follow := follow\<rparr>\<rparr>"
| "perform t (W_publish duration has_video has_audio) = t\<lparr>pl := publish duration has_video has_audio (pl t)\<rparr>"
| "perform t W_open_failed = t\<lparr>pl := markOpenFailure (pl t)\<rparr>"
| "perform t W_take_seek = take_pending_seek t"
| "perform t W_clear_queue = clearVideoQueue t"
| "perform t (W_queue q) = queueVideoFrame q t"
| "perform t W_software = t\<lparr>pl := continue_in_software (pl t)\<rparr>"
| "perform t (W_check_sound p now) = t\<lparr>pl := snd (shouldDiscard p None 0 now (pl t))\<rparr>"
| "perform t (W_sound_turn p now obs_now) = t\<lparr>pl := snd (waitForPresentation p None now obs_now (pl t))\<rparr>"
| "perform t (W_read_ended at_end duration r) = t\<lparr>pl := fst (snd (readOnAfterEnd at_end duration (pl t) r))\<rparr>"
| "perform t (W_hold end_at now) = t\<lparr>pl := snd (hold_turn end_at now (pl t))\<rparr>"
| "perform t W_ended = t\<lparr>pl := markEnded (pl t)\<rparr>"
| "perform t W_exits = t\<lparr>worker_runs := False\<rparr>"
| "perform t P_take = take_frame t"
| "perform t P_begin = begin_frame t"
| "perform t (P_check now) = check_frame now t"
| "perform t (P_coarse now) = coarse_frame now t"
| "perform t (P_show now obs_now) = show_frame now obs_now t"
| "perform t P_cannot_convert = t\<lparr>presenter := Waits\<rparr>"

text \<open>
  When a step can be taken. Playing an item starts only when the worker of the previous one has been
  joined, the worker ends only when it has joined the presenter and emptied the queue; a picture is
  queued when there is room, whatever its time stamp is. A demuxer's duration is positive when it is
  known.
\<close>

fun enabled :: "threads \<Rightarrow> player_event \<Rightarrow> bool" where
  "enabled t (Cmd_play location p r now) = (\<not> worker_runs t \<and> 0 \<le> r)"
| "enabled t Cmd_finish_stop = (\<not> worker_runs t)"
| "enabled t (Cmd_start_worker starts) = (\<not> worker_runs t)"
| "enabled t (W_publish duration has_video has_audio) =
     (worker_runs t \<and> (case duration of None \<Rightarrow> True | Some d \<Rightarrow> 0 < d) \<and> (has_video \<or> has_audio))"
| "enabled t (W_queue q) = (worker_runs t \<and> length (m_video_queue t) < kVideoQueueFrames)"
| "enabled t (W_sound_turn p now obs_now) = (worker_runs t \<and> 0 \<le> p)"
| "enabled t W_exits = (worker_runs t \<and> m_video_queue t = [] \<and> presenter t = Waits)"
| "enabled t P_take = (presenter t = Waits \<and> \<not> m_stop_requested (pl t))"
| "enabled t P_begin = (worker_runs t \<and> (case presenter t of Has q \<Rightarrow> True | _ \<Rightarrow> False))"
| "enabled t (P_check now) = (worker_runs t \<and> (case presenter t of Begins q \<Rightarrow> True | _ \<Rightarrow> False))"
| "enabled t (P_coarse now) = (worker_runs t \<and> (case presenter t of Late q \<Rightarrow> True | _ \<Rightarrow> False))"
| "enabled t (P_show now obs_now) =
     (worker_runs t \<and> (case presenter t of Shows q \<Rightarrow> True | Shows_coarse q \<Rightarrow> True | _ \<Rightarrow> False))"
| "enabled t P_cannot_convert =
     (worker_runs t \<and> (case presenter t of Shows q \<Rightarrow> True | Shows_coarse q \<Rightarrow> True | _ \<Rightarrow> False))"
| "enabled t Cmd_request_stop = True"
| "enabled t (Cmd_seek p now) = True"
| "enabled t (Cmd_rate r now) = True"
| "enabled t Cmd_pause = True"
| "enabled t (Cmd_follow follow) = True"
| "enabled t _ = worker_runs t"

text \<open>The states the player can come to.\<close>

inductive player_reach :: "threads \<Rightarrow> bool" where
  start: "player_reach threads_new"
| step: "player_reach t \<Longrightarrow> enabled t e \<Longrightarrow> player_reach (perform t e)"

text \<open>A run of given steps, if each can be taken.\<close>

fun perform_all :: "threads \<Rightarrow> player_event list \<Rightarrow> threads option" where
  "perform_all t [] = Some t"
| "perform_all t (e # es) = (if enabled t e then perform_all (perform t e) es else None)"

lemma perform_all_reach: "perform_all t es = Some u \<Longrightarrow> player_reach t \<Longrightarrow> player_reach u"
  by (induction es arbitrary: t) (auto intro: player_reach.step split: if_splits)

section \<open>The invariant\<close>

text \<open>Of two frames of one epoch the later one knows of the earlier.\<close>

definition in_order :: "queued_frame \<Rightarrow> queued_frame \<Rightarrow> bool" where
  "in_order a b \<longleftrightarrow> (qf_epoch a = qf_epoch b \<longrightarrow> q_position a \<le> qf_before b)"

fun held :: "presenter \<Rightarrow> queued_frame list" where
  "held Waits = []"
| "held (Has q) = [q]"
| "held (Begins q) = [q]"
| "held (Late q) = [q]"
| "held (Shows q) = [q]"
| "held (Shows_coarse q) = [q]"

fun to_check :: "presenter \<Rightarrow> queued_frame list" where
  "to_check (Has q) = [q]"
| "to_check (Begins q) = [q]"
| "to_check _ = []"

fun chosen :: "presenter \<Rightarrow> queued_frame list" where
  "chosen (Shows q) = [q]"
| "chosen _ = []"

fun positioned :: "presenter \<Rightarrow> queued_frame list" where
  "positioned (Begins q) = [q]"
| "positioned (Late q) = [q]"
| "positioned (Shows q) = [q]"
| "positioned _ = []"

definition frames :: "threads \<Rightarrow> queued_frame list" where
  "frames t = held (presenter t) @ m_video_queue t"

definition line_ok :: "nat \<Rightarrow> rat \<Rightarrow> queued_frame list \<Rightarrow> bool" where
  "line_ok epoch newest_position qs \<longleftrightarrow> sorted_wrt in_order qs \<and>
     (\<forall>q\<in>set qs. qf_epoch q \<le> epoch \<and> (qf_epoch q = epoch \<longrightarrow> q_position q \<le> newest_position))"

text \<open>
  A position is not before the target \<open>a\<close> (by more than 20 ms); a frame has arrived when it, or one
  queued before it, is not.
\<close>

definition in_place :: "rat \<Rightarrow> rat \<Rightarrow> bool" where
  "in_place a p \<longleftrightarrow> a \<le> p + kFrameTolerance"

definition arrived :: "rat \<Rightarrow> queued_frame \<Rightarrow> bool" where
  "arrived a q \<longleftrightarrow> in_place a (max (qf_before q) (q_position q))"

text \<open>
  As long as no seek is pending, the discard limit is the current target, or the target was reached
  and what is queued for it comes after it.
\<close>

definition aim_ok :: "threads \<Rightarrow> bool" where
  "aim_ok t \<longleftrightarrow>
     (\<not> m_seek_pending (pl t) \<longrightarrow>
        (0 \<le> m_discard_video_before (pl t) \<longrightarrow> m_discard_video_before (pl t) = aim t) \<and>
        (m_discard_video_before (pl t) < 0 \<and> 0 \<le> aim t \<longrightarrow> in_place (aim t) (newest t) \<and>
           (\<forall>q\<in>set (to_check (presenter t) @ m_video_queue t).
              qf_epoch q = m_queue_epoch (pl t) \<longrightarrow> arrived (aim t) q)) \<and>
        (\<forall>q\<in>set (chosen (presenter t)). qf_epoch q = m_queue_epoch (pl t) \<longrightarrow> arrived (aim t) q))"

definition picture_ok :: "picture \<Rightarrow> bool" where
  "picture_ok p \<longleftrightarrow> (pic_exact p \<longrightarrow> pic_epoch p = pic_seeks p \<and> in_place (pic_target p) (max (pic_before p) (pic_position p)))"

definition threads_ok :: "threads \<Rightarrow> bool" where
  "threads_ok t \<longleftrightarrow> player_ok (pl t) \<and> length (m_video_queue t) \<le> kVideoQueueFrames \<and>
     (\<not> worker_runs t \<longrightarrow> m_video_queue t = [] \<and> presenter t = Waits) \<and>
     (\<forall>q\<in>set (positioned (presenter t)). 0 \<le> q_position q) \<and>
     line_ok (m_queue_epoch (pl t)) (newest t) (frames t) \<and> aim_ok t \<and> list_all picture_ok (pictures t)"

text \<open>Operations of the player that leave the pictures' targets alone, or make a seek pending.\<close>

definition calm :: "player \<Rightarrow> player \<Rightarrow> bool" where
  "calm s s' \<longleftrightarrow> m_queue_epoch s' = m_queue_epoch s \<and>
     (m_seek_pending s' \<or> \<not> m_seek_pending s \<and> m_discard_video_before s' = m_discard_video_before s)"

lemma calm_refl [simp]: "calm s s"
  by (simp add: calm_def)

lemma calm_threads_ok:
  "threads_ok t \<Longrightarrow> calm (pl t) s \<Longrightarrow> player_ok s \<Longrightarrow> threads_ok (t\<lparr>pl := s\<rparr>)"
  by (auto simp: threads_ok_def calm_def aim_ok_def frames_def)

lemma calm_seekLocked: "calm s (seekLocked p now s)"
  by (simp add: seekLocked_def scrub_to_def scrub_timing_def Let_def set_position_def calm_def)

lemma calm_seek: "seek p now s = Seek_done s' \<Longrightarrow> calm s s'"
  by (auto simp: seek_def Let_def intro: calm_seekLocked split: if_splits)

lemma calm_setRate: "calm s (setRate r now s)"
  by (simp add: setRate_def resume_def set_rate_def calm_def)

lemma calm_others:
  "calm s (request_stop s)" "calm s (finish_stop s)" "calm s (markOpenFailure s)" "calm s (start_worker starts s)"
  "calm s (snd (pauseForPlaylistRemoval s))" "calm s (s\<lparr>g_follow := follow\<rparr>)"
  "calm s (publish duration has_video has_audio s)" "calm s (continue_in_software s)" "calm s (markEnded s)"
  "calm s (snd (hold_turn end_at now s))" "calm s (fst (snd (readOnAfterEnd at_end duration s r)))"
  "calm s (snd (takeCoarsePreview p epoch now s))" "calm s (snd (waitForPresentation p e now obs_now s))"
  "calm s (snd (shouldDiscard p None shown_for now s))"
  by (simp_all add: calm_def request_stop_def finish_stop_def markOpenFailure_def start_worker_def Let_def
      pauseForPlaylistRemoval_def set_rate_def publish_def continue_in_software_def seek_here_def markEnded_def
      hold_turn_def set_position_def readOnAfterEnd_def takeCoarsePreview_def waitForPresentation_def
      paused_turn_def playing_turn_def preview_def start_clock_def report_position_def
      shouldDiscard_def before_target_def caught_up_def target_reached_def skipped_def)

lemmas calms = calm_refl calm_seekLocked calm_seek calm_setRate calm_others


subsection \<open>The steps that move frames\<close>

lemma shouldDiscard_picture:
  assumes "shouldDiscard p (Some epoch) shown_for now s = (dropped, s')"
  shows "m_queue_epoch s' = m_queue_epoch s \<and> m_seek_pending s' = m_seek_pending s \<and>
    (if dropped then m_discard_video_before s' = m_discard_video_before s
     else \<not> m_seek_pending s \<and>
       (m_discard_video_before s < 0 \<and> m_discard_video_before s' = m_discard_video_before s \<or>
        0 \<le> m_discard_video_before s \<and> in_place (m_discard_video_before s) p \<and> m_discard_video_before s' < 0))"
  using assms
  by (auto simp: shouldDiscard_def before_target_def caught_up_def target_reached_def skipped_def in_place_def
      catching_up_def discard_before_def Let_def split: if_splits)

lemma q_history_update [simp]:
  "q_position (q\<lparr>qf_epoch := e\<rparr>) = q_position q" "q_position (q\<lparr>qf_before := p\<rparr>) = q_position q"
  by (simp_all add: q_position_def)

lemma line_ok_tl: "line_ok e n (q # qs) \<Longrightarrow> line_ok e n qs"
  by (simp add: line_ok_def)

lemma take_frame_ok:
  assumes "threads_ok t" "presenter t = Waits"
  shows "threads_ok (take_frame t)"
proof (cases "m_video_queue t")
  case Nil
  then show ?thesis using assms by (simp add: take_frame_def)
next
  case (Cons q qs)
  then show ?thesis using assms by (auto simp: take_frame_def threads_ok_def frames_def aim_ok_def)
qed

lemma drop_frame_ok: "threads_ok t \<Longrightarrow> threads_ok (t\<lparr>presenter := Waits\<rparr>)"
  by (cases "presenter t") (auto simp: threads_ok_def frames_def aim_ok_def dest: line_ok_tl)

lemma aim_follows:
  assumes q: "line_ok e n (q # qs)" "qf_epoch q = e" "in_place a (q_position q)"
  shows "in_place a n \<and> (\<forall>x\<in>set qs. qf_epoch x = e \<longrightarrow> arrived a x)"
  using assms by (fastforce simp: line_ok_def in_place_def in_order_def arrived_def)

lemma begin_frame_ok:
  assumes t: "threads_ok t"
  shows "threads_ok (begin_frame t)"
proof (cases "presenter t")
  case (Has q)
  then show ?thesis
    using t drop_frame_ok [OF t] by (auto simp: begin_frame_def threads_ok_def frames_def aim_ok_def)
qed (use t in \<open>simp_all add: begin_frame_def\<close>)

lemma check_frame_ok:
  assumes t: "threads_ok t"
  shows "threads_ok (check_frame now t)"
proof (cases "presenter t")
  case q: (Begins q)
  obtain dropped s where d:
      "shouldDiscard (q_position q) (Some (qf_epoch q)) (q_shown_for q) now (pl t) = (dropped, s)"
    by (metis prod.exhaust)
  have s: "player_ok s"
    using shouldDiscard_ok [of "pl t" "q_position q" "Some (qf_epoch q)" "q_shown_for q" now] t d
    by (simp add: threads_ok_def)
  note v = shouldDiscard_picture [OF d]
  have k: "line_ok (m_queue_epoch (pl t)) (newest t) (q # m_video_queue t)" and p0: "0 \<le> q_position q"
    using t q by (simp_all add: threads_ok_def frames_def)
  have a: "aim_ok t" using t by (simp add: threads_ok_def)
  have c: "check_frame now t = t\<lparr>pl := s, presenter := (if dropped then Late q else Shows q)\<rparr>"
    using q d by (simp add: check_frame_def)
  have "aim_ok (check_frame now t)"
  proof (cases dropped)
    case True
    then show ?thesis using a v q by (auto simp: c aim_ok_def)
  next
    case False
    with d have e: "qf_epoch q = m_queue_epoch (pl t)"
      by (auto simp: shouldDiscard_def stale_def Let_def split: if_splits)
    have p: "aim t < 0 \<or> arrived (aim t) q"
      using False v a q e by (auto simp: aim_ok_def not_le arrived_def in_place_def)
    from False v aim_follows [OF k e] p p0 a q e show ?thesis
      by (auto simp: c aim_ok_def arrived_def in_place_def kFrameTolerance_def)
  qed
  then show ?thesis using t s q v p0 by (auto simp: c threads_ok_def frames_def)
qed (use t in \<open>simp_all add: check_frame_def\<close>)

lemma coarse_frame_ok:
  assumes t: "threads_ok t"
  shows "threads_ok (coarse_frame now t)"
proof (cases "presenter t")
  case (Late q)
  obtain taken s where d: "takeCoarsePreview (q_position q) (qf_epoch q) now (pl t) = (taken, s)" by (metis prod.exhaust)
  have s: "threads_ok (t\<lparr>pl := s\<rparr>)"
    using calm_threads_ok [OF t] calm_others(12) [of "pl t" "q_position q" "qf_epoch q" now]
      takeCoarsePreview_ok [of "pl t" "q_position q" "qf_epoch q" now] t d
    by (simp add: threads_ok_def)
  then have "threads_ok ((t\<lparr>pl := s\<rparr>)\<lparr>presenter := Shows_coarse q\<rparr>)"
    using Late by (auto simp: threads_ok_def frames_def aim_ok_def)
  then show ?thesis using Late d drop_frame_ok [OF s] by (simp add: coarse_frame_def)
qed (use t in \<open>simp_all add: coarse_frame_def\<close>)

lemma show_picture_ok:
  assumes "threads_ok (t\<lparr>pl := s\<rparr>)"
    and "exact \<Longrightarrow> qf_epoch q = m_queue_epoch s \<and> arrived (aim t) q"
  shows "threads_ok (show_picture q exact s t)"
  using drop_frame_ok [OF assms(1)] assms(2)
  by (auto simp: show_picture_def threads_ok_def frames_def aim_ok_def picture_ok_def arrived_def)

lemma show_frame_ok:
  assumes t: "threads_ok t"
  shows "threads_ok (show_frame now obs_now t)"
proof (cases "presenter t")
  case (Shows q)
  obtain r s where d: "waitForPresentation (q_position q) (Some (qf_epoch q)) now obs_now (pl t) = (r, s)"
    by (metis prod.exhaust)
  have "0 \<le> q_position q" using t Shows by (simp add: threads_ok_def)
  then have s: "threads_ok (t\<lparr>pl := s\<rparr>)" "calm (pl t) s"
    using calm_threads_ok [OF t] calm_others(13) [of "pl t" "q_position q" "Some (qf_epoch q)" now obs_now]
      waitForPresentation_ok [of "pl t" "q_position q" "Some (qf_epoch q)" now obs_now] t d
    by (simp_all add: threads_ok_def)
  have p: "qf_epoch q = m_queue_epoch s \<and> arrived (aim t) q" if "r = Present ts" for ts
  proof -
    have "\<not> m_seek_pending (pl t)" "qf_epoch q = m_queue_epoch (pl t)"
      using d that by (auto simp: waitForPresentation_def stale_def split: if_splits)
    then show ?thesis using s(2) t Shows by (simp add: calm_def threads_ok_def aim_ok_def)
  qed
  show ?thesis
    using Shows d drop_frame_ok [OF s(1)] show_picture_ok [OF s(1) p] s(1)
    by (cases r) (auto simp: show_frame_def)
next
  case (Shows_coarse q)
  then show ?thesis using show_picture_ok [where t = t and s = "pl t" and exact = False and q = q] t by (simp add: show_frame_def)
qed (use t in \<open>simp_all add: show_frame_def\<close>)

lemma queueVideoFrame_ok:
  assumes t: "threads_ok t" and e: "enabled t (W_queue q)"
  shows "threads_ok (queueVideoFrame q t)"
proof -
  let ?q = "q\<lparr>qf_epoch := m_queue_epoch (pl t), qf_before := newest t\<rparr>"
  have "line_ok (m_queue_epoch (pl t)) (max (newest t) (q_position q)) (frames t @ [?q])"
    using t by (auto simp: threads_ok_def line_ok_def sorted_wrt_append in_order_def le_max_iff_disj)
  moreover have "aim_ok (queueVideoFrame q t)"
    using t by (auto simp: threads_ok_def aim_ok_def queueVideoFrame_def in_place_def arrived_def)
  ultimately show ?thesis
    using t e by (auto simp: threads_ok_def queueVideoFrame_def frames_def)
qed

lemma clearVideoQueue_ok:
  assumes t: "threads_ok t"
  shows "threads_ok (clearVideoQueue t)"
proof -
  have "line_ok e n (xs @ ys) \<Longrightarrow> line_ok e n xs" for e n xs ys
    by (auto simp: line_ok_def sorted_wrt_append)
  then show ?thesis
    using t by (auto simp: clearVideoQueue_def threads_ok_def frames_def aim_ok_def)
qed

lemma take_pending_seek_ok:
  assumes t: "threads_ok t"
  shows "threads_ok (take_pending_seek t)"
proof (cases "m_seek_pending (pl t)")
  case False
  then show ?thesis using t by (simp add: take_pending_seek_def take_seek_def)
next
  case True
  have s: "player_ok (snd (take_seek (pl t)))" "m_discard_video_before (pl t) = m_seek_target (pl t)" "0 \<le> m_seek_target (pl t)"
    using t True by (auto simp: threads_ok_def take_seek_ok) (simp_all add: player_ok_def)
  have "line_ok e n qs \<Longrightarrow> line_ok (Suc e) m qs" for e n m qs
    by (force simp: line_ok_def)
  moreover have "qf_epoch q \<noteq> Suc (m_queue_epoch (pl t))" if "q \<in> set (chosen (presenter t))" for q
    using t that by (cases "presenter t") (auto simp: threads_ok_def frames_def line_ok_def)
  ultimately show ?thesis
    using t True s
    by (auto simp: take_pending_seek_def take_seek_def threads_ok_def frames_def aim_ok_def)
qed

lemma play_ok:
  assumes t: "threads_ok t" and e: "enabled t (Cmd_play location p r now)"
  shows "threads_ok (perform t (Cmd_play location p r now))"
  using t e play_state_ok [of r location p now "pl t"]
  by (auto simp: threads_ok_def frames_def aim_ok_def line_ok_def Let_def play_state_def)

lemma seek_step_ok:
  assumes t: "threads_ok t"
  shows "threads_ok (perform t (Cmd_seek p now))"
proof (cases "seek p now (pl t)")
  case (Seek_done s)
  moreover have "player_ok (pl t)" using t by (simp add: threads_ok_def)
  ultimately show ?thesis by (auto intro: calm_threads_ok [OF t] calm_seek seek_done_ok)
qed (simp_all add: t)

lemma start_worker_step_ok:
  assumes t: "threads_ok t" and e: "enabled t (Cmd_start_worker starts)"
  shows "threads_ok (perform t (Cmd_start_worker starts))"
proof -
  have "threads_ok (t\<lparr>pl := start_worker starts (pl t)\<rparr>)"
    using t by (auto intro!: calm_threads_ok calm_others start_worker_ok) (simp add: threads_ok_def)
  then show ?thesis using e by (auto simp: threads_ok_def aim_ok_def frames_def)
qed

lemma exit_step_ok: "threads_ok t \<Longrightarrow> enabled t W_exits \<Longrightarrow> threads_ok (perform t W_exits)"
  by (auto simp: threads_ok_def aim_ok_def frames_def)

lemma follow_ok: "player_ok s \<Longrightarrow> player_ok (s\<lparr>g_follow := follow\<rparr>)"
  by (simp add: player_ok_def)

lemmas moving_steps_ok = play_ok start_worker_step_ok seek_step_ok queueVideoFrame_ok exit_step_ok

lemma perform_ok:
  assumes t: "threads_ok t" and e: "enabled t ev"
  shows "threads_ok (perform t ev)"
proof -
  have ok: "player_ok (pl t)" using t by (simp add: threads_ok_def)
  show ?thesis
  proof (cases "(\<exists>l p r n. ev = Cmd_play l p r n) \<or> (\<exists>b. ev = Cmd_start_worker b) \<or> (\<exists>p n. ev = Cmd_seek p n) \<or>
      (\<exists>q. ev = W_queue q) \<or> ev = W_exits")
    case True
    then show ?thesis using moving_steps_ok [OF t] e by (metis perform.simps(13))
  next
    case False
    then show ?thesis
      using e
      by (cases ev)
        (use t ok in \<open>auto intro!: calm_threads_ok [OF t] calms player_steps_ok publish_ok waitForPresentation_ok follow_ok
           take_frame_ok begin_frame_ok check_frame_ok coarse_frame_ok show_frame_ok clearVideoQueue_ok take_pending_seek_ok drop_frame_ok\<close>)
  qed
qed

lemma threads_new_ok: "threads_ok threads_new"
  by (simp add: threads_ok_def threads_new_def player_new_ok frames_def line_ok_def aim_ok_def)
    (simp add: player_new_def)

lemma player_reach_ok: "player_reach t \<Longrightarrow> threads_ok t"
  by (induction rule: player_reach.induct) (simp_all add: threads_new_ok perform_ok)

section \<open>What the sender is told, and what is shown\<close>

text \<open>
  C28. The playback state the sender can ask for fits together at every moment, whatever the commands,
  the worker and the presenter do and in whatever order they come: the rate and the position are not
  negative, an item that ended does not play, the duration is positive exactly when it is known and is
  the seekable range, the buffer is either empty or full and full only of an item that can play, and
  such an item has a picture or sound.
\<close>

theorem reported_playback_fits_together:
  assumes "player_reach t"
  shows "info_ok (m_info (pl t))"
  using player_reach_ok [OF assms] by (simp add: threads_ok_def player_ok_def)

text \<open>
  C3. Pictures are shown in place. In every interleaving of the commands with the threads, a picture
  shown at its time belongs to the latest seek that was carried out (none of an earlier one comes
  after it, also when the presenter had taken it from the queue before), and it is not before the
  position that was asked for, by more than the tolerance of 20 ms, unless a frame decoded before it
  since that seek had already come to that position and the media's time stamps went back since: the
  frames from the key frame up to the first one at the target are decoded and not shown, whatever
  time stamps the demuxer and the decoders give. (The coarse previews of a drag are the exception,
  and are marked so.)
\<close>

theorem pictures_are_in_place:
  assumes "player_reach t" "p \<in> set (pictures t)" "pic_exact p"
  shows "pic_epoch p = pic_seeks p \<and> pic_target p \<le> max (pic_before p) (pic_position p) + 20 / 1000"
  using player_reach_ok [OF assms(1)] assms(2,3)
  by (auto simp: threads_ok_def list_all_iff picture_ok_def in_place_def kFrameTolerance_def)

text \<open>For examples: frames of a second each, and a run with a scrub while the presenter holds a frame.\<close>

definition frame_at :: "int \<Rightarrow> queued_frame" where
  "frame_at n = \<lparr>qf_timestamp = Some n, qf_duration = 1,
     qf_stream = \<lparr>time_base = 1, avg_frame_rate = (1, 1), r_frame_rate = (1, 1)\<rparr>, qf_start = 0, qf_epoch = 0, qf_before = -1\<rparr>"

definition scrub_run :: "player_event list" where
  "scrub_run =
     [Cmd_play ''u'' (Finite 2) 1 0, Cmd_start_worker True, W_publish (Some 10) True True,
      W_queue (frame_at 1), W_queue (frame_at 2),
      P_take, P_begin, P_check 0, P_coarse 0,
      P_take, P_begin, P_check 0, P_show 0 0,
      W_queue (frame_at 3), P_take, P_begin, Cmd_seek (Finite 7) 1, W_take_seek, P_check 1, P_coarse 1,
      W_clear_queue, W_queue (frame_at 7), P_take, P_begin, P_check 2, P_show 2 2]"

lemma scrub_run_pictures:
  "case perform_all threads_new scrub_run of
     None \<Rightarrow> False
   | Some t \<Rightarrow> map pic_position (pictures t) = [7, 2] \<and> map pic_target (pictures t) = [7, 2] \<and>
       map pic_before (pictures t) = [-1, 1] \<and> list_all pic_exact (pictures t)"
  by code_simp

lemma scrub_run_reaches:
  obtains t where "perform_all threads_new scrub_run = Some t" "player_reach t"
    "map pic_position (pictures t) = [7, 2]" "map pic_target (pictures t) = [7, 2]" "map pic_before (pictures t) = [-1, 1]"
    "list_all pic_exact (pictures t)"
proof (cases "perform_all threads_new scrub_run")
  case None
  then show ?thesis using scrub_run_pictures by simp
next
  case (Some t)
  then show ?thesis using scrub_run_pictures that perform_all_reach [OF Some player_reach.start] by simp
qed

lemma pictures_are_in_place_witness:
  "\<exists>t p. perform_all threads_new scrub_run = Some t \<and> p \<in> set (pictures t) \<and> pic_target p = 7 \<and>
     pic_epoch p = pic_seeks p \<and> 7 \<le> pic_position p + 20 / 1000"
proof -
  obtain t where t: "perform_all threads_new scrub_run = Some t" "player_reach t"
    "map pic_position (pictures t) = [7, 2]" "map pic_target (pictures t) = [7, 2]" "map pic_before (pictures t) = [-1, 1]"
    "list_all pic_exact (pictures t)"
    by (rule scrub_run_reaches)
  then obtain p ps where p: "pictures t = p # ps" "pic_target p = 7" "pic_before p = -1" by (cases "pictures t") auto
  with t(6) have m: "p \<in> set (pictures t)" "pic_exact p" by simp_all
  from pictures_are_in_place [OF t(2) m] p have "pic_epoch p = pic_seeks p \<and> 7 \<le> pic_position p + 20 / 1000" by auto
  with m(1) p(2) t(1) show ?thesis by blast
qed

lemma reported_playback_fits_together_witness:
  "\<exists>t. perform_all threads_new scrub_run = Some t \<and> info_ok (m_info (pl t))"
  using reported_playback_fits_together scrub_run_reaches by metis

section \<open>After the end\<close>

lemma ended_keeps:
  "pi_ended (m_info (set_position p s)) = ended s" "rate (set_position p s) = rate s"
  "pi_ended (m_info (seekLocked q now s)) = ended s" "rate (seekLocked q now s) = rate s"
  "pi_ended (m_info (snd (shouldDiscard x e f now s))) = ended s" "rate (snd (shouldDiscard x e f now s)) = rate s"
  "pi_ended (m_info (snd (takeCoarsePreview x k now s))) = ended s" "rate (snd (takeCoarsePreview x k now s)) = rate s"
  "pi_ended (m_info (snd (waitForPresentation x e now obs_now s))) = ended s"
  "pi_ended (m_info (snd (hold_turn end_at now s))) = ended s"
  "pi_ended (m_info (fst (snd (readOnAfterEnd at_end duration s r)))) = ended s"
  "pi_ended (m_info (continue_in_software s)) = ended s"
  "pi_ended (m_info (snd (take_seek s))) = ended s"
  "pi_ended (m_info (request_stop s)) = ended s" "pi_ended (m_info (finish_stop s)) = ended s"
  "pi_ended (m_info (setRate c now s)) = ended s"
  "pi_ended (m_info (snd (pauseForPlaylistRemoval s))) = ended s"
  "pi_ended (m_info (publish duration has_video has_audio s)) = ended s"
  "ended s \<Longrightarrow> pi_ended (m_info (start_worker starts s))"
  by (simp_all add: set_position_def seekLocked_def scrub_to_def scrub_timing_def shouldDiscard_def before_target_def
      caught_up_def target_reached_def skipped_def takeCoarsePreview_def waitForPresentation_def paused_turn_def
      playing_turn_def preview_def start_clock_def report_position_def hold_turn_def readOnAfterEnd_def seek_here_def
      continue_in_software_def take_seek_def request_stop_def finish_stop_def setRate_def resume_def set_rate_def
      pauseForPlaylistRemoval_def publish_def start_worker_def markOpenFailure_def Let_def)

lemma seek_keeps_ended: "seek p now s = Seek_done s' \<Longrightarrow> ended s' = ended s"
  by (auto simp: seek_def Let_def ended_keeps split: if_splits)

text \<open>What the presenter's steps do to the player.\<close>

lemma pl_presenter_steps:
  "pl (check_frame now t) = (case presenter t of
     Begins q \<Rightarrow> snd (shouldDiscard (q_position q) (Some (qf_epoch q)) (q_shown_for q) now (pl t)) | _ \<Rightarrow> pl t)"
  "pl (coarse_frame now t) = (case presenter t of
     Late q \<Rightarrow> snd (takeCoarsePreview (q_position q) (qf_epoch q) now (pl t)) | _ \<Rightarrow> pl t)"
  "pl (show_frame now obs_now t) = (case presenter t of
     Shows q \<Rightarrow> snd (waitForPresentation (q_position q) (Some (qf_epoch q)) now obs_now (pl t)) | _ \<Rightarrow> pl t)"
  "pl (take_frame t) = pl t" "pl (begin_frame t) = pl t" "pl (clearVideoQueue t) = pl t" "pl (queueVideoFrame q t) = pl t"
  "pl (take_pending_seek t) = snd (take_seek (pl t))"
  by (auto simp: check_frame_def coarse_frame_def show_frame_def show_picture_def take_frame_def begin_frame_def
      clearVideoQueue_def queueVideoFrame_def take_pending_seek_def take_seek_def
      split: presenter.splits prod.splits turn.splits list.splits option.splits)

lemma perform_keeps_ended:
  assumes "ended (pl t)" "\<forall>l p r n. e \<noteq> Cmd_play l p r n"
  shows "ended (pl (perform t e))"
  using assms
  by (cases e) (auto simp: ended_keeps markEnded_def markOpenFailure_def pl_presenter_steps seek_keeps_ended
      split: presenter.splits seek_outcome.splits)

lemma perform_all_keeps_ended:
  "perform_all t es = Some u \<Longrightarrow> ended (pl t) \<Longrightarrow> \<forall>e\<in>set es. \<forall>l p r n. e \<noteq> Cmd_play l p r n \<Longrightarrow> ended (pl u)"
  by (induction es arbitrary: t) (auto intro: perform_keeps_ended split: if_splits)

text \<open>
  C29. What ended stays ended. Once the item has ended (or could not be opened), no command of the
  sender except a new play (which a scrub turns into, at the end), no late step of a thread and no
  order of them makes it play again: until then it is reported as ended, with rate 0.
\<close>

theorem ended_items_stay_ended:
  assumes "player_reach t" "ended (pl t)" "perform_all t es = Some u"
    and "\<forall>e\<in>set es. \<forall>location p r now. e \<noteq> Cmd_play location p r now"
  shows "ended (pl u) \<and> rate (pl u) = 0"
  using perform_all_keeps_ended [OF assms(3,2,4)] player_reach_ok [OF perform_all_reach [OF assms(3,1)]]
  by (simp add: threads_ok_def player_ok_simps)

definition ended_run :: "player_event list" where
  "ended_run = [Cmd_play ''u'' (Finite 0) 1 0, Cmd_start_worker True, W_publish (Some 10) True True, W_ended]"

lemma ended_items_stay_ended_witness:
  "\<exists>t u. perform_all threads_new ended_run = Some t \<and> perform_all t [Cmd_rate (Finite 1) 5, Cmd_seek (Finite 3) 6, W_exits] = Some u \<and>
     ended (pl u) \<and> rate (pl u) = 0"
proof -
  have "case perform_all threads_new ended_run of None \<Rightarrow> False | Some t \<Rightarrow> ended (pl t) \<and>
      perform_all t [Cmd_rate (Finite 1) 5, Cmd_seek (Finite 3) 6, W_exits] \<noteq> None"
    by code_simp
  then obtain t u where t: "perform_all threads_new ended_run = Some t" "ended (pl t)"
      "perform_all t [Cmd_rate (Finite 1) 5, Cmd_seek (Finite 3) 6, W_exits] = Some u"
    by (auto split: option.splits)
  have "player_reach t" by (rule perform_all_reach [OF t(1) player_reach.start])
  from ended_items_stay_ended [OF this t(2,3)] t show ?thesis by auto
qed

section \<open>A stop that was asked for\<close>

lemma stop_kept:
  "m_stop_requested (set_position p s) = m_stop_requested s"
  "m_stop_requested (seekLocked q now s) = m_stop_requested s"
  "m_stop_requested (snd (shouldDiscard x e f now s)) = m_stop_requested s"
  "m_stop_requested (snd (takeCoarsePreview x g now s)) = m_stop_requested s"
  "m_stop_requested (snd (waitForPresentation x e now obs_now s)) = m_stop_requested s"
  "m_stop_requested (snd (hold_turn end_at now s)) = m_stop_requested s"
  "m_stop_requested (fst (snd (readOnAfterEnd at_end duration s r))) = m_stop_requested s"
  "m_stop_requested (continue_in_software s) = m_stop_requested s"
  "m_stop_requested (snd (take_seek s)) = m_stop_requested s"
  "m_stop_requested (finish_stop s) = m_stop_requested s"
  "m_stop_requested (request_stop s)"
  "m_stop_requested (setRate c now s) = m_stop_requested s"
  "m_stop_requested (snd (pauseForPlaylistRemoval s)) = m_stop_requested s"
  "m_stop_requested (publish duration has_video has_audio s) = m_stop_requested s"
  "m_stop_requested (markEnded s) = m_stop_requested s"
  "m_stop_requested (markOpenFailure s) = m_stop_requested s"
  by (simp_all add: set_position_def seekLocked_def scrub_to_def scrub_timing_def shouldDiscard_def before_target_def
      caught_up_def target_reached_def skipped_def takeCoarsePreview_def waitForPresentation_def paused_turn_def
      playing_turn_def preview_def start_clock_def report_position_def hold_turn_def readOnAfterEnd_def seek_here_def
      continue_in_software_def take_seek_def request_stop_def finish_stop_def setRate_def resume_def set_rate_def
      move_clock_def move_anchor_def pauseForPlaylistRemoval_def publish_def markEnded_def markOpenFailure_def Let_def)

lemma seek_keeps_stop: "seek p now s = Seek_done s' \<Longrightarrow> m_stop_requested s' = m_stop_requested s"
  by (auto simp: seek_def Let_def stop_kept split: if_splits)

lemma perform_keeps_stop:
  assumes "m_stop_requested (pl t)" "\<forall>starts. e \<noteq> Cmd_start_worker starts" "\<forall>l p r n. e \<noteq> Cmd_play l p r n"
  shows "m_stop_requested (pl (perform t e))"
  using assms
  by (cases e) (auto simp: stop_kept pl_presenter_steps seek_keeps_stop split: presenter.splits seek_outcome.splits)

section \<open>The pace\<close>

text \<open>The position the output is meant to be at: where the playback clock stands.\<close>

definition clock_position :: "int \<Rightarrow> player \<Rightarrow> rat" where
  "clock_position now s =
     m_clock_media_position s + seconds (now - m_clock_wall_time s) * max (1 / 1000) (rate s)"

lemma to_ns_bound: "0 \<le> x \<Longrightarrow> x \<le> seconds (to_ns x + 1)"
  using floor_correct [of "x * 1000000000"] by (simp add: to_ns_def seconds_def)

lemma due_by_the_clock:
  assumes "due_at p s \<le> now"
  shows "p \<le> clock_position (now + 1) s"
proof -
  let ?r = "max (1 / 1000) (rate s)" and ?d = "max 0 (p - m_clock_media_position s)"
  have "0 \<le> ?d / ?r" by simp
  from to_ns_bound [OF this] have "?d / ?r \<le> seconds (to_ns (?d / ?r) + 1)" .
  also have "\<dots> \<le> seconds (now + 1 - m_clock_wall_time s)"
    using assms by (simp add: due_at_def seconds_def divide_right_mono)
  finally have "?d \<le> seconds (now + 1 - m_clock_wall_time s) * ?r" by (simp add: pos_divide_le_eq)
  then show ?thesis by (simp add: clock_position_def)
qed


lemma playing_turn_presents:
  assumes "playing_turn p video now obs_now s = (Present ts, s')"
  shows "p \<le> clock_position (now + 1 + (if video then 0 else to_ns kAudioLeadSeconds)) s'"
proof -
  let ?s = "start_clock p now s" and ?lead = "if video then 0 else to_ns kAudioLeadSeconds"
  have due: "due_at p ?s \<le> now + ?lead" and s': "s' = report_position p video (due_at p ?s) now ?s"
    using assms by (auto simp: playing_turn_def Let_def split: if_splits)
  have "clock_position n s' = clock_position n ?s" for n
    by (simp add: s' report_position_def set_position_def clock_position_def)
  with due_by_the_clock [OF due] show ?thesis by (simp add: algebra_simps)
qed

text \<open>
  C30. Nothing is presented ahead of its time. While an item plays, a picture is handed to OBS only
  when the playback clock has come to its position, and sound at most 150 ms before that: the clock
  stands at the frame's position, or at most a nanosecond's worth before it, at the moment the turn of
  \<open>waitForPresentation\<close> presents it (whatever clock that is: the sender's, the one the first frame
  started, or one that a change of rate moved).
\<close>

theorem frames_wait_for_the_clock:
  assumes "waitForPresentation p epoch now obs_now s = (Present ts, s')" "0 < rate s"
  shows "p \<le> clock_position (now + 1 + (if epoch = None then 150000000 else 0)) s'"
  using playing_turn_presents [of p "epoch \<noteq> None" now obs_now s ts s'] assms
  by (auto simp: waitForPresentation_def kAudioLeadSeconds_def to_ns_def split: if_splits)

definition at_double_speed :: player where
  "at_double_speed = setRate (Finite 2) 1000000000 ((snd (take_seek (seekLocked 4 0 (publish (Some 60) True True
     (start_worker True (play_state ''u'' (Finite 0) 1 0 player_new))))))\<lparr>m_clock_initialized := True,
     m_clock_media_position := 4, m_clock_wall_time := 500000000\<rparr>)"

lemma frames_wait_for_the_clock_witness:
  "fst (waitForPresentation 6 (Some 1) 1900000000 0 at_double_speed) = Wait_until 2000000000 \<and>
   (\<exists>ts s'. waitForPresentation 6 (Some 1) 2000000000 0 at_double_speed = (Present ts, s') \<and>
     6 \<le> clock_position 2000000001 s')"
proof -
  have e: "fst (waitForPresentation 6 (Some 1) 1900000000 0 at_double_speed) = Wait_until 2000000000"
    "fst (waitForPresentation 6 (Some 1) 2000000000 0 at_double_speed) = Present 2000000000" "0 < rate at_double_speed"
    by code_simp+
  then obtain s' where s': "waitForPresentation 6 (Some 1) 2000000000 0 at_double_speed = (Present 2000000000, s')"
    by (metis prod.exhaust_sel)
  from frames_wait_for_the_clock [OF this e(3)] s' e(1) show ?thesis by auto
qed

text \<open>The time stamp OBS gets is within five seconds of its own clock.\<close>

lemma obs_timestamp_near: "\<bar>obs_timestamp target obs_now - obs_now\<bar> \<le> kClockToleranceNs"
  by (auto simp: obs_timestamp_def Let_def kClockToleranceNs_def abs_le_iff)

end
