(* ===== verification/Player_Reading.thy ===== *)
theory Player_Reading
  imports Player_Control
begin

text \<open>
  \<^verbatim>\<open>src/media-player.cpp\<close>, \<open>MediaPlayer::Impl::readOnAfterEnd\<close>, over the whole reading of an item: how
  often an input that ends early is asked for again. The steps are packets that are read and ends of
  the input, each in the state the player is in then.
\<close>

datatype read_event =
    Demuxed "int option" int "rat option" rat player
  | Input_ended bool player

fun player_at :: "read_event \<Rightarrow> player" where
  "player_at (Demuxed _ _ _ _ s) = s"
| "player_at (Input_ended _ s) = s"

text \<open>The answer of a step is whether the input was asked for again at the position on screen.\<close>

fun read_step :: "rat option \<Rightarrow> read_progress \<Rightarrow> read_event \<Rightarrow> read_progress \<times> bool" where
  "read_step duration r (Demuxed pts d tb start s) = (noteDemuxed pts d tb start s r, False)"
| "read_step duration r (Input_ended at_end s) =
     (case readOnAfterEnd at_end duration s r of
        (on, (s', r')) \<Rightarrow> (r', on \<and> \<not> m_seek_pending s))"

text \<open>
  Along the steps: how far the output moved forward in all (it can be set back, by the picture a paused
  player shows, and a way that is gone again counts again), and how often the sender asked for another
  position.
\<close>

fun rise :: "rat \<Rightarrow> read_event list \<Rightarrow> rat" where
  "rise p [] = 0"
| "rise p (e # es) = max 0 (position (player_at e) - p) + rise (position (player_at e)) es"

fun seeks :: "nat \<Rightarrow> read_event list \<Rightarrow> nat" where
  "seeks generation [] = 0"
| "seeks generation (e # es) =
     (if m_seek_generation (player_at e) \<noteq> generation then 1 else 0) + seeks (m_seek_generation (player_at e)) es"

text \<open>
  The attempts that are left when the output stands at \<open>p\<close>: the fresh three, or what is left of them
  and three for the half second that has been gone since the last attempt (six a second) or for
  another position the sender asked for.
\<close>

definition credit :: "rat \<Rightarrow> nat \<Rightarrow> read_progress \<Rightarrow> rat" where
  "credit p generation r =
     (if recoveries r = 0 then 3
      else 3 - of_nat (recoveries r) + 6 * max 0 (p - position_at_recovery r) +
        (if generation \<noteq> seek_generation_at_recovery r then 3 else 0))"

lemma credit_nonneg: "recoveries r \<le> kMaxReadRecoveries \<Longrightarrow> 0 \<le> credit p g r"
  by (simp add: credit_def kMaxReadRecoveries_def)

lemma credit_moves:
  "recoveries r \<le> kMaxReadRecoveries \<Longrightarrow>
     credit q g' r \<le> credit p g r + 6 * max 0 (q - p) + (if g' \<noteq> g then 3 else 0)"
  by (auto simp: credit_def kMaxReadRecoveries_def max_def)

lemma renew_simps [simp]:
  "position_at_recovery (renew s r) = position_at_recovery r"
  "seek_generation_at_recovery (renew s r) = m_seek_generation s"
  by (simp_all add: renew_def Let_def)

lemma renew_recoveries:
  "recoveries (renew s r) =
     (if position s > position_at_recovery r + kRecoveryProgress \<or> m_seek_generation s \<noteq> seek_generation_at_recovery r
      then 0 else recoveries r)"
  by (simp add: renew_def Let_def)

text \<open>A fresh set of attempts has been paid for.\<close>

lemma renew_credit:
  assumes "recoveries r \<le> kMaxReadRecoveries"
  shows "credit (position s) (m_seek_generation s) (renew s r) \<le> credit (position s) (m_seek_generation s) r \<and>
    recoveries (renew s r) \<le> kMaxReadRecoveries"
  using assms by (auto simp: credit_def renew_recoveries kMaxReadRecoveries_def kRecoveryProgress_def max_def)

lemma rewind_keeps [simp]:
  "credit p g (rewindEndOfFile r) = credit p g r" "recoveries (rewindEndOfFile r) = recoveries r"
  by (simp_all add: credit_def rewindEndOfFile_def)

lemma noteDemuxed_keeps [simp]:
  "credit p g (noteDemuxed pts dur tb start s r) = credit p g r"
  "recoveries (noteDemuxed pts dur tb start s r) = recoveries r"
  by (simp_all add: credit_def noteDemuxed_def Let_def split: option.splits)

lemma ask_credit:
  assumes "seek_generation_at_recovery r = g" "recoveries r < kMaxReadRecoveries"
  shows "credit p g (r\<lparr>recoveries := recoveries r + 1, position_at_recovery := p\<rparr>) + 1 \<le> credit p g r"
  using assms by (auto simp: credit_def kMaxReadRecoveries_def)

text \<open>Each step keeps the account: an answer of yes has used up an attempt.\<close>

lemma read_step_credit:
  assumes r: "recoveries r \<le> kMaxReadRecoveries" and s: "read_step duration r e = (r', asked)"
    and p: "p = position (player_at e)" and g: "g = m_seek_generation (player_at e)"
  shows "recoveries r' \<le> kMaxReadRecoveries \<and> credit p g r' + (if asked then 1 else 0) \<le> credit p g r"
proof (cases e)
  case (Demuxed pts dur tb start s1)
  then show ?thesis using r s by auto
next
  case (Input_ended at_end s1)
  then have e: "p = position s1" "g = m_seek_generation s1" using p g by simp_all
  note w = renew_credit [OF r, of s1, folded e]
  show ?thesis
  proof (cases "\<not> m_seek_pending s1 \<and> ends_early at_end duration s1 (renew s1 r) \<and> recoveries (renew s1 r) < kMaxReadRecoveries")
    case True
    with ask_credit [of "renew s1 r" g p] w r s Input_ended e show ?thesis
      by (auto simp: readOnAfterEnd_def Let_def)
  next
    case False
    then show ?thesis using w s Input_ended by (auto simp: readOnAfterEnd_def Let_def split: if_splits)
  qed
qed

lemma reading_credit:
  "recoveries r \<le> kMaxReadRecoveries \<Longrightarrow>
   of_nat (length (filter (\<lambda>asked. asked) (snd (run (read_step duration) r es)))) \<le>
     credit p g r + 6 * rise p es + 3 * of_nat (seeks g es)"
proof (induction es arbitrary: p g r)
  case Nil
  then show ?case by (simp add: credit_nonneg)
next
  case (Cons e es)
  let ?q = "position (player_at e)" and ?h = "m_seek_generation (player_at e)"
  obtain r' asked where s: "read_step duration r e = (r', asked)" by (metis prod.exhaust)
  note k = read_step_credit [OF Cons.prems s refl refl]
  have "of_nat (length (filter (\<lambda>asked. asked) (snd (run (read_step duration) r' es)))) \<le>
      credit ?q ?h r' + 6 * rise ?q es + 3 * of_nat (seeks ?h es)"
    using Cons.IH k by blast
  with k credit_moves [OF Cons.prems, of ?q ?h p g] s show ?case by (auto simp: split_beta split: if_splits)
qed

text \<open>
  C31. Reading comes to an end: over any packets and ends of the input, an input that ends early is asked
  for again at most three times, and six times more for each second the output moves forward and three
  times more for each new position of the sender. So a server that keeps closing the connection,
  or a file that is shorter than it says, cannot keep the worker asking without the output moving on,
  also when the position is set back meanwhile.
\<close>

theorem reading_comes_to_an_end:
  shows "of_nat (length (filter (\<lambda>asked. asked) (snd (run (read_step duration) progress_new es)))) \<le>
    3 + 6 * rise p es + 3 * of_nat (seeks g es)"
  using reading_credit [of progress_new duration es p g] by (simp add: progress_new_def credit_def)

text \<open>
  A connection that is closed four times at the start of an item of ten seconds, then eight seconds on,
  and again when a paused picture has set the position back.
\<close>

definition closing_input :: "read_event list" where
  "closing_input = replicate 4 (Input_ended False player_new) @
     replicate 4 (Input_ended False (set_position 8 player_new)) @ [Input_ended False (set_position 7 player_new)]"

lemma closing_input_asks:
  "snd (run (read_step (Some 10)) progress_new closing_input) = [True, True, True, False, True, True, True, False, False]"
  by code_simp

end
