(* ===== verification/Hls_Program.thy ===== *)
theory Hls_Program
  imports Hls_Playlist
begin

text \<open>
  \<^verbatim>\<open>src/media-player.cpp\<close>: which rendition of an HLS item FFmpeg's demuxer reads
  (\<open>select_hls_program\<close>), which of its streams are decoded (\<open>find_program_stream\<close>), and how HLS is
  known. FFmpeg's format context is the record \<open>av_format\<close>, as far as these functions look at it;
  a stream index can be out of range. The choice is related to that of the manifest preflight
  (\<open>chooseVariant\<close> of \<open>Hls_Playlist\<close>).
\<close>

section \<open>The demuxer's programs\<close>

datatype media_type = Type_unknown | Type_video | Type_audio | Type_other

text \<open>An entry \<open>variant_bitrate\<close> of the metadata, when there is one.\<close>

record av_stream_info =
  st_variant_bitrate :: "string option"
  st_type :: media_type
  st_discard_all :: bool

record av_program =
  pr_variant_bitrate :: "string option"
  pr_streams :: "nat list"
  pr_discard_all :: bool

record av_format =
  fm_name :: "string option"
  fm_programs :: "av_program list"
  fm_streams :: "av_stream_info list"

definition program_streams :: "av_format \<Rightarrow> av_program \<Rightarrow> av_stream_info list" where
  "program_streams f p = map (\<lambda>i. fm_streams f ! i) (filter (\<lambda>i. i < length (fm_streams f)) (pr_streams p))"

definition variant_bitrate :: "av_format \<Rightarrow> av_program \<Rightarrow> int" where
  "variant_bitrate f p =
     (case pr_variant_bitrate p of
        Some v \<Rightarrow> strtoll v
      | None \<Rightarrow>
          (case find (\<lambda>s. st_variant_bitrate s \<noteq> None) (program_streams f p) of
             Some s \<Rightarrow> strtoll (the (st_variant_bitrate s))
           | None \<Rightarrow> 0))"

text \<open>The loop over the program's streams; \<open>known\<close> is whether a stream's type is.\<close>

fun has_video_in :: "bool \<Rightarrow> av_stream_info list \<Rightarrow> bool" where
  "has_video_in known [] = (\<not> known)"
| "has_video_in known (s # ss) =
     (if st_type s = Type_video then True else has_video_in (known \<or> st_type s \<noteq> Type_unknown) ss)"

definition program_has_video :: "av_format \<Rightarrow> av_program \<Rightarrow> bool" where
  "program_has_video f p = has_video_in False (program_streams f p)"

section \<open>The choice\<close>

record selection =
  best_under_target :: "nat option"
  best_under_bitrate :: int
  lowest_over_target :: "nat option"
  lowest_over_bitrate :: int
  fallback_program :: "nat option"

definition selection_new :: selection where
  "selection_new = \<lparr>best_under_target = None, best_under_bitrate = -1, lowest_over_target = None,
     lowest_over_bitrate = 2 ^ 63 - 1, fallback_program = None\<rparr>"

definition select_step :: "av_format \<Rightarrow> selection \<Rightarrow> nat \<times> av_program \<Rightarrow> selection" where
  "select_step f sel ip =
     (case ip of (i, p) \<Rightarrow>
        if \<not> program_has_video f p then sel
        else
          (let s = (if fallback_program sel = None then sel\<lparr>fallback_program := Some i\<rparr> else sel);
               bitrate = variant_bitrate f p
           in if bitrate > 0 \<and> bitrate \<le> kTargetBitrate \<and> bitrate > best_under_bitrate s
              then s\<lparr>best_under_target := Some i, best_under_bitrate := bitrate\<rparr>
              else if bitrate > kTargetBitrate \<and> bitrate < lowest_over_bitrate s
              then s\<lparr>lowest_over_target := Some i, lowest_over_bitrate := bitrate\<rparr>
              else s))"

definition selected_program :: "av_format \<Rightarrow> nat option" where
  "selected_program f =
     (let s = foldl (select_step f) selection_new (enumerate 0 (fm_programs f))
      in if best_under_target s \<noteq> None then best_under_target s
         else if lowest_over_target s \<noteq> None then lowest_over_target s else fallback_program s)"

text \<open>All other programs are discarded, and all streams but those of the selected one.\<close>

definition keep_only :: "nat \<Rightarrow> av_format \<Rightarrow> av_format" where
  "keep_only i f =
     f\<lparr>fm_programs := map (\<lambda>(j, p). p\<lparr>pr_discard_all := j \<noteq> i\<rparr>) (enumerate 0 (fm_programs f)),
       fm_streams := map (\<lambda>(j, s). s\<lparr>st_discard_all := j \<notin> set (pr_streams (fm_programs f ! i))\<rparr>)
         (enumerate 0 (fm_streams f))\<rparr>"

text \<open>\<open>select_hls_program\<close>: the program and its bit rate, if one was selected.\<close>

definition select_hls_program :: "av_format \<Rightarrow> (nat \<times> int) option \<times> av_format" where
  "select_hls_program f =
     (if length (fm_programs f) \<le> 1 \<or>
         (case fm_name f of None \<Rightarrow> True | Some name \<Rightarrow> \<not> contains_str name ''hls'')
      then (None, f)
      else (case selected_program f of
              None \<Rightarrow> (None, f)
            | Some i \<Rightarrow> (Some (i, variant_bitrate f (fm_programs f ! i)), keep_only i f)))"

definition find_program_stream :: "av_format \<Rightarrow> av_program \<Rightarrow> media_type \<Rightarrow> nat option" where
  "find_program_stream f p type =
     find (\<lambda>i. i < length (fm_streams f) \<and> st_type (fm_streams f ! i) = type) (pr_streams p)"

section \<open>How HLS is known\<close>

definition looks_like_hls_url :: "string \<Rightarrow> bool" where
  "looks_like_hls_url value =
     (case find_str ''.m3u8'' value 0 of
        None \<Rightarrow> False
      | Some suffix \<Rightarrow> suffix + 5 = length value \<or> value ! (suffix + 5) = CHR ''?'' \<or> value ! (suffix + 5) = CHR ''#'')"

definition is_hls_mime_type :: "string \<Rightarrow> bool" where
  "is_hls_mime_type type = contains_str (map to_lower type) ''mpegurl''"

section \<open>The same rendition as the preflight\<close>

text \<open>A program the demuxer made of a rendition of the playlist.\<close>

definition describes :: "av_format \<Rightarrow> av_program \<Rightarrow> variant \<Rightarrow> bool" where
  "describes f p v \<longleftrightarrow> program_has_video f p = supported_video v \<and> variant_bitrate f p = bandwidth v"

definition same_choice :: "variant list \<Rightarrow> selection \<Rightarrow> variant option \<times> variant option \<Rightarrow> bool" where
  "same_choice vs s c \<longleftrightarrow>
     map_option (nth vs) (best_under_target s) = fst c \<and> map_option (nth vs) (lowest_over_target s) = snd c \<and>
     best_under_bitrate s = (case fst c of None \<Rightarrow> -1 | Some v \<Rightarrow> bandwidth v) \<and>
     lowest_over_bitrate s = (case snd c of None \<Rightarrow> 2 ^ 63 - 1 | Some v \<Rightarrow> bandwidth v) \<and>
     (fallback_program s \<noteq> None \<longrightarrow> fst c \<noteq> None \<or> snd c \<noteq> None) \<and>
     (\<forall>i. best_under_target s = Some i \<or> lowest_over_target s = Some i \<longrightarrow> i < length vs)"

definition stated_bandwidth :: "variant \<Rightarrow> bool" where
  "stated_bandwidth v \<longleftrightarrow> (supported_video v \<longrightarrow> 0 < bandwidth v \<and> bandwidth v < 2 ^ 63 - 1)"

lemma same_choice_step:
  assumes c: "same_choice vs s c" and d: "describes f p v" and v: "stated_bandwidth v" and i: "i < length vs" "vs ! i = v"
  shows "same_choice vs (select_step f s (i, p)) (choose_step c v)"
proof (cases "supported_video v")
  case False
  then show ?thesis using c d by (cases c) (simp add: select_step_def choose_step_def describes_def)
next
  case True
  obtain b l where cc: "c = (b, l)" by (cases c)
  have bw: "0 < bandwidth v" "bandwidth v < 2 ^ 63 - 1" using v True by (simp_all add: stated_bandwidth_def)
  have p: "program_has_video f p" "variant_bitrate f p = bandwidth v" using d True by (simp_all add: describes_def)
  show ?thesis
    using c bw p i True
    by (auto simp: same_choice_def select_step_def choose_step_def cc Let_def split: option.splits if_splits)
qed

lemma same_choice_fold:
  "list_all2 (describes f) ps us \<Longrightarrow> list_all stated_bandwidth us \<Longrightarrow> vs = us @ rest \<Longrightarrow>
     same_choice vs (foldl (select_step f) selection_new (enumerate 0 ps)) (foldl choose_step (None, None) us)"
proof (induction us arbitrary: ps rest rule: rev_induct)
  case Nil
  then show ?case by (simp add: same_choice_def selection_new_def)
next
  case (snoc v us)
  then obtain qs p where ps: "ps = qs @ [p]" "list_all2 (describes f) qs us" "describes f p v"
    by (auto simp: list_all2_append2 list_all2_Cons2)
  have l: "length qs = length us" using ps(2) by (rule list_all2_lengthD)
  have "same_choice vs (foldl (select_step f) selection_new (enumerate 0 qs)) (foldl choose_step (None, None) us)"
    by (rule snoc.IH [OF ps(2), of "v # rest"]) (use snoc.prems in simp_all)
  from same_choice_step [OF this ps(3), of "length us"] snoc.prems show ?case
    by (simp add: ps(1) enumerate_append_eq l nth_append)
qed

text \<open>
  The manifest preflight and the demuxer pick the same rendition: when the playlist states a
  bandwidth for each of its renditions with video, the program the demuxer is told to read is, by
  position, the rendition \<open>chooseVariant\<close> takes from the manifest, and none when that is none.
\<close>

theorem preflight_and_demuxer_agree:
  assumes "list_all2 (describes f) (fm_programs f) vs" "list_all stated_bandwidth vs"
  shows "map_option (nth vs) (selected_program f) = chooseVariant vs"
proof -
  have "same_choice vs (foldl (select_step f) selection_new (enumerate 0 (fm_programs f))) (foldl choose_step (None, None) vs)"
    by (rule same_choice_fold [OF assms, of vs "[]"]) simp
  then show ?thesis
    by (cases "foldl choose_step (None, None) vs")
      (auto simp: same_choice_def selected_program_def chooseVariant_def Let_def split: option.splits)
qed

definition two_programs :: "string option \<Rightarrow> av_format" where
  "two_programs first = \<lparr>fm_name = Some ''hls'',
     fm_programs = [\<lparr>pr_variant_bitrate = first, pr_streams = [0], pr_discard_all = False\<rparr>,
       \<lparr>pr_variant_bitrate = Some ''2000000'', pr_streams = [1], pr_discard_all = False\<rparr>],
     fm_streams = [\<lparr>st_variant_bitrate = None, st_type = Type_video, st_discard_all = False\<rparr>,
       \<lparr>st_variant_bitrate = None, st_type = Type_video, st_discard_all = False\<rparr>]\<rparr>"

definition two_variants :: "int \<Rightarrow> variant list" where
  "two_variants first = [\<lparr>uri = ''a'', bandwidth = first, supported_video = True\<rparr>,
     \<lparr>uri = ''b'', bandwidth = 2000000, supported_video = True\<rparr>]"

lemma preflight_and_demuxer_agree_witness:
  "map_option (nth (two_variants 800000)) (selected_program (two_programs (Some ''800000''))) =
     chooseVariant (two_variants 800000)"
proof -
  have d: "variant_bitrate (two_programs (Some ''800000'')) (fm_programs (two_programs (Some ''800000'')) ! 0) = 800000"
    "variant_bitrate (two_programs (Some ''800000'')) (fm_programs (two_programs (Some ''800000'')) ! 1) = 2000000"
    "program_has_video (two_programs (Some ''800000'')) (fm_programs (two_programs (Some ''800000'')) ! 0)"
    "program_has_video (two_programs (Some ''800000'')) (fm_programs (two_programs (Some ''800000'')) ! 1)"
    by code_simp+
  have p: "fm_programs (two_programs (Some ''800000'')) =
      [fm_programs (two_programs (Some ''800000'')) ! 0, fm_programs (two_programs (Some ''800000'')) ! 1]"
    by (simp add: two_programs_def)
  show ?thesis
    by (rule preflight_and_demuxer_agree)
      (subst p, use d in \<open>auto simp: describes_def two_variants_def stated_bandwidth_def\<close>)
qed

text \<open>
  Not so for a rendition without a stated bandwidth beside one above the target: the preflight takes
  the first, the demuxer's choice is the other.
\<close>

lemma unstated_bandwidth_differs:
  "selected_program (two_programs None) = Some 1 \<and> map_option uri (chooseVariant (two_variants 0)) = Some ''a''"
  by code_simp

end
