(* ===== verification/Player_Item.thy ===== *)
theory Player_Item
  imports Media_Fetch Hls_Program Player_Control
begin

text \<open>
  \<^verbatim>\<open>src/media-player.cpp\<close>, the worker thread of \<open>MediaPlayer::Impl\<close> from the start of an item until it
  can be played: the URL is checked (\<open>run\<close>), the rendition of an HLS item resolved
  (\<open>resolveHlsVariant\<close>), the demuxer and the decoders opened (\<open>openItem\<close>), and what the demuxer fetches
  passes the policy (\<open>policyIoOpen\<close>). The fetches are the session of \<open>Media_Fetch\<close>; its
  \<open>f_interrupted\<close> is \<open>m_stop_requested\<close>, which is what the session is given. FFmpeg's answers are the
  record \<open>item_lib\<close>.
\<close>

section \<open>The rendition of an HLS item\<close>

text \<open>
  \<open>h_connect\<close> is \<open>avio_open2\<close>, \<open>h_connected\<close> whether it left an input, \<open>h_read\<close> is \<open>avio_read\<close> of up to
  16 KB: bytes, or a number that is zero or negative.
\<close>

record ('w, 'd) hls_lib =
  h_connect :: "('w, 'd) opener"
  h_options :: 'd
  h_connected :: "'w \<Rightarrow> bool"
  h_read :: "'w \<Rightarrow> (int + string) \<times> 'w"

definition kMaximumManifestBytes :: nat where "kMaximumManifestBytes = 1024 * 1024"

text \<open>The manifest as far as it was read; none when it is too large.\<close>

function read_manifest :: "('w, 'd) fetch_env \<Rightarrow> ('w, 'd) hls_lib \<Rightarrow> string \<Rightarrow> 'w \<Rightarrow> string option \<times> 'w" where
  "read_manifest env H playlist w =
     (case f_interrupted env w of
        (True, w1) \<Rightarrow> (Some playlist, w1)
      | (False, w1) \<Rightarrow>
          (case h_read H w1 of
             (Inl e, w2) \<Rightarrow> (Some (if e = AVERROR_EOF \<or> e = 0 then playlist else []), w2)
           | (Inr bs, w2) \<Rightarrow>
               if bs = [] then (Some playlist, w2)
               else if length playlist + length bs > kMaximumManifestBytes then (None, w2)
               else read_manifest env H (playlist @ bs) w2))"
  by pat_completeness auto
termination
proof (relation "measure (\<lambda>(env, H, playlist, w). Suc kMaximumManifestBytes - length playlist)", goal_cases)
  case 1
  then show ?case by simp
next
  case 2
  then show ?case by (simp add: diff_less_mono2 length_greater_0_conv [THEN iffD2] del: length_greater_0_conv)
qed

declare read_manifest.simps [simp del]

text \<open>What the manifest says to play instead of \<open>location\<close>; \<open>final_location\<close> is where it came from.\<close>

definition manifest_choice :: "string \<Rightarrow> string \<Rightarrow> string option \<Rightarrow> string" where
  "manifest_choice location final_location manifest =
     (case manifest of
        None \<Rightarrow> location
      | Some playlist \<Rightarrow>
          if playlist = [] \<or> \<not> contains_str playlist ''#EXTM3U'' then location
          else (case chooseVariant (parseVariants playlist) of
                  None \<Rightarrow> location
                | Some selected \<Rightarrow>
                    (let resolved = resolveUrl final_location (uri selected)
                     in if is_http_url resolved then resolved else location)))"

definition resolveHlsVariant ::
    "('w, 'd) fetch_env \<Rightarrow> ('w, 'd) hls_lib \<Rightarrow> string \<Rightarrow> session \<times> 'w \<Rightarrow> string \<times> (session \<times> 'w)" where
  "resolveHlsVariant env H location sw =
     (if \<not> is_http_url location \<or> \<not> looks_like_hls_url location then (location, sw)
      else
        (case open_url env (h_connect H) (h_options H) False sw location of
           (opened, (s, w)) \<Rightarrow>
             if o_result opened < 0 \<or> \<not> h_connected H w then (location, (s, w))
             else
               (case read_manifest env H [] w of
                  (manifest, w') \<Rightarrow>
                    (manifest_choice location
                       (case o_final_url opened of Some u \<Rightarrow> u | None \<Rightarrow> location) manifest, (s, w')))))"

section \<open>What the demuxer fetches\<close>

definition crypto_prefix :: "string \<Rightarrow> string \<times> string" where
  "crypto_prefix url =
     (if starts_with_ci url ''crypto+'' \<or> starts_with_ci url ''crypto:'' then (take 7 url, drop 7 url) else ([], url))"

text \<open>\<open>io_open\<close> is FFmpeg's own opener, which the session is given with the prefix put back.\<close>

definition policyIoOpen ::
    "('w, 'd) fetch_env \<Rightarrow> ('w, 'd) opener \<Rightarrow> 'd \<Rightarrow> bool \<Rightarrow> string \<Rightarrow> session \<times> 'w \<Rightarrow> int \<times> (session \<times> 'w)" where
  "policyIoOpen env io_open options allow_insecure url sw =
     (case crypto_prefix url of
        (prefix, target) \<Rightarrow>
          if \<not> is_http_url target then (AVERROR_EPERM, (fst sw, f_refused env (snd sw) ''not an HTTP(S) URL''))
          else
            (case open_url env (\<lambda>w pinned attempt. io_open w (prefix @ pinned) attempt)
                (setTlsOptions env options allow_insecure) False sw target of
               (opened, sw') \<Rightarrow> (o_result opened, sw')))"

section \<open>Opening the demuxer and the decoders\<close>

text \<open>
  \<open>a_input\<close> is what \<open>ResilientHttpIo\<close> came to: opened with the content type, refused or not there.
  Durations and start times are in microseconds (\<open>AV_NOPTS_VALUE\<close> is none). \<open>a_info\<close> is the format
  after \<open>avformat_find_stream_info\<close>, \<open>a_decoder\<close> whether the decoder of a stream opens.
\<close>

datatype input_answer = Input_opened string | Input_refused | Input_failed

record item_lib =
  a_allocated :: bool
  a_input :: input_answer
  a_demuxer :: int
  a_stopped :: bool
  a_format :: av_format
  a_found :: int
  a_info :: av_format
  a_best :: "media_type \<Rightarrow> nat option"
  a_decoder :: "nat \<Rightarrow> bool"
  a_duration :: "int option"
  a_start_time :: "int option"
  a_indexed :: "nat \<Rightarrow> bool"

record item =
  it_resilient :: bool
  it_hls :: bool
  it_video :: "nat option"
  it_audio :: "nat option"
  it_duration :: "rat option"
  it_start_seconds :: rat
  it_preroll :: rat
  it_first_seek :: "int option"

datatype item_input = Hls_input | Resilient_input | Ffmpeg_input | Refused_input

definition choose_input :: "item_lib \<Rightarrow> string \<Rightarrow> item_input" where
  "choose_input A location =
     (if looks_like_hls_url location then Hls_input
      else if \<not> is_http_url location then Ffmpeg_input
      else (case a_input A of
              Input_opened mime \<Rightarrow> if is_hls_mime_type mime then Hls_input else Resilient_input
            | Input_refused \<Rightarrow> Refused_input
            | Input_failed \<Rightarrow> Ffmpeg_input))"

definition pick_stream :: "item_lib \<Rightarrow> nat option \<Rightarrow> media_type \<Rightarrow> nat option" where
  "pick_stream A program type =
     (case program of
        Some i \<Rightarrow> find_program_stream (a_info A) (fm_programs (a_info A) ! i) type
      | None \<Rightarrow> a_best A type)"

definition open_stream_decoder :: "item_lib \<Rightarrow> nat option \<Rightarrow> nat option" where
  "open_stream_decoder A stream = (case stream of Some i \<Rightarrow> if a_decoder A i then Some i else None | None \<Rightarrow> None)"

definition known_duration :: "item_lib \<Rightarrow> rat option" where
  "known_duration A =
     (case a_duration A of Some d \<Rightarrow> if d > 0 then Some (of_int d / 1000000) else None | None \<Rightarrow> None)"

definition start_seconds :: "item_lib \<Rightarrow> rat" where
  "start_seconds A = (case a_start_time A of Some t \<Rightarrow> of_int t / 1000000 | None \<Rightarrow> 0)"

definition kUnindexedSeekPreroll :: rat where "kUnindexedSeekPreroll = 2"

definition seekPreroll :: "av_format \<Rightarrow> (nat \<Rightarrow> bool) \<Rightarrow> nat option \<Rightarrow> rat" where
  "seekPreroll f indexed video =
     (case (video, fm_name f) of
        (Some i, Some name) \<Rightarrow> if contains_str name ''hls'' \<or> indexed i then 0 else kUnindexedSeekPreroll
      | _ \<Rightarrow> 0)"

text \<open>The end of \<open>openItem\<close>, when there is a decoder: the item, and what is published of it.\<close>

definition opened_item :: "item_lib \<Rightarrow> item_input \<Rightarrow> nat option \<Rightarrow> nat option \<Rightarrow> nat option \<Rightarrow> rat \<Rightarrow> item" where
  "opened_item A input video_stream video audio start_position =
     (let duration = known_duration A;
          start = (case duration of Some d \<Rightarrow> min start_position d | None \<Rightarrow> start_position);
          preroll = seekPreroll (a_info A) (a_indexed A) video_stream
      in \<lparr>it_resilient = (input = Resilient_input), it_hls = (input = Hls_input), it_video = video,
          it_audio = audio, it_duration = duration, it_start_seconds = start_seconds A, it_preroll = preroll,
          it_first_seek = (if start > 0 then Some (seek_timestamp (start - preroll) (start_seconds A)) else None)\<rparr>)"

text \<open>False (of \<open>openItem\<close>) is an item that failed, which is published, or one given up for a stop.\<close>

datatype item_result = Item_opened item | Item_failed | Item_given_up

definition openItem :: "item_lib \<Rightarrow> string \<Rightarrow> rat \<Rightarrow> player \<Rightarrow> item_result \<times> player" where
  "openItem A location start_position s =
     (let input = choose_input A location;
          program = map_option fst (fst (select_hls_program (a_format A)));
          video_stream = pick_stream A program Type_video;
          audio_stream = pick_stream A program Type_audio;
          video = open_stream_decoder A video_stream;
          audio = open_stream_decoder A audio_stream
      in if \<not> a_allocated A \<or> input = Refused_input then (Item_failed, markOpenFailure s)
         else if a_demuxer A < 0 then (if a_stopped A then (Item_given_up, s) else (Item_failed, markOpenFailure s))
         else if a_found A < 0 \<or> (video_stream = None \<and> audio_stream = None) \<or> (video = None \<and> audio = None)
         then (Item_failed, markOpenFailure s)
         else (Item_opened (opened_item A input video_stream video audio start_position),
               publish (known_duration A) (video \<noteq> None) (audio \<noteq> None) s))"

section \<open>run\<close>

text \<open>How the start of an item comes out: stopped, not playable, or an item at a location.\<close>

datatype start_outcome = Start_stopped | Start_failed | Start_item string item

definition check_item :: "('w, 'd) fetch_env \<Rightarrow> string \<Rightarrow> session \<times> 'w \<Rightarrow> string \<times> (session \<times> 'w)" where
  "check_item env location sw =
     (if is_http_url location then check_url env sw location True
      else (checkLocalFile (f_env env) (f_policy env) location, sw))"

text \<open>A refusal is published and reported.\<close>

definition refuse_item :: "('w, 'd) fetch_env \<Rightarrow> string \<Rightarrow> player \<times> (session \<times> 'w) \<Rightarrow> player \<times> (session \<times> 'w)" where
  "refuse_item env reason st = (case st of (p, (s, w)) \<Rightarrow> (markOpenFailure p, (s, f_refused env w reason)))"

text \<open>The rendition's URL is checked, when it is another one.\<close>

definition open_location ::
    "('w, 'd) fetch_env \<Rightarrow> (session \<times> 'w \<Rightarrow> item_lib \<times> (session \<times> 'w)) \<Rightarrow> string \<Rightarrow> string \<Rightarrow> rat \<Rightarrow>
       player \<times> (session \<times> 'w) \<Rightarrow> start_outcome \<times> (player \<times> (session \<times> 'w))" where
  "open_location env demux location playback_location start_position st =
     (case (if playback_location \<noteq> location then check_url env (snd st) playback_location False else ([], snd st)) of
        (refused_variant, sw) \<Rightarrow>
          if refused_variant \<noteq> [] then (Start_failed, refuse_item env refused_variant (fst st, sw))
          else
            (case demux sw of
               (A, sw') \<Rightarrow>
                 (case openItem A playback_location start_position (fst st) of
                    (Item_given_up, p) \<Rightarrow> (Start_stopped, (p, sw'))
                  | (Item_failed, p) \<Rightarrow> (Start_failed, (p, sw'))
                  | (Item_opened it, p) \<Rightarrow> (Start_item playback_location it, (p, sw')))))"

definition stop_check :: "('w, 'd) fetch_env \<Rightarrow> session \<times> 'w \<Rightarrow> bool \<times> (session \<times> 'w)" where
  "stop_check env sw = (case f_interrupted env (snd sw) of (stop, w) \<Rightarrow> (stop, (fst sw, w)))"

definition run_item ::
    "('w, 'd) fetch_env \<Rightarrow> ('w, 'd) hls_lib \<Rightarrow> (session \<times> 'w \<Rightarrow> item_lib \<times> (session \<times> 'w)) \<Rightarrow> string \<Rightarrow> rat \<Rightarrow>
       player \<times> (session \<times> 'w) \<Rightarrow> start_outcome \<times> (player \<times> (session \<times> 'w))" where
  "run_item env H demux location start_position st =
     (case check_item env location (snd st) of
        (refused_item, sw1) \<Rightarrow>
          (case stop_check env sw1 of
             (True, sw2) \<Rightarrow> (Start_stopped, (fst st, sw2))
           | (False, sw2) \<Rightarrow>
               if refused_item \<noteq> [] then (Start_failed, refuse_item env refused_item (fst st, sw2))
               else
                 (case resolveHlsVariant env H location sw2 of
                    (playback_location, sw3) \<Rightarrow>
                      (case stop_check env sw3 of
                         (True, sw4) \<Rightarrow> (Start_stopped, (fst st, sw4))
                       | (False, sw4) \<Rightarrow>
                           open_location env demux location playback_location start_position (fst st, sw4)))))"

section \<open>Lemmas\<close>

lemma open_hops_item:
  "open_hops env opener base left item (s, w) url = (r, (s', w')) \<Longrightarrow> same_item s s'"
proof (induction left arbitrary: item s w url rule: less_induct)
  case (less left)
  obtain q s1 w1 where p: "prepare env (s, w) url item = (q, (s1, w1))" by (metis prod.exhaust)
  note s1 = prepare_session [OF p]
  show ?case
  proof (cases q)
    case (Inl reason)
    then show ?thesis using less.prems p s1 by (simp add: open_hops.simps)
  next
    case (Inr t)
    let ?a = "f_dict_set env (f_dict_set env base ''max_redirects'' (Some ''0'')) ''headers'' (if t_headers t = [] then None else Some (t_headers t))"
    obtain result attempt w2 where o: "opener w1 (t_url t) ?a = ((result, attempt), w2)" by (metis prod.exhaust)
    obtain stop w3 where i: "(if result \<ge> 0 \<or> result \<noteq> AVERROR_EIO then (True, w2) else f_interrupted env w2) = (stop, w3)"
      by (metis prod.exhaust)
    obtain location s3 w4 where l: "(if stop \<or> left = 0 then ([], (s1, w3)) else probeRedirect env (s1, w3) t) = (location, (s3, w4))"
      by (metis prod.exhaust)
    have s3: "s3 = s1" using l by (auto split: if_splits dest: probeRedirect_session)
    have "same_item s1 s'"
      using less.prems less.IH [of _ False s1 w4 "resolveUrl url location"] p Inr o i l s3
      by (auto simp: open_hops.simps [of env opener base left] Let_def split: if_splits nat.splits prod.splits)
    with s1 show ?thesis by (rule same_item_trans)
  qed
qed

lemma check_url_item: "check_url env sw url item = (r, sw') \<Longrightarrow> same_item (fst sw) (fst sw')"
  by (cases sw; cases sw') (auto simp: check_url_def split: prod.splits dest: decide_session)

lemma resolveHlsVariant_item:
  assumes "resolveHlsVariant env H location sw = (playback, sw')"
  shows "same_item (fst sw) (fst sw')"
proof (cases "is_http_url location \<and> looks_like_hls_url location")
  case True
  obtain opened s1 w1 where o: "open_url env (h_connect H) (h_options H) False sw location = (opened, (s1, w1))"
    by (metis prod.exhaust)
  have "same_item (fst sw) s1"
    using o by (cases sw) (auto simp: open_url_def intro: open_hops_item)
  with assms True o show ?thesis by (auto simp: resolveHlsVariant_def split: if_splits prod.splits)
next
  case False
  then show ?thesis using assms by (auto simp: resolveHlsVariant_def)
qed

lemma manifest_choice_http: "manifest_choice location final m = r \<Longrightarrow> r = location \<or> is_http_url r"
  by (auto simp: manifest_choice_def Let_def split: option.splits if_splits)

lemma resolveHlsVariant_http:
  assumes "resolveHlsVariant env H location sw = (playback, sw')"
  shows "playback = location \<or> is_http_url location \<and> is_http_url playback"
  using assms manifest_choice_http
  by (auto simp: resolveHlsVariant_def split: if_splits prod.splits)

lemma stop_check_item: "stop_check env sw = (stop, sw') \<Longrightarrow> fst sw' = fst sw"
  by (auto simp: stop_check_def split: prod.splits)


text \<open>What the sender is told when the start of an item comes out so.\<close>

definition told :: "start_outcome \<Rightarrow> player \<Rightarrow> player \<Rightarrow> bool" where
  "told outcome s s' \<longleftrightarrow>
     (case outcome of
        Start_failed \<Rightarrow> ended s' \<and> rate s' = 0 \<and> \<not> pi_ready_to_play (m_info s') \<and> position s' = position s
      | Start_item location it \<Rightarrow>
          pi_ready_to_play (m_info s') \<and> (pi_has_video (m_info s') \<or> pi_has_audio (m_info s')) \<and> ended s' = ended s \<and>
          rate s' = rate s \<and> position s' \<le> position s \<and>
          (pi_duration_known (m_info s') \<longrightarrow> position s' \<le> pi_duration (m_info s'))
      | Start_stopped \<Rightarrow> s' = s)"

lemma told_failure: "told Start_failed s (markOpenFailure s)"
  by (simp add: told_def markOpenFailure_def)

lemma told_item:
  "has_video \<or> has_audio \<Longrightarrow> told (Start_item location it) s (publish duration has_video has_audio s)"
  by (cases duration) (auto simp: told_def publish_def)

lemma told_stopped: "told Start_stopped s s"
  by (simp add: told_def)

text \<open>
  That the run ended, with \<open>sw'\<close>, where a stop was seen: in one of its checks of \<open>m_stop_requested\<close>, or
  after a demuxer that did not open because of one.
\<close>

definition stop_seen ::
    "('w, 'd) fetch_env \<Rightarrow> (session \<times> 'w \<Rightarrow> item_lib \<times> (session \<times> 'w)) \<Rightarrow> session \<times> 'w \<Rightarrow> bool" where
  "stop_seen env demux sw' \<longleftrightarrow>
     (\<exists>w. f_interrupted env w = (True, snd sw')) \<or>
     (\<exists>sw A. demux sw = (A, sw') \<and> a_demuxer A < 0 \<and> a_stopped A)"

lemma stop_check_seen: "stop_check env sw = (True, sw') \<Longrightarrow> stop_seen env demux sw'"
  by (auto simp: stop_check_def stop_seen_def split: prod.splits)

lemma openItem_given_up: "openItem A location start s = (Item_given_up, s') \<Longrightarrow> a_demuxer A < 0 \<and> a_stopped A"
  by (auto simp: openItem_def Let_def split: if_splits)

lemma open_location_stopped:
  assumes "open_location env demux location playback start st = (Start_stopped, (s', sw'))"
  shows "stop_seen env demux sw'"
proof -
  obtain r sw1 where c: "(if playback \<noteq> location then check_url env (snd st) playback False else ([], snd st)) = (r, sw1)"
    by (metis prod.exhaust)
  obtain A sw2 where d: "demux sw1 = (A, sw2)" by (metis prod.exhaust)
  obtain q p where o: "openItem A playback start (fst st) = (q, p)" by (metis prod.exhaust)
  have q: "q = Item_given_up" and sw: "sw2 = sw'"
    using assms c d o by (cases q; auto simp: open_location_def split: if_splits prod.splits)+
  have "a_demuxer A < 0 \<and> a_stopped A" using o by (simp add: q openItem_given_up)
  with d show ?thesis unfolding stop_seen_def sw by blast
qed

lemma run_item_stopped:
  assumes "run_item env H demux location start st = (Start_stopped, (s', sw'))"
  shows "stop_seen env demux sw'"
  using assms
  by (auto intro: open_location_stopped stop_check_seen simp: run_item_def split: if_splits prod.splits bool.splits)

lemma openItem_told:
  assumes "openItem A location start s = (r, s')"
  shows "told (case r of Item_opened it \<Rightarrow> Start_item playback it | Item_failed \<Rightarrow> Start_failed | Item_given_up \<Rightarrow> Start_stopped) s s'"
  using assms by (auto simp: openItem_def Let_def told_failure told_stopped intro!: told_item split: if_splits)

lemma open_location_told:
  assumes "open_location env demux location playback start (s, sw) = (outcome, (s', sw'))"
  shows "told outcome s s'"
proof -
  obtain r sw1 where c: "(if playback \<noteq> location then check_url env sw playback False else ([], sw)) = (r, sw1)"
    by (metis prod.exhaust)
  obtain A sw2 where d: "demux sw1 = (A, sw2)" by (metis prod.exhaust)
  obtain q p where o: "openItem A playback start s = (q, p)" by (metis prod.exhaust)
  show ?thesis
    using assms c d o openItem_told [OF o, of playback]
    by (cases q) (auto simp: open_location_def refuse_item_def told_failure split: if_splits prod.splits)
qed

lemma run_item_told:
  assumes "run_item env H demux location start (s, sw) = (outcome, (s', sw'))"
  shows "told outcome s s'"
  using assms
  by (auto intro: open_location_told simp: run_item_def refuse_item_def told_failure told_stopped split: if_splits prod.splits bool.splits)

text \<open>
  C33. Every start of an item is accounted for to the sender: one that is refused, cannot be opened, has
  nothing decodable or whose rendition is refused is reported as ended, not playing and not ready, at
  the position it was asked for; one that can be played is reported as ready, with a picture or sound
  and within its duration. Only one that is stopped leaves the report as it was: then the last thing the
  run did was a check of the stop flag that found it set, or an attempt to open the demuxer that failed
  with the flag set.
\<close>

theorem every_start_is_accounted_for:
  assumes "run_item env H demux location start (s, sw) = (outcome, (s', sw'))"
  shows "told outcome s s' \<and> (outcome = Start_stopped \<longrightarrow> stop_seen env demux sw')"
  using run_item_told [OF assms] run_item_stopped [of env H demux location start "(s, sw)" s' sw'] assms by blast

text \<open>
  C7. Only what was checked is played. When an item starts, a location that is not a web URL passed the
  check for the receiver's own spool files and is played itself; a web URL passed the policy as the
  item, and if a rendition of it is played instead, that is a web URL too and passed the policy as a
  URL that this item names, after the redirects that led to its manifest.
\<close>

theorem only_checked_items_are_played:
  assumes "run_item env H demux location start (s, sw) = (Start_item playback it, st')"
  shows "if is_http_url location
    then (\<exists>sw1. check_url env sw location True = ([], sw1)) \<and>
      (playback = location \<or> is_http_url playback \<and>
         (\<exists>sw3 sw4. same_item (fst sw) (fst sw3) \<and> check_url env sw3 playback False = ([], sw4)))
    else checkLocalFile (f_env env) (f_policy env) location = [] \<and> playback = location"
proof -
  obtain r sw1 where c: "check_item env location sw = (r, sw1)" by (metis prod.exhaust)
  obtain stop2 sw2 where s2: "stop_check env sw1 = (stop2, sw2)" by (metis prod.exhaust)
  obtain u sw3 where u: "resolveHlsVariant env H location sw2 = (u, sw3)" by (metis prod.exhaust)
  obtain stop4 sw4 where s4: "stop_check env sw3 = (stop4, sw4)" by (metis prod.exhaust)
  have o: "r = []" "open_location env demux location u start (s, sw4) = (Start_item playback it, st')"
    using assms c s2 u s4 by (auto simp: run_item_def split: if_splits bool.splits)
  then have v: "u = playback" "playback \<noteq> location \<Longrightarrow> \<exists>sw5. check_url env sw4 playback False = ([], sw5)"
    by (auto simp: open_location_def split: if_splits prod.splits item_result.splits)
  have i: "same_item (fst sw) (fst sw1)"
    using c check_url_item [of env sw location True r sw1] by (auto simp: check_item_def split: if_splits)
  have "same_item (fst sw) (fst sw4)"
    using i stop_check_item [OF s2] stop_check_item [OF s4] resolveHlsVariant_item [OF u] same_item_trans by metis
  then show ?thesis
    using c o(1) v resolveHlsVariant_http [OF u] by (cases sw4) (auto simp: check_item_def split: if_splits)
qed


text \<open>A spool file of one video stream, of a second, and a run of it.\<close>

definition clip_lib :: item_lib where
  "clip_lib = \<lparr>a_allocated = True, a_input = Input_failed, a_demuxer = 0, a_stopped = False,
     a_format = \<lparr>fm_name = Some ''mov'', fm_programs = [], fm_streams = []\<rparr>, a_found = 0,
     a_info = \<lparr>fm_name = Some ''mov'', fm_programs = [], fm_streams = []\<rparr>,
     a_best = (\<lambda>t. if t = Type_video then Some 0 else None), a_decoder = (\<lambda>_. True),
     a_duration = Some 1000000, a_start_time = None, a_indexed = (\<lambda>_. True)\<rparr>"

definition clip_fetch :: "(unit, unit) fetch_env" where
  "clip_fetch = \<lparr>f_env = witness_env, f_policy = policy_initial, f_lookup = (\<lambda>w _. ((False, []), w)),
     f_interrupted = (\<lambda>w. (False, w)), f_refused = (\<lambda>w _. w), f_dict_set = (\<lambda>d _ _. d), f_dict_empty = (),
     f_exchange = (\<lambda>w _ _ _. (None, w)), f_system_bundle = False, f_version = []\<rparr>"

definition clip_hls :: "(unit, unit) hls_lib" where
  "clip_hls = \<lparr>h_connect = (\<lambda>w _ d. ((-1, d), w)), h_options = (), h_connected = (\<lambda>_. False), h_read = (\<lambda>w. (Inl 0, w))\<rparr>"

lemma clip_run:
  "\<exists>it p sw'. run_item clip_fetch clip_hls (\<lambda>sw. (clip_lib, sw)) ''/t/obs-airplay-fcup-1'' 0 (player_new, (session_new [] False, ())) =
     (Start_item ''/t/obs-airplay-fcup-1'' it, (p, sw')) \<and> it_video it = Some 0 \<and> pi_duration (m_info p) = 1"
proof -
  have h: "\<not> is_http_url ''/t/obs-airplay-fcup-1''" "\<not> looks_like_hls_url ''/t/obs-airplay-fcup-1''" by code_simp+
  have c: "checkLocalFile (f_env clip_fetch) (f_policy clip_fetch) ''/t/obs-airplay-fcup-1'' = []"
    by (simp add: clip_fetch_def witness_env_def policy_initial_def checkLocalFile_def contains_str_def find_str_def
        starts_with_def rfind_char_def c_str_def)
  have i: "f_interrupted clip_fetch = (\<lambda>w. (False, w))" by (simp add: clip_fetch_def)
  show ?thesis
    using h by (simp add: run_item_def check_item_def c stop_check_def i resolveHlsVariant_def open_location_def openItem_def
        choose_input_def Let_def clip_lib_def select_hls_program_def pick_stream_def open_stream_decoder_def known_duration_def
        opened_item_def publish_def)
qed

lemma every_start_is_accounted_for_witness:
  "\<exists>it p sw'. run_item clip_fetch clip_hls (\<lambda>sw. (clip_lib, sw)) ''/t/obs-airplay-fcup-1'' 0 (player_new, (session_new [] False, ())) =
     (Start_item ''/t/obs-airplay-fcup-1'' it, (p, sw')) \<and> told (Start_item ''/t/obs-airplay-fcup-1'' it) player_new p"
proof -
  obtain it p sw' where r: "run_item clip_fetch clip_hls (\<lambda>sw. (clip_lib, sw)) ''/t/obs-airplay-fcup-1'' 0
      (player_new, (session_new [] False, ())) = (Start_item ''/t/obs-airplay-fcup-1'' it, (p, sw'))"
    using clip_run by blast
  from every_start_is_accounted_for [OF r] r show ?thesis by blast
qed

lemma only_checked_items_are_played_witness:
  "\<exists>it st'. run_item clip_fetch clip_hls (\<lambda>sw. (clip_lib, sw)) ''/t/obs-airplay-fcup-1'' 0 (player_new, (session_new [] False, ())) =
     (Start_item ''/t/obs-airplay-fcup-1'' it, st') \<and>
     checkLocalFile (f_env clip_fetch) (f_policy clip_fetch) ''/t/obs-airplay-fcup-1'' = []"
proof -
  obtain it st' where r: "run_item clip_fetch clip_hls (\<lambda>sw. (clip_lib, sw)) ''/t/obs-airplay-fcup-1'' 0
      (player_new, (session_new [] False, ())) = (Start_item ''/t/obs-airplay-fcup-1'' it, st')"
    using clip_run by blast
  have "\<not> is_http_url ''/t/obs-airplay-fcup-1''" by code_simp
  with only_checked_items_are_played [OF r]
  have "checkLocalFile (f_env clip_fetch) (f_policy clip_fetch) ''/t/obs-airplay-fcup-1'' = []" by simp
  with r show ?thesis by blast
qed

end
