(* ===== verification/Picture_Rotation.thy ===== *)
theory Picture_Rotation
  imports Prelude Complex_Main
begin

text \<open>
  \<^verbatim>\<open>src/media-player.cpp\<close>: turning a decoded picture upright (\<open>display_quarter_turns\<close>,
  \<open>rotate_plane\<close>, \<open>rotateUpright\<close>). A plane is memory read and written through offsets from its
  pointer (\<open>int \<Rightarrow> u8\<close>); pixels, rows and columns count from 0. Widths and heights are not negative.
\<close>

section \<open>How far to turn\<close>

text \<open>\<open>std::lround\<close>: to the nearest integer, halves away from zero; \<open>%\<close> of C++ takes the sign of its left side.\<close>

definition lround :: "rat \<Rightarrow> int" where
  "lround x = (if 0 \<le> x then \<lfloor>x + 1 / 2\<rfloor> else \<lceil>x - 1 / 2\<rceil>)"

definition c_rem :: "int \<Rightarrow> int \<Rightarrow> int" where
  "c_rem a b = sgn a * (\<bar>a\<bar> mod \<bar>b\<bar>)"

text \<open>
  The display matrix of the stream, when it is there and complete, gives an angle (by FFmpeg), or not
  a number (none).
\<close>

definition display_quarter_turns :: "rat option option \<Rightarrow> int" where
  "display_quarter_turns matrix_angle =
     (case matrix_angle of
        Some (Some angle) \<Rightarrow> c_rem (c_rem (lround (- angle / 90)) 4 + 4) 4
      | _ \<Rightarrow> 0)"

lemma c_rem_quarter: "c_rem (c_rem t 4 + 4) 4 = t mod 4"
proof (cases "0 \<le> t")
  case True
  then have "c_rem t 4 = t mod 4" by (cases "t = 0") (simp_all add: c_rem_def)
  moreover have "0 < t mod 4 + 4" by (simp add: add_nonneg_pos)
  ultimately show ?thesis by (simp add: c_rem_def)
next
  case False
  then have "c_rem t 4 = - ((- t) mod 4)" by (simp add: c_rem_def)
  moreover have "0 < 4 - (- t) mod 4" by simp
  ultimately have "c_rem (c_rem t 4 + 4) 4 = (4 - (- t) mod 4) mod 4" by (simp add: c_rem_def)
  also have "\<dots> = t mod 4" by presburger
  finally show ?thesis .
qed

lemma display_quarter_turns_simps:
  "display_quarter_turns (Some (Some angle)) = lround (- angle / 90) mod 4"
  "display_quarter_turns (Some None) = 0" "display_quarter_turns None = 0"
  by (simp_all add: display_quarter_turns_def c_rem_quarter)

section \<open>Turning a plane\<close>

type_synonym plane = "int \<Rightarrow> u8"

text \<open>One sample group: a byte, or the two of NV12's interleaved chroma.\<close>

definition copy_pixel :: "plane \<Rightarrow> nat \<Rightarrow> int \<Rightarrow> int \<Rightarrow> plane \<Rightarrow> plane" where
  "copy_pixel src pixel i j dst =
     (let dst1 = dst(j := src i) in if pixel = 2 then dst1(j + 1 := src (i + 1)) else dst1)"

text \<open>A row of a half turn: the input runs backwards.\<close>

fun copy_backwards :: "plane \<Rightarrow> nat \<Rightarrow> nat \<Rightarrow> int \<Rightarrow> int \<Rightarrow> plane \<Rightarrow> plane" where
  "copy_backwards src pixel 0 i j dst = dst"
| "copy_backwards src pixel (Suc n) i j dst =
     copy_backwards src pixel n (i - int pixel) (j + int pixel) (copy_pixel src pixel i j dst)"

definition half_turn :: "plane \<Rightarrow> int \<Rightarrow> nat \<Rightarrow> nat \<Rightarrow> nat \<Rightarrow> int \<Rightarrow> plane \<Rightarrow> plane" where
  "half_turn src src_stride width height pixel dst_stride dst =
     fold (\<lambda>y. copy_backwards src pixel width
       ((int height - 1 - int y) * src_stride + (int width - 1) * int pixel) (int y * dst_stride))
       [0..<height] dst"

definition kBand :: nat where "kBand = 16"

text \<open>One row of the source, as far as it goes into a band of rows of the destination.\<close>

definition turn_row :: "plane \<Rightarrow> int \<Rightarrow> nat \<Rightarrow> nat \<Rightarrow> nat \<Rightarrow> nat \<Rightarrow> int \<Rightarrow> nat \<Rightarrow> nat \<Rightarrow> nat \<Rightarrow> plane \<Rightarrow> plane" where
  "turn_row src src_stride width height pixel turns dst_stride band band_end x =
     fold (\<lambda>y. copy_pixel src pixel
         ((if turns = 1 then int height - 1 - int x else int x) * src_stride +
          (if turns = 1 then int y else int width - 1 - int y) * int pixel)
         (int y * dst_stride + int x * int pixel))
       [band..<band_end]"

definition turn_band :: "plane \<Rightarrow> int \<Rightarrow> nat \<Rightarrow> nat \<Rightarrow> nat \<Rightarrow> nat \<Rightarrow> int \<Rightarrow> nat \<Rightarrow> plane \<Rightarrow> plane" where
  "turn_band src src_stride width height pixel turns dst_stride band =
     fold (turn_row src src_stride width height pixel turns dst_stride band (min width (band + kBand))) [0..<height]"

function turn_bands :: "plane \<Rightarrow> int \<Rightarrow> nat \<Rightarrow> nat \<Rightarrow> nat \<Rightarrow> nat \<Rightarrow> int \<Rightarrow> nat \<Rightarrow> plane \<Rightarrow> plane" where
  "turn_bands src src_stride width height pixel turns dst_stride band dst =
     (if band < width
      then turn_bands src src_stride width height pixel turns dst_stride (band + kBand)
             (turn_band src src_stride width height pixel turns dst_stride band dst)
      else dst)"
  by pat_completeness auto
termination
  by (relation "measure (\<lambda>(src, ss, width, h, p, t, ds, band, dst). width - band)") (auto simp: kBand_def)

declare turn_bands.simps [simp del]

definition rotate_plane :: "plane \<Rightarrow> int \<Rightarrow> nat \<Rightarrow> nat \<Rightarrow> nat \<Rightarrow> nat \<Rightarrow> plane \<Rightarrow> int \<Rightarrow> plane" where
  "rotate_plane src src_stride width height pixel turns dst dst_stride =
     (if turns = 2 then half_turn src src_stride width height pixel dst_stride dst
      else turn_bands src src_stride width height pixel turns dst_stride 0 dst)"

section \<open>The picture that is meant\<close>

text \<open>Where the pixel at column \<open>x\<close> and row \<open>y\<close> of the turned picture comes from.\<close>

definition turned_from :: "nat \<Rightarrow> nat \<Rightarrow> nat \<Rightarrow> nat \<times> nat \<Rightarrow> nat \<times> nat" where
  "turned_from turns width height p =
     (case p of (x, y) \<Rightarrow>
        if turns = 1 then (y, height - 1 - x)
        else if turns = 2 then (width - 1 - x, height - 1 - y)
        else (width - 1 - y, x))"

definition turned_size :: "nat \<Rightarrow> nat \<Rightarrow> nat \<Rightarrow> nat \<times> nat" where
  "turned_size turns width height = (if turns = 2 then (width, height) else (height, width))"

definition offset_of :: "int \<Rightarrow> nat \<Rightarrow> nat \<times> nat \<Rightarrow> int" where
  "offset_of stride pixel p = int (snd p) * stride + int (fst p) * int pixel"

text \<open>
  All loops only ever copy the pixel an offset is meant to have. \<open>meant\<close> is the value each offset
  should get; a function that writes only such values, and these offsets, \<open>fills\<close> them.
\<close>

definition fills :: "(int \<Rightarrow> u8) \<Rightarrow> int set \<Rightarrow> (plane \<Rightarrow> plane) \<Rightarrow> bool" where
  "fills meant offsets f \<longleftrightarrow> (\<forall>dst a. f dst a = (if a \<in> offsets then meant a else dst a))"

lemma fills_id: "fills meant {} (\<lambda>dst. dst)"
  by (simp add: fills_def)

lemma fills_comp: "fills meant A f \<Longrightarrow> fills meant B g \<Longrightarrow> fills meant (A \<union> B) (\<lambda>dst. g (f dst))"
  by (auto simp: fills_def)

lemma fills_fold: "(\<And>x. x \<in> set xs \<Longrightarrow> fills meant (A x) (f x)) \<Longrightarrow> fills meant (\<Union>x\<in>set xs. A x) (fold f xs)"
proof (induction xs)
  case Nil
  then show ?case by (simp add: fills_def)
next
  case (Cons x xs)
  have "fills meant (A x \<union> (\<Union>x\<in>set xs. A x)) (\<lambda>dst. fold f xs (f x dst))"
    by (rule fills_comp) (use Cons in auto)
  then show ?case by (simp add: comp_def)
qed

definition pixel_at :: "nat \<Rightarrow> int \<Rightarrow> int set" where
  "pixel_at pixel j = {j ..< j + int pixel}"

lemma copy_pixel_fills:
  assumes "pixel = 1 \<or> pixel = 2" "\<And>c. c < pixel \<Longrightarrow> meant (j + int c) = src (i + int c)"
  shows "fills meant (pixel_at pixel j) (copy_pixel src pixel i j)"
  using assms(1) assms(2) [of 0] assms(2) [of 1]
  by (auto simp: fills_def pixel_at_def copy_pixel_def Let_def)


definition turned :: "plane \<Rightarrow> int \<Rightarrow> nat \<Rightarrow> nat \<Rightarrow> nat \<Rightarrow> nat \<Rightarrow> int \<Rightarrow> int \<Rightarrow> u8" where
  "turned src src_stride width height pixel turns dst_stride a =
     (let y = a div dst_stride; r = a mod dst_stride; x = r div int pixel; c = r mod int pixel
      in src (offset_of src_stride pixel (turned_from turns width height (nat x, nat y)) + c))"

lemma row_of_offset:
  fixes r m k :: int
  assumes "0 \<le> r" "r < m"
  shows "(r + k * m) div m = k" "(r + k * m) mod m = r"
proof -
  have "m \<noteq> 0" using assms by linarith
  then show "(r + k * m) div m = k" using assms by (simp add: div_pos_pos_trivial)
  show "(r + k * m) mod m = r" using assms by (simp add: mod_pos_pos_trivial)
qed

lemma turned_at:
  assumes "c < pixel" "int ((x + 1) * pixel) \<le> dst_stride"
  shows "turned src ss w h pixel turns dst_stride (offset_of dst_stride pixel (x, y) + int c) =
    src (offset_of ss pixel (turned_from turns w h (x, y)) + int c)"
proof -
  have l: "0 \<le> int x * int pixel + int c" "int x * int pixel + int c < dst_stride"
    using assms by (simp_all add: algebra_simps)
  have o: "offset_of dst_stride pixel (x, y) + int c = (int x * int pixel + int c) + int y * dst_stride"
    by (simp add: offset_of_def)
  note row_of_offset [OF l, of "int y"]
  moreover have "(int x * int pixel + int c) div int pixel = int x" "(int x * int pixel + int c) mod int pixel = int c"
    using assms(1) by (simp_all add: div_pos_pos_trivial)
  ultimately show ?thesis by (simp add: turned_def o Let_def)
qed

text \<open>The offsets of the pixels in columns \<open>xs\<close> and rows \<open>ys\<close>.\<close>

definition region :: "int \<Rightarrow> nat \<Rightarrow> nat set \<Rightarrow> nat set \<Rightarrow> int set" where
  "region stride pixel xs ys = (\<Union>x\<in>xs. \<Union>y\<in>ys. pixel_at pixel (offset_of stride pixel (x, y)))"

lemma region_iff: "a \<in> region stride pixel xs ys \<longleftrightarrow>
    (\<exists>x\<in>xs. \<exists>y\<in>ys. \<exists>c<pixel. a = offset_of stride pixel (x, y) + int c)"
proof -
  have "a \<in> pixel_at pixel j \<longleftrightarrow> (\<exists>c<pixel. a = j + int c)" for j
    by (auto simp: pixel_at_def intro!: exI [of _ "nat (a - j)"])
  then show ?thesis by (simp add: region_def)
qed

lemma turn_row_fills:
  assumes "pixel = 1 \<or> pixel = 2" "turns = 1 \<or> turns = 3" "int (height * pixel) \<le> ds" "x < height" "band_end \<le> width"
  shows "fills (turned src ss width height pixel turns ds) (region ds pixel {x} {band..<band_end})
    (turn_row src ss width height pixel turns ds band band_end x)"
proof -
  have r: "region ds pixel {x} {band..<band_end} = (\<Union>y\<in>set [band..<band_end]. pixel_at pixel (offset_of ds pixel (x, y)))"
    by (auto simp: region_def)
  have s: "int ((x + 1) * pixel) \<le> ds"
  proof -
    have "(x + 1) * pixel \<le> height * pixel" using assms(4) by (intro mult_le_mono1) simp
    then show ?thesis using assms(3) by linarith
  qed
  show ?thesis
    unfolding r turn_row_def
  proof (rule fills_fold)
    fix y
    assume y: "y \<in> set [band..<band_end]"
    let ?i = "(if turns = 1 then int height - 1 - int x else int x) * ss + (if turns = 1 then int y else int width - 1 - int y) * int pixel"
    have i: "?i = offset_of ss pixel (turned_from turns width height (x, y))"
      using assms y by (auto simp: offset_of_def turned_from_def of_nat_diff)
    have "fills (turned src ss width height pixel turns ds) (pixel_at pixel (offset_of ds pixel (x, y)))
        (copy_pixel src pixel ?i (offset_of ds pixel (x, y)))"
      by (rule copy_pixel_fills [OF assms(1)]) (simp only: i turned_at [OF _ s])
    then show "fills (turned src ss width height pixel turns ds) (pixel_at pixel (offset_of ds pixel (x, y)))
        (copy_pixel src pixel ?i (int y * ds + int x * int pixel))"
      by (simp add: offset_of_def)
  qed
qed

lemma turn_band_fills:
  assumes "pixel = 1 \<or> pixel = 2" "turns = 1 \<or> turns = 3" "int (height * pixel) \<le> ds"
  shows "fills (turned src ss width height pixel turns ds) (region ds pixel {0..<height} {band..<min width (band + kBand)})
    (turn_band src ss width height pixel turns ds band)"
proof -
  have r: "region ds pixel {0..<height} ys = (\<Union>x\<in>set [0..<height]. region ds pixel {x} ys)" for ys
    by (simp add: region_def)
  show ?thesis
    unfolding r turn_band_def by (rule fills_fold) (use assms in \<open>auto intro: turn_row_fills\<close>)
qed

lemma turn_bands_fills:
  assumes "pixel = 1 \<or> pixel = 2" "turns = 1 \<or> turns = 3" "int (height * pixel) \<le> ds"
  shows "turn_bands src ss width height pixel turns ds band dst a =
    (if a \<in> region ds pixel {0..<height} {band..<width} then turned src ss width height pixel turns ds a else dst a)"
proof (induction "width - band" arbitrary: band dst rule: less_induct)
  case less
  show ?case
  proof (cases "band < width")
    case False
    then show ?thesis by (simp add: turn_bands.simps region_def)
  next
    case True
    let ?t = "turn_band src ss width height pixel turns ds band dst"
    have t: "?t a = (if a \<in> region ds pixel {0..<height} {band..<min width (band + kBand)}
        then turned src ss width height pixel turns ds a else dst a)"
      using turn_band_fills [OF assms, of src ss width band] by (simp add: fills_def)
    have "turn_bands src ss width height pixel turns ds band dst a = turn_bands src ss width height pixel turns ds (band + kBand) ?t a"
      using True by (simp add: turn_bands.simps [of _ _ _ _ _ _ _ band])
    also have "\<dots> = (if a \<in> region ds pixel {0..<height} {band + kBand..<width}
        then turned src ss width height pixel turns ds a else ?t a)"
      by (rule less) (use True in \<open>auto simp: kBand_def\<close>)
    moreover have "region ds pixel {0..<height} {band..<width} =
        region ds pixel {0..<height} {band..<min width (band + kBand)} \<union> region ds pixel {0..<height} {band + kBand..<width}"
    proof -
      have "{band..<width} = {band..<min width (band + kBand)} \<union> {band + kBand..<width}" by (auto simp: kBand_def)
      then show ?thesis by (auto simp: region_def)
    qed
    ultimately show ?thesis using t by simp
  qed
qed

lemma copy_backwards_fills:
  assumes p: "pixel = 1 \<or> pixel = 2"
  shows "(\<And>k c. k < n \<Longrightarrow> c < pixel \<Longrightarrow>
      meant (j + int k * int pixel + int c) = src (i - int k * int pixel + int c)) \<Longrightarrow>
    fills meant (\<Union>k<n. pixel_at pixel (j + int k * int pixel)) (copy_backwards src pixel n i j)"
proof (induction n arbitrary: i j)
  case 0
  then show ?case by (simp add: fills_def)
next
  case (Suc n)
  have f: "fills meant (pixel_at pixel j) (copy_pixel src pixel i j)"
    by (rule copy_pixel_fills [OF p]) (use Suc.prems [of 0] in simp)
  have g: "fills meant (\<Union>k<n. pixel_at pixel (j + int pixel + int k * int pixel))
      (copy_backwards src pixel n (i - int pixel) (j + int pixel))"
    by (rule Suc.IH) (use Suc.prems [of "Suc k" for k] in \<open>simp add: algebra_simps\<close>)
  have "(\<Union>k<Suc n. pixel_at pixel (j + int k * int pixel)) =
      pixel_at pixel j \<union> (\<Union>k<n. pixel_at pixel (j + int pixel + int k * int pixel))"
    by (simp add: lessThan_Suc_eq_insert_0 algebra_simps)
  with fills_comp [OF f g] show ?case by simp
qed

lemma half_turn_fills:
  assumes "pixel = 1 \<or> pixel = 2" "int (width * pixel) \<le> ds"
  shows "fills (turned src ss width height pixel 2 ds) (region ds pixel {0..<width} {0..<height})
    (half_turn src ss width height pixel ds)"
proof -
  let ?row = "\<lambda>y. \<Union>k<width. pixel_at pixel (int y * ds + int k * int pixel)"
  have r: "region ds pixel {0..<width} {0..<height} = (\<Union>y\<in>set [0..<height]. ?row y)"
    by (auto simp: region_def offset_of_def lessThan_atLeast0)
  have "fills (turned src ss width height pixel 2 ds) (?row y) (copy_backwards src pixel width
      ((int height - 1 - int y) * ss + (int width - 1) * int pixel) (int y * ds))" if y: "y < height" for y
  proof (rule copy_backwards_fills [OF assms(1)])
    fix k c
    assume k: "k < width" "c < pixel"
    have "(k + 1) * pixel \<le> width * pixel" using k by (intro mult_le_mono1) simp
    then have s: "int ((k + 1) * pixel) \<le> ds" using assms(2) by linarith
    have "turned src ss width height pixel 2 ds (offset_of ds pixel (k, y) + int c) =
        src (offset_of ss pixel (width - 1 - k, height - 1 - y) + int c)"
      using turned_at [OF k(2) s, of src ss width height 2 y] by (simp add: turned_from_def)
    then show "turned src ss width height pixel 2 ds (int y * ds + int k * int pixel + int c) =
        src ((int height - 1 - int y) * ss + (int width - 1) * int pixel - int k * int pixel + int c)"
      using k y by (simp add: offset_of_def of_nat_diff algebra_simps)
  qed
  then show ?thesis
    unfolding r half_turn_def [abs_def] by (intro fills_fold) simp
qed

lemma rotate_plane_fills:
  assumes "pixel = 1 \<or> pixel = 2" "turns \<in> {1, 2, 3}" "turned_size turns width height = (tw, th)"
    "int (tw * pixel) \<le> ds"
  shows "rotate_plane src ss width height pixel turns dst ds a =
    (if a \<in> region ds pixel {0..<tw} {0..<th} then turned src ss width height pixel turns ds a else dst a)"
proof (cases "turns = 2")
  case True
  with assms half_turn_fills [OF assms(1), of width ds src ss height] show ?thesis
    by (auto simp: rotate_plane_def turned_size_def fills_def)
next
  case False
  with assms turn_bands_fills [OF assms(1), of turns height ds src ss width 0 dst a] show ?thesis
    by (auto simp: rotate_plane_def turned_size_def)
qed

text \<open>
  Turning a plane moves each pixel to where it belongs and touches nothing else. For one, two or
  three clockwise quarter turns, any size and any stride that holds a row, the byte of the pixel at
  column \<open>x\<close> and row \<open>y\<close> of the result is that of the source pixel a turn by geometry takes it from,
  the bytes of an NV12 pixel staying together; bytes between the rows and beyond the picture keep
  their value. So the pass in bands of sixteen rows, which is there for the cache, is the plain turn.
\<close>

lemma rotate_plane_turns:
  assumes "pixel = 1 \<or> pixel = 2" "turns \<in> {1, 2, 3}" "turned_size turns width height = (tw, th)"
    "int (tw * pixel) \<le> dst_stride"
  shows "(\<forall>x<tw. \<forall>y<th. \<forall>c<pixel.
       rotate_plane src src_stride width height pixel turns dst dst_stride (offset_of dst_stride pixel (x, y) + int c) =
         src (offset_of src_stride pixel (turned_from turns width height (x, y)) + int c)) \<and>
     (\<forall>a. (\<forall>x<tw. \<forall>y<th. \<forall>c<pixel. a \<noteq> offset_of dst_stride pixel (x, y) + int c) \<longrightarrow>
       rotate_plane src src_stride width height pixel turns dst dst_stride a = dst a)"
proof (intro conjI allI impI)
  fix x y c
  assume i: "x < tw" "y < th" "c < pixel"
  have "(x + 1) * pixel \<le> tw * pixel" using i by (intro mult_le_mono1) simp
  then have s: "int ((x + 1) * pixel) \<le> dst_stride" using assms(4) by linarith
  have "offset_of dst_stride pixel (x, y) + int c \<in> region dst_stride pixel {0..<tw} {0..<th}"
    unfolding region_iff using i by (intro bexI [of _ x] bexI [of _ y] exI [of _ c]) simp_all
  then show "rotate_plane src src_stride width height pixel turns dst dst_stride (offset_of dst_stride pixel (x, y) + int c) =
      src (offset_of src_stride pixel (turned_from turns width height (x, y)) + int c)"
    by (simp add: rotate_plane_fills [OF assms] turned_at [OF i(3) s])
next
  fix a
  assume "\<forall>x<tw. \<forall>y<th. \<forall>c<pixel. a \<noteq> offset_of dst_stride pixel (x, y) + int c"
  then have "a \<notin> region dst_stride pixel {0..<tw} {0..<th}" by (auto simp: region_iff)
  then show "rotate_plane src src_stride width height pixel turns dst dst_stride a = dst a"
    by (simp add: rotate_plane_fills [OF assms])
qed

end
