(* ===== verification/Picture_Output.thy ===== *)
theory Picture_Output
  imports Picture_Rotation
begin

text \<open>
  \<^verbatim>\<open>src/media-player.cpp\<close>: what becomes of a decoded picture that is shown (\<open>emitVideo\<close>): its planes
  are taken from the decoder, from a locked VideoToolbox buffer or copied out of it, converted when OBS
  cannot take them, turned upright and handed on; and when decoding in hardware is given up. FFmpeg's
  and VideoToolbox's part is in the record \<open>picture_lib\<close>; when the picture is shown is \<open>Player_Threads\<close>.
\<close>

section \<open>Pictures\<close>

text \<open>Pixel formats: those the code asks for, and any other one by its name.\<close>

datatype pix_format = Pix_NV12 | Pix_YUV420P | Pix_YUVJ420P | Pix_VideoToolbox | Pix_other string

record picture_view =
  pv_planes :: "plane list"
  pv_linesize :: "int list"
  pv_width :: nat
  pv_height :: nat
  pv_format :: pix_format

datatype picture_range = Range_JPEG | Range_other
datatype picture_space = Space_SMPTE170M | Space_BT470BG | Space_other

record decoded_picture =
  d_view :: picture_view
  d_range :: picture_range
  d_space :: picture_space

record media_video_frame =
  vf_planes :: "plane list"
  vf_linesize :: "int list"
  vf_width :: nat
  vf_height :: nat
  vf_nv12 :: bool
  vf_full_range :: bool
  vf_bt601 :: bool

text \<open>
  \<open>l_lock\<close> is \<open>LockedPixelBuffer::lock\<close>: the planes in place, for 8-bit NV12; \<open>l_transfer\<close> copies the
  surface; \<open>l_scale\<close> is swscale into a frame of I420; \<open>l_frame\<close> is a writable frame of a size, NV12 or
  I420. Each can fail.
\<close>

record picture_lib =
  l_lock :: "picture_view \<Rightarrow> picture_view option"
  l_transfer :: "picture_view \<Rightarrow> picture_view option"
  l_scale :: "picture_view \<Rightarrow> picture_view option"
  l_frame :: "nat \<Rightarrow> nat \<Rightarrow> bool \<Rightarrow> picture_view option"

section \<open>Conversion and rotation\<close>

definition starts_yuvj :: "pix_format \<Rightarrow> bool" where
  "starts_yuvj f = (case f of Pix_YUVJ420P \<Rightarrow> True | Pix_other name \<Rightarrow> take 4 name = ''yuvj'' | _ \<Rightarrow> False)"

text \<open>swscale makes video range of full-range layouts.\<close>

definition convertToI420 :: "picture_lib \<Rightarrow> picture_view \<Rightarrow> bool \<Rightarrow> (picture_view \<times> bool) option" where
  "convertToI420 L picture full_range =
     map_option (\<lambda>v. (v, full_range \<and> \<not> starts_yuvj (pv_format picture))) (l_scale L picture)"

definition rotate_plane_of :: "picture_view \<Rightarrow> picture_view \<Rightarrow> nat \<Rightarrow> nat \<Rightarrow> nat \<Rightarrow> nat \<Rightarrow> nat \<Rightarrow> plane" where
  "rotate_plane_of picture rotated i width height pixel turns =
     rotate_plane (pv_planes picture ! i) (pv_linesize picture ! i) width height pixel turns
       (pv_planes rotated ! i) (pv_linesize rotated ! i)"

definition rotateUpright :: "picture_lib \<Rightarrow> nat \<Rightarrow> picture_view \<Rightarrow> bool \<Rightarrow> picture_view option" where
  "rotateUpright L turns picture nv12 =
     (let width = pv_width picture; height = pv_height picture;
          rotated_width = (if turns = 2 then width else height);
          rotated_height = (if turns = 2 then height else width);
          chroma_width = (width + 1) div 2; chroma_height = (height + 1) div 2
      in case l_frame L rotated_width rotated_height nv12 of
           None \<Rightarrow> None
         | Some rotated \<Rightarrow>
             Some (rotated\<lparr>pv_planes :=
               rotate_plane_of picture rotated 0 width height 1 turns #
               (if nv12 then [rotate_plane_of picture rotated 1 chroma_width chroma_height 2 turns]
                else map (\<lambda>plane. rotate_plane_of picture rotated plane chroma_width chroma_height 1 turns) [1, 2])\<rparr>))"

section \<open>Hardware decoding\<close>

text \<open>The fields of \<open>VideoOutput\<close> that are not buffers.\<close>

record video_output =
  vo_turns :: nat
  vo_hardware :: bool
  vo_hardware_errors :: nat
  vo_reopen_in_software :: bool

definition video_output_new :: video_output where
  "video_output_new = \<lparr>vo_turns = 0, vo_hardware = False, vo_hardware_errors = 0, vo_reopen_in_software = False\<rparr>"

definition kMaxHardwareErrors :: nat where "kMaxHardwareErrors = 3"

definition noteHardwareError :: "video_output \<Rightarrow> video_output" where
  "noteHardwareError out =
     (if \<not> vo_hardware out \<or> vo_reopen_in_software out then out
      else (let out' = out\<lparr>vo_hardware_errors := vo_hardware_errors out + 1\<rparr>
            in if vo_hardware_errors out' \<ge> kMaxHardwareErrors then out'\<lparr>vo_reopen_in_software := True\<rparr> else out'))"

text \<open>A picture from a decoder opened for hardware that is not a hardware one.\<close>

definition note_software_picture :: "bool \<Rightarrow> video_output \<Rightarrow> video_output" where
  "note_software_picture hardware_frame out =
     (if vo_hardware out \<and> \<not> hardware_frame then out\<lparr>vo_reopen_in_software := True\<rparr> else out)"

text \<open>\<open>decodePacket\<close>, when that is asked for: the decoder is opened again, for software.\<close>

definition reopened_in_software :: "video_output \<Rightarrow> video_output" where
  "reopened_in_software out =
     (if vo_reopen_in_software out
      then out\<lparr>vo_reopen_in_software := False, vo_hardware := False, vo_hardware_errors := 0\<rparr> else out)"

section \<open>From the decoder to OBS\<close>

text \<open>The planes of a picture, or none when the surface could not be read.\<close>

definition readable_picture :: "picture_lib \<Rightarrow> picture_view \<Rightarrow> picture_view option" where
  "readable_picture L picture =
     (if pv_format picture = Pix_VideoToolbox
      then (case l_lock L picture of Some locked \<Rightarrow> Some locked | None \<Rightarrow> l_transfer L picture)
      else Some picture)"

definition acceptable :: "pix_format \<Rightarrow> bool" where
  "acceptable f \<longleftrightarrow> f = Pix_NV12 \<or> f = Pix_YUV420P \<or> f = Pix_YUVJ420P"

text \<open>The frame for OBS; none when a conversion failed.\<close>

definition make_frame :: "picture_lib \<Rightarrow> nat \<Rightarrow> decoded_picture \<Rightarrow> picture_view \<Rightarrow> media_video_frame option" where
  "make_frame L turns decoded picture =
     (let nv12 = (pv_format picture = Pix_NV12);
          full = (d_range decoded = Range_JPEG \<or> pv_format picture = Pix_YUVJ420P);
          bt601 = (d_space decoded = Space_SMPTE170M \<or> d_space decoded = Space_BT470BG)
      in case (if acceptable (pv_format picture) then Some (picture, full) else convertToI420 L picture full) of
           None \<Rightarrow> None
         | Some (flat, full_range) \<Rightarrow>
             (case (if turns \<noteq> 0 then rotateUpright L turns flat nv12 else Some flat) of
                None \<Rightarrow> None
              | Some upright \<Rightarrow>
                  Some \<lparr>vf_planes = take (if nv12 then 2 else 3) (pv_planes upright),
                        vf_linesize = take (if nv12 then 2 else 3) (pv_linesize upright),
                        vf_width = pv_width upright, vf_height = pv_height upright,
                        vf_nv12 = nv12, vf_full_range = full_range, vf_bt601 = bt601\<rparr>))"

text \<open>
  The picture's way through \<open>emitVideo\<close>, for one that is not discarded: the frame, and the counters
  (\<open>note_software_picture\<close> comes before the decision whether it is).
\<close>

definition emit_picture :: "picture_lib \<Rightarrow> decoded_picture \<Rightarrow> video_output \<Rightarrow> media_video_frame option \<times> video_output" where
  "emit_picture L decoded out =
     (let hardware_frame = (pv_format (d_view decoded) = Pix_VideoToolbox);
          out1 = note_software_picture hardware_frame out
      in case readable_picture L (d_view decoded) of
           None \<Rightarrow> (None, noteHardwareError out1)
         | Some picture \<Rightarrow>
             (make_frame L (vo_turns out1) decoded picture, out1\<lparr>vo_hardware_errors := 0\<rparr>))"


section \<open>Upright pictures\<close>

text \<open>What the code relies on of \<open>av_frame_get_buffer\<close>: planes of the layout, with rows that hold the picture.\<close>

definition plane_pixel :: "bool \<Rightarrow> nat \<Rightarrow> nat" where
  "plane_pixel nv12 i = (if nv12 \<and> i = 1 then 2 else 1)"

definition plane_size :: "nat \<Rightarrow> nat \<times> nat \<Rightarrow> nat \<times> nat" where
  "plane_size i wh = (if i = 0 then wh else ((fst wh + 1) div 2, (snd wh + 1) div 2))"

definition plane_count :: "bool \<Rightarrow> nat" where
  "plane_count nv12 = (if nv12 then 2 else 3)"

definition planes_fit :: "bool \<Rightarrow> nat \<Rightarrow> nat \<Rightarrow> picture_view \<Rightarrow> bool" where
  "planes_fit nv12 w h v \<longleftrightarrow> pv_width v = w \<and> pv_height v = h \<and>
     length (pv_planes v) = plane_count nv12 \<and> length (pv_linesize v) = plane_count nv12 \<and>
     (\<forall>i<plane_count nv12. int (fst (plane_size i (w, h)) * plane_pixel nv12 i) \<le> pv_linesize v ! i)"

text \<open>
  \<open>r\<close> shows \<open>p\<close> turned: it has the turned size, and in every plane, the chroma of half the size
  included, each pixel is the one the turn takes there.
\<close>

definition shows_turned :: "nat \<Rightarrow> bool \<Rightarrow> picture_view \<Rightarrow> picture_view \<Rightarrow> bool" where
  "shows_turned turns nv12 p r \<longleftrightarrow>
     (pv_width r, pv_height r) = turned_size turns (pv_width p) (pv_height p) \<and>
     (\<forall>i<plane_count nv12. case (plane_size i (pv_width p, pv_height p), plane_size i (pv_width r, pv_height r)) of
        ((pw, ph), (rw, rh)) \<Rightarrow>
          \<forall>x<rw. \<forall>y<rh. \<forall>c<plane_pixel nv12 i.
            (pv_planes r ! i) (offset_of (pv_linesize r ! i) (plane_pixel nv12 i) (x, y) + int c) =
            (pv_planes p ! i) (offset_of (pv_linesize p ! i) (plane_pixel nv12 i) (turned_from turns pw ph (x, y)) + int c))"

lemma plane_size_turned:
  "plane_size i (turned_size turns w h) = turned_size turns (fst (plane_size i (w, h))) (snd (plane_size i (w, h)))"
  by (simp add: plane_size_def turned_size_def)

lemma rotateUpright_planes:
  assumes "rotateUpright L turns p nv12 = Some r" "l_frame L rw rh nv12 = Some v" "turned_size turns (pv_width p) (pv_height p) = (rw, rh)"
    "i < plane_count nv12"
  shows "pv_planes r ! i =
      (case plane_size i (pv_width p, pv_height p) of
         (w, h) \<Rightarrow> rotate_plane_of p v i w h (plane_pixel nv12 i) turns) \<and>
    pv_linesize r = pv_linesize v \<and> pv_width r = pv_width v \<and> pv_height r = pv_height v"
proof -
  have i: "i = 0 \<or> i = 1 \<or> i = 2 \<and> \<not> nv12" using assms(4) by (auto simp: plane_count_def split: if_splits)
  show ?thesis
    using assms(1-3) i
    by (auto simp: rotateUpright_def turned_size_def plane_size_def plane_pixel_def Let_def split: if_splits)
qed

text \<open>
  C32. A recording made in portrait is shown upright: the turned picture has the sides of the turn, and
  in each of its planes, the luma, I420's two chroma planes or NV12's interleaved one, the pixel at
  every place is the one the turn takes there, for pictures of any size (odd ones too, whose chroma is
  rounded up) and any row strides. So no plane is turned about another corner than the others and no
  pixel is missed by the pass in bands.
\<close>

theorem pictures_are_turned_upright:
  assumes "rotateUpright L turns p nv12 = Some r" "turns \<in> {1, 2, 3}"
    and "\<forall>w h v. l_frame L w h nv12 = Some v \<longrightarrow> planes_fit nv12 w h v"
  shows "shows_turned turns nv12 p r"
proof -
  obtain rw rh where t: "turned_size turns (pv_width p) (pv_height p) = (rw, rh)" by (metis prod.exhaust)
  then obtain v where v: "l_frame L rw rh nv12 = Some v"
    using assms(1) by (auto simp: rotateUpright_def turned_size_def Let_def split: option.splits if_splits)
  have l: "planes_fit nv12 rw rh v" using assms(3) v by blast
  note planes = rotateUpright_planes [OF assms(1) v t]
  have size: "pv_width r = rw" "pv_height r = rh" using planes [of 0] l by (auto simp: planes_fit_def plane_count_def)
  have "(pv_planes r ! i) (offset_of (pv_linesize r ! i) (plane_pixel nv12 i) (x, y) + int c) =
      (pv_planes p ! i) (offset_of (pv_linesize p ! i) (plane_pixel nv12 i) (turned_from turns pw ph (x, y)) + int c)"
    if i: "i < plane_count nv12" "plane_size i (pv_width p, pv_height p) = (pw, ph)" "plane_size i (rw, rh) = (w, h)"
      and x: "x < w" "y < h" "c < plane_pixel nv12 i" for i pw ph w h x y c
  proof -
    have s: "turned_size turns pw ph = (w, h)" using plane_size_turned [of i turns] t i by (metis fst_conv snd_conv)
    have b: "int (w * plane_pixel nv12 i) \<le> pv_linesize v ! i" using l i by (auto simp: planes_fit_def)
    have "plane_pixel nv12 i = 1 \<or> plane_pixel nv12 i = 2" by (simp add: plane_pixel_def)
    from rotate_plane_turns [OF this assms(2) s b] x planes [OF i(1)] i(2) show ?thesis
      by (simp add: rotate_plane_of_def)
  qed
  then show ?thesis using t size by (auto simp: shows_turned_def split: prod.splits)
qed

text \<open>A picture of three by two in NV12, turned once.\<close>

definition small_picture :: picture_view where
  "small_picture = \<lparr>
     pv_planes = [\<lambda>a. [1, 2, 3, 0, 4, 5, 6, 0] ! nat (a mod 8), \<lambda>a. [7, 8, 9, 10] ! nat (a mod 4)],
     pv_linesize = [4, 4], pv_width = 3, pv_height = 2, pv_format = Pix_NV12\<rparr>"

definition small_lib :: picture_lib where
  "small_lib = \<lparr>l_lock = (\<lambda>_. None), l_transfer = (\<lambda>_. None), l_scale = (\<lambda>_. None),
     l_frame = (\<lambda>w h nv12. Some \<lparr>pv_planes = replicate (plane_count nv12) (\<lambda>_. 99),
        pv_linesize = replicate (plane_count nv12) (int w + 1), pv_width = w, pv_height = h,
        pv_format = (if nv12 then Pix_NV12 else Pix_YUV420P)\<rparr>)\<rparr>"

lemma small_lib_layout: "l_frame small_lib w h nv12 = Some v \<Longrightarrow> planes_fit nv12 w h v"
  by (auto simp: small_lib_def planes_fit_def plane_count_def plane_size_def plane_pixel_def)

lemma pictures_are_turned_upright_witness:
  "(case rotateUpright small_lib 1 small_picture True of
      None \<Rightarrow> False
    | Some r \<Rightarrow> map (pv_planes r ! 0) [0..8] = [4, 1, 99, 5, 2, 99, 6, 3, 99] \<and>
        map (pv_planes r ! 1) [0..5] = [7, 8, 99, 9, 10, 99] \<and> shows_turned 1 True small_picture r)"
proof (cases "rotateUpright small_lib 1 small_picture True")
  case None
  then show ?thesis by (simp add: rotateUpright_def small_lib_def Let_def)
next
  case (Some r)
  have "case rotateUpright small_lib 1 small_picture True of None \<Rightarrow> False
    | Some r \<Rightarrow> map (pv_planes r ! 0) [0..8] = [4, 1, 99, 5, 2, 99, 6, 3, 99] \<and>
        map (pv_planes r ! 1) [0..5] = [7, 8, 99, 9, 10, 99]"
    by code_simp
  moreover have "shows_turned 1 True small_picture r"
    by (rule pictures_are_turned_upright [OF Some]) (use small_lib_layout in auto)
  ultimately show ?thesis unfolding Some by (simp only: option.case)
qed

end
