(* ===== verification/Player_Sound.thy ===== *)
theory Player_Sound
  imports Player_Threads
begin

text \<open>
  \<^verbatim>\<open>src/media-player.cpp\<close>, \<open>MediaPlayer::Impl::emitAudio\<close> and the struct \<open>AudioConversion\<close>: how a decoded
  frame of audio becomes the planar float stereo OBS takes. A converter (libswresample) is made for
  one layout, rate and sample format, and kept while frames of that kind come. The library is a
  parameter with a state \<open>'w\<close>; samples themselves do not matter here, only how many there are and
  where they are written.
\<close>

section \<open>Frames and the library\<close>

text \<open>A channel layout: how many channels, and which.\<close>

record sound_layout =
  nb_channels :: int
  channel_mask :: nat

record sound =
  sd_timestamp :: "int option"
  sd_layout :: sound_layout
  sd_rate :: int
  sd_format :: int
  sd_samples :: int
  sd_planes :: bool

record sound_decoder =
  dec_layout :: sound_layout
  dec_rate :: int

record 'w sound_lib =
  sl_same :: "sound_layout \<Rightarrow> sound_layout \<Rightarrow> bool"
  sl_copy :: "sound_layout \<Rightarrow> bool"
  sl_make :: "sound_layout \<Rightarrow> int \<Rightarrow> int \<Rightarrow> 'w \<Rightarrow> bool \<times> 'w"
  sl_delay :: "int \<Rightarrow> 'w \<Rightarrow> int"
  sl_convert :: "int \<Rightarrow> sound \<Rightarrow> 'w \<Rightarrow> int \<times> 'w"

text \<open>\<open>AV_SAMPLE_FMT_FLTP\<close> and \<open>AV_SAMPLE_FMT_NONE\<close>.\<close>

definition SAMPLE_FMT_FLTP :: int where "SAMPLE_FMT_FLTP = 8"
definition SAMPLE_FMT_NONE :: int where "SAMPLE_FMT_NONE = -1"

section \<open>The converter\<close>

text \<open>\<open>cv_resampler\<close> is what the converter was made for; no layout is one without channels.\<close>

record conversion =
  cv_resampler :: "(sound_layout \<times> int \<times> int) option"
  cv_layout :: "sound_layout option"
  cv_rate :: int
  cv_format :: int

definition reset_conversion :: conversion where
  "reset_conversion = \<lparr>cv_resampler = None, cv_layout = None, cv_rate = 0, cv_format = SAMPLE_FMT_NONE\<rparr>"

definition needs_converter :: "'w sound_lib \<Rightarrow> sound_layout \<Rightarrow> int \<Rightarrow> int \<Rightarrow> conversion \<Rightarrow> bool" where
  "needs_converter L l hz format c \<longleftrightarrow>
     cv_resampler c = None \<or> (case cv_layout c of None \<Rightarrow> True | Some x \<Rightarrow> \<not> sl_same L x l) \<or>
     cv_rate c \<noteq> hz \<or> cv_format c \<noteq> format"

text \<open>Whether there is a converter for the frame then, and the conversion.\<close>

definition configure_conversion :: "'w sound_lib \<Rightarrow> sound_layout \<Rightarrow> int \<Rightarrow> int \<Rightarrow> conversion \<times> 'w \<Rightarrow> bool \<times> conversion \<times> 'w" where
  "configure_conversion L l hz format cw =
     (case cw of (c, w) \<Rightarrow>
        if \<not> needs_converter L l hz format c then (True, c, w)
        else if \<not> sl_copy L l then (False, reset_conversion, w)
        else
          (case sl_make L l hz format w of
             (False, w') \<Rightarrow> (False, reset_conversion\<lparr>cv_layout := Some l\<rparr>, w')
           | (True, w') \<Rightarrow> (True, \<lparr>cv_resampler = Some (l, hz, format), cv_layout = Some l, cv_rate = hz, cv_format = format\<rparr>, w')))"

text \<open>\<open>av_rescale_rnd\<close> rounding up, of positive rates.\<close>

definition rescale_up :: "int \<Rightarrow> int \<Rightarrow> int \<Rightarrow> int" where
  "rescale_up a b c = - ((- (a * b)) div c)"

definition grow :: "int \<Rightarrow> nat \<Rightarrow> nat" where
  "grow capacity n = (if n < nat capacity then nat capacity else n)"

section \<open>emitAudio\<close>

datatype emitted = No_sound | As_decoded int int | Converted int int int

record sound_state =
  ss_conversion :: conversion
  ss_buffer :: nat

definition sound_new :: sound_state where
  "sound_new = \<lparr>ss_conversion = reset_conversion, ss_buffer = 0\<rparr>"

definition layout_of :: "sound \<Rightarrow> sound_decoder \<Rightarrow> sound_layout" where
  "layout_of d dec = (if nb_channels (sd_layout d) > 0 then sd_layout d else dec_layout dec)"

definition rate_of_sound :: "sound \<Rightarrow> sound_decoder \<Rightarrow> int" where
  "rate_of_sound d dec = (if sd_rate d > 0 then sd_rate d else dec_rate dec)"

definition passes_through :: "sound \<Rightarrow> sound_decoder \<Rightarrow> bool" where
  "passes_through d dec \<longleftrightarrow> sd_format d = SAMPLE_FMT_FLTP \<and> nb_channels (layout_of d dec) = 2 \<and> sd_samples d > 0 \<and> sd_planes d"

text \<open>
  Converts into \<open>m_audio_left\<close> and \<open>m_audio_right\<close>, which grow and never shrink. A converted frame has
  its samples, its rate and the capacity that was given to \<open>swr_convert\<close>.
\<close>

definition convert_sound :: "'w sound_lib \<Rightarrow> sound \<Rightarrow> int \<Rightarrow> sound_state \<times> 'w \<Rightarrow> emitted \<times> sound_state \<times> 'w" where
  "convert_sound L d hz sw =
     (case sw of (s, w) \<Rightarrow>
        let capacity = rescale_up (sl_delay L hz w + sd_samples d) hz hz
        in if capacity \<le> 0 then (No_sound, s, w)
           else (case sl_convert L capacity d w of
                   (converted, w') \<Rightarrow>
                     (if converted \<le> 0 then No_sound else Converted converted hz capacity,
                      s\<lparr>ss_buffer := grow capacity (ss_buffer s)\<rparr>, w')))"

text \<open>The part of \<open>emitAudio\<close> between the checks of the position and \<open>presentAudio\<close>.\<close>

definition emit_sound :: "'w sound_lib \<Rightarrow> sound_decoder \<Rightarrow> sound \<Rightarrow> sound_state \<times> 'w \<Rightarrow> emitted \<times> sound_state \<times> 'w" where
  "emit_sound L dec d sw =
     (let l = layout_of d dec; hz = rate_of_sound d dec
      in if nb_channels l \<le> 0 \<or> hz \<le> 0 then (No_sound, sw)
         else if passes_through d dec then (As_decoded (sd_samples d) hz, sw)
         else (case configure_conversion L l hz (sd_format d) (ss_conversion (fst sw), snd sw) of
                 (ok, c, w) \<Rightarrow>
                   (if ok then convert_sound L d hz ((fst sw)\<lparr>ss_conversion := c\<rparr>, w)
                    else (No_sound, (fst sw)\<lparr>ss_conversion := c\<rparr>, w))))"

section \<open>What is promised\<close>

text \<open>A converter that is there was made for the input that is remembered.\<close>

definition conversion_ok :: "conversion \<Rightarrow> bool" where
  "conversion_ok c \<longleftrightarrow> (\<forall>l hz format. cv_resampler c = Some (l, hz, format) \<longrightarrow>
     cv_layout c = Some l \<and> cv_rate c = hz \<and> cv_format c = format)"

lemma reset_conversion_ok: "conversion_ok reset_conversion"
  by (simp add: conversion_ok_def reset_conversion_def)

lemma configure_conversion_ok:
  assumes "conversion_ok c" and "configure_conversion L l hz format (c, w) = (ok, c', w')"
  shows "conversion_ok c' \<and>
    (ok \<longrightarrow> (\<exists>x. cv_resampler c' = Some (x, hz, format) \<and> (x = l \<or> sl_same L x l)))"
  using assms
  by (auto simp: configure_conversion_def needs_converter_def conversion_ok_def reset_conversion_def
      split: if_splits prod.splits bool.splits option.splits)

lemma rescale_same: "0 < r \<Longrightarrow> rescale_up a r r = a"
  by (simp add: rescale_up_def flip: mult_minus_left)

text \<open>A converter that was made for sound of this kind is at hand.\<close>

definition has_converter :: "'w sound_lib \<Rightarrow> sound_layout \<Rightarrow> int \<Rightarrow> int \<Rightarrow> conversion \<Rightarrow> bool" where
  "has_converter L l hz format c \<longleftrightarrow> (\<exists>x. cv_resampler c = Some (x, hz, format) \<and> sl_same L x l)"

lemma needs_converter_iff: "conversion_ok c \<Longrightarrow> needs_converter L l hz format c \<longleftrightarrow> \<not> has_converter L l hz format c"
  by (cases "cv_resampler c") (auto simp: needs_converter_def has_converter_def conversion_ok_def split: option.splits)

text \<open>
  A frame that cannot be heard: neither it nor the decoder names channels or a rate; or it has to be
  converted, and there is no converter for it and none can be made, or the converter has no samples to
  give for it, or fails.
\<close>

definition inaudible :: "'w sound_lib \<Rightarrow> sound_decoder \<Rightarrow> sound \<Rightarrow> sound_state \<Rightarrow> 'w \<Rightarrow> bool" where
  "inaudible L dec d s w \<longleftrightarrow>
     (let l = layout_of d dec; hz = rate_of_sound d dec; kept = has_converter L l hz (sd_format d) (ss_conversion s);
          made = sl_make L l hz (sd_format d) w; v = (if kept then w else snd made); room = sl_delay L hz v + sd_samples d
      in nb_channels l \<le> 0 \<or> hz \<le> 0 \<or>
         \<not> passes_through d dec \<and>
         (\<not> kept \<and> (\<not> sl_copy L l \<or> \<not> fst made) \<or> room \<le> 0 \<or> fst (sl_convert L room d v) \<le> 0))"

text \<open>A frame that was converted: by a converter for it, into buffers that hold it.\<close>

definition fits :: "'w sound_lib \<Rightarrow> sound_decoder \<Rightarrow> sound \<Rightarrow> sound_state \<Rightarrow> emitted \<Rightarrow> bool" where
  "fits L dec d s e \<longleftrightarrow>
     (case e of
        Converted samples hz capacity \<Rightarrow>
          0 < samples \<and> samples \<le> capacity \<and> capacity \<le> int (ss_buffer s) \<and> hz = rate_of_sound d dec \<and>
          (\<exists>x. cv_resampler (ss_conversion s) = Some (x, hz, sd_format d) \<and> (x = layout_of d dec \<or> sl_same L x (layout_of d dec)))
      | As_decoded samples hz \<Rightarrow>
          0 < samples \<and> samples = sd_samples d \<and> sd_format d = SAMPLE_FMT_FLTP \<and> nb_channels (layout_of d dec) = 2 \<and> sd_planes d
      | No_sound \<Rightarrow> True)"

lemma configure_conversion_answer:
  assumes "conversion_ok c" and "configure_conversion L l hz format (c, w) = (ok, c', w')"
  shows "if has_converter L l hz format c then ok \<and> w' = w
    else (ok \<longleftrightarrow> sl_copy L l \<and> fst (sl_make L l hz format w)) \<and> (ok \<longrightarrow> w' = snd (sl_make L l hz format w))"
  using assms by (auto simp: configure_conversion_def needs_converter_iff split: if_splits prod.splits bool.splits)

lemma convert_sound_heard:
  assumes "0 < hz" "convert_sound L d hz (s, w) = (e, s', w')"
  shows "e = No_sound \<longleftrightarrow>
    sl_delay L hz w + sd_samples d \<le> 0 \<or> fst (sl_convert L (sl_delay L hz w + sd_samples d) d w) \<le> 0"
  using assms by (auto simp: convert_sound_def Let_def rescale_same split: if_splits prod.splits)

lemma emit_sound_heard:
  assumes "conversion_ok (ss_conversion s)" and "emit_sound L dec d (s, w) = (e, s', w')"
  shows "e = No_sound \<longleftrightarrow> inaudible L dec d s w"
proof (cases "nb_channels (layout_of d dec) \<le> 0 \<or> rate_of_sound d dec \<le> 0 \<or> passes_through d dec")
  case True
  then show ?thesis using assms(2) by (auto simp: emit_sound_def Let_def inaudible_def split: if_splits)
next
  case False
  let ?l = "layout_of d dec" and ?r = "rate_of_sound d dec"
  obtain ok c v where k: "configure_conversion L ?l ?r (sd_format d) (ss_conversion s, w) = (ok, c, v)" by (metis prod.exhaust)
  note answer = configure_conversion_answer [OF assms(1) k]
  show ?thesis
  proof (cases ok)
    case True
    then have "convert_sound L d ?r (s\<lparr>ss_conversion := c\<rparr>, v) = (e, s', w')"
      using assms(2) False k by (simp add: emit_sound_def Let_def)
    from convert_sound_heard [OF _ this] show ?thesis
      using False answer True by (auto simp: inaudible_def Let_def split: if_splits)
  next
    case f: False
    then have "e = No_sound" using assms(2) False k by (simp add: emit_sound_def Let_def)
    then show ?thesis using False answer f by (auto simp: inaudible_def Let_def split: if_splits)
  qed
qed

lemma convert_sound_fits:
  assumes "\<And>c d w. fst (sl_convert L c d w) \<le> c"
    and "cv_resampler (ss_conversion s) = Some (x, hz, sd_format d)" "x = layout_of d dec \<or> sl_same L x (layout_of d dec)"
    and "hz = rate_of_sound d dec" and "convert_sound L d hz (s, w) = (e, s', w')"
  shows "fits L dec d s' e \<and> ss_conversion s' = ss_conversion s"
proof -
  let ?c = "rescale_up (sl_delay L hz w + sd_samples d) hz hz"
  obtain n v where n: "sl_convert L ?c d w = (n, v)" by (metis prod.exhaust)
  then have "n \<le> ?c" using assms(1) [of ?c d w] by simp
  then show ?thesis using assms(2-5) n
    by (auto simp: convert_sound_def Let_def fits_def grow_def split: if_splits)
qed

lemma emit_sound_fits:
  assumes "\<And>c d w. fst (sl_convert L c d w) \<le> c" and "conversion_ok (ss_conversion s)"
    and "emit_sound L dec d (s, w) = (e, s', w')"
  shows "fits L dec d s' e \<and> conversion_ok (ss_conversion s')"
proof -
  let ?l = "layout_of d dec" and ?r = "rate_of_sound d dec"
  obtain ok c v where k: "configure_conversion L ?l ?r (sd_format d) (ss_conversion s, w) = (ok, c, v)" by (metis prod.exhaust)
  note kc = configure_conversion_ok [OF assms(2) k]
  consider (none) "nb_channels ?l \<le> 0 \<or> ?r \<le> 0" | (through) "\<not> (nb_channels ?l \<le> 0 \<or> ?r \<le> 0)" "passes_through d dec"
    | (convert) "\<not> (nb_channels ?l \<le> 0 \<or> ?r \<le> 0)" "\<not> passes_through d dec" by blast
  then show ?thesis
  proof cases
    case none
    then have "e = No_sound" "s' = s" using assms(3) by (auto simp: emit_sound_def Let_def)
    then show ?thesis using assms(2) by (simp add: fits_def)
  next
    case through
    then have "e = As_decoded (sd_samples d) ?r" "s' = s" using assms(3) by (auto simp: emit_sound_def Let_def)
    then show ?thesis using assms(2) through(2) by (simp add: fits_def passes_through_def)
  next
    case convert
    show ?thesis
    proof (cases ok)
      case True
      then obtain x where x: "cv_resampler c = Some (x, ?r, sd_format d)" "x = ?l \<or> sl_same L x ?l" using kc by auto
      have "convert_sound L d ?r (s\<lparr>ss_conversion := c\<rparr>, v) = (e, s', w')"
        using assms(3) convert k True by (simp add: emit_sound_def Let_def del: de_Morgan_disj)
      from convert_sound_fits [OF assms(1) _ x(2) refl this] x(1) kc show ?thesis by simp
    next
      case False
      then have "e = No_sound" "s' = s\<lparr>ss_conversion := c\<rparr>"
        using assms(3) convert k by (auto simp: emit_sound_def Let_def)
      then show ?thesis using kc by (simp add: fits_def)
    qed
  qed
qed

text \<open>The frames of an item; a seek resets the conversion (\<open>None\<close>).\<close>

fun sound_step :: "'w sound_lib \<Rightarrow> sound_decoder \<Rightarrow> sound_state \<times> 'w \<Rightarrow> sound option \<Rightarrow> (sound_state \<times> 'w) \<times> bool" where
  "sound_step L dec (s, w) None = ((s\<lparr>ss_conversion := reset_conversion\<rparr>, w), True)"
| "sound_step L dec (s, w) (Some d) = (case emit_sound L dec d (s, w) of
     (e, s', w') \<Rightarrow> ((s', w'), fits L dec d s' e \<and> (e = No_sound \<longleftrightarrow> inaudible L dec d s w)))"

interpretation sound: machine "sound_step L dec" "\<lambda>_. True"
    "\<lambda>sw. (\<forall>c d w. fst (sl_convert L c d w) \<le> c) \<longrightarrow> conversion_ok (ss_conversion (fst sw))" for L dec
proof
  fix sw :: "sound_state \<times> 'a" and e
  assume a: "(\<forall>c d w. fst (sl_convert L c d w) \<le> c) \<longrightarrow> conversion_ok (ss_conversion (fst sw))"
  show "(\<forall>c d w. fst (sl_convert L c d w) \<le> c) \<longrightarrow> conversion_ok (ss_conversion (fst (fst (sound_step L dec sw e))))"
  proof
    assume L: "\<forall>c d w. fst (sl_convert L c d w) \<le> c"
    obtain s w where sw: "sw = (s, w)" by (cases sw)
    show "conversion_ok (ss_conversion (fst (fst (sound_step L dec sw e))))"
    proof (cases e)
      case None
      then show ?thesis by (simp add: sw reset_conversion_ok)
    next
      case (Some d)
      obtain em s' w' where m: "emit_sound L dec d (s, w) = (em, s', w')" by (metis prod.exhaust)
      show ?thesis using emit_sound_fits [OF _ _ m] L a by (simp add: sw Some m)
    qed
  qed
qed

text \<open>
  C36. A frame of sound is lost only when it cannot be heard: when neither it nor the decoder names
  channels and a rate, or when it needs converting and no converter for it is kept or can be made, or
  libswresample gives nothing for it. Every other frame is handed on as it is, because it already is planar
  float stereo, or converted by a converter that was made for its own layout, rate and sample format,
  into buffers that hold what comes out: whatever frames and seeks come, however often the format
  changes within an item, and after any failures to make a converter.
\<close>

theorem converters_fit_their_sound:
  assumes "\<forall>c d w. fst (sl_convert L c d w) \<le> c"
  shows "list_all (\<lambda>ok. ok) (snd (run (sound_step L dec) (sound_new, w) ds))"
proof (rule sound.run_every)
  show "(\<forall>c d w. fst (sl_convert L c d w) \<le> c) \<longrightarrow> conversion_ok (ss_conversion (fst (sound_new, w)))"
    by (simp add: sound_new_def reset_conversion_ok)
  show "list_all (\<lambda>_. True) ds" by (simp add: list_all_iff)
next
  fix sw :: "sound_state \<times> 'a" and e
  assume a: "(\<forall>c d w. fst (sl_convert L c d w) \<le> c) \<longrightarrow> conversion_ok (ss_conversion (fst sw))"
  obtain s w where sw: "sw = (s, w)" by (cases sw)
  show "snd (sound_step L dec sw e)"
  proof (cases e)
    case None
    then show ?thesis by (simp add: sw)
  next
    case (Some d)
    obtain em s' w' where m: "emit_sound L dec d (s, w) = (em, s', w')" by (metis prod.exhaust)
    show ?thesis using emit_sound_fits [OF _ _ m] emit_sound_heard [OF _ m] assms a by (simp add: sw Some m)
  qed
qed

text \<open>A library whose first conversion of a rate of 48000 cannot be set up.\<close>

definition small_sound_lib :: "nat sound_lib" where
  "small_sound_lib = \<lparr>sl_same = (\<lambda>a b. a = b), sl_copy = (\<lambda>l. True), sl_make = (\<lambda>l hz format w. (hz \<noteq> 48000 \<or> w > 0, w + 1)),
     sl_delay = (\<lambda>hz w. 16), sl_convert = (\<lambda>c d w. (min c (sd_samples d), w))\<rparr>"

definition sound_of :: "int \<Rightarrow> int \<Rightarrow> int \<Rightarrow> sound" where
  "sound_of n hz format = \<lparr>sd_timestamp = Some 0, sd_layout = \<lparr>nb_channels = n, channel_mask = 0\<rparr>, sd_rate = hz,
     sd_format = format, sd_samples = 1024, sd_planes = True\<rparr>"

theorem converters_fit_their_sound_witness:
  "snd (run (sound_step small_sound_lib \<lparr>dec_layout = \<lparr>nb_channels = 1, channel_mask = 0\<rparr>, dec_rate = 44100\<rparr>) (sound_new, 0)
     [Some (sound_of 6 48000 8), Some (sound_of 6 48000 8), None, Some (sound_of 0 0 1), Some (sound_of 2 44100 8)]) = replicate 5 True"
proof -
  let ?r = "snd (run (sound_step small_sound_lib \<lparr>dec_layout = \<lparr>nb_channels = 1, channel_mask = 0\<rparr>, dec_rate = 44100\<rparr>) (sound_new, 0)
     [Some (sound_of 6 48000 8), Some (sound_of 6 48000 8), None, Some (sound_of 0 0 1), Some (sound_of 2 44100 8)])"
  have "list_all (\<lambda>ok. ok) ?r" by (rule converters_fit_their_sound) (simp add: small_sound_lib_def)
  moreover have "length ?r = 5" by (simp add: split_beta)
  ultimately show ?thesis by (intro replicate_eqI) (auto simp: list_all_iff)
qed

end
