(* ===== verification/Player_Worker.thy ===== *)
theory Player_Worker
  imports Player_Item Picture_Output Player_Sound
begin

text \<open>
  \<^verbatim>\<open>src/media-player.cpp\<close>, \<open>MediaPlayer::Impl::playItem\<close> and what it calls: the order in which the
  worker does what \<open>Player_Threads\<close> leaves open. The worker is a place in the code and its local
  variables; a turn goes from one place where another thread can step in to the next, is given what
  FFmpeg, the clocks and the memory answer, and does at most one step of \<open>Player_Threads\<close>. So a run of
  the worker between the commands and the presenter is a run there.
\<close>

section \<open>The item and the answers\<close>

record packet =
  pk_stream :: int
  pk_pts :: "int option"
  pk_duration :: int

text \<open>An opened item with its streams and what decodes its sound.\<close>

record 'w media =
  me_item :: item
  me_streams :: "av_stream list"
  me_sound_decoder :: sound_decoder
  me_sound_lib :: "'w sound_lib"

datatype receive_result = Nothing_yet | Decode_fails | Decoded

record answer =
  an_allocated :: bool
  an_now :: int
  an_obs_now :: int
  an_packet :: "packet option"
  an_at_end :: bool
  an_sent :: bool
  an_received :: receive_result
  an_picture :: "int option \<times> int"
  an_sound :: sound
  an_opened :: bool

section \<open>The worker\<close>

text \<open>Whose frames \<open>drainDecoder\<close> takes out: after a packet, or at the end of the input.\<close>

datatype drained = Packet_video | Packet_audio | End_video | End_audio

fun of_video :: "drained \<Rightarrow> bool" where
  "of_video Packet_video = True"
| "of_video End_video = True"
| "of_video _ = False"

datatype worker_place =
    At_start
  | At_loop
  | At_clear
  | At_read
  | At_packet packet
  | At_receive drained
  | At_queue drained queued_frame
  | At_sound drained sound
  | At_wait_sound drained rat
  | At_after_packet
  | At_software
  | At_end_of_input
  | At_idle
  | At_hold
  | At_mark
  | At_quit
  | At_join
  | At_empty
  | At_exit
  | At_gone

record 'w worker =
  wk_at :: worker_place
  wk_video_decoder :: bool
  wk_audio_decoder :: bool
  wk_out :: video_output
  wk_progress :: read_progress
  wk_sound :: sound_state
  wk_world :: 'w
  wk_presenter :: bool
  wk_quit :: bool

definition worker_new :: "item \<Rightarrow> video_output \<Rightarrow> 'w \<Rightarrow> 'w worker" where
  "worker_new I out w =
     \<lparr>wk_at = At_start, wk_video_decoder = it_video I \<noteq> None, wk_audio_decoder = it_audio I \<noteq> None, wk_out = out,
      wk_progress = progress_new, wk_sound = sound_new, wk_world = w, wk_presenter = it_video I \<noteq> None, wk_quit = False\<rparr>"

type_synonym 'w turned = "'w worker \<times> player_event list"

definition go :: "worker_place \<Rightarrow> 'w worker \<Rightarrow> 'w turned" where
  "go p k = (k\<lparr>wk_at := p\<rparr>, [])"

definition go_with :: "worker_place \<Rightarrow> player_event \<Rightarrow> 'w worker \<Rightarrow> 'w turned" where
  "go_with p e k = (k\<lparr>wk_at := p\<rparr>, [e])"

subsection \<open>Seeks and packets\<close>

definition stopOrSeekPending :: "threads \<Rightarrow> bool" where
  "stopOrSeekPending t \<longleftrightarrow> m_stop_requested (pl t) \<or> m_seek_pending (pl t)"

definition presenter_idle :: "threads \<Rightarrow> bool" where
  "presenter_idle t \<longleftrightarrow> m_video_queue t = [] \<and> presenter t = Waits"

text \<open>The head of the loop, with \<open>handlePendingSeek\<close> up to its unlock, and the rest of it.\<close>

definition at_loop :: "threads \<Rightarrow> 'w worker \<Rightarrow> 'w turned" where
  "at_loop t k =
     (if m_stop_requested (pl t) then go At_quit k
      else if m_seek_pending (pl t) then go_with At_clear W_take_seek k
      else go At_read k)"

definition at_clear :: "'w worker \<Rightarrow> 'w turned" where
  "at_clear k =
     go_with At_read W_clear_queue
       (k\<lparr>wk_progress := (wk_progress k)\<lparr>demuxed_since_seek := False\<rparr>,
          wk_sound := (wk_sound k)\<lparr>ss_conversion := reset_conversion\<rparr>\<rparr>)"

definition stream_at :: "'w media \<Rightarrow> int \<Rightarrow> av_stream option" where
  "stream_at M i = (if 0 \<le> i \<and> nat i < length (me_streams M) then Some (me_streams M ! nat i) else None)"

definition at_read :: "'w media \<Rightarrow> answer \<Rightarrow> threads \<Rightarrow> 'w worker \<Rightarrow> 'w turned" where
  "at_read M a t k =
     (case an_packet a of
        Some p \<Rightarrow>
          go (At_packet p)
            (k\<lparr>wk_progress := noteDemuxed (pk_pts p) (pk_duration p) (map_option time_base (stream_at M (pk_stream p)))
                               (it_start_seconds (me_item M)) (pl t) (wk_progress k)\<rparr>)
      | None \<Rightarrow> go (if m_stop_requested (pl t) then At_quit else At_end_of_input) k)"

definition note_error :: "'w worker \<Rightarrow> 'w worker" where
  "note_error k = k\<lparr>wk_out := noteHardwareError (wk_out k)\<rparr>"

definition at_packet :: "'w media \<Rightarrow> answer \<Rightarrow> packet \<Rightarrow> 'w worker \<Rightarrow> 'w turned" where
  "at_packet M a p k =
     (if map_option int (it_video (me_item M)) = Some (pk_stream p) \<and> wk_video_decoder k
      then (if an_sent a then go (At_receive Packet_video) k else go At_after_packet (note_error k))
      else if map_option int (it_audio (me_item M)) = Some (pk_stream p) \<and> wk_audio_decoder k
      then go (if an_sent a then At_receive Packet_audio else At_after_packet) k
      else go At_after_packet k)"

subsection \<open>Frames\<close>

text \<open>Where \<open>drainDecoder\<close> returns to.\<close>

fun drained_to :: "drained \<Rightarrow> 'w worker \<Rightarrow> worker_place" where
  "drained_to Packet_video k = At_after_packet"
| "drained_to Packet_audio k = At_after_packet"
| "drained_to End_video k = (if wk_audio_decoder k then At_receive End_audio else At_idle)"
| "drained_to End_audio k = At_idle"

definition picture_decoded :: "'w media \<Rightarrow> answer \<Rightarrow> queued_frame" where
  "picture_decoded M a =
     \<lparr>qf_timestamp = fst (an_picture a), qf_duration = snd (an_picture a),
      qf_stream = me_streams M ! the (it_video (me_item M)), qf_start = it_start_seconds (me_item M), qf_epoch = 0, qf_before = -1\<rparr>"

text \<open>A turn of the loop of \<open>drainDecoder\<close>; a picture that cannot be cloned is dropped.\<close>

definition at_receive :: "'w media \<Rightarrow> answer \<Rightarrow> drained \<Rightarrow> threads \<Rightarrow> 'w worker \<Rightarrow> 'w turned" where
  "at_receive M a d t k =
     (if m_stop_requested (pl t) then go (drained_to d k) k
      else (case an_received a of
              Nothing_yet \<Rightarrow> go (drained_to d k) k
            | Decode_fails \<Rightarrow> go (drained_to d k) (if of_video d then note_error k else k)
            | Decoded \<Rightarrow>
                (if of_video d
                 then go (if an_allocated a then At_queue d (picture_decoded M a) else At_receive d) k
                 else go (At_sound d (an_sound a)) k)))"

definition at_queue :: "drained \<Rightarrow> queued_frame \<Rightarrow> threads \<Rightarrow> 'w worker \<Rightarrow> 'w turned" where
  "at_queue d q t k =
     (if stopOrSeekPending t then go (At_receive d) k
      else if length (m_video_queue t) < kVideoQueueFrames then go_with (At_receive d) (W_queue q) k
      else go (At_queue d q) k)"

definition sound_position :: "'w media \<Rightarrow> sound \<Rightarrow> rat" where
  "sound_position M x =
     timestamp_seconds (sd_timestamp x) (me_streams M ! the (it_audio (me_item M))) (it_start_seconds (me_item M))"

text \<open>\<open>emitAudio\<close>: the decision whether it is heard, and the conversion.\<close>

definition at_sound :: "'w media \<Rightarrow> answer \<Rightarrow> drained \<Rightarrow> sound \<Rightarrow> threads \<Rightarrow> 'w worker \<Rightarrow> 'w turned" where
  "at_sound M a d x t k =
     (let p = sound_position M x
      in if p < 0 then go (At_receive d) k
         else if fst (shouldDiscard p None 0 (an_now a) (pl t)) then go_with (At_receive d) (W_check_sound p (an_now a)) k
         else (case emit_sound (me_sound_lib M) (me_sound_decoder M) x (wk_sound k, wk_world k) of
                 (e, s, w) \<Rightarrow>
                   go_with (if e = No_sound then At_receive d else At_wait_sound d p) (W_check_sound p (an_now a))
                     (k\<lparr>wk_sound := s, wk_world := w\<rparr>)))"

text \<open>A turn of \<open>waitForPresentation\<close> in \<open>presentAudio\<close>.\<close>

definition at_wait_sound :: "answer \<Rightarrow> drained \<Rightarrow> rat \<Rightarrow> threads \<Rightarrow> 'w worker \<Rightarrow> 'w turned" where
  "at_wait_sound a d p t k =
     go_with (case fst (waitForPresentation p None (an_now a) (an_obs_now a) (pl t)) of
                Give_up \<Rightarrow> At_receive d
              | Present ts \<Rightarrow> At_receive d
              | _ \<Rightarrow> At_wait_sound d p)
       (W_sound_turn p (an_now a) (an_obs_now a)) k"

text \<open>The end of \<open>decodePacket\<close>, once the presenter is idle (\<open>waitForPresenterIdle\<close>).\<close>

definition at_software :: "answer \<Rightarrow> threads \<Rightarrow> 'w worker \<Rightarrow> 'w turned" where
  "at_software a t k =
     (if presenter_idle t \<or> m_stop_requested (pl t)
      then go_with At_loop W_software (k\<lparr>wk_out := reopened_in_software (wk_out k), wk_video_decoder := an_opened a\<rparr>)
      else go At_software k)"

subsection \<open>The end\<close>

definition drain_at_end :: "'w worker \<Rightarrow> worker_place" where
  "drain_at_end k =
     (if wk_video_decoder k then At_receive End_video else if wk_audio_decoder k then At_receive End_audio else At_idle)"

definition at_end_of_input :: "'w media \<Rightarrow> answer \<Rightarrow> threads \<Rightarrow> 'w worker \<Rightarrow> 'w turned" where
  "at_end_of_input M a t k =
     (let d = it_duration (me_item M); r = wk_progress k; at_end = an_at_end a
      in case readOnAfterEnd at_end d (pl t) r of
           (on, (s, r')) \<Rightarrow>
             go_with (if on then At_loop else drain_at_end k) (W_read_ended at_end d r) (k\<lparr>wk_progress := r'\<rparr>))"

definition at_idle :: "threads \<Rightarrow> 'w worker \<Rightarrow> 'w turned" where
  "at_idle t k = go (if presenter_idle t \<or> m_stop_requested (pl t) then At_hold else At_idle) k"

definition end_position :: "'w media \<Rightarrow> rat" where
  "end_position M = (case it_duration (me_item M) of Some d \<Rightarrow> d | None \<Rightarrow> -1)"

definition at_hold :: "'w media \<Rightarrow> answer \<Rightarrow> threads \<Rightarrow> 'w worker \<Rightarrow> 'w turned" where
  "at_hold M a t k =
     (let e = W_hold (end_position M) (an_now a)
      in case fst (hold_turn (end_position M) (an_now a) (pl t)) of
           Held True \<Rightarrow> go_with At_mark e k
         | Held False \<Rightarrow> go_with At_loop e (k\<lparr>wk_progress := rewindEndOfFile (wk_progress k)\<rparr>)
         | Hold_on _ \<Rightarrow> go_with At_hold e k)"

definition at_mark :: "threads \<Rightarrow> 'w worker \<Rightarrow> 'w turned" where
  "at_mark t k = (if m_stop_requested (pl t) then go At_quit k else go_with At_quit W_ended k)"

text \<open>The scope guard: the presenter is told to quit and joined, and the queue is emptied.\<close>

definition at_join :: "'w worker \<Rightarrow> 'w turned" where
  "at_join k = go (if wk_presenter k then At_join else At_empty) k"

fun worker_turn :: "'w media \<Rightarrow> answer \<Rightarrow> worker_place \<Rightarrow> threads \<Rightarrow> 'w worker \<Rightarrow> 'w turned" where
  "worker_turn M a At_start t k = (if an_allocated a then go At_loop k else go_with At_quit W_open_failed k)"
| "worker_turn M a At_loop t k = at_loop t k"
| "worker_turn M a At_clear t k = at_clear k"
| "worker_turn M a At_read t k = at_read M a t k"
| "worker_turn M a (At_packet p) t k = at_packet M a p k"
| "worker_turn M a (At_receive d) t k = at_receive M a d t k"
| "worker_turn M a (At_queue d q) t k = at_queue d q t k"
| "worker_turn M a (At_sound d x) t k = at_sound M a d x t k"
| "worker_turn M a (At_wait_sound d p) t k = at_wait_sound a d p t k"
| "worker_turn M a At_after_packet t k = go (if vo_reopen_in_software (wk_out k) then At_software else At_loop) k"
| "worker_turn M a At_software t k = at_software a t k"
| "worker_turn M a At_end_of_input t k = at_end_of_input M a t k"
| "worker_turn M a At_idle t k = at_idle t k"
| "worker_turn M a At_hold t k = at_hold M a t k"
| "worker_turn M a At_mark t k = at_mark t k"
| "worker_turn M a At_quit t k = go At_join (k\<lparr>wk_quit := True\<rparr>)"
| "worker_turn M a At_join t k = at_join k"
| "worker_turn M a At_empty t k = go_with At_exit W_clear_queue k"
| "worker_turn M a At_exit t k = go_with At_gone W_exits k"
| "worker_turn M a At_gone t k = go At_gone k"

section \<open>All threads\<close>

text \<open>
  What \<open>emitVideo\<close> notes about the decoder, while the presenter has a frame. The loop of the
  presenter ends at its head (\<open>Presenter_ends\<close>).
\<close>

datatype output_note = Picture_unreadable | Picture_in_software | Picture_good

fun note_output :: "output_note \<Rightarrow> video_output \<Rightarrow> video_output" where
  "note_output Picture_unreadable out = noteHardwareError out"
| "note_output Picture_in_software out = note_software_picture False out"
| "note_output Picture_good out = out\<lparr>vo_hardware_errors := 0\<rparr>"

datatype item_event =
    Worker answer
  | Presenter_ends
  | Output_noted output_note
  | Other player_event

fun of_worker :: "player_event \<Rightarrow> bool" where
  "of_worker (W_publish d v a) = True"
| "of_worker W_open_failed = True"
| "of_worker W_take_seek = True"
| "of_worker W_clear_queue = True"
| "of_worker (W_queue q) = True"
| "of_worker W_software = True"
| "of_worker (W_check_sound p now) = True"
| "of_worker (W_sound_turn p now obs_now) = True"
| "of_worker (W_read_ended e d r) = True"
| "of_worker (W_hold e now) = True"
| "of_worker W_ended = True"
| "of_worker W_exits = True"
| "of_worker _ = False"

fun of_presenter :: "player_event \<Rightarrow> bool" where
  "of_presenter P_take = True"
| "of_presenter P_begin = True"
| "of_presenter (P_check now) = True"
| "of_presenter (P_coarse now) = True"
| "of_presenter (P_show now obs_now) = True"
| "of_presenter P_cannot_convert = True"
| "of_presenter _ = False"

type_synonym 'w playing = "'w worker \<times> threads"

definition worker_step :: "'w media \<Rightarrow> answer \<Rightarrow> 'w playing \<Rightarrow> 'w playing" where
  "worker_step M a kt =
     (case worker_turn M a (wk_at (fst kt)) (snd kt) (fst kt) of (k, es) \<Rightarrow> (k, fold (\<lambda>e t. perform t e) es (snd kt)))"

fun item_do :: "'w media \<Rightarrow> 'w playing \<Rightarrow> item_event \<Rightarrow> 'w playing" where
  "item_do M kt (Worker a) = worker_step M a kt"
| "item_do M (k, t) Presenter_ends = (k\<lparr>wk_presenter := False\<rparr>, t)"
| "item_do M (k, t) (Output_noted n) = (k\<lparr>wk_out := note_output n (wk_out k)\<rparr>, t)"
| "item_do M (k, t) (Other e) = (k, perform t e)"

text \<open>
  When a step can be taken. The worker takes its turns in every order of answers and whatever time
  stamps the pictures have.
\<close>

fun item_enabled :: "'w playing \<Rightarrow> item_event \<Rightarrow> bool" where
  "item_enabled kt (Worker a) \<longleftrightarrow> wk_at (fst kt) \<noteq> At_gone"
| "item_enabled (k, t) Presenter_ends \<longleftrightarrow>
     wk_presenter k \<and> presenter t = Waits \<and> (m_stop_requested (pl t) \<or> wk_quit k \<and> m_video_queue t = [])"
| "item_enabled (k, t) (Output_noted n) \<longleftrightarrow> wk_presenter k \<and> presenter t \<noteq> Waits"
| "item_enabled (k, t) (Other e) \<longleftrightarrow> enabled t e \<and> \<not> of_worker e \<and> (of_presenter e \<longrightarrow> wk_presenter k) \<and> wk_at k \<noteq> At_gone"

text \<open>The states from an item that was opened on.\<close>

inductive item_reach :: "'w media \<Rightarrow> 'w playing \<Rightarrow> bool" for M where
  opened: "player_reach t \<Longrightarrow> worker_runs t \<Longrightarrow> presenter_idle t \<Longrightarrow> item_reach M (worker_new (me_item M) out w, t)"
| step: "item_reach M kt \<Longrightarrow> item_enabled kt e \<Longrightarrow> item_reach M (item_do M kt e)"

section \<open>The worker's runs are runs of the threads\<close>

lemma presenter_steps_keep:
  "worker_runs (take_frame t) = worker_runs t" "worker_runs (begin_frame t) = worker_runs t"
  "worker_runs (check_frame now t) = worker_runs t" "worker_runs (coarse_frame now t) = worker_runs t"
  "worker_runs (show_frame now obs_now t) = worker_runs t"
  "m_video_queue (begin_frame t) = m_video_queue t" "m_video_queue (check_frame now t) = m_video_queue t"
  "m_video_queue (coarse_frame now t) = m_video_queue t" "m_video_queue (show_frame now obs_now t) = m_video_queue t"
  "m_video_queue t = [] \<Longrightarrow> take_frame t = t"
  by (simp_all add: take_frame_def begin_frame_def check_frame_def coarse_frame_def show_frame_def show_picture_def
      split: presenter.split list.split prod.split turn.split)

lemma other_keeps:
  assumes "enabled t e" "\<not> of_worker e" "worker_runs t"
  shows "worker_runs (perform t e)" and "m_video_queue t = [] \<Longrightarrow> m_video_queue (perform t e) = []"
    and "\<not> of_presenter e \<Longrightarrow> presenter (perform t e) = presenter t"
    and "presenter_idle t \<Longrightarrow> presenter_idle (perform t e)"
  using assms
  by (cases e; simp add: presenter_steps_keep presenter_idle_def Let_def split: seek_outcome.splits presenter.splits)+

text \<open>What holds between the turns, at every place and at some.\<close>

fun place_ok :: "worker_place \<Rightarrow> bool \<Rightarrow> threads \<Rightarrow> bool" where
  "place_ok (At_wait_sound d p) runs t \<longleftrightarrow> 0 \<le> p"
| "place_ok At_empty runs t \<longleftrightarrow> \<not> runs"
| "place_ok At_exit runs t \<longleftrightarrow> \<not> runs \<and> m_video_queue t = []"
| "place_ok At_hold runs t \<longleftrightarrow> m_stop_requested (pl t) \<or> presenter_idle t"
| "place_ok At_mark runs t \<longleftrightarrow> m_stop_requested (pl t) \<or> presenter_idle t"
| "place_ok _ runs t \<longleftrightarrow> True"

definition worker_ok :: "'w playing \<Rightarrow> bool" where
  "worker_ok kt \<longleftrightarrow>
     (wk_at (fst kt) \<noteq> At_gone \<longrightarrow> worker_runs (snd kt)) \<and> (\<not> wk_presenter (fst kt) \<longrightarrow> presenter (snd kt) = Waits) \<and>
     place_ok (wk_at (fst kt)) (wk_presenter (fst kt)) (snd kt)"

lemma place_ok_ends: "place_ok p runs t \<Longrightarrow> place_ok p False t"
  by (cases p) auto

lemma other_ok:
  assumes "worker_ok (k, t)" "item_enabled (k, t) (Other e)"
  shows "worker_ok (item_do M (k, t) (Other e))"
proof -
  have e: "enabled t e" "\<not> of_worker e" "worker_runs t" "of_presenter e \<longrightarrow> wk_presenter k"
    using assms by (auto simp: worker_ok_def)
  note o = other_keeps [OF e(1-3)]
  have "m_stop_requested (pl t) \<Longrightarrow> m_stop_requested (pl (perform t e))" using perform_keeps_stop [of t e] e(1,3) by (cases e) auto
  then have "place_ok (wk_at k) (wk_presenter k) (perform t e)"
    using assms(1) o by (cases "wk_at k") (auto simp: worker_ok_def)
  then show ?thesis using assms(1) o e(4) by (auto simp: worker_ok_def)
qed

text \<open>The steps of the worker do not touch the presenter.\<close>

lemma worker_steps_keep:
  "worker_runs (take_pending_seek t) = worker_runs t" "presenter (take_pending_seek t) = presenter t"
  "m_video_queue (take_pending_seek t) = m_video_queue t" "worker_runs (queueVideoFrame q t) = worker_runs t"
  "presenter (queueVideoFrame q t) = presenter t" "worker_runs (clearVideoQueue t) = worker_runs t"
  "presenter (clearVideoQueue t) = presenter t" "m_video_queue (clearVideoQueue t) = []"
  by (simp_all add: take_pending_seek_def take_seek_def queueVideoFrame_def clearVideoQueue_def)

text \<open>A turn that takes at most one step, which can be taken, to a place where it holds again.\<close>

definition turn_ok :: "threads \<Rightarrow> 'w turned \<Rightarrow> bool" where
  "turn_ok t ke \<longleftrightarrow> (snd ke = [] \<or> (\<exists>e. snd ke = [e] \<and> enabled t e)) \<and>
     worker_ok (fst ke, fold (\<lambda>e t. perform t e) (snd ke) t)"

lemma go_ok:
  assumes "worker_runs t" "\<not> wk_presenter k \<longrightarrow> presenter t = Waits" "place_ok p (wk_presenter k) t"
  shows "turn_ok t (go p k)"
  using assms by (simp add: go_def turn_ok_def worker_ok_def)

lemma go_with_ok:
  assumes "enabled t e" "p \<noteq> At_gone \<longrightarrow> worker_runs (perform t e)" "presenter (perform t e) = presenter t"
    and "\<not> wk_presenter k \<longrightarrow> presenter t = Waits" "place_ok p (wk_presenter k) (perform t e)"
  shows "turn_ok t (go_with p e k)"
  using assms by (simp add: go_with_def turn_ok_def worker_ok_def)

lemma drained_to_ok: "place_ok (drained_to d k) runs t" "drained_to d k \<noteq> At_gone"
  by (cases d; simp)+

lemma worker_turn_ok:
  assumes "worker_ok (k, t)" "wk_at k \<noteq> At_gone"
  shows "turn_ok t (worker_turn M a (wk_at k) t k)"
proof -
  have r: "worker_runs t" "\<not> wk_presenter k \<longrightarrow> presenter t = Waits" and p: "place_ok (wk_at k) (wk_presenter k) t"
    using assms(1,2) by (simp_all add: worker_ok_def)
  note oks = go_ok [OF r(1)] go_with_ok r
  show ?thesis
  proof (cases "wk_at k")
    case At_start
    then show ?thesis using r by (auto intro!: oks)
  next
    case At_loop
    then show ?thesis using r by (auto simp: at_loop_def worker_steps_keep intro!: oks)
  next
    case At_clear
    then show ?thesis using r by (auto simp: at_clear_def worker_steps_keep intro!: oks)
  next
    case At_read
    then show ?thesis using r by (auto simp: at_read_def intro!: oks split: option.split)
  next
    case (At_packet p)
    then show ?thesis using r by (auto simp: at_packet_def note_error_def intro!: oks)
  next
    case (At_receive d)
    then show ?thesis using r
      by (auto simp: at_receive_def note_error_def drained_to_ok intro!: oks split: receive_result.split)
  next
    case (At_queue d q)
    then show ?thesis using r by (auto simp: at_queue_def worker_steps_keep intro!: oks)
  next
    case (At_sound d x)
    then show ?thesis using r by (auto simp: at_sound_def Let_def intro!: oks split: prod.split)
  next
    case (At_wait_sound d q)
    then show ?thesis using r p by (auto simp: at_wait_sound_def intro!: oks split: turn.split)
  next
    case At_after_packet
    then show ?thesis using r by (auto intro!: oks)
  next
    case At_software
    then show ?thesis using r by (auto simp: at_software_def intro!: oks)
  next
    case At_end_of_input
    then show ?thesis using r by (auto simp: at_end_of_input_def drain_at_end_def Let_def intro!: oks split: prod.split)
  next
    case At_idle
    then show ?thesis using r by (auto simp: at_idle_def intro!: oks)
  next
    case At_hold
    then show ?thesis using r p
      by (auto simp: at_hold_def Let_def stop_kept presenter_idle_def intro!: oks split: hold.split bool.split)
  next
    case At_mark
    then show ?thesis using r by (auto simp: at_mark_def intro!: oks)
  next
    case At_quit
    then show ?thesis using r by (auto intro!: oks)
  next
    case At_join
    then show ?thesis using r by (auto simp: at_join_def intro!: oks)
  next
    case At_empty
    then show ?thesis using r p by (auto simp: worker_steps_keep intro!: oks)
  next
    case At_exit
    then show ?thesis using r p by (auto intro!: oks)
  qed (use assms in simp)
qed

lemma item_do_ok:
  assumes "worker_ok kt" "item_enabled kt e" "player_reach (snd kt)"
  shows "worker_ok (item_do M kt e) \<and> player_reach (snd (item_do M kt e))"
proof -
  obtain k t where kt: "kt = (k, t)" by (cases kt)
  show ?thesis
  proof (cases e)
    case (Worker a)
    obtain k' es where w: "worker_turn M a (wk_at k) t k = (k', es)" by (metis prod.exhaust)
    then have o: "(es = [] \<or> (\<exists>e. es = [e] \<and> enabled t e)) \<and> worker_ok (k', fold (\<lambda>e t. perform t e) es t)"
      using worker_turn_ok [of k t M a] assms kt Worker by (simp add: turn_ok_def)
    then have "player_reach (fold (\<lambda>e t. perform t e) es t)" using assms(3) kt by (auto intro: player_reach.step)
    then show ?thesis using o w kt Worker by (simp add: worker_step_def)
  next
    case Presenter_ends
    then show ?thesis using assms kt by (auto simp: worker_ok_def intro: place_ok_ends)
  next
    case (Output_noted n)
    then show ?thesis using assms kt by (auto simp: worker_ok_def)
  next
    case (Other x)
    then show ?thesis using assms other_ok [of k t x M] kt by (auto intro: player_reach.step)
  qed
qed

lemma item_reach_ok: "item_reach M kt \<Longrightarrow> worker_ok kt \<and> player_reach (snd kt)"
proof (induction rule: item_reach.induct)
  case (opened t out w)
  then show ?case by (auto simp: worker_ok_def worker_new_def presenter_idle_def)
next
  case (step kt e)
  then show ?case using item_do_ok by blast
qed

section \<open>Stopping\<close>

text \<open>The next step of the presenter, if it can do one without being given a frame.\<close>

definition presenter_next :: "answer \<Rightarrow> 'w playing \<Rightarrow> item_event list" where
  "presenter_next a kt =
     (case presenter (snd kt) of
        Waits \<Rightarrow> (if wk_presenter (fst kt) \<and> m_stop_requested (pl (snd kt)) then [Presenter_ends] else [])
      | Has q \<Rightarrow> [Other P_begin]
      | Begins q \<Rightarrow> [Other (P_check (an_now a))]
      | Late q \<Rightarrow> [Other (P_coarse (an_now a))]
      | Shows q \<Rightarrow> [Other (P_show (an_now a) (an_obs_now a))]
      | Shows_coarse q \<Rightarrow> [Other (P_show (an_now a) (an_obs_now a))])"

text \<open>A turn of the worker and one of the presenter.\<close>

definition both_turn :: "'w media \<Rightarrow> answer \<Rightarrow> 'w playing \<Rightarrow> 'w playing" where
  "both_turn M a kt = (let s = worker_step M a kt in fold (\<lambda>e s. item_do M s e) (presenter_next a s) s)"

fun receive_rank :: "drained \<Rightarrow> nat" where
  "receive_rank End_video = 9"
| "receive_rank _ = 8"

fun place_rank :: "worker_place \<Rightarrow> nat" where
  "place_rank At_gone = 0"
| "place_rank At_exit = 1"
| "place_rank At_empty = 2"
| "place_rank At_join = 3"
| "place_rank At_quit = 4"
| "place_rank At_loop = 5"
| "place_rank At_mark = 5"
| "place_rank At_start = 6"
| "place_rank At_hold = 6"
| "place_rank At_software = 6"
| "place_rank At_idle = 7"
| "place_rank At_after_packet = 7"
| "place_rank (At_receive d) = receive_rank d"
| "place_rank (At_packet p) = 9"
| "place_rank (At_queue d q) = receive_rank d + 1"
| "place_rank (At_wait_sound d p) = receive_rank d + 1"
| "place_rank (At_sound d x) = receive_rank d + 2"
| "place_rank At_end_of_input = 10"
| "place_rank At_read = 10"
| "place_rank At_clear = 11"

fun frame_rank :: "presenter \<Rightarrow> nat" where
  "frame_rank Waits = 0"
| "frame_rank (Has q) = 4"
| "frame_rank (Begins q) = 3"
| "frame_rank (Late q) = 2"
| "frame_rank (Shows q) = 1"
| "frame_rank (Shows_coarse q) = 1"

definition presenter_rank :: "'w playing \<Rightarrow> nat" where
  "presenter_rank kt = (if wk_presenter (fst kt) then 1 + frame_rank (presenter (snd kt)) else 0)"

lemma receive_rank_bounds: "8 \<le> receive_rank d" "receive_rank d \<le> 9"
  by (cases d; simp)+

lemma drained_to_rank: "place_rank (drained_to d k) < receive_rank d"
  by (cases d) simp_all

lemma stopped_wait: "m_stop_requested s \<Longrightarrow> waitForPresentation p e now obs_now s = (Give_up, s)"
  by (simp add: waitForPresentation_def)

lemma stopped_turn:
  assumes "m_stop_requested (pl t)" "worker_turn M a (wk_at k) t k = (k', es)"
  shows "place_rank (wk_at k') \<le> place_rank (wk_at k) - (if wk_at k = At_join \<and> wk_presenter k then 0 else 1) \<and>
    wk_presenter k' = wk_presenter k \<and> list_all of_worker es \<and> (\<forall>q. W_queue q \<notin> set es)"
proof (cases "wk_at k")
  case (At_receive d)
  then show ?thesis using assms drained_to_rank [of d k] by (auto simp: at_receive_def go_def)
next
  case (At_queue d q)
  then show ?thesis using assms by (auto simp: at_queue_def stopOrSeekPending_def go_def)
next
  case (At_sound d x)
  then show ?thesis using assms by (auto simp: at_sound_def go_def go_with_def Let_def split: if_splits prod.splits)
next
  case (At_packet p)
  then show ?thesis using assms by (auto simp: at_packet_def go_def note_error_def split: if_splits)
next
  case At_end_of_input
  then show ?thesis using assms
    by (auto simp: at_end_of_input_def drain_at_end_def go_with_def Let_def split: prod.splits if_splits)
qed (use assms in \<open>auto simp: at_loop_def at_clear_def at_read_def at_wait_sound_def stopped_wait at_software_def at_idle_def
      at_hold_def hold_turn_def at_mark_def at_join_def go_def go_with_def Let_def split: if_splits option.splits\<close>)

lemma worker_event_keeps:
  assumes "of_worker e"
  shows "presenter (perform t e) = presenter t" "m_stop_requested (pl t) \<Longrightarrow> m_stop_requested (pl (perform t e))"
  using assms by (cases e; simp add: worker_steps_keep stop_kept pl_presenter_steps)+

lemma worker_events_keep:
  "list_all of_worker es \<Longrightarrow> presenter (fold (\<lambda>e t. perform t e) es t) = presenter t \<and>
    (m_stop_requested (pl t) \<longrightarrow> m_stop_requested (pl (fold (\<lambda>e t. perform t e) es t)))"
  by (induction es arbitrary: t) (simp_all add: worker_event_keeps)

lemma worker_step_ranks:
  assumes "m_stop_requested (pl (snd kt))"
  shows "m_stop_requested (pl (snd (worker_step M a kt))) \<and> presenter_rank (worker_step M a kt) = presenter_rank kt \<and>
    place_rank (wk_at (fst (worker_step M a kt))) \<le>
      place_rank (wk_at (fst kt)) - (if wk_presenter (fst kt) then 0 else 1)"
proof -
  obtain k' es where w: "worker_turn M a (wk_at (fst kt)) (snd kt) (fst kt) = (k', es)" by (metis prod.exhaust)
  note s = stopped_turn [OF assms w]
  show ?thesis using s worker_events_keep [of es "snd kt"] assms w
    by (auto simp: worker_step_def presenter_rank_def split: if_splits)
qed

lemma presenter_step_ranks:
  fixes M :: "'w media" and a :: answer and kt :: "'w playing"
  assumes "m_stop_requested (pl (snd kt))"
  defines "u \<equiv> fold (\<lambda>e s. item_do M s e) (presenter_next a kt) kt"
  shows "m_stop_requested (pl (snd u)) \<and> presenter_rank u \<le> presenter_rank kt - 1 \<and> wk_at (fst u) = wk_at (fst kt)"
proof -
  obtain k t where kt: "kt = (k, t)" by (cases kt)
  have keep: "m_stop_requested (pl t)" "m_stop_requested (pl (perform t e))" if "of_presenter e" for e
    using perform_keeps_stop [of t e] assms(1) kt that by (cases e; simp)+
  show ?thesis
  proof (cases "presenter t")
    case Waits
    then show ?thesis using assms(1) by (simp add: u_def presenter_next_def kt presenter_rank_def)
  next
    case (Has q)
    then show ?thesis using keep(2) [of P_begin]
      by (simp add: u_def presenter_next_def kt presenter_rank_def begin_frame_def)
  next
    case (Begins q)
    then show ?thesis using keep(2) [of "P_check (an_now a)"]
      by (auto simp: u_def presenter_next_def kt presenter_rank_def check_frame_def split: prod.splits)
  next
    case (Late q)
    then show ?thesis using keep(2) [of "P_coarse (an_now a)"]
      by (auto simp: u_def presenter_next_def kt presenter_rank_def coarse_frame_def split: prod.splits)
  next
    case (Shows q)
    then show ?thesis using keep(2) [of "P_show (an_now a) (an_obs_now a)"] assms(1)
      by (simp add: u_def presenter_next_def kt presenter_rank_def show_frame_def stopped_wait)
  next
    case (Shows_coarse q)
    then show ?thesis using keep(2) [of "P_show (an_now a) (an_obs_now a)"]
      by (simp add: u_def presenter_next_def kt presenter_rank_def show_frame_def show_picture_def)
  qed
qed

lemma both_turn_ranks:
  assumes "m_stop_requested (pl (snd kt))"
  shows "m_stop_requested (pl (snd (both_turn M a kt))) \<and> presenter_rank (both_turn M a kt) \<le> presenter_rank kt - 1 \<and>
    place_rank (wk_at (fst (both_turn M a kt))) \<le> place_rank (wk_at (fst kt)) - (if presenter_rank kt = 0 then 1 else 0)"
  using worker_step_ranks [OF assms, of M a] presenter_step_ranks [of "worker_step M a kt" M a]
  by (auto simp: both_turn_def Let_def presenter_rank_def split: if_splits)

lemma both_turns_ranks:
  assumes "m_stop_requested (pl (snd kt))"
  shows "m_stop_requested (pl (snd (fold (both_turn M) as kt))) \<and> presenter_rank (fold (both_turn M) as kt) \<le> presenter_rank kt - length as \<and>
    place_rank (wk_at (fst (fold (both_turn M) as kt))) \<le> place_rank (wk_at (fst kt)) - (if presenter_rank kt = 0 then length as else 0)"
  using assms
proof (induction as arbitrary: kt)
  case (Cons a as)
  note now = both_turn_ranks [OF Cons.prems, of M a]
  note later = Cons.IH [OF conjunct1 [OF now]]
  have less: "x \<le> y \<Longrightarrow> y \<le> z - Suc 0 \<Longrightarrow> x \<le> z - Suc 0" "x \<le> y - n \<Longrightarrow> y \<le> z - Suc 0 \<Longrightarrow> x \<le> z - Suc n"
    "x \<le> y - n \<Longrightarrow> y \<le> z \<Longrightarrow> x \<le> z" for x y z n :: nat by linarith+
  show ?case using now later
    by (cases "presenter_rank kt = 0"; cases "presenter_rank (both_turn M a kt) = 0") (auto intro: less dest: less(3))
qed simp

lemma place_rank_bound: "place_rank p \<le> 11"
  using receive_rank_bounds(2) by (cases p) (auto simp: le_diff_conv intro: order_trans [OF receive_rank_bounds(2)])

lemma place_rank_zero: "place_rank p = 0 \<Longrightarrow> p = At_gone"
  by (cases p) (auto elim: receive_rank.elims)

lemma presenter_rank_bound: "presenter_rank kt \<le> 5"
  by (cases "presenter (snd kt)") (simp_all add: presenter_rank_def)

section \<open>What is promised\<close>

text \<open>
  C4. The worker's loop does nothing that the interleaving model of the threads does not allow: every
  state an opened item comes to, whatever FFmpeg answers and whatever the commands and the presenter do
  between the worker's turns, is one that model reaches, and has all its properties.
\<close>

theorem worker_refines_the_threads:
  assumes "item_reach M (k, t)"
  shows "player_reach t"
  using item_reach_ok [OF assms] by simp

text \<open>
  C37. The end is reported after the last picture: when the worker is about to mark the item ended (and
  is not being stopped), no picture waits in the queue and the presenter holds none.
\<close>

theorem the_end_follows_the_last_picture:
  assumes "item_reach M (k, t)" and "wk_at k = At_mark" and "\<not> m_stop_requested (pl t)"
  shows "m_video_queue t = [] \<and> presenter t = Waits"
  using item_reach_ok [OF assms(1)] assms(2,3) by (auto simp: worker_ok_def presenter_idle_def)

text \<open>
  C19. Stopping ends the worker: once a stop is requested, sixteen turns of the worker and of the
  presenter are enough for the worker to have left the item, joined the presenter and ended, from any
  place of the code and whatever FFmpeg answers meanwhile.
\<close>

theorem stopping_ends_the_worker:
  assumes "m_stop_requested (pl t)" and "length as = 16"
  shows "wk_at (fst (fold (both_turn M) as (k, t))) = At_gone"
proof -
  let ?u = "fold (both_turn M) (take 5 as) (k, t)"
  have "m_stop_requested (pl (snd ?u))" "presenter_rank ?u = 0"
    using both_turns_ranks [of "(k, t)" M "take 5 as"] assms presenter_rank_bound [of "(k, t)"] by auto
  then have "place_rank (wk_at (fst (fold (both_turn M) (drop 5 as) ?u))) = 0"
    using both_turns_ranks [of ?u M "drop 5 as"] assms(2) place_rank_bound [of "wk_at (fst ?u)"] by simp
  moreover have "fold (both_turn M) (drop 5 as) ?u = fold (both_turn M) as (k, t)"
    by (metis append_take_drop_id comp_apply fold_append)
  ultimately show ?thesis using place_rank_zero by metis
qed

section \<open>A clip from its start to its end\<close>

fun item_run :: "'w media \<Rightarrow> 'w playing \<Rightarrow> item_event list \<Rightarrow> 'w playing option" where
  "item_run M kt [] = Some kt"
| "item_run M kt (e # es) = (if item_enabled kt e then item_run M (item_do M kt e) es else None)"

lemma item_run_reach: "item_run M kt es = Some u \<Longrightarrow> item_reach M kt \<Longrightarrow> item_reach M u"
proof (induction es arbitrary: kt)
  case (Cons e es)
  then have e: "item_enabled kt e" "item_run M (item_do M kt e) es = Some u" by (simp_all split: if_splits)
  from Cons.IH [OF e(2)] item_reach.step [OF Cons.prems(2) e(1)] show ?case .
qed simp

definition clip_media :: "unit media" where
  "clip_media = \<lparr>me_item = \<lparr>it_resilient = False, it_hls = False, it_video = Some 0, it_audio = None, it_duration = Some 3,
      it_start_seconds = 0, it_preroll = 0, it_first_seek = None\<rparr>,
     me_streams = [\<lparr>time_base = 1, avg_frame_rate = (1, 1), r_frame_rate = (1, 1)\<rparr>],
     me_sound_decoder = \<lparr>dec_layout = \<lparr>nb_channels = 2, channel_mask = 0\<rparr>, dec_rate = 48000\<rparr>,
     me_sound_lib = \<lparr>sl_same = (\<lambda>a b. a = b), sl_copy = (\<lambda>l. True), sl_make = (\<lambda>l hz format w. (True, w)), sl_delay = (\<lambda>hz w. 0),
       sl_convert = (\<lambda>c d w. (c, w))\<rparr>\<rparr>"

definition plain_answer :: "int \<Rightarrow> answer" where
  "plain_answer now = \<lparr>an_allocated = True, an_now = now, an_obs_now = now, an_packet = None, an_at_end = True, an_sent = True,
     an_received = Nothing_yet, an_picture = (Some 2, 1), an_sound = \<lparr>sd_timestamp = None, sd_layout = \<lparr>nb_channels = 0, channel_mask = 0\<rparr>,
       sd_rate = 0, sd_format = 0, sd_samples = 0, sd_planes = False\<rparr>, an_opened = True\<rparr>"

definition clip_start :: "unit playing option" where
  "clip_start = map_option (\<lambda>t. (worker_new (me_item clip_media) video_output_new (), t))
     (perform_all threads_new [Cmd_play ''u'' (Finite 0) 1 0, Cmd_start_worker True, W_publish (Some 3) True False])"

definition clip_events :: "item_event list" where
  "clip_events =
     [Worker (plain_answer 0), Worker (plain_answer 0),
      Worker ((plain_answer 0)\<lparr>an_packet := Some \<lparr>pk_stream = 0, pk_pts = Some 2, pk_duration = 1\<rparr>\<rparr>),
      Worker (plain_answer 0), Worker ((plain_answer 0)\<lparr>an_received := Decoded\<rparr>), Worker (plain_answer 0),
      Other P_take, Worker (plain_answer 0), Other P_begin, Other (P_check 0), Worker (plain_answer 0), Worker (plain_answer 0),
      Worker (plain_answer 0), Worker (plain_answer 0), Other (P_show 0 0), Worker (plain_answer 0), Worker (plain_answer 0),
      Worker (plain_answer 1000000000)]"

definition clip_at :: "item_event list \<Rightarrow> unit playing" where
  "clip_at es = the (Option.bind clip_start (\<lambda>s. item_run clip_media s es))"

lemma clip_started: "\<exists>t. player_reach t \<and> worker_runs t \<and> presenter_idle t \<and> clip_start = Some (worker_new (me_item clip_media) video_output_new (), t)"
proof -
  let ?es = "[Cmd_play ''u'' (Finite 0) 1 0, Cmd_start_worker True, W_publish (Some 3) True False]"
  have "case perform_all threads_new ?es of None \<Rightarrow> False | Some t \<Rightarrow> worker_runs t \<and> presenter_idle t" by code_simp
  then obtain t where t: "perform_all threads_new ?es = Some t" "worker_runs t" "presenter_idle t" by (auto split: option.splits)
  then show ?thesis using perform_all_reach [OF t(1) player_reach.start] by (simp add: clip_start_def)
qed

lemma clip_reaches:
  assumes "(case Option.bind clip_start (\<lambda>s. item_run clip_media s es) of None \<Rightarrow> False | Some kt \<Rightarrow> Q kt)"
  shows "item_reach clip_media (clip_at es) \<and> Q (clip_at es)"
proof -
  obtain t where t: "player_reach t" "worker_runs t" "presenter_idle t"
    "clip_start = Some (worker_new (me_item clip_media) video_output_new (), t)" using clip_started by blast
  let ?r = "item_run clip_media (worker_new (me_item clip_media) video_output_new (), t) es"
  have "case ?r of None \<Rightarrow> False | Some kt \<Rightarrow> Q kt" using assms unfolding t(4) Option.bind.simps .
  then obtain kt where kt: "?r = Some kt" "Q kt" by (cases ?r) simp_all
  have "clip_at es = kt" unfolding clip_at_def t(4) Option.bind.simps kt(1) by (rule option.sel)
  moreover have "item_reach clip_media kt" by (rule item_run_reach [OF kt(1) item_reach.opened [OF t(1-3)]])
  ultimately show ?thesis using kt(2) by simp
qed

definition at_mark_of :: "unit playing \<Rightarrow> bool" where
  "at_mark_of kt \<longleftrightarrow> wk_at (fst kt) = At_mark \<and> \<not> m_stop_requested (pl (snd kt)) \<and> length (pictures (snd kt)) = 1"

lemma clip_is_played: "item_reach clip_media (clip_at clip_events) \<and> at_mark_of (clip_at clip_events)"
  by (rule clip_reaches) code_simp

theorem worker_refines_the_threads_witness: "player_reach (snd (clip_at clip_events))"
  using worker_refines_the_threads [of clip_media "fst (clip_at clip_events)" "snd (clip_at clip_events)"] clip_is_played by simp

theorem the_end_follows_the_last_picture_witness:
  "m_video_queue (snd (clip_at clip_events)) = [] \<and> presenter (snd (clip_at clip_events)) = Waits"
  using the_end_follows_the_last_picture [of clip_media "fst (clip_at clip_events)" "snd (clip_at clip_events)"] clip_is_played
  by (simp add: at_mark_of_def)

text \<open>Stopped while the presenter has the picture.\<close>

definition clip_stopped :: "item_event list" where
  "clip_stopped = take 10 clip_events @ [Other Cmd_request_stop]"

theorem stopping_ends_the_worker_witness:
  "wk_at (fst (fold (both_turn clip_media) (replicate 16 (plain_answer 0)) (clip_at clip_stopped))) = At_gone"
proof -
  have "m_stop_requested (pl (snd (clip_at clip_stopped)))" by code_simp
  then show ?thesis
    using stopping_ends_the_worker [of "snd (clip_at clip_stopped)" "replicate 16 (plain_answer 0)" clip_media "fst (clip_at clip_stopped)"]
    by simp
qed

text \<open>
  A seek that comes when the end is certain and not marked yet is never served: the item is marked
  ended with the seek still pending, and the worker leaves.
\<close>

definition clip_sought :: "item_event list" where
  "clip_sought = clip_events @ [Other (Cmd_seek (Finite 1) 1000000000)] @
     replicate 2 (Worker (plain_answer 1000000000)) @ [Presenter_ends] @ replicate 3 (Worker (plain_answer 1000000000))"

lemma seek_at_the_end_is_lost:
  "item_reach clip_media (clip_at clip_sought) \<and>
   (\<lambda>kt. wk_at (fst kt) = At_gone \<and> m_seek_pending (pl (snd kt)) \<and> ended (pl (snd kt))) (clip_at clip_sought)"
  by (rule clip_reaches) code_simp

end
