(* ===== verification/Guarded_Machine.thy ===== *)
theory Guarded_Machine
  imports Main
begin

text \<open>
  Machines whose events are not always possible: a step gives none when its event cannot happen in that
  state. \<open>guarded_run\<close> follows a list of events, and a \<open>guarded_machine\<close> promises that what holds of a
  state (\<open>inv\<close>) still holds after every step with an admissible event.
\<close>

fun guarded_run :: "('s \<Rightarrow> 'e \<Rightarrow> 's option) \<Rightarrow> 's \<Rightarrow> 'e list \<Rightarrow> 's option" where
  "guarded_run step s [] = Some s"
| "guarded_run step s (e # es) = (case step s e of None \<Rightarrow> None | Some t \<Rightarrow> guarded_run step t es)"

lemma guarded_run_append:
  "guarded_run step s (es @ fs) = (case guarded_run step s es of None \<Rightarrow> None | Some t \<Rightarrow> guarded_run step t fs)"
  by (induction es arbitrary: s) (auto split: option.split)

locale guarded_machine =
  fixes step :: "'s \<Rightarrow> 'e \<Rightarrow> 's option"
    and admissible :: "'e \<Rightarrow> bool"
    and inv :: "'s \<Rightarrow> bool"
  assumes step_inv: "inv s \<Longrightarrow> admissible e \<Longrightarrow> step s e = Some t \<Longrightarrow> inv t"
begin

lemma run_inv: "guarded_run step s es = Some t \<Longrightarrow> list_all admissible es \<Longrightarrow> inv s \<Longrightarrow> inv t"
  by (induction es arbitrary: s) (auto intro: step_inv split: option.splits)

end

end
