(* ===== verification/Player_Memory.thy ===== *)
theory Player_Memory
  imports Resilient_Io Guarded_Machine "HOL-Library.Multiset"
begin

text \<open>
  \<^verbatim>\<open>src/media-player.cpp\<close>, what an item allocates and frees: the members of the struct \<open>Item\<close> with its
  destructor, \<open>ResilientHttpIo\<close>, \<open>openDecoder\<close>, the allocations of \<open>playItem\<close>, the decoded frames in the
  queue and with the presenter, the pixel buffer it locks, the converter of the sound, and the software
  decoder that takes over.
  What FFmpeg (or VideoToolbox) hands out is an object on a heap of pointers; an allocation that fails is
  a null pointer, and freeing or using what is not there is recorded as a fault. The answers of FFmpeg
  are records of booleans.
\<close>

section \<open>A heap of FFmpeg's objects\<close>

datatype object = Demuxer | Http_input | Io_buffer | Io_context | Options | Decoder | Device | Packet | Frame | Scaler | Locked
  | Resampler | Channel_map

type_synonym ptr = "nat option"

record heap =
  h_next :: nat
  h_live :: "(nat \<times> object) list"
  h_fault :: bool

definition alloc :: "object \<Rightarrow> bool \<Rightarrow> heap \<Rightarrow> ptr \<times> heap" where
  "alloc k ok h =
     (if ok then (Some (h_next h), h\<lparr>h_next := Suc (h_next h), h_live := (h_next h, k) # h_live h\<rparr>) else (None, h))"

text \<open>FFmpeg's \<open>av_..._free\<close> and \<open>..._close\<close>; a null pointer is no fault.\<close>

definition free :: "object \<Rightarrow> ptr \<Rightarrow> heap \<Rightarrow> heap" where
  "free k p h =
     (case p of
        None \<Rightarrow> h
      | Some a \<Rightarrow>
          if List.member (h_live h) (a, k) then h\<lparr>h_live := remove1 (a, k) (h_live h)\<rparr> else h\<lparr>h_fault := True\<rparr>)"

text \<open>A use of an object, through a pointer that must not be null.\<close>

definition use :: "object \<Rightarrow> ptr \<Rightarrow> heap \<Rightarrow> heap" where
  "use k p h =
     (case p of None \<Rightarrow> h\<lparr>h_fault := True\<rparr>
      | Some a \<Rightarrow> if List.member (h_live h) (a, k) then h else h\<lparr>h_fault := True\<rparr>)"

text \<open>
  \<open>owns outer M h\<close>: nothing went wrong, and what is live is what was live outside (\<open>outer\<close>) and the objects
  \<open>M\<close>, each at an address of its own that was handed out.
\<close>

definition heap_ok :: "heap \<Rightarrow> bool" where
  "heap_ok h \<longleftrightarrow> \<not> h_fault h \<and> distinct (map fst (h_live h)) \<and> list_all (\<lambda>x. fst x < h_next h) (h_live h)"

definition owns :: "(nat \<times> object) multiset \<Rightarrow> (nat \<times> object) multiset \<Rightarrow> heap \<Rightarrow> bool" where
  "owns outer M h \<longleftrightarrow> heap_ok h \<and> mset (h_live h) = outer + M"

definition at :: "object \<Rightarrow> ptr \<Rightarrow> (nat \<times> object) multiset" where
  "at k p = (case p of None \<Rightarrow> {#} | Some a \<Rightarrow> {#(a, k)#})"

lemma at_simps [simp]: "at k None = {#}" "at k (Some a) = {#(a, k)#}"
  by (simp_all add: at_def)

lemma owns_alloc:
  assumes "owns outer M h" "alloc k ok h = (p, h')"
  shows "owns outer (at k p + M) h' \<and> (p \<noteq> None \<longleftrightarrow> ok)"
  using assms by (fastforce simp: alloc_def owns_def heap_ok_def list_all_iff split: if_splits)

lemma heap_ok_remove:
  assumes "heap_ok h"
  shows "heap_ok (h\<lparr>h_live := remove1 x (h_live h)\<rparr>)"
proof -
  have "distinct (map fst xs) \<Longrightarrow> distinct (map fst (remove1 x xs))" for xs :: "(nat \<times> object) list"
    by (induction xs) (auto simp: image_iff dest: notin_set_remove1)
  with assms show ?thesis by (auto simp: heap_ok_def list_all_iff dest: notin_set_remove1)
qed

lemma owns_member: "owns outer (at k (Some a) + M) h \<Longrightarrow> List.member (h_live h) (a, k)"
  unfolding owns_def by (metis List.member_iff UnCI add.commute at_simps(2) mset_subset_eq_add_right mset_subset_eqD set_mset_mset
    union_assoc union_single_eq_member)

lemma owns_free:
  assumes "owns outer (at k p + M) h"
  shows "owns outer M (free k p h)"
proof (cases p)
  case None
  then show ?thesis using assms by (simp add: free_def)
next
  case (Some a)
  then have "List.member (h_live h) (a, k)" using owns_member assms by blast
  then show ?thesis using assms Some by (simp add: free_def owns_def heap_ok_remove)
qed

lemma owns_use:
  assumes "owns outer (at k p + M) h" "p \<noteq> None"
  shows "use k p h = h"
  using assms owns_member by (auto simp: use_def)

lemma owns_end: "owns outer {#} h \<Longrightarrow> mset (h_live h) = outer \<and> \<not> h_fault h"
  by (simp add: owns_def heap_ok_def)

lemma owns_start: "heap_ok h \<Longrightarrow> owns (mset (h_live h)) {#} h"
  by (simp add: owns_def)

section \<open>Decoders\<close>

text \<open>
  A decoder's context owns the hardware device it decodes with. A video decoder with a device is run
  with one thread, one without with frame and slice threads (\<open>thread_count\<close> 0); others with FFmpeg's default.
\<close>

datatype threading = One_thread | Frame_and_slice_threads | Default_threads

record open_codec =
  co_context :: ptr
  co_device :: ptr
  co_threads :: threading

record codec_answers =
  da_found :: bool
  da_context :: bool
  da_parameters :: bool
  da_video :: bool
  da_requested :: bool
  da_device :: bool
  da_open :: bool

definition avcodec_free_context :: "open_codec \<Rightarrow> heap \<Rightarrow> heap" where
  "avcodec_free_context c h = free Decoder (co_context c) (free Device (co_device c) h)"

definition free_decoder :: "open_codec option \<Rightarrow> heap \<Rightarrow> heap" where
  "free_decoder d h = (case d of None \<Rightarrow> h | Some c \<Rightarrow> avcodec_free_context c h)"

text \<open>The device and the threads of a context whose parameters were taken over, or not (\<open>result < 0\<close>).\<close>

definition choose_threads :: "codec_answers \<Rightarrow> bool \<Rightarrow> ptr \<Rightarrow> heap \<Rightarrow> open_codec \<times> heap" where
  "choose_threads A allow_hardware ctx h =
     (if da_parameters A \<and> da_video A then
        (case alloc Device (allow_hardware \<and> da_requested A \<and> da_device A) h of
           (device, h') \<Rightarrow>
             (\<lparr>co_context = ctx, co_device = device,
               co_threads = (if device \<noteq> None then One_thread else Frame_and_slice_threads)\<rparr>, h'))
      else (\<lparr>co_context = ctx, co_device = None, co_threads = Default_threads\<rparr>, h))"

text \<open>\<open>openDecoder\<close> for a stream there is; the decoder, if it opens.\<close>

definition openDecoder_memory :: "codec_answers \<Rightarrow> bool \<Rightarrow> heap \<Rightarrow> open_codec option \<times> heap" where
  "openDecoder_memory A allow_hardware h =
     (if \<not> da_found A then (None, h)
      else
        (case alloc Decoder (da_context A) h of
           (None, h1) \<Rightarrow> (None, h1)
         | (Some ctx, h1) \<Rightarrow>
             (case choose_threads A allow_hardware (Some ctx) h1 of
                (c, h2) \<Rightarrow> if da_parameters A \<and> da_open A then (Some c, h2) else (None, avcodec_free_context c h2))))"

definition codec_objects :: "open_codec option \<Rightarrow> (nat \<times> object) multiset" where
  "codec_objects d = (case d of None \<Rightarrow> {#} | Some c \<Rightarrow> at Decoder (co_context c) + at Device (co_device c))"

definition codec_ok :: "open_codec option \<Rightarrow> bool" where
  "codec_ok d \<longleftrightarrow> (case d of None \<Rightarrow> True | Some c \<Rightarrow> co_context c \<noteq> None \<and> (co_device c \<noteq> None \<longleftrightarrow> co_threads c = One_thread))"

lemma free_decoder_owns:
  assumes "owns outer (codec_objects d + M) h"
  shows "owns outer M (free_decoder d h)"
proof (cases d)
  case None
  then show ?thesis using assms by (simp add: free_decoder_def codec_objects_def)
next
  case (Some c)
  then have "owns outer (at Device (co_device c) + (at Decoder (co_context c) + M)) h"
    using assms by (simp add: codec_objects_def ac_simps)
  from owns_free [OF owns_free [OF this]] show ?thesis using Some by (simp add: free_decoder_def avcodec_free_context_def)
qed

lemma choose_threads_owns:
  assumes "owns outer (at Decoder ctx + M) h" "choose_threads A allow_hardware ctx h = (c, h')" "ctx \<noteq> None"
  shows "owns outer (codec_objects (Some c) + M) h' \<and> codec_ok (Some c)"
proof (cases "da_parameters A \<and> da_video A")
  case True
  obtain device h1 where d: "alloc Device (allow_hardware \<and> da_requested A \<and> da_device A) h = (device, h1)"
    by (metis prod.exhaust)
  from owns_alloc [OF assms(1) d] show ?thesis
    using assms(2,3) True d by (auto simp: choose_threads_def codec_objects_def codec_ok_def ac_simps)
next
  case False
  then show ?thesis using assms by (auto simp: choose_threads_def codec_objects_def codec_ok_def)
qed

lemma openDecoder_owns:
  assumes "owns outer M h" "openDecoder_memory A allow_hardware h = (d, h')"
  shows "owns outer (codec_objects d + M) h' \<and> codec_ok d"
proof -
  obtain ctx h1 where c: "alloc Decoder (da_context A) h = (ctx, h1)" by (metis prod.exhaust)
  note o1 = owns_alloc [OF assms(1) c]
  show ?thesis
  proof (cases "da_found A \<and> ctx \<noteq> None")
    case True
    obtain co h2 where t: "choose_threads A allow_hardware ctx h1 = (co, h2)" by (metis prod.exhaust)
    have o2: "owns outer (codec_objects (Some co) + M) h2 \<and> codec_ok (Some co)"
      by (rule choose_threads_owns [OF _ t]) (use o1 True in auto)
    then have "owns outer M (avcodec_free_context co h2)" using free_decoder_owns [of outer "Some co" M h2]
      by (simp add: free_decoder_def)
    then show ?thesis
      using assms(2) True c t o2 by (auto simp: openDecoder_memory_def codec_objects_def codec_ok_def split: if_splits)
  next
    case False
    then show ?thesis
      using assms c o1 by (auto simp: openDecoder_memory_def codec_objects_def codec_ok_def split: if_splits)
  qed
qed

section \<open>The byte-exact input\<close>

text \<open>\<open>m_inner\<close>, \<open>m_context\<close> and the buffer of the context.\<close>

record http_input =
  in_inner :: ptr
  in_context :: ptr
  in_buffer :: ptr

definition input_new :: http_input where
  "input_new = \<lparr>in_inner = None, in_context = None, in_buffer = None\<rparr>"

record input_answers =
  ra_reopen :: reopen_result
  ra_sized :: bool
  ra_buffer :: bool
  ra_context :: bool
  ra_hls :: bool

definition close_input :: "http_input \<Rightarrow> heap \<Rightarrow> http_input \<times> heap" where
  "close_input io h = (io\<lparr>in_inner := None\<rparr>, free Http_input (in_inner io) h)"

text \<open>\<open>reopen\<close>, with the options it makes and frees.\<close>

definition reopen_input :: "reopen_result \<Rightarrow> http_input \<Rightarrow> heap \<Rightarrow> http_input \<times> heap" where
  "reopen_input r io h =
     (case close_input io h of
        (io1, h1) \<Rightarrow>
          (case alloc Options True h1 of
             (options, h2) \<Rightarrow>
               (case alloc Http_input (r = Opened) h2 of
                  (inner, h3) \<Rightarrow> (io1\<lparr>in_inner := inner\<rparr>, free Options options h3))))"

definition make_context :: "input_answers \<Rightarrow> http_input \<Rightarrow> heap \<Rightarrow> bool \<times> http_input \<times> heap" where
  "make_context A io h =
     (case alloc Io_buffer (ra_buffer A) h of
        (None, h1) \<Rightarrow> (False, io, h1)
      | (Some buffer, h1) \<Rightarrow>
          (case alloc Io_context (ra_context A) h1 of
             (None, h2) \<Rightarrow> (False, io, free Io_buffer (Some buffer) h2)
           | (Some ctx, h2) \<Rightarrow> (True, io\<lparr>in_context := Some ctx, in_buffer := Some buffer\<rparr>, h2)))"

definition open_input :: "input_answers \<Rightarrow> http_input \<Rightarrow> heap \<Rightarrow> bool \<times> http_input \<times> heap" where
  "open_input A io h =
     (case reopen_input (ra_reopen A) io h of
        (io1, h1) \<Rightarrow> if ra_reopen A \<noteq> Opened \<or> \<not> ra_sized A then (False, io1, h1) else make_context A io1 h1)"

definition destroy_input :: "http_input \<Rightarrow> heap \<Rightarrow> heap" where
  "destroy_input io h =
     free Http_input (in_inner io)
       (if in_context io \<noteq> None then free Io_context (in_context io) (free Io_buffer (in_buffer io) h) else h)"

definition input_objects :: "http_input \<Rightarrow> (nat \<times> object) multiset" where
  "input_objects io = at Http_input (in_inner io) + at Io_context (in_context io) + at Io_buffer (in_buffer io)"

definition input_ok :: "http_input \<Rightarrow> bool" where
  "input_ok io \<longleftrightarrow> (in_context io \<noteq> None \<longleftrightarrow> in_buffer io \<noteq> None)"

lemma reopen_input_owns:
  assumes "owns outer (input_objects io + M) h" "reopen_input r io h = (io', h')"
  shows "owns outer (input_objects io' + M) h' \<and> in_context io' = in_context io \<and> in_buffer io' = in_buffer io"
proof -
  let ?N = "at Io_context (in_context io) + at Io_buffer (in_buffer io) + M"
  obtain options h2 where a: "alloc Options True (free Http_input (in_inner io) h) = (options, h2)" by (metis prod.exhaust)
  obtain inner h3 where b: "alloc Http_input (r = Opened) h2 = (inner, h3)" by (metis prod.exhaust)
  have "owns outer (at Http_input (in_inner io) + ?N) h" using assms(1) by (simp add: input_objects_def ac_simps)
  from owns_alloc [OF owns_free [OF this] a] have "owns outer (at Options options + ?N) h2" by blast
  from owns_alloc [OF this b] have "owns outer (at Options options + (at Http_input inner + ?N)) h3"
    by (simp add: ac_simps)
  from owns_free [OF this] have "owns outer (at Http_input inner + ?N) (free Options options h3)" .
  then show ?thesis
    using assms(2) a b by (auto simp: reopen_input_def close_input_def input_objects_def ac_simps)
qed

lemma destroy_input_owns:
  assumes "owns outer (input_objects io + M) h" "input_ok io"
  shows "owns outer M (destroy_input io h)"
proof -
  have o: "owns outer (at Io_buffer (in_buffer io) + (at Io_context (in_context io) + (at Http_input (in_inner io) + M))) h"
    using assms(1) by (simp add: input_objects_def ac_simps)
  show ?thesis
  proof (cases "in_context io")
    case None
    with o assms(2) have "owns outer (at Http_input (in_inner io) + M) h" by (simp add: input_ok_def)
    from owns_free [OF this] None show ?thesis by (simp add: destroy_input_def)
  next
    case (Some ctx)
    from owns_free [OF owns_free [OF owns_free [OF o]]] Some show ?thesis by (simp add: destroy_input_def)
  qed
qed

lemma make_context_owns:
  assumes "owns outer (input_objects io + M) h" "in_context io = None" "in_buffer io = None" "make_context A io h = (ok, io', h')"
  shows "owns outer (input_objects io' + M) h' \<and> input_ok io' \<and> (ok \<longleftrightarrow> in_context io' \<noteq> None)"
proof -
  obtain buffer h1 where b: "alloc Io_buffer (ra_buffer A) h = (buffer, h1)" by (metis prod.exhaust)
  obtain ctx h2 where c: "alloc Io_context (ra_context A) h1 = (ctx, h2)" by (metis prod.exhaust)
  note o1 = owns_alloc [OF assms(1) b, THEN conjunct1]
  note o2 = owns_alloc [OF o1 c, THEN conjunct1]
  show ?thesis
  proof (cases buffer)
    case None
    then show ?thesis using assms b o1 by (auto simp: make_context_def input_ok_def)
  next
    case b': (Some x)
    show ?thesis
    proof (cases ctx)
      case None
      with o2 have "owns outer (at Io_buffer buffer + (input_objects io + M)) h2" by simp
      from owns_free [OF this] show ?thesis using assms b c b' None by (auto simp: make_context_def input_ok_def)
    next
      case (Some y)
      then show ?thesis
        using assms b c b' o2 by (auto simp: make_context_def input_ok_def input_objects_def ac_simps add_mset_commute)
    qed
  qed
qed

lemma open_input_owns:
  assumes "owns outer M h" "open_input A input_new h = (ok, io, h')"
  shows "owns outer (input_objects io + M) h' \<and> input_ok io \<and> (ok \<longleftrightarrow> in_context io \<noteq> None)"
proof -
  obtain io1 h1 where r: "reopen_input (ra_reopen A) input_new h = (io1, h1)" by (metis prod.exhaust)
  have "owns outer (input_objects input_new + M) h" using assms(1) by (simp add: input_objects_def input_new_def)
  note o1 = reopen_input_owns [OF this r]
  show ?thesis
  proof (cases "ra_reopen A \<noteq> Opened \<or> \<not> ra_sized A")
    case True
    then show ?thesis using o1 assms(2) r by (auto simp: open_input_def input_ok_def input_new_def)
  next
    case False
    then have "make_context A io1 h1 = (ok, io, h')" using assms(2) r by (simp add: open_input_def)
    with o1 show ?thesis by (intro make_context_owns [of outer io1 M h1 A ok io h']) (auto simp: input_new_def)
  qed
qed

section \<open>The item\<close>

text \<open>
  The members of \<open>Item\<close> and its \<open>video_output\<close> that are objects. \<open>im_pb\<close> is the demuxer's \<open>pb\<close> when it was
  given the byte-exact input (which the demuxer then uses, to the end of its closing, and does not free).
\<close>

record item_memory =
  im_io :: "http_input option"
  im_format :: ptr
  im_pb :: ptr
  im_opened :: bool
  im_video :: "open_codec option"
  im_audio :: "open_codec option"
  im_scaler :: ptr
  im_i420 :: ptr
  im_transfer :: ptr
  im_rotated :: ptr

definition item_new :: item_memory where
  "item_new = \<lparr>im_io = None, im_format = None, im_pb = None, im_opened = False, im_video = None, im_audio = None,
     im_scaler = None, im_i420 = None, im_transfer = None, im_rotated = None\<rparr>"

text \<open>
  \<open>oa_progressive\<close> is whether the location is an HTTP URL that does not look like HLS; the streams are
  there when their index is not negative.
\<close>

record open_answers =
  oa_format :: bool
  oa_progressive :: bool
  oa_input :: input_answers
  oa_open :: bool
  oa_info :: bool
  oa_video :: bool
  oa_audio :: bool
  oa_video_decoder :: codec_answers
  oa_audio_decoder :: codec_answers
  oa_seeks :: bool

definition use_pb :: "item_memory \<Rightarrow> heap \<Rightarrow> heap" where
  "use_pb it h = (if im_pb it = None then h else use Io_context (im_pb it) h)"

definition add_input :: "open_answers \<Rightarrow> item_memory \<Rightarrow> heap \<Rightarrow> bool \<times> item_memory \<times> heap" where
  "add_input A it h =
     (if \<not> oa_progressive A then (True, it, h)
      else
        (case open_input (oa_input A) input_new h of
           (ok, io, h1) \<Rightarrow>
             if ok \<and> ra_hls (oa_input A) then (True, it, destroy_input io h1)
             else if in_context io \<noteq> None then (True, it\<lparr>im_io := Some io, im_pb := in_context io\<rparr>, h1)
             else if ra_reopen (oa_input A) = Refused then
               (False, it\<lparr>im_format := None\<rparr>, destroy_input io (free Demuxer (im_format it) h1))
             else (True, it, destroy_input io h1)))"

text \<open>\<open>avformat_open_input\<close> with its options; when it fails it has freed the demuxer.\<close>

definition open_format :: "open_answers \<Rightarrow> item_memory \<Rightarrow> heap \<Rightarrow> bool \<times> item_memory \<times> heap" where
  "open_format A it h =
     (case alloc Options True h of
        (options, h1) \<Rightarrow>
          if oa_open A then (True, it\<lparr>im_opened := True\<rparr>, free Options options (use_pb it h1))
          else (False, it\<lparr>im_format := None\<rparr>, free Options options (free Demuxer (im_format it) (use_pb it h1))))"

definition open_stream :: "bool \<Rightarrow> codec_answers \<Rightarrow> bool \<Rightarrow> heap \<Rightarrow> open_codec option \<times> heap" where
  "open_stream there A allow_hardware h = (if there then openDecoder_memory A allow_hardware h else (None, h))"

definition open_decoders :: "open_answers \<Rightarrow> item_memory \<Rightarrow> heap \<Rightarrow> bool \<times> item_memory \<times> heap" where
  "open_decoders A it h =
     (case open_stream (oa_video A) (oa_video_decoder A) True h of
        (video, h1) \<Rightarrow>
          (case open_stream (oa_audio A) (oa_audio_decoder A) False h1 of
             (audio, h2) \<Rightarrow>
               (let it' = it\<lparr>im_video := video, im_audio := audio\<rparr>
                in if video = None \<and> audio = None then (False, it', h2)
                   else (True, it', if oa_seeks A then use_pb it' h2 else h2))))"

definition open_demuxer :: "open_answers \<Rightarrow> item_memory \<Rightarrow> heap \<Rightarrow> bool \<times> item_memory \<times> heap" where
  "open_demuxer A it h =
     (case add_input A it h of
        (given, it2, h2) \<Rightarrow>
          if \<not> given then (False, it2, h2)
          else
            (case open_format A it2 h2 of
               (opened, it3, h3) \<Rightarrow>
                 if \<not> opened then (False, it3, h3)
                 else if \<not> oa_info A \<or> (\<not> oa_video A \<and> \<not> oa_audio A) then (False, it3, use_pb it3 h3)
                 else open_decoders A it3 (use_pb it3 h3)))"

definition open_allocated :: "open_answers \<Rightarrow> item_memory \<Rightarrow> heap \<Rightarrow> bool \<times> item_memory \<times> heap" where
  "open_allocated A it h = (if im_format it = None then (False, it, h) else open_demuxer A it h)"

definition openItem_memory :: "open_answers \<Rightarrow> item_memory \<Rightarrow> heap \<Rightarrow> bool \<times> item_memory \<times> heap" where
  "openItem_memory A it h =
     (case alloc Demuxer (oa_format A) h of (format, h1) \<Rightarrow> open_allocated A (it\<lparr>im_format := format\<rparr>) h1)"

text \<open>The destructor, the members after its body included: the input is the last to go.\<close>

definition destroy_frames :: "item_memory \<Rightarrow> heap \<Rightarrow> heap" where
  "destroy_frames it h =
     free Frame (im_i420 it) (free Frame (im_transfer it) (free Frame (im_rotated it) (free Scaler (im_scaler it) h)))"

definition destroy_format :: "item_memory \<Rightarrow> heap \<Rightarrow> heap" where
  "destroy_format it h =
     (if im_format it = None then h
      else free Demuxer (im_format it) (if im_opened it then use_pb it h else h))"

definition destroy_io :: "http_input option \<Rightarrow> heap \<Rightarrow> heap" where
  "destroy_io i h = (case i of None \<Rightarrow> h | Some io \<Rightarrow> destroy_input io h)"

definition destroy_item :: "item_memory \<Rightarrow> heap \<Rightarrow> heap" where
  "destroy_item it h =
     destroy_io (im_io it)
       (destroy_format it (free_decoder (im_video it) (free_decoder (im_audio it) (destroy_frames it h))))"

definition io_objects :: "http_input option \<Rightarrow> (nat \<times> object) multiset" where
  "io_objects i = (case i of None \<Rightarrow> {#} | Some io \<Rightarrow> input_objects io)"

definition frame_objects :: "item_memory \<Rightarrow> (nat \<times> object) multiset" where
  "frame_objects it = at Scaler (im_scaler it) + at Frame (im_i420 it) + at Frame (im_transfer it) + at Frame (im_rotated it)"

definition item_objects :: "item_memory \<Rightarrow> (nat \<times> object) multiset" where
  "item_objects it = io_objects (im_io it) + at Demuxer (im_format it) + codec_objects (im_video it) +
     codec_objects (im_audio it) + frame_objects it"

definition item_ok :: "item_memory \<Rightarrow> bool" where
  "item_ok it \<longleftrightarrow> (\<forall>io. im_io it = Some io \<longrightarrow> input_ok io) \<and> codec_ok (im_video it) \<and> codec_ok (im_audio it) \<and>
     (im_pb it \<noteq> None \<longrightarrow> (\<exists>io. im_io it = Some io \<and> im_pb it = in_context io))"

lemma use_pb_owns:
  assumes "owns outer (io_objects (im_io it) + M) h" "item_ok it"
  shows "use_pb it h = h"
proof (cases "im_pb it")
  case (Some p)
  then obtain io where io: "im_io it = Some io" "in_context io = im_pb it" using assms(2) by (auto simp: item_ok_def)
  then have "owns outer (at Io_context (im_pb it) + (at Http_input (in_inner io) + at Io_buffer (in_buffer io) + M)) h"
    using assms(1) by (simp add: io_objects_def input_objects_def ac_simps)
  from owns_use [OF this] Some show ?thesis by (simp add: use_pb_def)
qed (simp add: use_pb_def)

lemma destroy_frames_owns:
  assumes "owns outer (frame_objects it + M) h"
  shows "owns outer M (destroy_frames it h)"
proof -
  have "owns outer (at Scaler (im_scaler it) + (at Frame (im_rotated it) + (at Frame (im_transfer it) + (at Frame (im_i420 it) + M)))) h"
    using assms by (simp add: frame_objects_def ac_simps)
  from owns_free [OF owns_free [OF owns_free [OF owns_free [OF this]]]] show ?thesis by (simp add: destroy_frames_def)
qed

lemma destroy_item_owns:
  assumes "owns outer (item_objects it + M) h" "item_ok it"
  shows "owns outer M (destroy_item it h)"
proof -
  have "owns outer (frame_objects it + (codec_objects (im_audio it) + (codec_objects (im_video it) +
      (at Demuxer (im_format it) + (io_objects (im_io it) + M))))) h"
    using assms(1) by (simp add: item_objects_def ac_simps)
  then have o: "owns outer (at Demuxer (im_format it) + (io_objects (im_io it) + M))
      (free_decoder (im_video it) (free_decoder (im_audio it) (destroy_frames it h)))" (is "owns _ _ ?h")
    by (intro free_decoder_owns destroy_frames_owns)
  then have "owns outer (io_objects (im_io it) + (at Demuxer (im_format it) + M)) ?h" by (simp add: ac_simps)
  note u = use_pb_owns [OF this assms(2)]
  have "owns outer (io_objects (im_io it) + M) (destroy_format it ?h)"
    using owns_free [OF o] o by (cases "im_format it") (simp_all add: destroy_format_def u)
  with destroy_input_owns assms(2) show ?thesis
    by (cases "im_io it") (auto simp: destroy_item_def destroy_io_def io_objects_def item_ok_def)
qed

lemma add_input_owns:
  assumes o: "owns outer (at Demuxer (im_format it) + M) h" and it: "im_io it = None" "im_pb it = None"
    and a: "add_input A it h = (ok, it', h')"
  shows "owns outer (io_objects (im_io it') + at Demuxer (im_format it') + M) h' \<and>
    (\<exists>io p f. it' = it\<lparr>im_io := io, im_pb := p, im_format := f\<rparr> \<and> (p \<noteq> None \<longrightarrow> (\<exists>i. io = Some i \<and> p = in_context i)) \<and>
       (\<forall>i. io = Some i \<longrightarrow> input_ok i) \<and> (ok \<longrightarrow> f = im_format it))"
proof (cases "oa_progressive A")
  case False
  then have "ok" "it' = it" "h' = h" using a by (simp_all add: add_input_def)
  moreover have "it = it\<lparr>im_io := None, im_pb := None, im_format := im_format it\<rparr>" using it by simp
  ultimately show ?thesis using o it by (intro conjI exI [of _ None] exI [of _ "im_format it"]) (simp_all add: io_objects_def)
next
  case True
  obtain opened io h1 where r: "open_input (oa_input A) input_new h = (opened, io, h1)" by (metis prod_cases3)
  from open_input_owns [OF o r] have o1: "owns outer (input_objects io + (at Demuxer (im_format it) + M)) h1" "input_ok io"
      "opened \<longleftrightarrow> in_context io \<noteq> None" by simp_all
  from o1(1) have o2: "owns outer (at Demuxer (im_format it) + (input_objects io + M)) h1" by (simp add: ac_simps)
  note gone = destroy_input_owns [OF o1(1,2)] destroy_input_owns [OF owns_free [OF o2] o1(2)]
  have k: "it = it\<lparr>im_io := None, im_pb := None, im_format := im_format it\<rparr>" using it by simp
  have a': "(if opened \<and> ra_hls (oa_input A) then (True, it, destroy_input io h1)
             else if in_context io \<noteq> None then (True, it\<lparr>im_io := Some io, im_pb := in_context io\<rparr>, h1)
             else if ra_reopen (oa_input A) = Refused then
               (False, it\<lparr>im_format := None\<rparr>, destroy_input io (free Demuxer (im_format it) h1))
             else (True, it, destroy_input io h1)) = (ok, it', h')"
    using a True r by (simp add: add_input_def)
  consider (plain) "it' = it" "h' = destroy_input io h1"
    | (input) "ok" "it' = it\<lparr>im_io := Some io, im_pb := in_context io\<rparr>" "h' = h1"
    | (refused) "\<not> ok" "it' = it\<lparr>im_format := None\<rparr>" "h' = destroy_input io (free Demuxer (im_format it) h1)"
    using a' by (metis prod.inject)
  then show ?thesis
  proof cases
    case plain
    then show ?thesis using gone(1) k it by (intro conjI exI [of _ None] exI [of _ "im_format it"]) (simp_all add: io_objects_def)
  next
    case input
    moreover have "it\<lparr>im_io := Some io, im_pb := in_context io\<rparr> =
        it\<lparr>im_io := Some io, im_pb := in_context io, im_format := im_format it\<rparr>" by simp
    ultimately show ?thesis using o1
      by (intro conjI exI [of _ "Some io"] exI [of _ "in_context io"] exI [of _ "im_format it"]) (simp_all add: io_objects_def ac_simps)
  next
    case refused
    moreover have "it\<lparr>im_format := None\<rparr> = it\<lparr>im_io := None, im_pb := None, im_format := None\<rparr>" using it by simp
    ultimately show ?thesis using gone(2) it by (intro conjI exI [of _ None] exI [of _ "None"]) (simp_all add: io_objects_def)
  qed
qed

lemma open_format_owns:
  assumes o: "owns outer (io_objects (im_io it) + at Demuxer (im_format it) + M) h" and it: "item_ok it"
    and a: "open_format A it h = (ok, it', h')"
  shows "owns outer (io_objects (im_io it') + at Demuxer (im_format it') + M) h' \<and>
    it' = (if ok then it\<lparr>im_opened := True\<rparr> else it\<lparr>im_format := None\<rparr>)"
proof -
  obtain options h1 where b: "alloc Options True h = (options, h1)" by (metis prod.exhaust)
  note o1 = owns_alloc [OF o b, THEN conjunct1]
  then have "owns outer (io_objects (im_io it) + (at Options options + (at Demuxer (im_format it) + M))) h1" by (simp add: ac_simps)
  from use_pb_owns [OF this it] have u: "use_pb it h1 = h1" .
  from o1 have "owns outer (at Demuxer (im_format it) + (at Options options + (io_objects (im_io it) + M))) h1" by (simp add: ac_simps)
  note f = owns_free [OF owns_free [OF this]]
  from owns_free [OF o1] f show ?thesis using a b u by (auto simp: open_format_def split: if_splits)
qed

lemma open_stream_owns:
  "owns outer M h \<Longrightarrow> open_stream there A allow_hardware h = (d, h') \<Longrightarrow> owns outer (codec_objects d + M) h' \<and> codec_ok d"
  by (auto simp: open_stream_def codec_objects_def codec_ok_def dest: openDecoder_owns split: if_splits)

lemma open_decoders_owns:
  assumes o: "owns outer (io_objects (im_io it) + M) h" and it: "item_ok it" and a: "open_decoders A it h = (ok, it', h')"
  shows "owns outer (io_objects (im_io it) + codec_objects (im_video it') + codec_objects (im_audio it') + M) h' \<and> item_ok it' \<and>
    (\<exists>v d. it' = it\<lparr>im_video := v, im_audio := d\<rparr>)"
proof -
  obtain v h1 where v: "open_stream (oa_video A) (oa_video_decoder A) True h = (v, h1)" by (metis prod.exhaust)
  obtain d h2 where d: "open_stream (oa_audio A) (oa_audio_decoder A) False h1 = (d, h2)" by (metis prod.exhaust)
  let ?it = "it\<lparr>im_video := v, im_audio := d\<rparr>"
  have o1: "owns outer (codec_objects v + (io_objects (im_io it) + M)) h1" "codec_ok v" using open_stream_owns [OF o v] by simp_all
  have o2: "owns outer (codec_objects d + (codec_objects v + (io_objects (im_io it) + M))) h2" "codec_ok d"
    using open_stream_owns [OF o1(1) d] by simp_all
  have ok: "item_ok ?it" using it o1(2) o2(2) by (simp add: item_ok_def)
  have "owns outer (io_objects (im_io ?it) + (codec_objects d + codec_objects v + M)) h2" using o2(1) by (simp add: ac_simps)
  from use_pb_owns [OF this ok] have u: "use_pb ?it h2 = h2" .
  have e: "it' = ?it" "h' = h2" using a v d u by (auto simp: open_decoders_def Let_def split: if_splits)
  have "\<exists>v d. it' = it\<lparr>im_video := v, im_audio := d\<rparr>" using e(1) by blast
  moreover have "owns outer (io_objects (im_io it) + codec_objects (im_video it') + codec_objects (im_audio it') + M) h'"
    using o2(1) by (simp add: e ac_simps)
  moreover have "item_ok it'" using ok by (simp only: e(1))
  ultimately show ?thesis by blast
qed

text \<open>Whatever \<open>openItem\<close> comes to, the item owns what it allocated.\<close>

lemma openItem_owns:
  assumes o: "owns outer M h" and a: "openItem_memory A item_new h = (ok, it, h')"
  shows "owns outer (item_objects it + M) h' \<and> item_ok it \<and> frame_objects it = {#} \<and> (ok \<longrightarrow> im_format it \<noteq> None)"
proof -
  obtain format h1 where f: "alloc Demuxer (oa_format A) h = (format, h1)" by (metis prod.exhaust)
  let ?it1 = "item_new\<lparr>im_format := format\<rparr>"
  have o1: "owns outer (at Demuxer (im_format ?it1) + M) h1" using owns_alloc [OF o f] by simp
  have new: "item_ok item_new" "item_ok ?it1" by (simp_all add: item_ok_def item_new_def codec_ok_def)
  obtain ok2 it2 h2 where i: "add_input A ?it1 h1 = (ok2, it2, h2)" by (metis prod_cases3)
  have "im_io ?it1 = None" "im_pb ?it1 = None" by (simp_all add: item_new_def)
  from add_input_owns [OF o1 this i]
  obtain io p fm where o2: "owns outer (io_objects (im_io it2) + at Demuxer (im_format it2) + M) h2"
      and it2: "it2 = ?it1\<lparr>im_io := io, im_pb := p, im_format := fm\<rparr>"
      and p: "p \<noteq> None \<longrightarrow> (\<exists>i. io = Some i \<and> p = in_context i)" "\<forall>i. io = Some i \<longrightarrow> input_ok i" "ok2 \<longrightarrow> fm = format" by force
  have ok2: "item_ok it2" using p by (simp add: it2 item_ok_def codec_ok_def item_new_def)
  obtain ok3 it3 h3 where r: "open_format A it2 h2 = (ok3, it3, h3)" by (metis prod_cases3)
  from open_format_owns [OF o2 ok2 r]
  have o3: "owns outer (io_objects (im_io it3) + at Demuxer (im_format it3) + M) h3"
      and it3: "it3 = (if ok3 then it2\<lparr>im_opened := True\<rparr> else it2\<lparr>im_format := None\<rparr>)" by blast+
  have ok3: "item_ok it3" using ok2 by (simp add: it3 item_ok_def)
  have "owns outer (io_objects (im_io it3) + (at Demuxer (im_format it3) + M)) h3" using o3 by (simp add: ac_simps)
  note u = use_pb_owns [OF this ok3]
  obtain ok4 it4 h4 where d: "open_decoders A it3 h3 = (ok4, it4, h4)" by (metis prod_cases3)
  have "owns outer (io_objects (im_io it3) + (at Demuxer (im_format it3) + M)) h3" using o3 by (simp add: ac_simps)
  from open_decoders_owns [OF this ok3 d] obtain v w where
      o4: "owns outer (io_objects (im_io it3) + codec_objects (im_video it4) + codec_objects (im_audio it4) + (at Demuxer (im_format it3) + M)) h4"
      and ok4: "item_ok it4" and it4: "it4 = it3\<lparr>im_video := v, im_audio := w\<rparr>" by blast
  note objects = item_objects_def frame_objects_def io_objects_def codec_objects_def item_new_def
  have c1: "owns outer (item_objects ?it1 + M) h1" using o1 by (simp add: objects)
  have c2: "owns outer (item_objects it2 + M) h2" using o2 by (simp add: it2 objects)
  have c3: "owns outer (item_objects it3 + M) h3" using o3 by (simp add: it3 it2 objects split: if_splits)
  have c4: "owns outer (item_objects it4 + M) h4" using o4 by (simp add: it4 it3 it2 objects ac_simps split: if_splits)
  have fr: "frame_objects it2 = {#}" "frame_objects it3 = {#}" "frame_objects it4 = {#}" "frame_objects ?it1 = {#}"
    by (simp_all add: it2 it3 it4 frame_objects_def item_new_def)
  show ?thesis
    using a f i r d u c1 c2 c3 c4 ok2 ok3 ok4 new fr p(3) it2 it3 it4
    by (cases format) (auto simp: openItem_memory_def open_allocated_def open_demuxer_def split: if_splits bool.splits)
qed

section \<open>While the item plays\<close>

text \<open>
  The objects of the worker (\<open>packet\<close>, \<open>decoded\<close>, and the resampler and the layout of its \<open>AudioConversion\<close>),
  the queued frames, the frame the presenter took (\<open>queued.frame\<close>) and the pixel buffer it holds locked
  (the \<open>LockedPixelBuffer\<close> of \<open>emitVideo\<close>). A layout is an object of its own only when it lists its channels.
\<close>

record playing =
  py_item :: item_memory
  py_heap :: heap
  py_packet :: ptr
  py_decoded :: ptr
  py_queue :: "nat list"
  py_has :: ptr
  py_locked :: ptr
  py_resampler :: ptr
  py_layout :: ptr

record buffer_answers =
  ba_packet :: bool
  ba_decoded :: bool
  ba_i420 :: bool
  ba_transfer :: bool
  ba_rotated :: bool

text \<open>The allocations at the start of \<open>playItem\<close>, and whether all of them went well.\<close>

definition begin_playing :: "buffer_answers \<Rightarrow> item_memory \<Rightarrow> heap \<Rightarrow> bool \<times> playing" where
  "begin_playing B it h =
     (case alloc Packet (ba_packet B) h of
        (packet, h1) \<Rightarrow>
          (case alloc Frame (ba_decoded B) h1 of
             (decoded, h2) \<Rightarrow>
               (case alloc Frame (ba_i420 B) h2 of
                  (i420, h3) \<Rightarrow>
                    (case alloc Frame (ba_transfer B) h3 of
                       (transfer, h4) \<Rightarrow>
                         (case alloc Frame (ba_rotated B) h4 of
                            (rotated, h5) \<Rightarrow>
                              (packet \<noteq> None \<and> decoded \<noteq> None \<and> i420 \<noteq> None \<and> transfer \<noteq> None \<and> rotated \<noteq> None,
                               \<lparr>py_item = it\<lparr>im_i420 := i420, im_transfer := transfer, im_rotated := rotated\<rparr>,
                                py_heap = h5, py_packet = packet, py_decoded = decoded, py_queue = [],
                                py_has = None, py_locked = None, py_resampler = None, py_layout = None\<rparr>))))))"

text \<open>
  \<open>LockedPixelBuffer::lock\<close> comes to a lock, to none (no 8-bit NV12 buffer, or locking failed), or unlocks
  again as a plane has no address.
\<close>

datatype lock_answer = Lock_held | Lock_refused | Lock_no_planes

record emit_answers =
  ea_hardware :: bool
  ea_lock :: lock_answer
  ea_transfer :: bool
  ea_convert :: bool
  ea_same :: bool
  ea_scaler :: bool
  ea_i420 :: bool
  ea_turn :: bool
  ea_rotated :: bool

definition unlock :: "playing \<Rightarrow> playing" where
  "unlock p = p\<lparr>py_heap := free Locked (py_locked p) (py_heap p), py_locked := None\<rparr>"

definition lock_buffer :: "lock_answer \<Rightarrow> playing \<Rightarrow> playing" where
  "lock_buffer l p =
     (case l of
        Lock_refused \<Rightarrow> p
      | Lock_held \<Rightarrow> (case alloc Locked True (py_heap p) of (locked, h) \<Rightarrow> p\<lparr>py_locked := locked, py_heap := h\<rparr>)
      | Lock_no_planes \<Rightarrow>
          (case alloc Locked True (py_heap p) of (locked, h) \<Rightarrow> unlock (p\<lparr>py_locked := locked, py_heap := h\<rparr>)))"

text \<open>\<open>convertToI420\<close>: the cached scaler is kept, or freed and another one made.\<close>

definition cached_scaler :: "emit_answers \<Rightarrow> ptr \<Rightarrow> heap \<Rightarrow> ptr \<times> heap" where
  "cached_scaler E scaler h =
     (if scaler \<noteq> None \<and> ea_same E then (scaler, h) else alloc Scaler (ea_scaler E) (free Scaler scaler h))"

definition convert_memory :: "emit_answers \<Rightarrow> playing \<Rightarrow> bool \<times> playing" where
  "convert_memory E p =
     (if \<not> ea_convert E then (True, p)
      else
        (case cached_scaler E (im_scaler (py_item p)) (py_heap p) of
           (scaler, h) \<Rightarrow>
             (let q = p\<lparr>py_item := (py_item p)\<lparr>im_scaler := scaler\<rparr>, py_heap := h\<rparr>
              in if scaler = None then (False, q)
                 else (ea_i420 E, q\<lparr>py_heap := use Frame (im_i420 (py_item p)) h\<rparr>))))"

text \<open>\<open>rotateUpright\<close>, after which the buffer is unlocked.\<close>

definition turn_memory :: "emit_answers \<Rightarrow> playing \<Rightarrow> playing" where
  "turn_memory E p =
     (if \<not> ea_turn E then p
      else
        (let q = p\<lparr>py_heap := use Frame (im_rotated (py_item p)) (py_heap p)\<rparr>
         in if ea_rotated E then unlock q else q))"

definition convert_and_turn :: "emit_answers \<Rightarrow> playing \<Rightarrow> playing" where
  "convert_and_turn E p = (case convert_memory E p of (ok, q) \<Rightarrow> if ok then turn_memory E q else q)"

text \<open>A surface whose buffer was not locked is copied out.\<close>

definition copy_surface :: "emit_answers \<Rightarrow> playing \<Rightarrow> bool \<times> playing" where
  "copy_surface E p =
     (if ea_hardware E \<and> py_locked p = None
      then (ea_transfer E, p\<lparr>py_heap := use Frame (im_transfer (py_item p)) (py_heap p)\<rparr>) else (True, p))"

definition emit_memory :: "emit_answers \<Rightarrow> playing \<Rightarrow> playing" where
  "emit_memory E p =
     (case copy_surface E (if ea_hardware E then lock_buffer (ea_lock E) p else p) of
        (ok, q) \<Rightarrow> if ok then convert_and_turn E q else q)"

text \<open>\<open>emitVideo\<close> has returned (its buffer is unlocked by the destructor): the presenter frees its frame.\<close>

definition frame_done :: "playing \<Rightarrow> playing" where
  "frame_done p =
     (let q = unlock p in q\<lparr>py_heap := free Frame (py_has q) (py_heap q), py_has := None\<rparr>)"

definition take_queued :: "playing \<Rightarrow> playing" where
  "take_queued p = (case py_queue p of [] \<Rightarrow> p | a # as \<Rightarrow> p\<lparr>py_queue := as, py_has := Some a\<rparr>)"

text \<open>\<open>clearVideoQueue\<close>, and \<open>queueVideoFrame\<close>: the copy is queued, or freed when a stop or a seek is pending.\<close>

fun free_frames :: "nat list \<Rightarrow> heap \<Rightarrow> heap" where
  "free_frames [] h = h"
| "free_frames (a # as) h = free_frames as (free Frame (Some a) h)"

definition clear_frames :: "playing \<Rightarrow> playing" where
  "clear_frames p = p\<lparr>py_heap := free_frames (py_queue p) (py_heap p), py_queue := []\<rparr>"

definition queue_copy :: "bool \<Rightarrow> bool \<Rightarrow> playing \<Rightarrow> playing" where
  "queue_copy cloned given_up p =
     (case alloc Frame cloned (use Frame (py_decoded p) (py_heap p)) of
        (None, h) \<Rightarrow> p\<lparr>py_heap := h\<rparr>
      | (Some a, h) \<Rightarrow>
          if given_up then p\<lparr>py_heap := free Frame (Some a) h\<rparr> else p\<lparr>py_heap := h, py_queue := py_queue p @ [a]\<rparr>)"

text \<open>The decoder that continues in software.\<close>

definition software_decoder :: "codec_answers \<Rightarrow> playing \<Rightarrow> playing" where
  "software_decoder A p =
     (case openDecoder_memory A False (free_decoder (im_video (py_item p)) (py_heap p)) of
        (d, h) \<Rightarrow> p\<lparr>py_item := (py_item p)\<lparr>im_video := d\<rparr>, py_heap := h\<rparr>)"

text \<open>A packet goes to a decoder and a frame comes out of it.\<close>

definition decode_packet :: "open_codec option \<Rightarrow> playing \<Rightarrow> playing" where
  "decode_packet d p =
     (case d of
        None \<Rightarrow> p
      | Some c \<Rightarrow> p\<lparr>py_heap := use Frame (py_decoded p) (use Decoder (co_context c) (use Packet (py_packet p) (py_heap p)))\<rparr>)"

definition with_input :: "(http_input \<Rightarrow> heap \<Rightarrow> http_input \<times> heap) \<Rightarrow> playing \<Rightarrow> playing" where
  "with_input f p =
     (case im_io (py_item p) of
        None \<Rightarrow> p
      | Some io \<Rightarrow> (case f io (py_heap p) of (io', h) \<Rightarrow> p\<lparr>py_item := (py_item p)\<lparr>im_io := Some io'\<rparr>, py_heap := h\<rparr>))"

definition read_packet :: "playing \<Rightarrow> playing" where
  "read_packet p = p\<lparr>py_heap := use Packet (py_packet p) (use_pb (py_item p) (use Demuxer (im_format (py_item p)) (py_heap p)))\<rparr>"

text \<open>
  \<open>AudioConversion::reset\<close>, and \<open>emitAudio\<close>: a frame that is not handed on as decoded needs a converter, the one
  that is kept or a new one. \<open>sa_listed\<close> is a layout that lists its channels, which is copied.
\<close>

record sound_answers =
  sa_as_decoded :: bool
  sa_same :: bool
  sa_listed :: bool
  sa_copied :: bool
  sa_made :: bool
  sa_init :: bool

definition reset_sound :: "playing \<Rightarrow> playing" where
  "reset_sound p =
     p\<lparr>py_heap := free Channel_map (py_layout p) (free Resampler (py_resampler p) (py_heap p)),
       py_resampler := None, py_layout := None\<rparr>"

definition copy_layout :: "sound_answers \<Rightarrow> playing \<Rightarrow> bool \<times> playing" where
  "copy_layout S p =
     (if \<not> sa_listed S then (True, p)
      else (case alloc Channel_map (sa_copied S) (py_heap p) of
              (l, h) \<Rightarrow> (l \<noteq> None, p\<lparr>py_layout := l, py_heap := h\<rparr>)))"

definition make_converter :: "sound_answers \<Rightarrow> playing \<Rightarrow> playing" where
  "make_converter S p =
     (case copy_layout S (reset_sound p) of
        (copied, q) \<Rightarrow>
          if \<not> copied then q
          else
            (case alloc Resampler (sa_made S) (py_heap q) of
               (None, h) \<Rightarrow> q\<lparr>py_heap := h\<rparr>
             | (Some a, h) \<Rightarrow>
                 if sa_init S then q\<lparr>py_resampler := Some a, py_heap := h\<rparr>
                 else q\<lparr>py_heap := free Resampler (Some a) h\<rparr>))"

definition convert_sound_memory :: "playing \<Rightarrow> playing" where
  "convert_sound_memory p =
     (if py_resampler p = None then p
      else p\<lparr>py_heap := use Frame (py_decoded p) (use Resampler (py_resampler p) (py_heap p))\<rparr>)"

definition sound_memory :: "sound_answers \<Rightarrow> playing \<Rightarrow> playing" where
  "sound_memory S p =
     (let q = p\<lparr>py_heap := use Frame (py_decoded p) (py_heap p)\<rparr>
      in if sa_as_decoded S then q
         else convert_sound_memory (if py_resampler q \<noteq> None \<and> sa_same S then q else make_converter S q))"

section \<open>The steps of the worker and the presenter\<close>

datatype memory_event =
    M_read
  | M_reopen reopen_result
  | M_close_input
  | M_decode_video
  | M_decode_audio
  | M_queue bool bool
  | M_clear
  | M_software codec_answers
  | M_take
  | M_emit emit_answers
  | M_done
  | M_sound sound_answers
  | M_reset_sound

fun memory_do :: "playing \<Rightarrow> memory_event \<Rightarrow> playing" where
  "memory_do p M_read = read_packet p"
| "memory_do p (M_reopen r) = with_input (reopen_input r) p"
| "memory_do p M_close_input = with_input close_input p"
| "memory_do p M_decode_video = decode_packet (im_video (py_item p)) p"
| "memory_do p M_decode_audio = decode_packet (im_audio (py_item p)) p"
| "memory_do p (M_queue cloned given_up) = queue_copy cloned given_up p"
| "memory_do p M_clear = clear_frames p"
| "memory_do p (M_software A) = software_decoder A p"
| "memory_do p M_take = take_queued p"
| "memory_do p (M_emit E) = emit_memory E p"
| "memory_do p M_done = frame_done p"
| "memory_do p (M_sound S) = sound_memory S p"
| "memory_do p M_reset_sound = reset_sound p"

text \<open>
  The presenter takes a frame when it has none and emits one it has; it locks a buffer once for a frame.
\<close>

fun memory_enabled :: "playing \<Rightarrow> memory_event \<Rightarrow> bool" where
  "memory_enabled p M_take = (py_queue p \<noteq> [] \<and> py_has p = None)"
| "memory_enabled p (M_emit E) = (py_has p \<noteq> None \<and> py_locked p = None)"
| "memory_enabled p M_done = (py_has p \<noteq> None)"
| "memory_enabled p e = True"

definition memory_step :: "playing \<Rightarrow> memory_event \<Rightarrow> playing option" where
  "memory_step p e = (if memory_enabled p e then Some (memory_do p e) else None)"

abbreviation memory_run :: "playing \<Rightarrow> memory_event list \<Rightarrow> playing option" where
  "memory_run \<equiv> guarded_run memory_step"

text \<open>
  The end of \<open>playItem\<close> (the presenter is joined, which puts down its frame first; then the conversion is
  destroyed), and then the item's destructor.
\<close>

definition free_playing :: "playing \<Rightarrow> heap" where
  "free_playing p =
     (let q = reset_sound (p\<lparr>py_heap := free Packet (py_packet p) (free Frame (py_decoded p) (py_heap p))\<rparr>)
      in destroy_item (py_item q) (py_heap q))"

definition finish_playing :: "playing \<Rightarrow> heap" where
  "finish_playing p = free_playing (clear_frames (frame_done p))"

text \<open>An item from \<open>openItem\<close> to its destructor, as \<open>run\<close> has it; none if a step is not one that can be taken.\<close>

definition play_life :: "memory_event list \<Rightarrow> bool \<Rightarrow> playing \<Rightarrow> heap option" where
  "play_life es ok p = (if \<not> ok then Some (finish_playing p) else map_option finish_playing (memory_run p es))"

definition opened_life :: "buffer_answers \<Rightarrow> memory_event list \<Rightarrow> bool \<Rightarrow> item_memory \<Rightarrow> heap \<Rightarrow> heap option" where
  "opened_life B es opened it h =
     (if \<not> opened then Some (destroy_item it h) else (case begin_playing B it h of (ok, p) \<Rightarrow> play_life es ok p))"

definition item_life :: "open_answers \<Rightarrow> buffer_answers \<Rightarrow> memory_event list \<Rightarrow> heap \<Rightarrow> heap option" where
  "item_life A B es h = (case openItem_memory A item_new h of (opened, it, h1) \<Rightarrow> opened_life B es opened it h1)"

section \<open>Everything is accounted for\<close>

definition frames_of :: "nat list \<Rightarrow> (nat \<times> object) multiset" where
  "frames_of as = image_mset (\<lambda>a. (a, Frame)) (mset as)"

definition playing_objects :: "playing \<Rightarrow> (nat \<times> object) multiset" where
  "playing_objects p = item_objects (py_item p) + at Packet (py_packet p) + at Frame (py_decoded p) + frames_of (py_queue p) +
     at Frame (py_has p) + at Locked (py_locked p) + at Resampler (py_resampler p) + at Channel_map (py_layout p)"

definition buffers_ready :: "playing \<Rightarrow> bool" where
  "buffers_ready p \<longleftrightarrow> py_packet p \<noteq> None \<and> py_decoded p \<noteq> None \<and> im_i420 (py_item p) \<noteq> None \<and> im_transfer (py_item p) \<noteq> None \<and>
     im_rotated (py_item p) \<noteq> None \<and> im_format (py_item p) \<noteq> None"

definition playing_ok :: "(nat \<times> object) multiset \<Rightarrow> playing \<Rightarrow> bool" where
  "playing_ok outer p \<longleftrightarrow> owns outer (playing_objects p) (py_heap p) \<and> item_ok (py_item p)"

lemma frames_of_simps [simp]: "frames_of [] = {#}" "frames_of (a # as) = at Frame (Some a) + frames_of as"
    "frames_of (as @ bs) = frames_of as + frames_of bs"
  by (simp_all add: frames_of_def)

lemma free_frames_owns: "owns outer (frames_of as + M) h \<Longrightarrow> owns outer M (free_frames as h)"
proof (induction as arbitrary: h)
  case (Cons a as)
  then have "owns outer (at Frame (Some a) + (frames_of as + M)) h" by (simp add: ac_simps)
  from owns_free [OF this] show ?case by (simp add: Cons.IH)
qed simp

text \<open>An object that is owned can be used, and what else is owned can be brought to the front.\<close>

lemma use_owned:
  assumes "owns outer N h" "at k p \<subseteq># N" "p \<noteq> None"
  shows "use k p h = h"
proof -
  obtain M where "N = at k p + M" using assms(2) by (metis mset_subset_eq_exists_conv)
  then show ?thesis using owns_use [of outer k p M h] assms(1,3) by simp
qed

lemma free_owned:
  assumes "owns outer N h" "N = at k p + M"
  shows "owns outer M (free k p h)"
  using owns_free assms by simp

lemma playing_parts:
  "at Packet (py_packet p) \<subseteq># playing_objects p" "at Frame (py_decoded p) \<subseteq># playing_objects p"
  "at Frame (im_i420 (py_item p)) \<subseteq># playing_objects p" "at Frame (im_transfer (py_item p)) \<subseteq># playing_objects p"
  "at Frame (im_rotated (py_item p)) \<subseteq># playing_objects p" "at Demuxer (im_format (py_item p)) \<subseteq># playing_objects p"
  by (simp_all add: playing_objects_def item_objects_def frame_objects_def subset_mset.add_increasing subset_mset.add_increasing2)

lemma use_ready:
  assumes "playing_ok outer p" "buffers_ready p"
  shows "use Packet (py_packet p) (py_heap p) = py_heap p" "use Frame (py_decoded p) (py_heap p) = py_heap p"
    "use Frame (im_i420 (py_item p)) (py_heap p) = py_heap p" "use Frame (im_transfer (py_item p)) (py_heap p) = py_heap p"
    "use Frame (im_rotated (py_item p)) (py_heap p) = py_heap p" "use Demuxer (im_format (py_item p)) (py_heap p) = py_heap p"
  using assms by (auto simp: playing_ok_def buffers_ready_def intro!: use_owned playing_parts)

lemma begin_playing_ok:
  assumes o: "owns outer (item_objects it) h" and it: "item_ok it" "frame_objects it = {#}" and b: "begin_playing B it h = (ok, p)"
  shows "playing_ok outer p \<and> (ok \<and> im_format it \<noteq> None \<longrightarrow> buffers_ready p)"
proof -
  obtain packet h1 where 1: "alloc Packet (ba_packet B) h = (packet, h1)" by (metis prod.exhaust)
  obtain decoded h2 where 2: "alloc Frame (ba_decoded B) h1 = (decoded, h2)" by (metis prod.exhaust)
  obtain i420 h3 where 3: "alloc Frame (ba_i420 B) h2 = (i420, h3)" by (metis prod.exhaust)
  obtain transfer h4 where 4: "alloc Frame (ba_transfer B) h3 = (transfer, h4)" by (metis prod.exhaust)
  obtain rotated h5 where 5: "alloc Frame (ba_rotated B) h4 = (rotated, h5)" by (metis prod.exhaust)
  note o5 = owns_alloc [OF owns_alloc [OF owns_alloc [OF owns_alloc [OF owns_alloc [OF o 1, THEN conjunct1] 2, THEN conjunct1]
    3, THEN conjunct1] 4, THEN conjunct1] 5, THEN conjunct1]
  have "im_scaler it = None" using it(2) by (cases "im_scaler it") (simp_all add: frame_objects_def)
  then have "playing_objects p = at Frame rotated + (at Frame transfer + (at Frame i420 + (at Frame decoded + (at Packet packet + item_objects it))))"
    using b 1 2 3 4 5 it(2) by (auto simp: begin_playing_def playing_objects_def item_objects_def frame_objects_def ac_simps)
  moreover have "py_heap p = h5" "item_ok (py_item p)" using b 1 2 3 4 5 it(1) by (auto simp: begin_playing_def item_ok_def)
  ultimately have "playing_ok outer p" using o5 by (simp add: playing_ok_def)
  moreover have "ok \<and> im_format it \<noteq> None \<longrightarrow> buffers_ready p" using b 1 2 3 4 5 by (auto simp: begin_playing_def buffers_ready_def)
  ultimately show ?thesis ..
qed

lemma unlock_ok:
  assumes "playing_ok outer p" shows "playing_ok outer (unlock p)"
proof -
  have "owns outer (playing_objects (unlock p)) (free Locked (py_locked p) (py_heap p))"
    by (rule free_owned [of outer "playing_objects p"])
      (use assms in \<open>simp_all add: playing_ok_def playing_objects_def unlock_def ac_simps\<close>)
  then show ?thesis using assms by (simp add: playing_ok_def unlock_def)
qed

lemma lock_buffer_ok:
  assumes p: "playing_ok outer p" "py_locked p = None" shows "playing_ok outer (lock_buffer l p)"
proof -
  obtain locked h where a: "alloc Locked True (py_heap p) = (locked, h)" by (metis prod.exhaust)
  have "owns outer (at Locked locked + playing_objects p) h"
    using owns_alloc [OF _ a] p(1) by (simp add: playing_ok_def)
  moreover have "playing_objects (p\<lparr>py_locked := locked, py_heap := h\<rparr>) = at Locked locked + playing_objects p"
    using p(2) by (simp add: playing_objects_def ac_simps)
  ultimately have "playing_ok outer (p\<lparr>py_locked := locked, py_heap := h\<rparr>)" using p(1) by (simp add: playing_ok_def)
  with unlock_ok p(1) a show ?thesis by (cases l) (simp_all add: lock_buffer_def)
qed

lemma convert_memory_ok:
  assumes p: "playing_ok outer p" "buffers_ready p" and c: "convert_memory E p = (ok, q)"
  shows "playing_ok outer q \<and> buffers_ready q \<and> py_locked q = py_locked p"
proof (cases "ea_convert E")
  case False
  then show ?thesis using p c by (simp add: convert_memory_def)
next
  case True
  obtain scaler h where s: "cached_scaler E (im_scaler (py_item p)) (py_heap p) = (scaler, h)" by (metis prod.exhaust)
  define M where "M = playing_objects (p\<lparr>py_item := (py_item p)\<lparr>im_scaler := None\<rparr>\<rparr>)"
  have M: "playing_objects (p\<lparr>py_item := (py_item p)\<lparr>im_scaler := x\<rparr>, py_heap := y\<rparr>) = at Scaler x + M" for x y
    by (simp add: M_def playing_objects_def item_objects_def frame_objects_def ac_simps)
  have "playing_objects p = at Scaler (im_scaler (py_item p)) + M"
    by (simp add: M_def playing_objects_def item_objects_def frame_objects_def ac_simps)
  then have o: "owns outer (at Scaler (im_scaler (py_item p)) + M) (py_heap p)" using p(1) by (simp add: playing_ok_def)
  have h: "owns outer (at Scaler scaler + M) h"
  proof (cases "im_scaler (py_item p) \<noteq> None \<and> ea_same E")
    case False
    then have "alloc Scaler (ea_scaler E) (free Scaler (im_scaler (py_item p)) (py_heap p)) = (scaler, h)"
      using s by (auto simp: cached_scaler_def)
    from owns_alloc [OF owns_free [OF o] this] show ?thesis by blast
  qed (use s o in \<open>simp add: cached_scaler_def\<close>)
  let ?q = "p\<lparr>py_item := (py_item p)\<lparr>im_scaler := scaler\<rparr>, py_heap := h\<rparr>"
  have q: "playing_ok outer ?q" "buffers_ready ?q"
    using h M p by (auto simp: playing_ok_def item_ok_def buffers_ready_def)
  have "use Frame (im_i420 (py_item ?q)) (py_heap ?q) = py_heap ?q" by (rule use_ready(3) [OF q])
  then show ?thesis
    using c True s q by (auto simp: convert_memory_def Let_def split: if_splits)
qed

lemma turn_memory_ok:
  assumes "playing_ok outer p" "buffers_ready p"
  shows "playing_ok outer (turn_memory E p)"
proof -
  have "use Frame (im_rotated (py_item p)) (py_heap p) = py_heap p" by (rule use_ready(5) [OF assms])
  then show ?thesis using assms unlock_ok by (simp add: turn_memory_def Let_def)
qed

lemma emit_memory_ok:
  assumes p: "playing_ok outer p" "buffers_ready p" "py_locked p = None"
  shows "playing_ok outer (emit_memory E p)"
proof -
  define p1 where "p1 = (if ea_hardware E then lock_buffer (ea_lock E) p else p)"
  have r: "buffers_ready (lock_buffer l p)" for l using p(2) by (cases l) (simp_all add: lock_buffer_def unlock_def buffers_ready_def split_beta)
  have p1: "playing_ok outer p1" "buffers_ready p1" using lock_buffer_ok [OF p(1,3)] p r by (simp_all add: p1_def)
  have "p1\<lparr>py_heap := use Frame (im_transfer (py_item p1)) (py_heap p1)\<rparr> = p1" by (simp add: use_ready(4) [OF p1])
  then have e: "emit_memory E p = (if ea_hardware E \<and> py_locked p1 = None \<and> \<not> ea_transfer E then p1 else convert_and_turn E p1)"
    unfolding emit_memory_def p1_def [symmetric] copy_surface_def by simp
  obtain ok p3 where c: "convert_memory E p1 = (ok, p3)" by (metis prod.exhaust)
  have "playing_ok outer p3" "buffers_ready p3" using convert_memory_ok [OF p1 c] by simp_all
  then show ?thesis using turn_memory_ok p1(1) unfolding e by (simp add: convert_and_turn_def c)
qed

lemma frame_done_ok:
  assumes "playing_ok outer p" shows "playing_ok outer (frame_done p)"
proof -
  let ?q = "unlock p"
  have q: "playing_ok outer ?q" by (rule unlock_ok [OF assms])
  have "owns outer (playing_objects (frame_done p)) (free Frame (py_has ?q) (py_heap ?q))"
    by (rule free_owned [of outer "playing_objects ?q"])
      (use q in \<open>simp_all add: playing_ok_def playing_objects_def frame_done_def Let_def ac_simps\<close>)
  then show ?thesis using q by (simp add: playing_ok_def frame_done_def Let_def)
qed

lemma clear_queue_ok:
  assumes "playing_ok outer p" shows "playing_ok outer (clear_frames p)"
proof -
  have "owns outer (frames_of (py_queue p) + playing_objects (p\<lparr>py_queue := []\<rparr>)) (py_heap p)"
    using assms by (simp add: playing_ok_def playing_objects_def ac_simps)
  from free_frames_owns [OF this] show ?thesis
    using assms by (simp add: playing_ok_def clear_frames_def playing_objects_def)
qed

lemma take_queued_ok:
  assumes "playing_ok outer p" "py_has p = None" shows "playing_ok outer (take_queued p)"
  using assms by (cases "py_queue p") (simp_all add: take_queued_def playing_ok_def playing_objects_def ac_simps)

lemma queue_copy_ok:
  assumes p: "playing_ok outer p" "buffers_ready p" shows "playing_ok outer (queue_copy cloned given_up p)"
proof -
  obtain copy h where a: "alloc Frame cloned (py_heap p) = (copy, h)" by (metis prod.exhaust)
  have o: "owns outer (at Frame copy + playing_objects p) h"
    using owns_alloc [OF _ a] p(1) by (simp add: playing_ok_def)
  show ?thesis
  proof (cases copy)
    case None
    then show ?thesis using o p a by (simp add: queue_copy_def use_ready(2) [OF p] playing_ok_def playing_objects_def)
  next
    case (Some b)
    have "playing_ok outer (p\<lparr>py_heap := free Frame (Some b) h\<rparr>)"
      using owns_free [OF o] p(1) Some by (simp add: playing_ok_def playing_objects_def)
    moreover have "playing_ok outer (p\<lparr>py_heap := h, py_queue := py_queue p @ [b]\<rparr>)"
      using o p(1) Some by (simp add: playing_ok_def playing_objects_def ac_simps)
    ultimately show ?thesis using a Some by (simp add: queue_copy_def use_ready(2) [OF p])
  qed
qed

lemma software_decoder_ok:
  assumes p: "playing_ok outer p" shows "playing_ok outer (software_decoder A p)"
proof -
  define M where "M = playing_objects (p\<lparr>py_item := (py_item p)\<lparr>im_video := None\<rparr>\<rparr>)"
  have M: "playing_objects (p\<lparr>py_item := (py_item p)\<lparr>im_video := d\<rparr>, py_heap := h\<rparr>) = codec_objects d + M" for d h
    by (simp add: M_def playing_objects_def item_objects_def frame_objects_def codec_objects_def ac_simps)
  have "playing_objects p = codec_objects (im_video (py_item p)) + M"
    by (simp add: M_def playing_objects_def item_objects_def frame_objects_def codec_objects_def ac_simps)
  then have "owns outer (codec_objects (im_video (py_item p)) + M) (py_heap p)" using p by (simp add: playing_ok_def)
  note o = free_decoder_owns [OF this]
  obtain d h where d: "openDecoder_memory A False (free_decoder (im_video (py_item p)) (py_heap p)) = (d, h)" by (metis prod.exhaust)
  from openDecoder_owns [OF o d] p show ?thesis
    by (simp add: software_decoder_def d playing_ok_def M item_ok_def)
qed

text \<open>The converter of the sound.\<close>

lemma playing_sound:
  "playing_objects (p\<lparr>py_resampler := r, py_layout := l, py_heap := h\<rparr>) =
     at Resampler r + (at Channel_map l + playing_objects (p\<lparr>py_resampler := None, py_layout := None\<rparr>))"
  by (simp add: playing_objects_def ac_simps)

lemma playing_sound_same:
  "playing_objects p =
     at Resampler (py_resampler p) + (at Channel_map (py_layout p) + playing_objects (p\<lparr>py_resampler := None, py_layout := None\<rparr>))"
  by (simp add: playing_objects_def ac_simps)

lemma reset_sound_ok:
  assumes p: "playing_ok outer p" shows "playing_ok outer (reset_sound p)"
proof -
  have "owns outer (at Resampler (py_resampler p) +
      (at Channel_map (py_layout p) + playing_objects (p\<lparr>py_resampler := None, py_layout := None\<rparr>))) (py_heap p)"
    using p playing_sound_same [of p] by (simp add: playing_ok_def)
  from owns_free [OF owns_free [OF this]] show ?thesis
    using p by (simp add: playing_ok_def reset_sound_def playing_objects_def)
qed

lemma copy_layout_ok:
  assumes p: "playing_ok outer p" "py_layout p = None" and c: "copy_layout S p = (ok, q)"
  shows "playing_ok outer q \<and> py_resampler q = py_resampler p"
proof -
  obtain l h where a: "alloc Channel_map (sa_copied S) (py_heap p) = (l, h)" by (metis prod.exhaust)
  have "owns outer (at Channel_map l + playing_objects p) h" using owns_alloc [OF _ a] p(1) by (simp add: playing_ok_def)
  then have "playing_ok outer (p\<lparr>py_layout := l, py_heap := h\<rparr>)"
    using p by (simp add: playing_ok_def playing_objects_def ac_simps)
  with p c a show ?thesis by (auto simp: copy_layout_def split: if_splits)
qed

lemma make_converter_ok:
  assumes p: "playing_ok outer p" shows "playing_ok outer (make_converter S p)"
proof -
  obtain copied q where c: "copy_layout S (reset_sound p) = (copied, q)" by (metis prod.exhaust)
  have "py_layout (reset_sound p) = None" "py_resampler (reset_sound p) = None" by (simp_all add: reset_sound_def)
  with copy_layout_ok [OF reset_sound_ok [OF p] _ c] have q: "playing_ok outer q" "py_resampler q = None" by simp_all
  obtain r h where a: "alloc Resampler (sa_made S) (py_heap q) = (r, h)" by (metis prod.exhaust)
  have o: "owns outer (at Resampler r + playing_objects q) h" using owns_alloc [OF _ a] q(1) by (simp add: playing_ok_def)
  have "playing_ok outer (q\<lparr>py_heap := free Resampler r h\<rparr>)" "playing_ok outer (q\<lparr>py_resampler := r, py_heap := h\<rparr>)"
    using owns_free [OF o] o q by (simp_all add: playing_ok_def playing_objects_def ac_simps)
  moreover have "r = None \<Longrightarrow> free Resampler r h = h" by (simp add: free_def)
  ultimately show ?thesis using q(1) by (cases r) (simp_all add: make_converter_def c a)
qed

lemma ready_heap [simp]: "buffers_ready (p\<lparr>py_heap := h\<rparr>) = buffers_ready p"
  by (simp add: buffers_ready_def)

lemma ready_converter: "buffers_ready (reset_sound p) = buffers_ready p" "buffers_ready (make_converter S p) = buffers_ready p"
  by (simp_all add: reset_sound_def make_converter_def copy_layout_def buffers_ready_def split_beta split: option.split)

lemma convert_sound_same:
  assumes p: "playing_ok outer p" "buffers_ready p" shows "convert_sound_memory p = p"
proof (cases "py_resampler p")
  case (Some a)
  have "at Resampler (py_resampler p) \<subseteq># playing_objects p"
    by (simp add: playing_objects_def subset_mset.add_increasing subset_mset.add_increasing2)
  then have "use Resampler (py_resampler p) (py_heap p) = py_heap p"
    using p(1) Some by (auto simp: playing_ok_def intro!: use_owned)
  then show ?thesis by (simp add: convert_sound_memory_def use_ready(2) [OF p])
qed (simp add: convert_sound_memory_def)

lemma sound_memory_ok:
  assumes p: "playing_ok outer p" "buffers_ready p" shows "playing_ok outer (sound_memory S p) \<and> buffers_ready (sound_memory S p)"
proof -
  have m: "playing_ok outer (make_converter S p)" "buffers_ready (make_converter S p)"
    using p make_converter_ok by (simp_all add: ready_converter)
  show ?thesis using p m
    by (simp add: sound_memory_def Let_def use_ready(2) [OF p] convert_sound_same [OF p] convert_sound_same [OF m])
qed

lemma decoder_parts:
  "im_video (py_item p) = Some c \<Longrightarrow> at Decoder (co_context c) \<subseteq># playing_objects p"
  "im_audio (py_item p) = Some c \<Longrightarrow> at Decoder (co_context c) \<subseteq># playing_objects p"
  by (simp_all add: playing_objects_def item_objects_def codec_objects_def subset_mset.add_increasing subset_mset.add_increasing2)

lemma decode_packet_same:
  assumes p: "playing_ok outer p" "buffers_ready p" and d: "d = im_video (py_item p) \<or> d = im_audio (py_item p)"
  shows "decode_packet d p = p"
proof (cases d)
  case (Some c)
  have "at Decoder (co_context c) \<subseteq># playing_objects p" "co_context c \<noteq> None"
    using decoder_parts d Some p(1) by (auto simp: playing_ok_def item_ok_def codec_ok_def split: option.splits)
  then have "use Decoder (co_context c) (py_heap p) = py_heap p" using p(1) by (auto simp: playing_ok_def intro: use_owned)
  then show ?thesis using Some by (simp add: decode_packet_def use_ready [OF p])
qed (simp add: decode_packet_def)

lemma read_packet_same:
  assumes p: "playing_ok outer p" "buffers_ready p" shows "read_packet p = p"
proof -
  have "owns outer (io_objects (im_io (py_item p)) + (playing_objects p - io_objects (im_io (py_item p)))) (py_heap p)"
    using p(1) by (simp add: playing_ok_def playing_objects_def item_objects_def ac_simps)
  from use_pb_owns [OF this] p(1) have "use_pb (py_item p) (py_heap p) = py_heap p" by (simp add: playing_ok_def)
  then show ?thesis by (simp add: read_packet_def use_ready [OF p])
qed

lemma with_input_ok:
  assumes p: "playing_ok outer p"
    and f: "\<And>io M h io' h'. owns outer (input_objects io + M) h \<Longrightarrow> f io h = (io', h') \<Longrightarrow>
      owns outer (input_objects io' + M) h' \<and> in_context io' = in_context io \<and> in_buffer io' = in_buffer io"
  shows "playing_ok outer (with_input f p)"
proof (cases "im_io (py_item p)")
  case None
  then show ?thesis using p by (simp add: with_input_def)
next
  case (Some io)
  define M where "M = playing_objects (p\<lparr>py_item := (py_item p)\<lparr>im_io := None\<rparr>\<rparr>)"
  have M: "playing_objects (p\<lparr>py_item := (py_item p)\<lparr>im_io := Some x\<rparr>, py_heap := h\<rparr>) = input_objects x + M" for x h
    by (simp add: M_def playing_objects_def item_objects_def frame_objects_def io_objects_def ac_simps)
  have "playing_objects p = input_objects io + M"
    using Some by (simp add: M_def playing_objects_def item_objects_def frame_objects_def io_objects_def ac_simps)
  then have o: "owns outer (input_objects io + M) (py_heap p)" using p by (simp add: playing_ok_def)
  obtain io' h where r: "f io (py_heap p) = (io', h)" by (metis prod.exhaust)
  from f [OF o r] show ?thesis
    using p Some by (auto simp: with_input_def r playing_ok_def M item_ok_def input_ok_def)
qed

lemma close_input_owns:
  assumes "owns outer (input_objects io + M) h" "close_input io h = (io', h')"
  shows "owns outer (input_objects io' + M) h' \<and> in_context io' = in_context io \<and> in_buffer io' = in_buffer io"
proof -
  have "owns outer (at Http_input (in_inner io) + (at Io_context (in_context io) + at Io_buffer (in_buffer io) + M)) h"
    using assms(1) by (simp add: input_objects_def ac_simps)
  from owns_free [OF this] show ?thesis using assms(2) by (auto simp: close_input_def input_objects_def ac_simps)
qed

lemma memory_do_ok:
  assumes p: "playing_ok outer p" "buffers_ready p" and e: "memory_enabled p e"
  shows "playing_ok outer (memory_do p e)"
proof (cases e)
  case (M_reopen r)
  show ?thesis unfolding M_reopen memory_do.simps by (rule with_input_ok [OF p(1)]) (rule reopen_input_owns)
next
  case M_close_input
  show ?thesis unfolding M_close_input memory_do.simps by (rule with_input_ok [OF p(1)]) (rule close_input_owns)
qed (use p e in \<open>simp_all add: read_packet_same decode_packet_same queue_copy_ok clear_queue_ok software_decoder_ok
      take_queued_ok emit_memory_ok frame_done_ok sound_memory_ok reset_sound_ok\<close>)

lemma ready_steps:
  "buffers_ready (unlock p) = buffers_ready p" "buffers_ready (take_queued p) = buffers_ready p" "buffers_ready (frame_done p) = buffers_ready p"
  "buffers_ready (clear_frames p) = buffers_ready p" "buffers_ready (queue_copy cloned given_up p) = buffers_ready p"
  by (simp_all add: unlock_def take_queued_def frame_done_def clear_frames_def queue_copy_def buffers_ready_def Let_def split_beta
      split: list.split option.split)

lemma ready_more_steps:
  "buffers_ready (read_packet p) = buffers_ready p" "buffers_ready (decode_packet d p) = buffers_ready p" "buffers_ready (software_decoder A p) = buffers_ready p"
  "buffers_ready (with_input f p) = buffers_ready p"
  by (simp_all add: read_packet_def decode_packet_def software_decoder_def with_input_def buffers_ready_def split_beta split: option.split)

lemma ready_emit_steps:
  "buffers_ready (lock_buffer l p) = buffers_ready p" "buffers_ready (turn_memory E p) = buffers_ready p" "buffers_ready (snd (convert_memory E p)) = buffers_ready p"
  by (simp_all add: lock_buffer_def turn_memory_def convert_memory_def ready_steps Let_def split_beta split: lock_answer.split)
    (simp_all add: buffers_ready_def)

lemma memory_do_ready: "playing_ok outer p \<Longrightarrow> buffers_ready p \<Longrightarrow> buffers_ready (memory_do p e)"
  by (cases e) (simp_all add: sound_memory_ok ready_converter ready_steps ready_more_steps emit_memory_def copy_surface_def convert_and_turn_def split_beta ready_emit_steps)

interpretation item_playing: guarded_machine memory_step "\<lambda>e. True" "\<lambda>p. playing_ok outer p \<and> buffers_ready p" for outer
proof
  fix p q e
  assume "playing_ok outer p \<and> buffers_ready p" "memory_step p e = Some q"
  then show "playing_ok outer q \<and> buffers_ready q"
    using memory_do_ok [of outer p e] memory_do_ready [of outer p e] by (auto simp: memory_step_def split: if_splits)
qed

lemma finish_playing_owns:
  assumes "playing_ok outer p"
  shows "owns outer {#} (finish_playing p)"
proof -
  let ?q = "clear_frames (frame_done p)"
  let ?h = "free Packet (py_packet ?q) (free Frame (py_decoded ?q) (py_heap ?q))"
  let ?r = "reset_sound (?q\<lparr>py_heap := ?h\<rparr>)"
  have q: "playing_ok outer ?q" by (intro clear_queue_ok frame_done_ok assms)
  have "playing_objects ?q = at Frame (py_decoded ?q) + (at Packet (py_packet ?q) + (at Resampler (py_resampler ?q) +
      (at Channel_map (py_layout ?q) + (item_objects (py_item ?q) + {#}))))"
    by (simp add: playing_objects_def clear_frames_def frame_done_def unlock_def Let_def ac_simps)
  then have "owns outer (at Frame (py_decoded ?q) + (at Packet (py_packet ?q) + (at Resampler (py_resampler ?q) +
      (at Channel_map (py_layout ?q) + (item_objects (py_item ?q) + {#}))))) (py_heap ?q)"
    using q by (simp add: playing_ok_def)
  from owns_free [OF owns_free [OF owns_free [OF owns_free [OF this]]]]
  have "owns outer (item_objects (py_item ?r) + {#}) (py_heap ?r)" by (simp add: reset_sound_def)
  moreover have "item_ok (py_item ?r)" using q by (simp add: playing_ok_def reset_sound_def)
  ultimately have "owns outer {#} (destroy_item (py_item ?r) (py_heap ?r))" by (rule destroy_item_owns)
  then show ?thesis by (simp add: finish_playing_def free_playing_def Let_def)
qed

text \<open>
  C9. An item frees what it allocates. Whatever FFmpeg answers when an item is opened and whatever the
  worker and the presenter do while it plays, in any order, and whenever it is stopped: when the item is
  over, the objects that are live are those that were before, and nothing was freed twice, freed as
  something else or used after it was freed (nor was a null pointer used), the input included that the
  demuxer reads from until it is closed, the pixel buffers locked for OBS, the converters of the sound
  and the decoder that is replaced by one in software.
\<close>

theorem items_free_what_they_allocate:
  assumes "heap_ok h" "item_life A B es h = Some h'"
  shows "mset (h_live h') = mset (h_live h) \<and> \<not> h_fault h'"
proof -
  let ?outer = "mset (h_live h)"
  obtain ok it h1 where i: "openItem_memory A item_new h = (ok, it, h1)" by (metis prod_cases3)
  have o: "owns ?outer (item_objects it) h1" "item_ok it" "frame_objects it = {#}" "ok \<longrightarrow> im_format it \<noteq> None"
    using openItem_owns [OF owns_start [OF assms(1)] i] by simp_all
  obtain ok' p where b: "begin_playing B it h1 = (ok', p)" by (metis prod.exhaust)
  have p: "playing_ok ?outer p" "ok' \<and> ok \<longrightarrow> buffers_ready p" using begin_playing_ok [OF o(1-3) b] o(4) by auto
  have l: "(if \<not> ok then Some (destroy_item it h1)
      else if \<not> ok' then Some (finish_playing p) else map_option finish_playing (memory_run p es)) = Some h'"
    using assms(2) by (simp add: item_life_def opened_life_def play_life_def i b split: if_splits)
  then consider "h' = destroy_item it h1" | "h' = finish_playing p"
    | q where "ok" "ok'" "memory_run p es = Some q" "h' = finish_playing q"
    by (auto split: if_splits)
  then have "owns ?outer {#} h'"
  proof cases
    case 1
    then show ?thesis using destroy_item_owns [of ?outer it "{#}" h1] o by simp
  next
    case 2
    then show ?thesis using finish_playing_owns p(1) by simp
  next
    case 3
    then show ?thesis using finish_playing_owns item_playing.run_inv [of p es q ?outer] p by (simp add: list_all_iff)
  qed
  then show ?thesis by (rule owns_end)
qed

text \<open>For an example: a progressive item with a hardware decoder that is given up while it plays.\<close>

definition heap_new :: heap where
  "heap_new = \<lparr>h_next = 0, h_live = [], h_fault = False\<rparr>"

definition hardware_codec :: codec_answers where
  "hardware_codec = \<lparr>da_found = True, da_context = True, da_parameters = True, da_video = True, da_requested = True,
     da_device = True, da_open = True\<rparr>"

definition clip_answers :: open_answers where
  "clip_answers = \<lparr>oa_format = True, oa_progressive = True,
     oa_input = \<lparr>ra_reopen = Opened, ra_sized = True, ra_buffer = True, ra_context = True, ra_hls = False\<rparr>,
     oa_open = True, oa_info = True, oa_video = True, oa_audio = True, oa_video_decoder = hardware_codec,
     oa_audio_decoder = hardware_codec\<lparr>da_video := False\<rparr>, oa_seeks = True\<rparr>"

definition clip_emit :: emit_answers where
  "clip_emit = \<lparr>ea_hardware = True, ea_lock = Lock_held, ea_transfer = True, ea_convert = False, ea_same = False,
     ea_scaler = True, ea_i420 = True, ea_turn = False, ea_rotated = True\<rparr>"

definition clip_sound :: sound_answers where
  "clip_sound = \<lparr>sa_as_decoded = False, sa_same = True, sa_listed = True, sa_copied = True, sa_made = True, sa_init = True\<rparr>"

definition clip_life :: "memory_event list" where
  "clip_life = [M_read, M_decode_video, M_queue True False, M_take, M_queue True False, M_emit clip_emit, M_reopen Failed,
     M_decode_audio, M_sound clip_sound, M_sound clip_sound, M_reset_sound, M_sound (clip_sound\<lparr>sa_init := False\<rparr>), M_sound clip_sound,
     M_software (hardware_codec\<lparr>da_open := False\<rparr>), M_queue True True, M_done, M_take,
     M_emit (clip_emit\<lparr>ea_lock := Lock_refused, ea_convert := True, ea_turn := True\<rparr>), M_reopen Opened, M_read]"


lemma clip_life_result:
  "case item_life clip_answers \<lparr>ba_packet = True, ba_decoded = True, ba_i420 = True, ba_transfer = True, ba_rotated = True\<rparr> clip_life heap_new of
     None \<Rightarrow> False | Some h \<Rightarrow> h_next h = 29"
  by code_simp

lemma items_free_what_they_allocate_witness:
  "\<exists>h. item_life clip_answers \<lparr>ba_packet = True, ba_decoded = True, ba_i420 = True, ba_transfer = True, ba_rotated = True\<rparr> clip_life heap_new = Some h \<and>
     h_next h = 29 \<and> h_live h = [] \<and> \<not> h_fault h"
proof -
  obtain h where h: "item_life clip_answers \<lparr>ba_packet = True, ba_decoded = True, ba_i420 = True, ba_transfer = True, ba_rotated = True\<rparr> clip_life heap_new = Some h"
      "h_next h = 29"
    using clip_life_result by (auto split: option.splits)
  from items_free_what_they_allocate [OF _ h(1)] h show ?thesis by (simp add: heap_new_def heap_ok_def)
qed

end
