(* ===== verification/Receiver_Player.thy ===== *)
theory Receiver_Player
  imports Uxplay_Session Player_Threads Guarded_Machine
begin

text \<open>
  The receiver session of \<^verbatim>\<open>src/uxplay-integration.cpp\<close> and the media player of \<^verbatim>\<open>src/media-player.cpp\<close>
  put together: the calls that the handlers of \<open>Uxplay_Session\<close> make on \<open>m_media_player\<close> are carried
  out, one after the other, on the threads of \<open>Player_Threads\<close>, while the worker and the presenter go on
  with their own steps. A call to \<open>stop()\<close> or \<open>play()\<close> holds \<open>m_control_mutex\<close> for several stretches of
  code, between which the threads move; \<open>seek()\<close> and \<open>setRate()\<close> are one stretch, except that a scrub
  after the end of an item goes on to \<open>play()\<close>. Handlers may come while the calls of earlier ones are
  still waiting, and the members of the session change at once; the calls are carried out in the order
  they were made.
\<close>

section \<open>The state\<close>

text \<open>
  \<open>rc_waiting\<close> are the calls that have been made and not begun, \<open>rc_doing\<close> the stretches left of the
  call being carried out. \<open>rc_shown\<close> says that the source shows a picture of an item: it is set by the
  presenter's pictures and taken back by a reset that clears the output.
\<close>

record receiver_player =
  rc_session :: airplay_session
  rc_waiting :: "c_double call list"
  rc_doing :: "player_event list"
  rc_threads :: threads
  rc_shown :: bool

definition receiver_player_new :: "airplay_session \<Rightarrow> receiver_player" where
  "receiver_player_new s = \<lparr>rc_session = s, rc_waiting = [], rc_doing = [], rc_threads = threads_new, rc_shown = False\<rparr>"

section \<open>The calls\<close>

text \<open>\<open>stopLocked\<close>: the request, and what follows when the worker has been joined.\<close>

definition stopLocked :: "player_event list" where
  "stopLocked = [Cmd_request_stop, Cmd_finish_stop]"

text \<open>\<open>play\<close>; \<open>starts\<close> says whether the worker's thread could be made.\<close>

definition play :: "string \<Rightarrow> c_double \<Rightarrow> rat \<Rightarrow> int \<Rightarrow> bool \<Rightarrow> player_event list" where
  "play location start_position initial_rate now starts =
     stopLocked @ [Cmd_play location start_position initial_rate now, Cmd_start_worker starts]"

definition carry_seek :: "c_double \<Rightarrow> int \<Rightarrow> bool \<Rightarrow> receiver_player \<Rightarrow> receiver_player" where
  "carry_seek p now starts c =
     (case seek p now (pl (rc_threads c)) of
        Seek_ignored \<Rightarrow> c
      | Seek_done s \<Rightarrow> c\<lparr>rc_threads := perform (rc_threads c) (Cmd_seek p now)\<rparr>
      | Seek_reopens restart_location target \<Rightarrow> c\<lparr>rc_doing := play restart_location (Finite target) 0 now starts\<rparr>)"

text \<open>
  A call is begun. Of the other calls only the reset concerns the picture of an item; what the rest
  do is in \<open>Airplay_Server\<close> and \<open>Plugin_Settings\<close>.
\<close>

fun begin_call :: "int \<Rightarrow> bool \<Rightarrow> c_double call \<Rightarrow> receiver_player \<Rightarrow> receiver_player" where
  "begin_call now starts Player_stop c = c\<lparr>rc_doing := stopLocked\<rparr>"
| "begin_call now starts (Player_play location start_position) c =
     c\<lparr>rc_doing := play location start_position 1 now starts\<rparr>"
| "begin_call now starts (Player_seek p) c = carry_seek p now starts c"
| "begin_call now starts (Player_set_rate r) c = c\<lparr>rc_threads := perform (rc_threads c) (Cmd_rate r now)\<rparr>"
| "begin_call now starts (Conn_reset clear_picture flush_decoders) c = c\<lparr>rc_shown := (rc_shown c \<and> \<not> clear_picture)\<rparr>"
| "begin_call now starts _ c = c"

section \<open>The steps\<close>

text \<open>Commands come from the session only; the removal of a playlist and the follow flag are no calls of it.\<close>

fun from_session :: "player_event \<Rightarrow> bool" where
  "from_session (Cmd_play location p r now) = True"
| "from_session Cmd_request_stop = True"
| "from_session Cmd_finish_stop = True"
| "from_session (Cmd_start_worker starts) = True"
| "from_session (Cmd_seek p now) = True"
| "from_session (Cmd_rate r now) = True"
| "from_session _ = False"

datatype receiver_event = Sender "c_double session_event" | Begins_call int bool | Goes_on | Own player_event

definition sender_step :: "c_double session_event \<Rightarrow> receiver_player \<Rightarrow> receiver_player" where
  "sender_step e c =
     (case session_step (rc_session c) e of (s, calls) \<Rightarrow> c\<lparr>rc_session := s, rc_waiting := rc_waiting c @ calls\<rparr>)"

definition own_step :: "player_event \<Rightarrow> receiver_player \<Rightarrow> receiver_player" where
  "own_step e c =
     (let t = perform (rc_threads c) e
      in c\<lparr>rc_threads := t, rc_shown := (rc_shown c \<or> pictures t \<noteq> pictures (rc_threads c))\<rparr>)"

fun receiver_step :: "receiver_player \<Rightarrow> receiver_event \<Rightarrow> receiver_player option" where
  "receiver_step c (Sender e) = Some (sender_step e c)"
| "receiver_step c (Begins_call now starts) =
     (case (rc_doing c, rc_waiting c) of
        ([], call # calls) \<Rightarrow> Some (begin_call now starts call (c\<lparr>rc_waiting := calls\<rparr>))
      | _ \<Rightarrow> None)"
| "receiver_step c Goes_on =
     (case rc_doing c of
        [] \<Rightarrow> None
      | e # es \<Rightarrow> if enabled (rc_threads c) e then Some (c\<lparr>rc_doing := es, rc_threads := perform (rc_threads c) e\<rparr>) else None)"
| "receiver_step c (Own e) =
     (if \<not> from_session e \<and> enabled (rc_threads c) e then Some (own_step e c) else None)"

abbreviation receiver_run :: "receiver_player \<Rightarrow> receiver_event list \<Rightarrow> receiver_player option" where
  "receiver_run \<equiv> guarded_run receiver_step"

text \<open>Nothing is being carried out and nothing waits.\<close>

definition idle :: "receiver_player \<Rightarrow> bool" where
  "idle c \<longleftrightarrow> rc_waiting c = [] \<and> rc_doing c = []"

section \<open>The player is driven as it allows\<close>

lemma call_reach:
  assumes "player_reach (rc_threads c)"
  shows "player_reach (rc_threads (begin_call now starts call c))"
proof -
  have "player_reach (perform (rc_threads c) (Cmd_rate r now))" "player_reach (perform (rc_threads c) (Cmd_seek p now))" for r p
    by (rule player_reach.step [OF assms], simp)+
  then show ?thesis
    using assms by (cases call) (auto simp: carry_seek_def simp del: perform.simps split: seek_outcome.split)
qed

lemma step_reach:
  assumes "receiver_step c e = Some d" "player_reach (rc_threads c)"
  shows "player_reach (rc_threads d)"
  using assms
  by (cases e) (auto simp: sender_step_def own_step_def Let_def split_beta intro: player_reach.step call_reach
      split: list.splits if_splits)

interpretation receiver_threads: guarded_machine receiver_step "\<lambda>e. True" "\<lambda>c. player_reach (rc_threads c)"
  by unfold_locales (rule step_reach)

lemma step_session:
  assumes "receiver_step c e = Some d"
  shows "rc_session d = (case e of Sender x \<Rightarrow> fst (session_step (rc_session c) x) | _ \<Rightarrow> rc_session c)"
proof -
  have "rc_session (begin_call now starts call x) = rc_session x" for now starts call x
    by (cases call) (auto simp: carry_seek_def split: seek_outcome.split)
  then show ?thesis
    using assms by (cases e) (auto simp: sender_step_def own_step_def Let_def split_beta split: list.splits if_splits)
qed

section \<open>The worker runs for an active item only\<close>

text \<open>
  Whether the worker may run once the stretches in hand and the calls that wait are carried out; a
  scrub may start it again.
\<close>

fun after_stretches :: "bool \<Rightarrow> player_event list \<Rightarrow> bool" where
  "after_stretches runs [] = runs"
| "after_stretches runs (Cmd_finish_stop # es) = after_stretches False es"
| "after_stretches runs (Cmd_start_worker starts # es) = after_stretches starts es"
| "after_stretches runs (_ # es) = after_stretches runs es"

fun after_calls :: "bool \<Rightarrow> c_double call list \<Rightarrow> bool" where
  "after_calls runs [] = runs"
| "after_calls runs (Player_stop # calls) = after_calls False calls"
| "after_calls runs (Player_play location start # calls) = after_calls True calls"
| "after_calls runs (Player_seek p # calls) = after_calls True calls"
| "after_calls runs (_ # calls) = after_calls runs calls"

definition may_run :: "receiver_player \<Rightarrow> bool" where
  "may_run c = after_calls (after_stretches (worker_runs (rc_threads c)) (rc_doing c)) (rc_waiting c)"

lemma after_mono:
  "after_stretches False es \<Longrightarrow> after_stretches b es"
  by (induction b es rule: after_stretches.induct) (auto split: if_splits)

lemma after_calls_mono:
  "after_calls False calls \<Longrightarrow> after_calls b calls"
  by (induction b calls rule: after_calls.induct) (auto split: if_splits)

lemma after_calls_append: "after_calls b (calls @ calls') = after_calls (after_calls b calls) calls'"
  by (induction b calls rule: after_calls.induct) auto

text \<open>
  A sender can scrub when there is no item, and the player may then open its last item again. Whether
  such a scrub is still in force after some events: no call that stops the player or plays an item has
  been made since.
\<close>

fun stops_player :: "c_double call \<Rightarrow> bool" where
  "stops_player Player_stop = True"
| "stops_player (Player_play location start) = True"
| "stops_player _ = False"

definition stray_next :: "airplay_session \<Rightarrow> c_double session_event \<Rightarrow> bool \<Rightarrow> bool" where
  "stray_next s e stray =
     (case e of
        Scrub p \<Rightarrow> stray \<or> \<not> m_media_active s
      | _ \<Rightarrow> stray \<and> list_all (\<lambda>call. \<not> stops_player call) (snd (session_step s e)))"

fun stray_scrub :: "airplay_session \<Rightarrow> bool \<Rightarrow> receiver_event list \<Rightarrow> bool" where
  "stray_scrub s stray [] = stray"
| "stray_scrub s stray (Sender e # es) = stray_scrub (fst (session_step s e)) (stray_next s e stray) es"
| "stray_scrub s stray (_ # es) = stray_scrub s stray es"

text \<open>The worker runs after a handler's calls only if an item is active then, or a stray scrub started it.\<close>

lemma session_calls:
  assumes "session_step s e = (s', calls)" "b \<longrightarrow> m_media_active s \<or> stray" "after_calls b calls"
  shows "m_media_active s' \<or> stray_next s e stray"
  using assms by (cases e) (auto simp: stray_next_def session_actions session_handlers split: if_splits option.splits)

lemma worker_runs_perform:
  "worker_runs (perform t e) = (case e of Cmd_start_worker starts \<Rightarrow> starts | W_exits \<Rightarrow> False | _ \<Rightarrow> worker_runs t)"
  by (cases e) (auto simp: Let_def take_frame_def begin_frame_def check_frame_def coarse_frame_def show_frame_def
      show_picture_def queueVideoFrame_def clearVideoQueue_def take_pending_seek_def
      split: presenter.splits prod.splits turn.splits list.splits option.splits seek_outcome.splits)

lemma stretch_keeps:
  "enabled t e \<Longrightarrow> after_stretches (worker_runs (perform t e)) es \<Longrightarrow> after_stretches (worker_runs t) (e # es)"
  by (cases e) (auto simp: worker_runs_perform intro: after_mono simp del: perform.simps)

lemma own_keeps:
  "\<not> from_session e \<Longrightarrow> worker_runs (perform t e) \<Longrightarrow> worker_runs t"
  by (cases e) (auto simp: worker_runs_perform simp del: perform.simps)

lemma after_weaken:
  "after_stretches b es \<Longrightarrow> (b \<longrightarrow> b') \<Longrightarrow> after_stretches b' es"
  "after_calls b calls \<Longrightarrow> (b \<longrightarrow> b') \<Longrightarrow> after_calls b' calls"
  by (cases b; cases b'; auto dest: after_mono after_calls_mono)+

lemma call_keeps:
  assumes "after_calls (after_stretches (worker_runs (rc_threads d)) (rc_doing d)) calls"
    and "d = begin_call now starts call c" "rc_doing c = []"
  shows "after_calls (worker_runs (rc_threads c)) (call # calls)"
  using assms
  by (cases call)
    (auto simp: carry_seek_def play_def stopLocked_def worker_runs_perform intro: after_weaken(2)
      simp del: perform.simps split: seek_outcome.splits)

lemma begin_call_waiting [simp]: "rc_waiting (begin_call now starts call c) = rc_waiting c"
  by (cases call) (auto simp: carry_seek_def split: seek_outcome.split)

lemma step_may_run:
  assumes "receiver_step c e = Some d" "\<forall>x. e \<noteq> Sender x" "may_run d"
  shows "may_run c"
proof (cases e)
  case (Begins_call now starts)
  then obtain call calls where c: "rc_doing c = []" "rc_waiting c = call # calls"
      "d = begin_call now starts call (c\<lparr>rc_waiting := calls\<rparr>)"
    using assms(1) by (auto split: list.splits)
  then show ?thesis
    using call_keeps [OF _ c(3), of calls] assms(3) by (simp add: may_run_def)
next
  case Goes_on
  then obtain e' es where c: "rc_doing c = e' # es" "enabled (rc_threads c) e'"
      "d = c\<lparr>rc_doing := es, rc_threads := perform (rc_threads c) e'\<rparr>"
    using assms(1) by (auto split: list.splits if_splits)
  show ?thesis
    using assms(3) stretch_keeps [OF c(2)] c by (auto simp: may_run_def simp del: perform.simps elim!: after_weaken(2))
next
  case (Own e')
  then have e': "\<not> from_session e'" and d: "d = own_step e' c" using assms(1) by (auto split: if_splits)
  have w: "worker_runs (perform (rc_threads c) e') \<longrightarrow> worker_runs (rc_threads c)" using own_keeps [OF e'] by blast
  show ?thesis
    using assms(3) after_weaken(2) [OF _ impI [OF after_weaken(1) [OF _ w]]]
    by (simp add: may_run_def d own_step_def Let_def del: perform.simps)
qed (use assms in simp)

lemma step_runs:
  assumes "receiver_step c e = Some d" "may_run c \<longrightarrow> m_media_active (rc_session c) \<or> stray" "may_run d"
  shows "m_media_active (rc_session d) \<or> (case e of Sender x \<Rightarrow> stray_next (rc_session c) x stray | _ \<Rightarrow> stray)"
proof (cases "\<exists>x. e = Sender x")
  case True
  then obtain x s calls where x: "e = Sender x" "session_step (rc_session c) x = (s, calls)" by (metis prod.exhaust)
  have d: "d = c\<lparr>rc_session := s, rc_waiting := rc_waiting c @ calls\<rparr>" using assms(1) x by (simp add: sender_step_def)
  have "after_calls (may_run c) calls" using assms(3) by (simp add: may_run_def d after_calls_append)
  from session_calls [OF x(2) assms(2) this] show ?thesis by (simp add: d x(1))
next
  case False
  then have "rc_session d = rc_session c" using step_session [OF assms(1)] by (auto split: receiver_event.splits)
  then show ?thesis using step_may_run [OF assms(1) _ assms(3)] False assms(2) by (cases e) auto
qed

lemma run_runs:
  "receiver_run c es = Some d \<Longrightarrow> (may_run c \<longrightarrow> m_media_active (rc_session c) \<or> stray) \<Longrightarrow> may_run d \<Longrightarrow>
     m_media_active (rc_session d) \<or> stray_scrub (rc_session c) stray es"
proof (induction es arbitrary: c stray)
  case (Cons e es)
  then obtain x where x: "receiver_step c e = Some x" "receiver_run x es = Some d" by (auto split: option.splits)
  let ?stray = "case e of Sender y \<Rightarrow> stray_next (rc_session c) y stray | _ \<Rightarrow> stray"
  have "m_media_active (rc_session d) \<or> stray_scrub (rc_session x) ?stray es"
    by (rule Cons.IH [OF x(2) _ Cons.prems(3)]) (use step_runs [OF x(1) Cons.prems(2)] in blast)
  then show ?case using step_session [OF x(1)] by (cases e) simp_all
qed simp

text \<open>Without a stray scrub the worker runs, or is going to, for an active item only.\<close>

lemma runs_for_item:
  assumes "receiver_run (receiver_player_new s) es = Some c" "\<not> stray_scrub s False es" "may_run c"
  shows "m_media_active (rc_session c)"
  using run_runs [OF assms(1), of False] assms(2,3)
  by (simp add: receiver_player_new_def may_run_def threads_new_def)

section \<open>Pictures come from the worker's item\<close>

lemma picture_needs_worker:
  "enabled t e \<Longrightarrow> pictures (perform t e) \<noteq> pictures t \<Longrightarrow> worker_runs t"
  by (cases e) (auto simp: Let_def take_frame_def begin_frame_def check_frame_def coarse_frame_def show_frame_def
      queueVideoFrame_def clearVideoQueue_def take_pending_seek_def
      split: presenter.splits prod.splits turn.splits list.splits option.splits seek_outcome.splits)

text \<open>
  No item is played and none is going to be: the worker does not run, what is being carried out is a
  stop, and no call that waits starts it.
\<close>

fun stops :: "player_event \<Rightarrow> bool" where
  "stops Cmd_request_stop = True"
| "stops Cmd_finish_stop = True"
| "stops _ = False"

fun starts_nothing :: "c_double call \<Rightarrow> bool" where
  "starts_nothing (Player_play location start) = False"
| "starts_nothing (Player_seek p) = False"
| "starts_nothing _ = True"

definition quiet :: "receiver_player \<Rightarrow> bool" where
  "quiet c \<longleftrightarrow> \<not> m_media_active (rc_session c) \<and> \<not> worker_runs (rc_threads c) \<and> list_all stops (rc_doing c) \<and>
     list_all starts_nothing (rc_waiting c)"

fun wants_item :: "receiver_event \<Rightarrow> bool" where
  "wants_item (Sender (Play moment location start)) = True"
| "wants_item (Sender (Scrub p)) = True"
| "wants_item e = False"

lemma session_wants_nothing:
  assumes "session_step s e = (s', calls)" "\<not> wants_item (Sender e)" "\<not> m_media_active s"
  shows "\<not> m_media_active s' \<and> list_all starts_nothing calls"
  using assms by (cases e) (auto simp: session_actions session_handlers split: if_splits option.splits)

lemma sender_quiet:
  assumes "\<not> wants_item (Sender e)" "\<not> m_media_active (rc_session c)"
  obtains calls s where "sender_step e c = c\<lparr>rc_session := s, rc_waiting := rc_waiting c @ calls\<rparr>"
    "\<not> m_media_active s" "list_all starts_nothing calls"
proof -
  obtain s calls where x: "session_step (rc_session c) e = (s, calls)" by (metis prod.exhaust)
  from session_wants_nothing [OF x assms] show ?thesis
    by (intro that) (auto simp: sender_step_def x)
qed

lemma call_quiet:
  assumes "starts_nothing call" "quiet c" "rc_doing c = []"
  shows "quiet (begin_call now starts call c) \<and> pictures (rc_threads (begin_call now starts call c)) = pictures (rc_threads c) \<and>
    (rc_shown (begin_call now starts call c) \<longrightarrow> rc_shown c)"
  using assms by (cases call) (auto simp: quiet_def stopLocked_def)

lemma step_quiet:
  assumes "receiver_step c e = Some d" "\<not> wants_item e" "quiet c"
  shows "quiet d \<and> pictures (rc_threads d) = pictures (rc_threads c) \<and> (rc_shown d \<longrightarrow> rc_shown c)"
proof (cases e)
  case (Sender x)
  then obtain calls s where "d = c\<lparr>rc_session := s, rc_waiting := rc_waiting c @ calls\<rparr>" "\<not> m_media_active s" "list_all starts_nothing calls"
    using sender_quiet [of x c] assms by (auto simp: quiet_def)
  then show ?thesis using assms(3) by (simp add: quiet_def)
next
  case (Begins_call now starts)
  then obtain call calls where c: "rc_doing c = []" "rc_waiting c = call # calls"
      "d = begin_call now starts call (c\<lparr>rc_waiting := calls\<rparr>)"
    using assms(1) by (auto split: list.splits)
  then show ?thesis using call_quiet [of call "c\<lparr>rc_waiting := calls\<rparr>" now starts] assms(3) by (simp add: quiet_def)
next
  case Goes_on
  then obtain e' es where c: "rc_doing c = e' # es" "d = c\<lparr>rc_doing := es, rc_threads := perform (rc_threads c) e'\<rparr>"
    using assms(1) by (auto split: list.splits if_splits)
  with assms(3) have "stops e'" by (simp add: quiet_def)
  with c assms(3) show ?thesis by (cases e') (simp_all add: quiet_def)
next
  case (Own e')
  then have e': "\<not> from_session e'" "enabled (rc_threads c) e'" "d = own_step e' c" using assms(1) by (auto split: if_splits)
  have w: "\<not> worker_runs (rc_threads c)" using assms(3) by (simp add: quiet_def)
  with picture_needs_worker [OF e'(2)] own_keeps [OF e'(1), of "rc_threads c"] assms(3) show ?thesis
    by (auto simp: quiet_def e'(3) own_step_def Let_def simp del: perform.simps)
qed

interpretation receiver_quiet: guarded_machine receiver_step "\<lambda>e. \<not> wants_item e"
    "\<lambda>c. quiet c \<and> pictures (rc_threads c) = ps \<and> (rc_shown c \<longrightarrow> shown)" for ps shown
  by unfold_locales (use step_quiet in blast)

lemma idle_is_quiet:
  assumes "may_run c \<longrightarrow> m_media_active (rc_session c)" "idle c" "\<not> m_media_active (rc_session c)"
  shows "quiet c"
  using assms by (simp add: quiet_def idle_def may_run_def)

section \<open>A clear is on its way\<close>

text \<open>
  A reset that clears the output waits, the player has stopped when its turn comes, and nothing after
  it starts an item.
\<close>

definition clear_waits :: "receiver_player \<Rightarrow> bool" where
  "clear_waits c \<longleftrightarrow> \<not> m_media_active (rc_session c) \<and>
     (\<exists>before f later. rc_waiting c = before @ Conn_reset True f # later \<and> list_all starts_nothing later \<and>
        \<not> after_calls (after_stretches (worker_runs (rc_threads c)) (rc_doing c)) before)"

definition blank :: "receiver_player \<Rightarrow> bool" where
  "blank c \<longleftrightarrow> quiet c \<and> \<not> rc_shown c"

lemma begin_clear_waits:
  assumes c: "rc_doing c = []" "rc_waiting c = call # calls" "d = begin_call now starts call (c\<lparr>rc_waiting := calls\<rparr>)"
    and s: "clear_waits c"
  shows "clear_waits d \<or> blank d"
proof -
  obtain before f later where w: "rc_waiting c = before @ Conn_reset True f # later" "list_all starts_nothing later"
      "\<not> after_calls (worker_runs (rc_threads c)) before" and a: "\<not> m_media_active (rc_session c)"
    using s c(1) by (auto simp: clear_waits_def)
  have a': "\<not> m_media_active (rc_session d)"
    using a by (cases call) (auto simp: c(3) carry_seek_def split: seek_outcome.split)
  show ?thesis
  proof (cases before)
    case Nil
    then show ?thesis using w a c by (auto simp: blank_def quiet_def)
  next
    case (Cons b bs)
    then have b: "b = call" "calls = bs @ Conn_reset True f # later" using w(1) c(2) by simp_all
    have "\<not> after_calls (after_stretches (worker_runs (rc_threads d)) (rc_doing d)) bs"
      using call_keeps [OF _ c(3), of bs] w(3) c(1) Cons b(1) by auto
    then show ?thesis using a' w(2) b(2) by (auto simp: clear_waits_def c(3))
  qed
qed

lemma step_clear_waits:
  assumes "receiver_step c e = Some d" "\<not> wants_item e" "clear_waits c"
  shows "clear_waits d \<or> blank d"
proof (cases e)
  case (Sender x)
  have "\<not> m_media_active (rc_session c)" using assms(3) by (simp add: clear_waits_def)
  then obtain calls s where d: "d = c\<lparr>rc_session := s, rc_waiting := rc_waiting c @ calls\<rparr>" "\<not> m_media_active s"
      "list_all starts_nothing calls"
    using sender_quiet [of x c] assms(1,2) Sender by auto
  obtain before f later where w: "rc_waiting c = before @ Conn_reset True f # later" "list_all starts_nothing later"
      "\<not> after_calls (after_stretches (worker_runs (rc_threads c)) (rc_doing c)) before"
    using assms(3) by (auto simp: clear_waits_def)
  then have "rc_waiting d = before @ Conn_reset True f # (later @ calls)" "list_all starts_nothing (later @ calls)"
    using d by simp_all
  then show ?thesis using w(3) d(1,2) unfolding clear_waits_def by fastforce
next
  case (Begins_call now starts)
  then obtain call calls where "rc_doing c = []" "rc_waiting c = call # calls"
      "d = begin_call now starts call (c\<lparr>rc_waiting := calls\<rparr>)"
    using assms(1) by (auto split: list.splits)
  then show ?thesis by (rule begin_clear_waits) (rule assms(3))
next
  case Goes_on
  then obtain e' es where c: "rc_doing c = e' # es" "enabled (rc_threads c) e'"
      "d = c\<lparr>rc_doing := es, rc_threads := perform (rc_threads c) e'\<rparr>"
    using assms(1) by (auto split: list.splits if_splits)
  have "after_stretches (worker_runs (rc_threads d)) (rc_doing d) \<longrightarrow> after_stretches (worker_runs (rc_threads c)) (rc_doing c)"
    using stretch_keeps [OF c(2)] by (simp add: c(1,3) del: perform.simps)
  then show ?thesis
    using assms(3) by (auto simp: clear_waits_def c(3) simp del: perform.simps dest: after_weaken(2))
next
  case (Own e')
  then have e': "\<not> from_session e'" "d = own_step e' c" using assms(1) by (auto split: if_splits)
  have "after_stretches (worker_runs (rc_threads d)) (rc_doing d) \<longrightarrow> after_stretches (worker_runs (rc_threads c)) (rc_doing c)"
    using own_keeps [OF e'(1), of "rc_threads c"]
    by (auto simp: e'(2) own_step_def Let_def simp del: perform.simps dest: after_weaken(1))
  then show ?thesis
    using assms(3) by (auto simp: clear_waits_def e'(2) own_step_def Let_def simp del: perform.simps dest: after_weaken(2))
qed

section \<open>Every call is carried out\<close>

text \<open>
  What a worker that is told to stop, and its presenter, do: the queue is emptied, the frame in hand
  goes through the rest of \<open>emitVideo\<close>, and the worker ends. A prompted step is a step of the calls
  themselves, or one of these while a stop is requested: no sender is needed, no worker that ends of
  itself, and no conversion that fails.
\<close>

fun ends_player :: "player_event \<Rightarrow> bool" where
  "ends_player W_clear_queue = True"
| "ends_player W_exits = True"
| "ends_player P_begin = True"
| "ends_player (P_check now) = True"
| "ends_player (P_coarse now) = True"
| "ends_player (P_show now obs_now) = True"
| "ends_player _ = False"

fun prompted :: "receiver_player \<Rightarrow> receiver_event \<Rightarrow> bool" where
  "prompted c (Sender x) = False"
| "prompted c (Own e) = (m_stop_requested (pl (rc_threads c)) \<and> ends_player e)"
| "prompted c e = True"

definition prompted_step :: "receiver_player \<Rightarrow> receiver_event \<Rightarrow> receiver_player option" where
  "prompted_step c e = (if prompted c e then receiver_step c e else None)"

lemma prompted_run_is_run:
  "guarded_run prompted_step c es = Some d \<Longrightarrow> receiver_run c es = Some d \<and> list_all (\<lambda>e. \<forall>x. e \<noteq> Sender x) es"
proof (induction es arbitrary: c)
  case (Cons e es)
  then show ?case by (cases e) (auto simp: prompted_step_def split: option.splits if_splits)
qed simp

text \<open>The stretches in hand can be carried out once a worker that runs has ended, and it has been told to.\<close>

fun ready :: "bool \<Rightarrow> bool \<Rightarrow> player_event list \<Rightarrow> bool" where
  "ready runs stopped [] = True"
| "ready runs stopped (Cmd_request_stop # es) = ready runs True es"
| "ready runs stopped (Cmd_finish_stop # es) = ((runs \<longrightarrow> stopped) \<and> ready False stopped es)"
| "ready runs stopped (Cmd_play location p r now # es) = (\<not> runs \<and> 0 \<le> r \<and> ready runs stopped es)"
| "ready runs stopped (Cmd_start_worker starts # es) = (\<not> runs \<and> ready starts False es)"
| "ready runs stopped (_ # es) = False"

fun cost :: "player_event list \<Rightarrow> nat" where
  "cost [] = 0"
| "cost (Cmd_finish_stop # es) = 7 + cost es"
| "cost (e # es) = 1 + cost es"

lemma cost_step: "1 + cost es \<le> cost (e # es)"
  by (cases e) simp_all

definition calls_ready :: "receiver_player \<Rightarrow> bool" where
  "calls_ready c \<longleftrightarrow> cost (rc_doing c) \<le> 10 \<and>
     ready (worker_runs (rc_threads c)) (m_stop_requested (pl (rc_threads c))) (rc_doing c)"

lemma ready_mono:
  "ready runs stopped es \<Longrightarrow> (runs' \<longrightarrow> runs) \<Longrightarrow> (stopped \<longrightarrow> stopped') \<Longrightarrow> ready runs' stopped' es"
  by (induction runs stopped es arbitrary: runs' stopped' rule: ready.induct) auto

lemma call_ready:
  "rc_doing c = [] \<Longrightarrow> calls_ready (begin_call now starts call c)"
  by (cases call) (auto simp: calls_ready_def carry_seek_def play_def stopLocked_def split: seek_outcome.split)

lemma stretch_ready:
  assumes "ready (worker_runs t) (m_stop_requested (pl t)) (e # es)"
  shows "enabled t e \<or> e = Cmd_finish_stop \<and> worker_runs t \<and> m_stop_requested (pl t)"
    and "enabled t e \<Longrightarrow> ready (worker_runs (perform t e)) (m_stop_requested (pl (perform t e))) es"
  using assms
  by (cases e; auto simp: request_stop_def finish_stop_def play_state_def start_worker_def Let_def intro: ready_mono)+

lemma own_ready:
  assumes "calls_ready c" "\<not> from_session e"
  shows "calls_ready (own_step e c)"
proof -
  have "m_stop_requested (pl (rc_threads c)) \<longrightarrow> m_stop_requested (pl (perform (rc_threads c) e))"
    using perform_keeps_stop [of "rc_threads c" e] assms(2) by (cases e) auto
  with assms own_keeps [OF assms(2), of "rc_threads c"] show ?thesis
    by (auto simp: calls_ready_def own_step_def Let_def simp del: perform.simps intro: ready_mono)
qed

lemma step_ready:
  assumes "receiver_step c e = Some d" "calls_ready c"
  shows "calls_ready d"
proof (cases e)
  case (Sender x)
  then show ?thesis using assms by (auto simp: sender_step_def calls_ready_def split_beta)
next
  case (Begins_call now starts)
  then show ?thesis using assms by (auto intro!: call_ready split: list.splits)
next
  case Goes_on
  then obtain e' es where c: "rc_doing c = e' # es" "enabled (rc_threads c) e'"
      "d = c\<lparr>rc_doing := es, rc_threads := perform (rc_threads c) e'\<rparr>"
    using assms(1) by (auto split: list.splits if_splits)
  then show ?thesis using stretch_ready(2) [of "rc_threads c" e' es] cost_step [of es e'] assms(2)
    by (simp add: calls_ready_def del: perform.simps)
next
  case (Own e')
  then show ?thesis using assms own_ready [of c e'] by (auto split: if_splits)
qed

interpretation receiver_calls: guarded_machine receiver_step "\<lambda>e. True" calls_ready
  by unfold_locales (rule step_ready)

text \<open>A run of at most \<open>n\<close> prompted steps leads to a state in which \<open>P\<close> holds.\<close>

definition comes_to :: "nat \<Rightarrow> (receiver_player \<Rightarrow> bool) \<Rightarrow> receiver_player \<Rightarrow> bool" where
  "comes_to n P c \<longleftrightarrow> (\<exists>es d. length es \<le> n \<and> guarded_run prompted_step c es = Some d \<and> P d)"

lemma comes_now: "P c \<Longrightarrow> comes_to n P c"
  unfolding comes_to_def by (intro exI [of _ "[]"]) simp

lemma comes_mono: "comes_to n P c \<Longrightarrow> n \<le> m \<Longrightarrow> comes_to m P c"
  unfolding comes_to_def using le_trans by blast

lemma comes_step:
  assumes "prompted_step c e = Some d" "comes_to n P d" "Suc n \<le> m"
  shows "comes_to m P c"
proof -
  obtain es x where "length es \<le> n" "guarded_run prompted_step d es = Some x" "P x"
    using assms(2) by (auto simp: comes_to_def)
  with assms(1,3) show ?thesis unfolding comes_to_def by (intro exI [of _ "e # es"] exI [of _ x]) simp
qed

lemma comes_on:
  assumes "comes_to n P c" "\<And>d. P d \<Longrightarrow> comes_to m Q d" "n + m \<le> k"
  shows "comes_to k Q c"
proof -
  obtain es d where d: "length es \<le> n" "guarded_run prompted_step c es = Some d" "P d"
    using assms(1) by (auto simp: comes_to_def)
  obtain fs x where "length fs \<le> m" "guarded_run prompted_step d fs = Some x" "Q x"
    using assms(2) [OF d(3)] by (auto simp: comes_to_def)
  with d assms(3) show ?thesis
    unfolding comes_to_def by (intro exI [of _ "es @ fs"] exI [of _ x]) (simp add: guarded_run_append)
qed

text \<open>The presenter puts down its frame from any place, and then the worker ends.\<close>

fun places_left :: "presenter \<Rightarrow> nat" where
  "places_left Waits = 0"
| "places_left (Shows q) = 1"
| "places_left (Shows_coarse q) = 1"
| "places_left (Late q) = 2"
| "places_left (Begins q) = 3"
| "places_left (Has q) = 4"

fun put_down :: "presenter \<Rightarrow> player_event" where
  "put_down (Late q) = P_coarse 0"
| "put_down (Begins q) = P_check 0"
| "put_down (Has q) = P_begin"
| "put_down p = P_show 0 0"

lemma put_down_step:
  assumes "worker_runs t" "m_video_queue t = []" "m_stop_requested (pl t)" "presenter t \<noteq> Waits"
    and u: "u = perform t (put_down (presenter t))"
  shows "enabled t (put_down (presenter t)) \<and> ends_player (put_down (presenter t)) \<and>
    \<not> from_session (put_down (presenter t)) \<and>
    places_left (presenter u) < places_left (presenter t) \<and> worker_runs u \<and> m_video_queue u = []"
  using assms(1-4)
  by (cases "presenter t") (auto simp: u begin_frame_def check_frame_def coarse_frame_def show_frame_def
      show_picture_def waitForPresentation_def split: prod.split)

text \<open>The worker has ended and the calls are as before.\<close>

definition joined :: "receiver_player \<Rightarrow> receiver_player \<Rightarrow> bool" where
  "joined c d \<longleftrightarrow> \<not> worker_runs (rc_threads d) \<and> m_stop_requested (pl (rc_threads d)) \<and> rc_doing d = rc_doing c \<and> rc_waiting d = rc_waiting c"

lemma own_joined: "joined (own_step e c) = joined c"
  by (intro ext) (simp add: joined_def own_step_def Let_def)

lemma own_prompted:
  "enabled (rc_threads c) e \<Longrightarrow> ends_player e \<Longrightarrow> m_stop_requested (pl (rc_threads c)) \<Longrightarrow>
     prompted_step c (Own e) = Some (own_step e c)"
  by (cases e) (simp_all add: prompted_step_def)

lemma own_keeps_stop:
  "m_stop_requested (pl (rc_threads c)) \<Longrightarrow> ends_player e \<Longrightarrow> m_stop_requested (pl (rc_threads (own_step e c)))"
  unfolding own_step_def Let_def by (simp del: perform.simps, rule perform_keeps_stop) auto

lemma presenter_finishes:
  "worker_runs (rc_threads c) \<Longrightarrow> m_video_queue (rc_threads c) = [] \<Longrightarrow> m_stop_requested (pl (rc_threads c)) \<Longrightarrow>
     comes_to (places_left (presenter (rc_threads c)) + 1) (joined c) c"
proof (induction "places_left (presenter (rc_threads c))" arbitrary: c rule: less_induct)
  case less
  show ?case
  proof (cases "presenter (rc_threads c) = Waits")
    case True
    then have "prompted_step c (Own W_exits) = Some (own_step W_exits c)"
      using less.prems by (intro own_prompted) simp_all
    then show ?thesis by (rule comes_step [where n = 0]) (simp_all add: joined_def own_step_def comes_now less.prems)
  next
    case False
    let ?e = "put_down (presenter (rc_threads c))" and ?d = "own_step (put_down (presenter (rc_threads c))) c"
    note p = put_down_step [OF less.prems False refl]
    have d: "places_left (presenter (rc_threads ?d)) < places_left (presenter (rc_threads c))"
        "worker_runs (rc_threads ?d)" "m_video_queue (rc_threads ?d) = []" "m_stop_requested (pl (rc_threads ?d))"
      using p own_keeps_stop [OF less.prems(3), of ?e] by (simp_all add: own_step_def Let_def del: perform.simps)
    have "comes_to (places_left (presenter (rc_threads ?d)) + 1) (joined c) ?d"
      using less.hyps [OF d] by (simp add: own_joined)
    from comes_step [OF own_prompted this] show ?thesis using p less.prems(3) d(1) by simp
  qed
qed

lemma worker_finishes:
  assumes "worker_runs (rc_threads c)" "m_stop_requested (pl (rc_threads c))"
  shows "comes_to 6 (joined c) c"
proof -
  let ?d = "own_step W_clear_queue c"
  have d: "worker_runs (rc_threads ?d)" "m_video_queue (rc_threads ?d) = []" "m_stop_requested (pl (rc_threads ?d))"
    using assms by (simp_all add: own_step_def clearVideoQueue_def)
  have "places_left (presenter (rc_threads ?d)) \<le> 4" by (cases "presenter (rc_threads ?d)") simp_all
  then have "comes_to 5 (joined c) ?d"
    using comes_mono [OF presenter_finishes [OF d], of 5] by (simp add: own_joined)
  from comes_step [OF own_prompted this] show ?thesis using assms by simp
qed

lemma stretches_done:
  "calls_ready c \<Longrightarrow> comes_to (cost (rc_doing c)) (\<lambda>d. rc_doing d = [] \<and> rc_waiting d = rc_waiting c) c"
proof (induction "rc_doing c" arbitrary: c)
  case Nil
  then show ?case by (simp add: comes_now)
next
  case (Cons e es)
  have go: "comes_to (1 + cost es) (\<lambda>x. rc_doing x = [] \<and> rc_waiting x = rc_waiting c) d"
    if d: "calls_ready d" "rc_doing d = e # es" "rc_waiting d = rc_waiting c" "enabled (rc_threads d) e" for d
  proof -
    let ?d = "d\<lparr>rc_doing := es, rc_threads := perform (rc_threads d) e\<rparr>"
    have s: "prompted_step d Goes_on = Some ?d" using d(2,4) by (simp add: prompted_step_def del: perform.simps)
    then have "calls_ready ?d" using step_ready [of d Goes_on ?d] d(1) by (simp add: prompted_step_def del: perform.simps)
    from Cons.hyps(1) [OF _ this] d(3) show ?thesis by (intro comes_step [OF s, of "cost es"]) simp_all
  qed
  have c: "ready (worker_runs (rc_threads c)) (m_stop_requested (pl (rc_threads c))) (e # es)"
    using Cons.prems Cons.hyps(2) by (simp add: calls_ready_def)
  show ?case
  proof (cases "enabled (rc_threads c) e")
    case True
    have "comes_to (1 + cost es) (\<lambda>x. rc_doing x = [] \<and> rc_waiting x = rc_waiting c) c"
      by (rule go [OF Cons.prems _ refl True]) (use Cons.hyps(2) in simp)
    then show ?thesis using cost_step [of es e] unfolding Cons.hyps(2) [symmetric] by (rule comes_mono)
  next
    case False
    then have w: "e = Cmd_finish_stop" "worker_runs (rc_threads c)" "m_stop_requested (pl (rc_threads c))"
      using stretch_ready(1) [OF c] by auto
    show ?thesis
    proof (rule comes_on [OF worker_finishes [OF w(2,3)], of "1 + cost es"])
      fix d assume "joined c d"
      then show "comes_to (1 + cost es) (\<lambda>x. rc_doing x = [] \<and> rc_waiting x = rc_waiting c) d"
        using Cons.prems w(1) unfolding joined_def calls_ready_def Cons.hyps(2) [symmetric]
        by (intro go) (auto simp: calls_ready_def Cons.hyps(2) [symmetric] intro: ready_mono)
    qed (simp add: Cons.hyps(2) [symmetric] w(1))
  qed
qed

lemma calls_done:
  "calls_ready c \<Longrightarrow> comes_to (cost (rc_doing c) + 11 * length (rc_waiting c)) idle c"
proof (induction "length (rc_waiting c)" arbitrary: c)
  case 0
  then show ?case using stretches_done [OF 0(2)] by (simp add: idle_def conj_commute)
next
  case (Suc n)
  show ?case
  proof (rule comes_on [OF stretches_done [OF Suc.prems], of "11 * length (rc_waiting c)"])
    fix d :: receiver_player assume d: "rc_doing d = [] \<and> rc_waiting d = rc_waiting c"
    then obtain call calls where w: "rc_waiting d = call # calls" using Suc.hyps(2) by (metis length_Suc_conv)
    let ?d = "begin_call 0 True call (d\<lparr>rc_waiting := calls\<rparr>)"
    have r: "calls_ready ?d" by (rule call_ready) (simp add: d)
    have "length (rc_waiting d) = Suc n" using Suc.hyps(2) d by simp
    then have n: "n = length calls" by (simp add: w)
    have "comes_to (10 + 11 * length calls) idle ?d"
      using comes_mono [OF Suc.hyps(1) [OF _ r], of "10 + 11 * length calls"] r by (simp add: n calls_ready_def)
    moreover have "prompted_step d (Begins_call 0 True) = Some ?d" using conjunct1 [OF d] by (simp add: prompted_step_def w)
    moreover have "Suc (10 + 11 * length calls) \<le> 11 * length (rc_waiting c)" using Suc.hyps(2) n by simp
    ultimately show "comes_to (11 * length (rc_waiting c)) idle d" by (rule_tac comes_step)
  qed simp
qed


section \<open>The receiver and its player\<close>

text \<open>For the examples: a device connects and plays an item, and its first picture is shown.\<close>

definition item_shown_run :: "receiver_event list" where
  "item_shown_run = [Sender (Conn_init 5), Begins_call 0 True, Sender (Play [] (Some ''u'') (Finite 0)),
     Begins_call 0 True, Goes_on, Goes_on, Begins_call 0 True, Begins_call 0 True, Begins_call 0 True,
     Goes_on, Goes_on, Goes_on, Goes_on,
     Own (W_publish (Some 10) True True), Own (W_queue (frame_at 0)), Own P_take, Own P_begin, Own (P_check 1), Own (P_show 1 1)]"

lemma item_shown_run_result:
  "case receiver_run (receiver_player_new ready_session) item_shown_run of None \<Rightarrow> False | Some c \<Rightarrow>
     rc_shown c \<and> m_frame_shown (rc_session c) \<and> m_open_connections (rc_session c) = 1 \<and>
     \<not> m_clear_exit (rc_session c) \<and> m_reset_callback (rc_session c) \<and> worker_runs (rc_threads c) \<and>
     m_video_queue (rc_threads c) = [] \<and> presenter (rc_threads c) = Waits \<and> \<not> m_stop_requested (pl (rc_threads c))"
  by code_simp

lemma item_shown_scrub: "\<not> stray_scrub ready_session False item_shown_run"
  by code_simp

lemma item_shown_reached:
  obtains c where "receiver_run (receiver_player_new ready_session) item_shown_run = Some c"
    "rc_shown c" "m_frame_shown (rc_session c)" "m_open_connections (rc_session c) = 1"
    "\<not> m_clear_exit (rc_session c)" "m_reset_callback (rc_session c)"
    "worker_runs (rc_threads c)" "m_video_queue (rc_threads c) = []" "presenter (rc_threads c) = Waits"
    "\<not> m_stop_requested (pl (rc_threads c))"
  using item_shown_run_result that by (auto split: option.splits)

text \<open>
  C1. Without an item nothing of the player reaches the source. Whenever no item is active, the calls
  made so far have been carried out and no scrub is in force that came when there was no item (see
  \<open>stray_scrub\<close>; such a scrub opens the last item again, \<open>scrub_reopens_stopped_item\<close>), the worker does not
  run, and no step of the threads, no connection, mirrored picture, stop or reset changes the pictures
  shown, until a sender asks for an item again by a play or a scrub: after every run of the
  handlers with the player.
\<close>

theorem nothing_is_shown_without_an_item:
  assumes "receiver_run (receiver_player_new s) es = Some c" "\<not> stray_scrub s False es"
    and "idle c" "\<not> m_media_active (rc_session c)"
    and "receiver_run c fs = Some d" "list_all (\<lambda>e. \<not> wants_item e) fs"
  shows "\<not> worker_runs (rc_threads d) \<and> pictures (rc_threads d) = pictures (rc_threads c) \<and> (rc_shown d \<longrightarrow> rc_shown c)"
  using receiver_quiet.run_inv [OF assms(5,6), of "pictures (rc_threads c)" "rc_shown c"]
    idle_is_quiet [OF impI [OF runs_for_item [OF assms(1,2)]] assms(3,4)]
  by (simp add: quiet_def)

definition item_ends_run :: "receiver_event list" where
  "item_ends_run = [Sender (Video_reset RESET_TYPE_HLS_EOS), Begins_call 0 True, Goes_on, Own W_exits, Goes_on,
     Begins_call 0 True, Begins_call 0 True]"

definition mirrored_on_run :: "receiver_event list" where
  "mirrored_on_run = [Own (Cmd_follow True), Sender Mirror_frame,
     Sender (Video_reset RESET_TYPE_NOHOLD), Begins_call 0 True, Goes_on, Goes_on]"

text \<open>A scrub before the first item, which is in force until the item comes.\<close>

definition early_scrub_run :: "receiver_event list" where
  "early_scrub_run = [Sender (Scrub (Finite 3)), Begins_call 0 True]"

lemma item_ends_run_result:
  "case receiver_run (receiver_player_new ready_session) (early_scrub_run @ item_shown_run @ item_ends_run) of
     None \<Rightarrow> False
   | Some c \<Rightarrow>
     idle c \<and> \<not> m_media_active (rc_session c) \<and> length (pictures (rc_threads c)) = 1 \<and>
     (case receiver_run c mirrored_on_run of None \<Rightarrow> False | Some d \<Rightarrow> True)"
  by code_simp

lemma item_ends_run_scrub:
  "stray_scrub ready_session False early_scrub_run \<and>
   \<not> stray_scrub ready_session False (early_scrub_run @ item_shown_run @ item_ends_run)"
  by code_simp

lemma nothing_is_shown_without_an_item_witness:
  "\<exists>c d. receiver_run (receiver_player_new ready_session) (early_scrub_run @ item_shown_run @ item_ends_run) = Some c \<and>
     receiver_run c mirrored_on_run = Some d \<and> length (pictures (rc_threads d)) = 1"
proof -
  obtain c d where c: "receiver_run (receiver_player_new ready_session) (early_scrub_run @ item_shown_run @ item_ends_run) = Some c"
      "idle c" "\<not> m_media_active (rc_session c)" "length (pictures (rc_threads c)) = 1" "receiver_run c mirrored_on_run = Some d"
    using item_ends_run_result by (auto split: option.splits)
  from nothing_is_shown_without_an_item [OF c(1) _ c(2,3,5)] item_ends_run_scrub c show ?thesis
    by (simp add: mirrored_on_run_def)
qed

section \<open>A device that has gone\<close>

text \<open>Between the last connection's end and the clear no device comes and no picture is shown anew.\<close>

fun stays_away :: "receiver_event \<Rightarrow> bool" where
  "stays_away (Sender (Conn_init now)) = False"
| "stays_away (Sender (Play moment location start)) = False"
| "stays_away (Sender (Scrub p)) = False"
| "stays_away (Sender Mirror_frame) = False"
| "stays_away e = True"

text \<open>A clear that is asked for anew in that time is due at \<open>t\<close> as well.\<close>

fun asks_in_time :: "nat \<Rightarrow> receiver_event \<Rightarrow> bool" where
  "asks_in_time t (Sender (Conn_destroy now)) = (now + 450000000 \<le> t)"
| "asks_in_time t (Sender (Conn_teardown now a b)) = (now + 450000000 \<le> t)"
| "asks_in_time t (Sender (Video_stop now)) = (now + 450000000 \<le> t)"
| "asks_in_time t e = True"

definition gone :: "receiver_player \<Rightarrow> bool" where
  "gone c \<longleftrightarrow> m_open_connections (rc_session c) = 0 \<and> m_reset_callback (rc_session c) \<and> \<not> m_clear_exit (rc_session c) \<and>
     (may_run c \<longrightarrow> m_media_active (rc_session c))"

definition clear_is_due :: "nat \<Rightarrow> receiver_player \<Rightarrow> bool" where
  "clear_is_due t c \<longleftrightarrow> gone c \<and>
     (m_clear_pending (rc_session c) \<and> m_clear_deadline (rc_session c) \<le> t \<or> m_clearing (rc_session c))"

definition clear_fires_next :: "receiver_player \<Rightarrow> bool" where
  "clear_fires_next c \<longleftrightarrow> gone c \<and> m_clearing (rc_session c)"

definition cleared :: "receiver_player \<Rightarrow> bool" where
  "cleared c \<longleftrightarrow> clear_waits c \<or> blank c"

text \<open>Calls that stop the player if an item is active, and then clear.\<close>

definition clears_after_stop :: "airplay_session \<Rightarrow> airplay_session \<Rightarrow> c_double call list \<Rightarrow> bool" where
  "clears_after_stop s s' calls \<longleftrightarrow>
     (\<exists>before. calls = before @ [Conn_reset True True] \<and> \<not> m_media_active s' \<and> \<not> after_calls (m_media_active s) before)"

lemma clearing_calls:
  assumes "sender_step e c = d" "session_step (rc_session c) e = (s, calls)"
    and "clears_after_stop (rc_session c) s calls" "may_run c \<longrightarrow> m_media_active (rc_session c)"
  shows "clear_waits d"
proof -
  obtain before where b: "calls = before @ [Conn_reset True True]" "\<not> m_media_active s"
      "\<not> after_calls (m_media_active (rc_session c)) before"
    using assms(3) by (auto simp: clears_after_stop_def)
  have d: "d = c\<lparr>rc_session := s, rc_waiting := rc_waiting c @ calls\<rparr>" using assms(1,2) by (auto simp: sender_step_def)
  have "\<not> after_calls (may_run c) before" using b(3) assms(4) after_weaken(2) by blast
  then have "rc_waiting d = (rc_waiting c @ before) @ Conn_reset True True # []" "list_all starts_nothing []"
      "\<not> after_calls (after_stretches (worker_runs (rc_threads d)) (rc_doing d)) (rc_waiting c @ before)"
    using b(1) by (simp_all add: d after_calls_append may_run_def)
  moreover have "\<not> m_media_active (rc_session d)" using b(2) by (simp add: d)
  ultimately show ?thesis unfolding clear_waits_def by blast
qed

lemma reset_clears:
  assumes "ends_item t" "m_reset_callback s" "video_reset t s = (s', calls)"
  shows "clears_after_stop s s' calls"
  using assms by (auto simp: clears_after_stop_def video_reset_def session_actions split: if_splits)

lemma firing_clears:
  assumes "m_clearing s" "m_open_connections s = 0" "m_reset_callback s" "clear_fires s = (s', calls)"
  shows "clears_after_stop s s' calls"
  using assms by (cases "m_media_active s") (auto simp: clears_after_stop_def clear_fires_def clear_output_def
      processConnReset_def notifyStateChanged_def action_defs split: if_splits)

text \<open>What a handler leaves while a device stays away.\<close>

lemma away_session:
  assumes "session_step s e = (s', calls)" "stays_away (Sender e)" "m_open_connections s = 0" "m_reset_callback s" "\<not> m_clear_exit s"
    and "b \<longrightarrow> m_media_active s"
  shows "clears_after_stop s s' calls \<or>
    m_open_connections s' = 0 \<and> m_reset_callback s' \<and> \<not> m_clear_exit s' \<and> (after_calls b calls \<longrightarrow> m_media_active s') \<and>
    (m_clearing s \<longrightarrow> m_clearing s') \<and>
    (asks_in_time t (Sender e) \<and> (m_clear_pending s \<and> m_clear_deadline s \<le> t \<or> m_clearing s) \<longrightarrow>
       m_clear_pending s' \<and> m_clear_deadline s' \<le> t \<or> m_clearing s')"
proof (cases e)
  case (Video_reset r)
  then show ?thesis using assms reset_clears [of r s s' calls]
    by (cases "ends_item r") (auto simp: video_reset_def session_actions)
next
  case Clear_fires
  then show ?thesis using assms firing_clears [of s s' calls] by (cases "m_clearing s") (auto simp: clear_fires_def action_defs)
qed (use assms in \<open>auto simp: session_actions session_handlers kGracePeriod_def split: if_splits option.splits\<close>)

lemma away_step:
  assumes "receiver_step c e = Some d" "stays_away e" "gone c"
  shows "clear_waits d \<or> gone d \<and> (m_clearing (rc_session c) \<longrightarrow> m_clearing (rc_session d)) \<and>
    (asks_in_time t e \<and> clear_is_due t c \<longrightarrow> clear_is_due t d)"
proof (cases "\<exists>x. e = Sender x")
  case True
  then obtain x s calls where x: "e = Sender x" "session_step (rc_session c) x = (s, calls)" by (metis prod.exhaust)
  then have d: "sender_step x c = d" "d = c\<lparr>rc_session := s, rc_waiting := rc_waiting c @ calls\<rparr>"
    using assms(1) by (simp_all add: sender_step_def)
  have m: "may_run (c\<lparr>rc_session := s, rc_waiting := rc_waiting c @ calls\<rparr>) = after_calls (may_run c) calls"
    by (simp add: may_run_def after_calls_append)
  have g: "may_run c \<longrightarrow> m_media_active (rc_session c)" using assms(3) by (simp add: gone_def)
  show ?thesis
  proof (cases "clears_after_stop (rc_session c) s calls")
    case True
    then show ?thesis using clearing_calls [OF d(1) x(2) _ g] by blast
  next
    case False
    with away_session [OF x(2), of "may_run c" t] assms(2,3) x(1) g show ?thesis
      by (auto simp: gone_def clear_is_due_def m d(2))
  qed
next
  case False
  then have s: "rc_session d = rc_session c" using step_session [OF assms(1)] by (auto split: receiver_event.splits)
  have "may_run d \<longrightarrow> may_run c" using step_may_run [OF assms(1)] False by blast
  with assms(3) s show ?thesis by (auto simp: gone_def clear_is_due_def)
qed

lemma cleared_step:
  assumes "cleared c" "\<not> wants_item e" "receiver_step c e = Some d"
  shows "cleared d"
  using assms step_clear_waits [of c e d] step_quiet [of c e d] by (auto simp: cleared_def blank_def)

interpretation receiver_clearing: guarded_machine receiver_step "\<lambda>e. \<not> wants_item e" cleared
  by unfold_locales (rule cleared_step)

lemma stays_away_wants: "stays_away e \<Longrightarrow> \<not> wants_item e"
  by (cases e rule: wants_item.cases) auto

interpretation receiver_window: guarded_machine receiver_step "\<lambda>e. stays_away e \<and> asks_in_time t e"
    "\<lambda>c. cleared c \<or> clear_is_due t c" for t
proof
  fix c d e
  assume c: "cleared c \<or> clear_is_due t c" "stays_away e \<and> asks_in_time t e" "receiver_step c e = Some d"
  from c(2) have e: "stays_away e" "asks_in_time t e" by simp_all
  from c(1) show "cleared d \<or> clear_is_due t d"
    using cleared_step [OF _ stays_away_wants [OF e(1)] c(3)] away_step [OF c(3) e(1), of t] e(2)
    by (auto simp: cleared_def clear_is_due_def)
qed

interpretation receiver_firing: guarded_machine receiver_step stays_away "\<lambda>c. cleared c \<or> clear_fires_next c"
proof
  fix c d e
  assume c: "cleared c \<or> clear_fires_next c" "stays_away e" "receiver_step c e = Some d"
  then show "cleared d \<or> clear_fires_next d"
    using cleared_step [OF _ stays_away_wants [OF c(2)] c(3)] away_step [OF c(3,2), of 0]
    by (auto simp: cleared_def clear_fires_next_def)
qed

lemma due_turn:
  assumes "receiver_step c (Sender (Clear_due t)) = Some d" "clear_is_due t c"
  shows "clear_fires_next d"
  using assms
  by (cases "m_clearing (rc_session c)")
    (auto simp: sender_step_def clear_is_due_def clear_fires_next_def gone_def clear_due_def may_run_def after_calls_append)

lemma firing_turn:
  assumes "receiver_step c (Sender Clear_fires) = Some d" "clear_fires_next c"
  shows "clear_waits d"
proof -
  obtain s calls where x: "session_step (rc_session c) Clear_fires = (s, calls :: c_double call list)" by (metis prod.exhaust)
  show ?thesis
    by (rule clearing_calls [OF _ x]) (use assms x firing_clears [of "rc_session c" s calls] in \<open>simp_all add: clear_fires_next_def gone_def\<close>)
qed

lemma conn_destroy_calls: "after_calls b (snd (conn_destroy now s)) = b"
  by (simp add: conn_destroy_def last_connection_closed_def scheduleDeferredClear_def notifyStateChanged_def action_defs split_beta)

lemma last_connection_gone:
  assumes "receiver_step c (Sender (Conn_destroy t0)) = Some d" "may_run c \<longrightarrow> m_media_active (rc_session c)"
    and "m_open_connections (rc_session c) = 1" "m_frame_shown (rc_session c)" "\<not> m_clear_exit (rc_session c)"
    and "m_reset_callback (rc_session c)" "t0 + 450000000 \<le> t"
  shows "clear_is_due t d"
proof -
  obtain s calls where x: "conn_destroy t0 (rc_session c) = (s, calls :: c_double call list)" by (metis prod.exhaust)
  then have s: "m_open_connections s = 0" "m_clear_pending s" "m_clear_deadline s \<le> t" "\<not> m_clear_exit s" "m_reset_callback s"
      "m_media_active s = m_media_active (rc_session c)"
    using assms(3-7) by (auto simp: session_actions session_handlers kGracePeriod_def split: if_splits)
  have d: "d = c\<lparr>rc_session := s, rc_waiting := rc_waiting c @ calls\<rparr>" using assms(1) x by (simp add: sender_step_def)
  have "after_calls b calls = b" for b using conn_destroy_calls [of b t0 "rc_session c"] x by simp
  then have "may_run d = may_run c" by (simp add: d may_run_def after_calls_append)
  then show ?thesis using s assms(2) by (simp add: d clear_is_due_def gone_def)
qed

text \<open>
  C2. A device that has gone leaves nothing on screen. A device whose picture is shown closes the last
  connection at \<open>t0\<close>; the deferred-clear thread finds the clear due at \<open>t\<close>, 450 ms later or more,
  and clears. Then, once the calls are carried out and as long as no sender asks for an item, the
  source shows no picture of an item and no worker runs, whatever the player, the presenter, the calls
  that wait and other handlers do before the clear is due, until it clears and after it: only that
  nobody comes back before the clear (no connection, item or mirrored picture), that a clear which is
  asked for anew in that time is due at \<open>t\<close> as well, and that no scrub is in force that came when
  there was no item.
\<close>

theorem departed_device_leaves_no_picture:
  assumes "receiver_run (receiver_player_new s) es = Some c" "\<not> stray_scrub s False es"
    and "m_open_connections (rc_session c) = 1" "m_frame_shown (rc_session c)"
    and "\<not> m_clear_exit (rc_session c)" "m_reset_callback (rc_session c)" "t0 + 450000000 \<le> t"
    and "receiver_run c (Sender (Conn_destroy t0) # window @ Sender (Clear_due t) # unlocked @ Sender Clear_fires # later) = Some d"
    and "list_all (\<lambda>e. stays_away e \<and> asks_in_time t e) window" "list_all stays_away unlocked"
    and "list_all (\<lambda>e. \<not> wants_item e) later" "idle d"
  shows "\<not> rc_shown d \<and> \<not> worker_runs (rc_threads d)"
proof -
  obtain c1 c2 c3 c4 c5 where c: "receiver_step c (Sender (Conn_destroy t0)) = Some c1" "receiver_run c1 window = Some c2"
      "receiver_step c2 (Sender (Clear_due t)) = Some c3" "receiver_run c3 unlocked = Some c4"
      "receiver_step c4 (Sender Clear_fires) = Some c5" "receiver_run c5 later = Some d"
    using assms(8) by (auto simp: guarded_run_append split: option.splits)
  have "clear_is_due t c1" by (rule last_connection_gone [OF c(1) impI [OF runs_for_item [OF assms(1,2)]] assms(3-7)])
  then have "cleared c2 \<or> clear_is_due t c2" using receiver_window.run_inv [OF c(2) assms(9)] by blast
  then have "cleared c3 \<or> clear_fires_next c3" using due_turn [OF c(3)] cleared_step [OF _ _ c(3)] by auto
  then have "cleared c4 \<or> clear_fires_next c4" by (rule receiver_firing.run_inv [OF c(4) assms(10)])
  then have "cleared c5" using firing_turn [OF c(5)] cleared_step [OF _ _ c(5)] by (auto simp: cleared_def)
  then have "cleared d" by (rule receiver_clearing.run_inv [OF c(6) assms(11)])
  with assms(12) show ?thesis by (auto simp: cleared_def clear_waits_def idle_def blank_def quiet_def)
qed

text \<open>In the window the worker queues another picture and the sender changes the rate.\<close>

definition window_run :: "receiver_event list" where
  "window_run = [Own (W_queue (frame_at 1)), Sender (Rate (Finite 0))]"

lemma sender_step_keeps [simp]:
  "rc_threads (sender_step e c) = rc_threads c" "rc_doing (sender_step e c) = rc_doing c" "rc_shown (sender_step e c) = rc_shown c"
  by (simp_all add: sender_step_def split_beta)

lemma window_runs:
  assumes "worker_runs (rc_threads c)" "m_video_queue (rc_threads c) = []"
  shows "receiver_run c (Sender (Conn_destroy t0) # window_run @ Sender (Clear_due t) # [Own P_take] @ [Sender Clear_fires]) \<noteq> None \<or>
    presenter (rc_threads c) \<noteq> Waits \<or> m_stop_requested (pl (rc_threads c))"
  using assms by (auto simp: window_run_def own_step_def queueVideoFrame_def kVideoQueueFrames_def)

lemma calls_ready_new: "calls_ready (receiver_player_new s)"
  by (simp add: calls_ready_def receiver_player_new_def)

lemma calls_stay_ready: "receiver_run (receiver_player_new s) es = Some c \<Longrightarrow> calls_ready c"
  using receiver_calls.run_inv [of "receiver_player_new s" es c] calls_ready_new by (simp add: list_all_iff)

lemma prompted_wants:
  "list_all (\<lambda>e. \<forall>x. e \<noteq> Sender x) es \<Longrightarrow> list_all (\<lambda>e. \<not> wants_item e) es"
  unfolding list_all_iff by (metis wants_item.elims(2))

lemma departed_device_leaves_no_picture_witness:
  "\<exists>c es d. receiver_run (receiver_player_new ready_session) item_shown_run = Some c \<and> rc_shown c \<and>
     receiver_run c (Sender (Conn_destroy 100) # window_run @ Sender (Clear_due 450000100) # [Own P_take] @ Sender Clear_fires # es) = Some d \<and>
     idle d \<and> \<not> rc_shown d"
proof -
  obtain c where c: "receiver_run (receiver_player_new ready_session) item_shown_run = Some c"
    "rc_shown c" "m_frame_shown (rc_session c)" "m_open_connections (rc_session c) = 1"
    "\<not> m_clear_exit (rc_session c)" "m_reset_callback (rc_session c)"
    and w: "worker_runs (rc_threads c)" "m_video_queue (rc_threads c) = []" "presenter (rc_threads c) = Waits"
      "\<not> m_stop_requested (pl (rc_threads c))"
    by (rule item_shown_reached)
  let ?gone = "Sender (Conn_destroy 100) # window_run @ Sender (Clear_due 450000100) # [Own P_take] @ [Sender Clear_fires]"
  obtain c' where c': "receiver_run c ?gone = Some c'" using window_runs [OF w(1,2), of 100 450000100] w(3,4) by auto
  have "receiver_run (receiver_player_new ready_session) (item_shown_run @ ?gone) = Some c'"
    unfolding guarded_run_append c(1) option.case c' ..
  then have "calls_ready c'" by (rule calls_stay_ready)
  from calls_done [OF this] obtain es d where d: "guarded_run prompted_step c' es = Some d" "idle d" by (auto simp: comes_to_def)
  note p = prompted_run_is_run [OF d(1)]
  have "receiver_run c (?gone @ es) = Some d" unfolding guarded_run_append c' option.case using p by blast
  then have r: "receiver_run c (Sender (Conn_destroy 100) # window_run @ Sender (Clear_due 450000100) # [Own P_take] @
      Sender Clear_fires # es) = Some d"
    by simp
  have "\<not> rc_shown d \<and> \<not> worker_runs (rc_threads d)"
    by (rule departed_device_leaves_no_picture [OF c(1) item_shown_scrub c(4,3,5,6) _ r])
      (use p d(2) prompted_wants in \<open>simp_all add: window_run_def\<close>)
  then show ?thesis using c(1,2) r d(2) by blast
qed

section \<open>No call is stuck\<close>

interpretation receiver_alone: guarded_machine receiver_step "\<lambda>e. \<forall>x. e \<noteq> Sender x" "\<lambda>c. rc_session c = s" for s
proof
  fix c d e
  assume s: "rc_session c = s" and e: "\<forall>x. e \<noteq> Sender x" and d: "receiver_step c e = Some d"
  from step_session [OF d] s e show "rc_session d = s" by (cases e) simp_all
qed

text \<open>
  C18. The receiver and the player never wait for each other. From every state that any handlers, calls
  and steps of the threads can lead to, the calls made so far can all be carried out, in at most ten
  steps for the one in hand and eleven for each that waits, by prompted steps alone: steps of the
  calls, and what a worker and a presenter that have been told to stop do. So every call that joins
  the worker has told it to stop before, and no call waits for an item to end of itself, for a sender,
  or for a presenter that holds a picture. The session is the same afterwards.
\<close>

theorem calls_can_be_carried_out:
  assumes "receiver_run (receiver_player_new s) es = Some c"
  shows "\<exists>fs d. guarded_run prompted_step c fs = Some d \<and> length fs \<le> 10 + 11 * length (rc_waiting c) \<and>
    rc_waiting d = [] \<and> rc_doing d = [] \<and> rc_session d = rc_session c"
proof -
  have c: "calls_ready c" by (rule calls_stay_ready [OF assms])
  then have "comes_to (10 + 11 * length (rc_waiting c)) idle c"
    using comes_mono [OF calls_done [OF c], of "10 + 11 * length (rc_waiting c)"] c by (simp add: calls_ready_def)
  then obtain fs d where d: "length fs \<le> 10 + 11 * length (rc_waiting c)" "guarded_run prompted_step c fs = Some d" "idle d"
    by (auto simp: comes_to_def)
  have "rc_session d = rc_session c"
    by (rule receiver_alone.run_inv [of c fs d]) (use prompted_run_is_run [OF d(2)] in simp_all)
  with d show ?thesis by (auto simp: idle_def)
qed

lemma calls_can_be_carried_out_witness:
  "\<exists>c d fs. receiver_run (receiver_player_new ready_session) (take 15 item_shown_run @ [Sender (Video_reset RESET_TYPE_HLS_EOS)]) = Some c \<and>
     worker_runs (rc_threads c) \<and> length (rc_waiting c) = 3 \<and> guarded_run prompted_step c fs = Some d \<and> length fs \<le> 43 \<and>
     rc_waiting d = []"
proof -
  have "case receiver_run (receiver_player_new ready_session) (take 15 item_shown_run @ [Sender (Video_reset RESET_TYPE_HLS_EOS)]) of
      None \<Rightarrow> False | Some c \<Rightarrow> worker_runs (rc_threads c) \<and> length (rc_waiting c) = 3"
    by code_simp
  then obtain c where c: "receiver_run (receiver_player_new ready_session) (take 15 item_shown_run @ [Sender (Video_reset RESET_TYPE_HLS_EOS)]) = Some c"
      "worker_runs (rc_threads c)" "length (rc_waiting c) = 3"
    by (auto split: option.splits)
  from calls_can_be_carried_out [OF c(1)] c show ?thesis by auto
qed


section \<open>A scrub without an item\<close>

text \<open>
  A scrub is handed to the player whether an item is active or not and whether AirPlay video is turned
  on or not, and the player remembers the location of an item that ended after it was stopped. So
  a scrub opens that item again and shows its picture, while the session has no item, the panel says
  so and AirPlay video is turned off.
\<close>

definition scrub_after_stop_run :: "receiver_event list" where
  "scrub_after_stop_run =
     [Own W_ended] @ item_ends_run @
     [Sender (Set_policy False True), Sender (Scrub (Finite 3)), Begins_call 5 True, Goes_on, Goes_on, Goes_on, Goes_on,
      Own (W_publish (Some 10) True True), Own (W_queue (frame_at 3)), Own P_take, Own P_begin, Own (P_check 6), Own (P_show 6 6)]"

lemma scrub_reopens_stopped_item:
  "case receiver_run (receiver_player_new ready_session) (item_shown_run @ scrub_after_stop_run) of None \<Rightarrow> False | Some c \<Rightarrow>
     idle c \<and> \<not> m_media_active (rc_session c) \<and> \<not> m_accept_video (rc_session c) \<and>
     connectionState (rc_session c) = AirPlay_State_Mirroring \<and> worker_runs (rc_threads c) \<and>
     map pic_position (pictures (rc_threads c)) = [3, 0]"
  by code_simp

end
