(* ===== verification/Module_Settings.thy ===== *)
theory Module_Settings
  imports Prelude Cpp_Strings
begin

text \<open>
  \<^verbatim>\<open>src/module-settings.hpp\<close>, \<^verbatim>\<open>src/module-settings.cpp\<close> and the part of
  \<^verbatim>\<open>src/plugin-main.cpp\<close> and \<^verbatim>\<open>src/airplay-source.cpp\<close> that moves the receiver's settings between the
  struct, \<^verbatim>\<open>settings.json\<close> and the settings of a source. The settings object of libobs
  (\<open>obs_data_t\<close>) is a parameter: \<open>obs_data_api\<close> collects the operations the code calls, and
  \<open>obs_data_laws\<close> says what libobs documents of them. The JSON file is given by the object a load
  of it makes. Strings are those a \<open>char *\<close> can hold: they have no NUL.
\<close>

section \<open>The struct\<close>

record module_settings =
  s_server_name :: string
  s_follow_sender_clock :: bool
  s_log_latency_telemetry :: bool
  s_allow_self_signed_media :: bool
  s_accept_airplay_video :: bool
  s_media_sender_only :: bool
  s_check_for_updates :: bool

definition default_settings :: module_settings where
  "default_settings =
     \<lparr>s_server_name = ''OBS AirPlay'', s_follow_sender_clock = False, s_log_latency_telemetry = False,
      s_allow_self_signed_media = False, s_accept_airplay_video = True, s_media_sender_only = True,
      s_check_for_updates = True\<rparr>"

definition kMaxServerNameBytes :: nat where "kMaxServerNameBytes = 63"

definition same_settings :: "module_settings \<Rightarrow> module_settings \<Rightarrow> bool" where
  "same_settings a b \<longleftrightarrow>
     s_server_name a = s_server_name b \<and>
     s_follow_sender_clock a = s_follow_sender_clock b \<and>
     s_log_latency_telemetry a = s_log_latency_telemetry b \<and>
     s_allow_self_signed_media a = s_allow_self_signed_media b \<and>
     s_accept_airplay_video a = s_accept_airplay_video b \<and>
     s_media_sender_only a = s_media_sender_only b \<and>
     s_check_for_updates a = s_check_for_updates b"

text \<open>The comparison written in the code leaves no member out.\<close>

lemma same_settings_eq [simp]: "same_settings a b \<longleftrightarrow> a = b"
  by (cases a; cases b) (auto simp: same_settings_def)

section \<open>Settings objects of libobs\<close>

text \<open>
  A null string is \<open>None\<close>. \<open>d_stored\<close> is what loading the file gives after an object was saved.
\<close>

record 'd obs_data_api =
  d_create :: 'd
  d_set_string :: "string \<Rightarrow> string \<Rightarrow> 'd \<Rightarrow> 'd"
  d_set_bool :: "string \<Rightarrow> bool \<Rightarrow> 'd \<Rightarrow> 'd"
  d_set_default_string :: "string \<Rightarrow> string \<Rightarrow> 'd \<Rightarrow> 'd"
  d_set_default_bool :: "string \<Rightarrow> bool \<Rightarrow> 'd \<Rightarrow> 'd"
  d_get_string :: "'d \<Rightarrow> string \<Rightarrow> string option"
  d_get_bool :: "'d \<Rightarrow> string \<Rightarrow> bool"
  d_has_user_value :: "'d \<Rightarrow> string \<Rightarrow> bool"
  d_stored :: "'d \<Rightarrow> 'd"

text \<open>
  Setting a key changes what is read under it and nothing else; a default is read until a value is
  set; a new object has no values; a saved object reads back with the values that were set.
\<close>

definition obs_data_laws :: "'d obs_data_api \<Rightarrow> bool" where
  "obs_data_laws A \<longleftrightarrow>
     (\<forall>d k v j. d_get_string A (d_set_string A k v d) j = (if j = k then Some v else d_get_string A d j)) \<and>
     (\<forall>d k v j. d_get_bool A (d_set_bool A k v d) j = (if j = k then v else d_get_bool A d j)) \<and>
     (\<forall>d k v j. j \<noteq> k \<longrightarrow> d_get_bool A (d_set_string A k v d) j = d_get_bool A d j) \<and>
     (\<forall>d k v j. j \<noteq> k \<longrightarrow> d_get_string A (d_set_bool A k v d) j = d_get_string A d j) \<and>
     (\<forall>d k v j. d_has_user_value A (d_set_string A k v d) j \<longleftrightarrow> j = k \<or> d_has_user_value A d j) \<and>
     (\<forall>d k v j. d_has_user_value A (d_set_bool A k v d) j \<longleftrightarrow> j = k \<or> d_has_user_value A d j) \<and>
     (\<forall>j. \<not> d_has_user_value A (d_create A) j) \<and>
     (\<forall>d j. d_has_user_value A d j \<longrightarrow>
        d_has_user_value A (d_stored A d) j \<and> d_get_string A (d_stored A d) j = d_get_string A d j \<and>
        d_get_bool A (d_stored A d) j = d_get_bool A d j)"

definition obs_default_laws :: "'d obs_data_api \<Rightarrow> bool" where
  "obs_default_laws A \<longleftrightarrow>
     (\<forall>d k v j. d_get_string A (d_set_default_string A k v d) j =
        (if j = k \<and> \<not> d_has_user_value A d k then Some v else d_get_string A d j)) \<and>
     (\<forall>d k v j. d_get_bool A (d_set_default_bool A k v d) j =
        (if j = k \<and> \<not> d_has_user_value A d k then v else d_get_bool A d j)) \<and>
     (\<forall>d k v j. j \<noteq> k \<longrightarrow> d_get_bool A (d_set_default_string A k v d) j = d_get_bool A d j) \<and>
     (\<forall>d k v j. j \<noteq> k \<longrightarrow> d_get_string A (d_set_default_bool A k v d) j = d_get_string A d j) \<and>
     (\<forall>d k v j. d_has_user_value A (d_set_default_string A k v d) j = d_has_user_value A d j) \<and>
     (\<forall>d k v j. d_has_user_value A (d_set_default_bool A k v d) j = d_has_user_value A d j)"

named_theorems obs_data \<open>reading a settings object after writing it\<close>

lemma obs_data_laws_simps [obs_data]:
  assumes "obs_data_laws A"
  shows "d_get_string A (d_set_string A k v d) j = (if j = k then Some v else d_get_string A d j)"
    and "d_get_bool A (d_set_bool A k b d) j = (if j = k then b else d_get_bool A d j)"
    and "j \<noteq> k \<Longrightarrow> d_get_bool A (d_set_string A k v d) j = d_get_bool A d j"
    and "j \<noteq> k \<Longrightarrow> d_get_string A (d_set_bool A k b d) j = d_get_string A d j"
    and "d_has_user_value A (d_set_string A k v d) j \<longleftrightarrow> j = k \<or> d_has_user_value A d j"
    and "d_has_user_value A (d_set_bool A k b d) j \<longleftrightarrow> j = k \<or> d_has_user_value A d j"
    and "\<not> d_has_user_value A (d_create A) j"
    and "d_has_user_value A d j \<Longrightarrow> d_has_user_value A (d_stored A d) j"
    and "d_has_user_value A d j \<Longrightarrow> d_get_string A (d_stored A d) j = d_get_string A d j"
    and "d_has_user_value A d j \<Longrightarrow> d_get_bool A (d_stored A d) j = d_get_bool A d j"
  using assms by (simp_all add: obs_data_laws_def)

lemma obs_default_laws_simps [obs_data]:
  assumes "obs_default_laws A"
  shows "d_get_string A (d_set_default_string A k v d) j =
        (if j = k \<and> \<not> d_has_user_value A d k then Some v else d_get_string A d j)"
    and "d_get_bool A (d_set_default_bool A k b d) j =
        (if j = k \<and> \<not> d_has_user_value A d k then b else d_get_bool A d j)"
    and "j \<noteq> k \<Longrightarrow> d_get_bool A (d_set_default_string A k v d) j = d_get_bool A d j"
    and "j \<noteq> k \<Longrightarrow> d_get_string A (d_set_default_bool A k b d) j = d_get_string A d j"
    and "d_has_user_value A (d_set_default_string A k v d) j = d_has_user_value A d j"
    and "d_has_user_value A (d_set_default_bool A k b d) j = d_has_user_value A d j"
  using assms by (simp_all add: obs_default_laws_def)

section \<open>\<^verbatim>\<open>settings.json\<close>\<close>

text \<open>\<open>name && *name\<close>.\<close>

definition text_value :: "string option \<Rightarrow> string option" where
  "text_value v = (case v of Some (c # cs) \<Rightarrow> Some (c # cs) | _ \<Rightarrow> None)"

definition bool_or_true :: "'d obs_data_api \<Rightarrow> 'd \<Rightarrow> string \<Rightarrow> bool" where
  "bool_or_true A d k \<longleftrightarrow> \<not> d_has_user_value A d k \<or> d_get_bool A d k"

text \<open>\<open>None\<close> is a file that is not there or that libobs cannot read; the flag is \<open>found\<close>.\<close>

definition module_settings_load :: "'d obs_data_api \<Rightarrow> 'd option \<Rightarrow> module_settings \<times> bool" where
  "module_settings_load A file =
     (case file of
        None \<Rightarrow> (default_settings, False)
      | Some d \<Rightarrow>
          (\<lparr>s_server_name = (case text_value (d_get_string A d ''server_name'') of
                               Some name \<Rightarrow> name | None \<Rightarrow> s_server_name default_settings),
            s_follow_sender_clock = d_get_bool A d ''follow_sender_clock'',
            s_log_latency_telemetry = d_get_bool A d ''log_latency_telemetry'',
            s_allow_self_signed_media = d_get_bool A d ''allow_self_signed_media'',
            s_accept_airplay_video = bool_or_true A d ''accept_airplay_video'',
            s_media_sender_only = bool_or_true A d ''media_sender_only'',
            s_check_for_updates = bool_or_true A d ''check_for_updates''\<rparr>, True))"

definition settings_data :: "'d obs_data_api \<Rightarrow> module_settings \<Rightarrow> 'd" where
  "settings_data A s =
     (d_set_bool A ''check_for_updates'' (s_check_for_updates s) \<circ>
      d_set_bool A ''media_sender_only'' (s_media_sender_only s) \<circ>
      d_set_bool A ''accept_airplay_video'' (s_accept_airplay_video s) \<circ>
      d_set_bool A ''allow_self_signed_media'' (s_allow_self_signed_media s) \<circ>
      d_set_bool A ''log_latency_telemetry'' (s_log_latency_telemetry s) \<circ>
      d_set_bool A ''follow_sender_clock'' (s_follow_sender_clock s) \<circ>
      d_set_string A ''server_name'' (s_server_name s)) (d_create A)"

text \<open>
  \<open>saved\<close> is whether there is a config path and libobs could write the file; it replaces the file
  only when it could.
\<close>

definition module_settings_save :: "'d obs_data_api \<Rightarrow> bool \<Rightarrow> module_settings \<Rightarrow> 'd option \<Rightarrow> 'd option" where
  "module_settings_save A saved s file = (if saved then Some (d_stored A (settings_data A s)) else file)"

lemma saved_settings_load:
  assumes "obs_data_laws A"
  shows "module_settings_load A (Some (d_stored A (settings_data A s))) =
    (s\<lparr>s_server_name := if s_server_name s = [] then ''OBS AirPlay'' else s_server_name s\<rparr>, True)"
  using assms
  by (simp add: module_settings_load_def settings_data_def obs_data bool_or_true_def text_value_def
      default_settings_def split: list.split)

section \<open>The settings of a source\<close>

definition video_choice :: "module_settings \<Rightarrow> string" where
  "video_choice s =
     (if \<not> s_accept_airplay_video s then ''off'' else if s_media_sender_only s then ''sender'' else ''anywhere'')"

definition write_module_settings :: "'d obs_data_api \<Rightarrow> module_settings \<Rightarrow> 'd \<Rightarrow> 'd" where
  "write_module_settings A s =
     d_set_bool A ''check_for_updates'' (s_check_for_updates s) \<circ>
     d_set_string A ''airplay_video'' (video_choice s) \<circ>
     d_set_bool A ''allow_self_signed_media'' (s_allow_self_signed_media s) \<circ>
     d_set_bool A ''log_latency_telemetry'' (s_log_latency_telemetry s) \<circ>
     d_set_bool A ''follow_sender_clock'' (s_follow_sender_clock s) \<circ>
     d_set_string A ''server_name'' (s_server_name s)"

definition read_source_settings :: "'d obs_data_api \<Rightarrow> 'd \<Rightarrow> module_settings" where
  "read_source_settings A d =
     (let video = d_get_string A d ''airplay_video''; off = video = Some ''off''; anywhere = video = Some ''anywhere''
      in \<lparr>s_server_name = (case text_value (d_get_string A d ''server_name'') of
                             Some name \<Rightarrow> name | None \<Rightarrow> ''OBS AirPlay''),
          s_follow_sender_clock = d_get_bool A d ''follow_sender_clock'',
          s_log_latency_telemetry = d_get_bool A d ''log_latency_telemetry'',
          s_allow_self_signed_media = d_get_bool A d ''allow_self_signed_media'',
          s_accept_airplay_video = (\<not> off),
          s_media_sender_only = (\<not> off \<and> \<not> anywhere),
          s_check_for_updates = d_get_bool A d ''check_for_updates''\<rparr>)"

definition airplay_source_get_defaults :: "'d obs_data_api \<Rightarrow> 'd \<Rightarrow> 'd" where
  "airplay_source_get_defaults A =
     d_set_default_bool A ''show_advanced'' False \<circ>
     d_set_default_bool A ''check_for_updates'' True \<circ>
     d_set_default_string A ''airplay_video'' ''sender'' \<circ>
     d_set_default_bool A ''allow_self_signed_media'' False \<circ>
     d_set_default_bool A ''follow_sender_clock'' False \<circ>
     d_set_default_bool A ''log_latency_telemetry'' False \<circ>
     d_set_default_string A ''server_name'' ''OBS AirPlay''"

text \<open>
  What a panel can show of the settings: with AirPlay video off it has no place for the choice of
  the sending device.
\<close>

definition as_shown :: "module_settings \<Rightarrow> module_settings" where
  "as_shown s =
     s\<lparr>s_server_name := if s_server_name s = [] then ''OBS AirPlay'' else s_server_name s,
       s_media_sender_only := s_accept_airplay_video s \<and> s_media_sender_only s\<rparr>"

lemma read_written_settings:
  assumes "obs_data_laws A"
  shows "read_source_settings A (write_module_settings A s d) = as_shown s"
  using assms
  by (simp add: read_source_settings_def write_module_settings_def obs_data text_value_def video_choice_def
      as_shown_def Let_def split: list.split)

lemma as_shown_read [simp]: "as_shown (read_source_settings A d) = read_source_settings A d"
  by (simp add: as_shown_def read_source_settings_def Let_def text_value_def split: option.split list.split)

lemma read_settings_named [simp]: "s_server_name (read_source_settings A d) \<noteq> []"
  by (simp add: read_source_settings_def Let_def text_value_def split: option.split list.split)

lemma as_shown_name [simp]: "s_server_name s \<noteq> [] \<Longrightarrow> s_server_name (as_shown s) = s_server_name s"
  by (simp add: as_shown_def)

lemma as_shown_idem [simp]: "as_shown (as_shown s) = as_shown s"
  by (simp add: as_shown_def)

lemma default_settings_shown: "as_shown default_settings = default_settings"
  by (simp add: as_shown_def default_settings_def)

lemma read_renamed_source:
  assumes "obs_data_laws A"
  shows "read_source_settings A (d_set_string A ''server_name'' name d) =
    (read_source_settings A d)\<lparr>s_server_name := if name = [] then ''OBS AirPlay'' else name\<rparr>"
  using assms by (simp add: read_source_settings_def obs_data text_value_def Let_def split: list.split)

text \<open>A source without settings of its own reads as the defaults of the struct.\<close>

lemma fresh_source_reads_defaults:
  assumes "obs_data_laws A" and "obs_default_laws A"
  shows "read_source_settings A (airplay_source_get_defaults A (d_create A)) = default_settings"
  using assms
  by (simp add: read_source_settings_def airplay_source_get_defaults_def obs_data text_value_def
      default_settings_def Let_def)

text \<open>
  The choice of the sending device does not survive a panel while AirPlay video is off, although
  the struct and \<^verbatim>\<open>settings.json\<close> keep it.
\<close>

lemma panel_forgets_sender_only:
  assumes "obs_data_laws A" and "\<not> s_accept_airplay_video s" and "s_media_sender_only s"
  shows "read_source_settings A (write_module_settings A s d) \<noteq> s"
proof
  assume "read_source_settings A (write_module_settings A s d) = s"
  then have "s_media_sender_only (as_shown s)" using read_written_settings [OF assms(1), of s d] assms(3) by simp
  then show False using assms(2) by (simp add: as_shown_def)
qed

section \<open>A settings object to evaluate with\<close>

datatype setting = Text string | Flag bool

record setting_lists =
  user_values :: "(string \<times> setting) list"
  default_values :: "(string \<times> setting) list"

definition setting_at :: "setting_lists \<Rightarrow> string \<Rightarrow> setting option" where
  "setting_at d k = (case map_of (user_values d) k of Some v \<Rightarrow> Some v | None \<Rightarrow> map_of (default_values d) k)"

definition list_api :: "setting_lists obs_data_api" where
  "list_api =
     \<lparr>d_create = \<lparr>user_values = [], default_values = []\<rparr>,
      d_set_string = (\<lambda>k v d. d\<lparr>user_values := (k, Text v) # user_values d\<rparr>),
      d_set_bool = (\<lambda>k v d. d\<lparr>user_values := (k, Flag v) # user_values d\<rparr>),
      d_set_default_string = (\<lambda>k v d. d\<lparr>default_values := (k, Text v) # default_values d\<rparr>),
      d_set_default_bool = (\<lambda>k v d. d\<lparr>default_values := (k, Flag v) # default_values d\<rparr>),
      d_get_string = (\<lambda>d k. Some (case setting_at d k of Some (Text v) \<Rightarrow> v | _ \<Rightarrow> [])),
      d_get_bool = (\<lambda>d k. case setting_at d k of Some (Flag b) \<Rightarrow> b | _ \<Rightarrow> False),
      d_has_user_value = (\<lambda>d k. map_of (user_values d) k \<noteq> None),
      d_stored = (\<lambda>d. d\<lparr>default_values := []\<rparr>)\<rparr>"

lemma list_api_laws: "obs_data_laws list_api"
  unfolding obs_data_laws_def list_api_def setting_at_def
  by (intro conjI allI impI) (auto split: option.split)

lemma list_api_default_laws: "obs_default_laws list_api"
  unfolding obs_default_laws_def list_api_def setting_at_def
  by (intro conjI allI impI) (simp_all split: option.split)

section \<open>What is promised\<close>

text \<open>
  Saving the receiver's settings and loading the file gives every setting back, the ones that
  default to on included; only an empty name becomes the default name.
\<close>

theorem settings_survive_a_restart:
  assumes "obs_data_laws A"
  shows "module_settings_load A (module_settings_save A True s file) =
    (s\<lparr>s_server_name := if s_server_name s = [] then ''OBS AirPlay'' else s_server_name s\<rparr>, True)"
  unfolding module_settings_save_def using saved_settings_load [OF assms] by simp

theorem settings_survive_a_restart_witness:
  "module_settings_load list_api (module_settings_save list_api True
     (default_settings\<lparr>s_server_name := ''Studio'', s_media_sender_only := False\<rparr>) None) =
   (default_settings\<lparr>s_server_name := ''Studio'', s_media_sender_only := False\<rparr>, True)"
  using settings_survive_a_restart [OF list_api_laws, of "default_settings\<lparr>s_server_name := ''Studio'', s_media_sender_only := False\<rparr>" None]
  by simp

end
