(* ===== verification/Plugin_Main.thy ===== *)
theory Plugin_Main
  imports Module_Settings
begin

text \<open>
  \<^verbatim>\<open>src/plugin-main.cpp\<close> and the callbacks of \<^verbatim>\<open>src/airplay-source.cpp\<close>: how an edit in the panel of
  a source becomes the settings of the receiver, of the file and of the other sources, and how a new
  name reaches the Bonjour advertisement. Two threads share the state: the thread OBS calls the plugin
  on (panels, creation of sources, unloading; its calls follow each other) and the debounce thread. A
  thread is its place in the code, and an event is what it does between two places where the other
  thread can see a difference. Times are milliseconds. What libobs, the file system and the receiver
  answer is part of the event; the text of the name error is a parameter (a translated format).
\<close>

section \<open>The state\<close>

text \<open>What \<open>apply_module_runtime\<close> sets. Without a receiver object there is no video policy.\<close>

record runtime =
  r_latency_telemetry :: bool
  r_follow_sender_clock :: bool
  r_allow_insecure_tls :: bool
  r_sender_only :: bool
  r_video_policy :: "(bool \<times> bool) option"
  r_update_checks :: bool

record 'd obs_source =
  src_handle :: nat
  src_id :: "string option"
  src_settings :: 'd

text \<open>What \<open>set_module_settings\<close> holds in its local variables after the critical section.\<close>

record acceptance =
  a_settings :: module_settings
  a_origin :: "nat option"
  a_name_refused :: bool
  a_name_only :: bool
  a_unchanged :: bool

text \<open>Where the thread of OBS is.\<close>

datatype main_place =
    Main_idle
  | Main_schedule acceptance
  | Main_mark acceptance bool
  | Main_save acceptance
  | Main_join
  | Main_unloaded

text \<open>Where the debounce thread is; the numbers are \<open>my_gen\<close>, the string is \<open>my_name\<close>.\<close>

datatype debounce_place =
    Deb_wait
  | Deb_taken nat string
  | Deb_pause nat string nat
  | Deb_apply nat string
  | Deb_flag nat
  | Deb_snapshot nat
  | Deb_save nat module_settings
  | Deb_reset nat
  | Deb_exit

record 'd plugin =
  g_module_settings :: module_settings
  g_module_settings_known :: bool
  g_server_name_error :: string
  g_save_pending :: bool
  g_status_dirty :: bool
  g_server_name :: string
  g_debounce_pending :: string
  g_debounce_gen :: nat
  g_debounce_quit :: bool
  g_runtime :: runtime
  g_file :: "'d option"
  g_sources :: "'d obs_source list"
  g_now :: nat
  main_at :: main_place
  debounce_at :: debounce_place
  h_refused :: "string option"
  h_edited :: nat
  h_bad_write :: bool

text \<open>
  The last three are history: the name whose last re-advertising failed, the time of the last
  scheduling, and whether the last write of the file failed or wrote settings no longer in force. The
  generation counts the edits since the name last settled, far below the range of its 64 bits.
\<close>

section \<open>Settings in force\<close>

definition apply_module_runtime :: "module_settings \<Rightarrow> 'd plugin \<Rightarrow> 'd plugin" where
  "apply_module_runtime settings s =
     s\<lparr>g_runtime := (g_runtime s)
        \<lparr>r_latency_telemetry := s_log_latency_telemetry settings,
         r_follow_sender_clock := s_follow_sender_clock settings,
         r_allow_insecure_tls := s_allow_self_signed_media settings,
         r_sender_only := s_media_sender_only settings,
         r_video_policy := map_option (\<lambda>_. (s_accept_airplay_video settings, s_media_sender_only settings))
                             (r_video_policy (g_runtime s)),
         r_update_checks := s_check_for_updates settings\<rparr>\<rparr>"

text \<open>The error text is cut to the 511 bytes of the buffer; the format takes 63 and the name kept.\<close>

definition name_error :: "(string \<Rightarrow> string) \<Rightarrow> module_settings \<Rightarrow> module_settings \<Rightarrow> string" where
  "name_error fmt wanted current =
     (if length (s_server_name wanted) > kMaxServerNameBytes then take 511 (fmt (s_server_name current)) else [])"

definition accepted_settings :: "module_settings \<Rightarrow> module_settings \<Rightarrow> module_settings" where
  "accepted_settings wanted current =
     (if length (s_server_name wanted) > kMaxServerNameBytes
      then wanted\<lparr>s_server_name := s_server_name current\<rparr> else wanted)"

definition acceptance_of :: "module_settings \<Rightarrow> nat option \<Rightarrow> 'd plugin \<Rightarrow> acceptance" where
  "acceptance_of wanted origin s =
     (let current = g_module_settings s; settings = accepted_settings wanted current
      in \<lparr>a_settings = settings, a_origin = origin,
          a_name_refused = length (s_server_name wanted) > kMaxServerNameBytes,
          a_name_only = g_module_settings_known s \<and>
             same_settings (settings\<lparr>s_server_name := s_server_name current\<rparr>) current,
          a_unchanged = g_module_settings_known s \<and> same_settings settings current\<rparr>)"

definition take_settings :: "(string \<Rightarrow> string) \<Rightarrow> module_settings \<Rightarrow> 'd plugin \<Rightarrow> 'd plugin" where
  "take_settings fmt wanted s =
     (let current = g_module_settings s; error = name_error fmt wanted current;
          settings = accepted_settings wanted current
      in s\<lparr>g_server_name_error := error,
           g_status_dirty := (g_status_dirty s \<or> error \<noteq> g_server_name_error s),
           g_module_settings := (if g_module_settings_known s \<and> same_settings settings current then current else settings),
           g_module_settings_known := True\<rparr>)"

definition set_source :: "nat option \<Rightarrow> ('d \<Rightarrow> 'd) \<Rightarrow> 'd obs_source list \<Rightarrow> 'd obs_source list" where
  "set_source h f = map (\<lambda>c. if Some (src_handle c) = h then c\<lparr>src_settings := f (src_settings c)\<rparr> else c)"

definition give_back_name :: "'d obs_data_api \<Rightarrow> acceptance \<Rightarrow> 'd plugin \<Rightarrow> 'd plugin" where
  "give_back_name A a s =
     (if a_name_refused a
      then s\<lparr>g_sources := set_source (a_origin a) (d_set_string A ''server_name'' (s_server_name (a_settings a))) (g_sources s)\<rparr>
      else s)"

text \<open>
  \<open>set_module_settings\<close> up to the call of \<open>update_server_name\<close>; only the critical section touches
  what the other thread reads.
\<close>

definition set_module_settings :: "'d obs_data_api \<Rightarrow> (string \<Rightarrow> string) \<Rightarrow> module_settings \<Rightarrow> nat option \<Rightarrow> 'd plugin \<Rightarrow> 'd plugin" where
  "set_module_settings A fmt wanted origin s =
     (let a = acceptance_of wanted origin s; s1 = give_back_name A a (take_settings fmt wanted s)
      in if a_unchanged a then s1
         else (if a_name_only a then s1 else apply_module_runtime (a_settings a) s1)\<lparr>main_at := Main_schedule a\<rparr>)"

section \<open>Names\<close>

definition kNameDebounce :: nat where "kNameDebounce = 800"

definition update_server_name :: "string \<Rightarrow> 'd plugin \<Rightarrow> bool \<times> 'd plugin" where
  "update_server_name new_name s =
     (let resolved = (if new_name = [] then ''OBS AirPlay'' else new_name)
      in if resolved = (if g_debounce_gen s \<noteq> 0 then g_debounce_pending s else g_server_name s) then (False, s)
         else (True, s\<lparr>g_debounce_pending := resolved, g_debounce_gen := g_debounce_gen s + 1, h_edited := g_now s\<rparr>))"

text \<open>\<open>renamed\<close> is what the receiver answers to \<open>updateServerName\<close>.\<close>

definition apply_server_name :: "bool \<Rightarrow> string \<Rightarrow> 'd plugin \<Rightarrow> 'd plugin" where
  "apply_server_name renamed name s =
     (if name = g_server_name s then s
      else if r_video_policy (g_runtime s) \<noteq> None \<and> \<not> renamed
      then s\<lparr>g_status_dirty := True, h_refused := Some name\<rparr>
      else s\<lparr>g_server_name := name, h_refused := None\<rparr>)"

definition write_file :: "'d obs_data_api \<Rightarrow> bool \<Rightarrow> module_settings \<Rightarrow> 'd plugin \<Rightarrow> 'd plugin" where
  "write_file A saved settings s =
     s\<lparr>g_file := module_settings_save A saved settings (g_file s),
       h_bad_write := (\<not> saved \<or> settings \<noteq> g_module_settings s)\<rparr>"

text \<open>A turn of \<open>name_debounce_thread_func\<close>, one place at a time.\<close>

fun debounce_turn :: "'d obs_data_api \<Rightarrow> bool \<Rightarrow> bool \<Rightarrow> debounce_place \<Rightarrow> 'd plugin \<Rightarrow> 'd plugin" where
  "debounce_turn A renamed saved Deb_wait s =
     (if g_debounce_quit s then s\<lparr>debounce_at := Deb_exit\<rparr>
      else if g_debounce_gen s > 0 then s\<lparr>debounce_at := Deb_taken (g_debounce_gen s) (g_debounce_pending s)\<rparr> else s)"
| "debounce_turn A renamed saved (Deb_taken g name) s = s\<lparr>debounce_at := Deb_pause g name (g_now s)\<rparr>"
| "debounce_turn A renamed saved (Deb_pause g name since) s =
     (if g_debounce_quit s then s\<lparr>debounce_at := Deb_exit\<rparr>
      else if g_debounce_gen s \<noteq> g then s\<lparr>debounce_at := Deb_wait\<rparr>
      else if since + kNameDebounce \<le> g_now s then s\<lparr>debounce_at := Deb_apply g name\<rparr> else s)"
| "debounce_turn A renamed saved (Deb_apply g name) s = (apply_server_name renamed name s)\<lparr>debounce_at := Deb_flag g\<rparr>"
| "debounce_turn A renamed saved (Deb_flag g) s =
     s\<lparr>g_save_pending := False, debounce_at := if g_save_pending s then Deb_snapshot g else Deb_reset g\<rparr>"
| "debounce_turn A renamed saved (Deb_snapshot g) s = s\<lparr>debounce_at := Deb_save g (g_module_settings s)\<rparr>"
| "debounce_turn A renamed saved (Deb_save g settings) s = (write_file A saved settings s)\<lparr>debounce_at := Deb_reset g\<rparr>"
| "debounce_turn A renamed saved (Deb_reset g) s =
     s\<lparr>g_debounce_gen := if g_debounce_gen s = g then 0 else g_debounce_gen s, debounce_at := Deb_wait\<rparr>"
| "debounce_turn A renamed saved Deb_exit s = s"

section \<open>Sources\<close>

definition airplay :: "'d obs_source \<Rightarrow> bool" where
  "airplay c \<longleftrightarrow> src_id c = Some ''airplay_source''"

definition show_in_source :: "'d obs_data_api \<Rightarrow> module_settings \<Rightarrow> nat option \<Rightarrow> 'd obs_source \<Rightarrow> 'd obs_source" where
  "show_in_source A settings except c =
     (if Some (src_handle c) \<noteq> except \<and> airplay c
      then c\<lparr>src_settings := write_module_settings A settings (src_settings c)\<rparr> else c)"

definition show_module_settings_in_sources :: "'d obs_data_api \<Rightarrow> module_settings \<Rightarrow> nat option \<Rightarrow> 'd plugin \<Rightarrow> 'd plugin" where
  "show_module_settings_in_sources A settings except s = s\<lparr>g_sources := map (show_in_source A settings except) (g_sources s)\<rparr>"

text \<open>The rest of \<open>set_module_settings\<close>; in \<open>Main_join\<close> the thread of OBS waits in \<open>obs_module_unload\<close>.\<close>

fun main_turn :: "'d obs_data_api \<Rightarrow> bool \<Rightarrow> main_place \<Rightarrow> 'd plugin \<Rightarrow> 'd plugin" where
  "main_turn A saved (Main_schedule a) s =
     (case update_server_name (s_server_name (a_settings a)) s of (scheduled, s') \<Rightarrow> s'\<lparr>main_at := Main_mark a scheduled\<rparr>)"
| "main_turn A saved (Main_mark a scheduled) s =
     (if a_name_only a \<and> scheduled
      then (show_module_settings_in_sources A (a_settings a) (a_origin a) (s\<lparr>g_save_pending := True\<rparr>))\<lparr>main_at := Main_idle\<rparr>
      else s\<lparr>g_save_pending := False, main_at := Main_save a\<rparr>)"
| "main_turn A saved (Main_save a) s =
     (show_module_settings_in_sources A (a_settings a) (a_origin a) (write_file A saved (a_settings a) s))\<lparr>main_at := Main_idle\<rparr>"
| "main_turn A saved Main_join s =
     (if debounce_at s = Deb_exit
      then (if g_save_pending s then write_file A saved (g_module_settings s) s else s)\<lparr>g_save_pending := False, main_at := Main_unloaded\<rparr>
      else s)"
| "main_turn A saved _ s = s"

definition adopt_or_show_module_settings :: "'d obs_data_api \<Rightarrow> (string \<Rightarrow> string) \<Rightarrow> nat \<Rightarrow> 'd \<Rightarrow> 'd plugin \<Rightarrow> 'd plugin" where
  "adopt_or_show_module_settings A fmt h d s =
     (if g_module_settings_known s
      then s\<lparr>g_sources := set_source (Some h) (write_module_settings A (g_module_settings s)) (g_sources s)\<rparr>
      else set_module_settings A fmt (read_source_settings A d) (Some h) s)"

definition airplay_source_create :: "'d obs_data_api \<Rightarrow> (string \<Rightarrow> string) \<Rightarrow> nat \<Rightarrow> 'd \<Rightarrow> 'd plugin \<Rightarrow> 'd plugin" where
  "airplay_source_create A fmt h d s =
     adopt_or_show_module_settings A fmt h d
       (s\<lparr>g_sources := \<lparr>src_handle = h, src_id = Some ''airplay_source'', src_settings = d\<rparr> # g_sources s\<rparr>)"

text \<open>OBS has put the edit into the settings of the source when it calls this.\<close>

definition airplay_source_update :: "'d obs_data_api \<Rightarrow> (string \<Rightarrow> string) \<Rightarrow> nat \<Rightarrow> 'd \<Rightarrow> 'd plugin \<Rightarrow> 'd plugin" where
  "airplay_source_update A fmt h d s = set_module_settings A fmt (read_source_settings A d) (Some h) s"

definition edit_source :: "'d obs_data_api \<Rightarrow> (string \<Rightarrow> string) \<Rightarrow> nat \<Rightarrow> ('d \<Rightarrow> 'd) \<Rightarrow> 'd plugin \<Rightarrow> 'd plugin" where
  "edit_source A fmt h f s =
     (case filter (\<lambda>c. src_handle c = h \<and> airplay c) (g_sources s) of
        [] \<Rightarrow> s
      | c # _ \<Rightarrow> airplay_source_update A fmt h (f (src_settings c)) (s\<lparr>g_sources := set_source (Some h) f (g_sources s)\<rparr>))"

definition reset_server_name_clicked :: "'d obs_data_api \<Rightarrow> (string \<Rightarrow> string) \<Rightarrow> nat \<Rightarrow> 'd plugin \<Rightarrow> 'd plugin" where
  "reset_server_name_clicked A fmt h s = edit_source A fmt h (d_set_string A ''server_name'' ''OBS AirPlay'') s"

section \<open>The two threads together\<close>

text \<open>
  \<open>Edit\<close> is OBS changing the settings of a source for the user; \<open>Other_source\<close> a source of another
  plugin. OBS calls the plugin only while no call of it is under way.
\<close>

datatype 'd plugin_event =
    Create nat 'd
  | Destroy nat
  | Other_source nat "string option" 'd
  | Edit nat "'d \<Rightarrow> 'd"
  | Reset_name nat
  | Unload
  | Main bool
  | Debounce bool bool
  | Tick nat

definition fresh :: "nat \<Rightarrow> 'd plugin \<Rightarrow> bool" where
  "fresh h s \<longleftrightarrow> h \<notin> src_handle ` set (g_sources s)"

fun plugin_do :: "'d obs_data_api \<Rightarrow> (string \<Rightarrow> string) \<Rightarrow> 'd plugin \<Rightarrow> 'd plugin_event \<Rightarrow> 'd plugin" where
  "plugin_do A fmt s (Create h d) = (if main_at s = Main_idle \<and> fresh h s then airplay_source_create A fmt h d s else s)"
| "plugin_do A fmt s (Destroy h) =
     (if main_at s = Main_idle then s\<lparr>g_sources := filter (\<lambda>c. src_handle c \<noteq> h) (g_sources s)\<rparr> else s)"
| "plugin_do A fmt s (Other_source h i d) =
     (if main_at s = Main_idle \<and> fresh h s \<and> i \<noteq> Some ''airplay_source''
      then s\<lparr>g_sources := \<lparr>src_handle = h, src_id = i, src_settings = d\<rparr> # g_sources s\<rparr> else s)"
| "plugin_do A fmt s (Edit h f) = (if main_at s = Main_idle then edit_source A fmt h f s else s)"
| "plugin_do A fmt s (Reset_name h) = (if main_at s = Main_idle then reset_server_name_clicked A fmt h s else s)"
| "plugin_do A fmt s Unload = (if main_at s = Main_idle then s\<lparr>g_debounce_quit := True, main_at := Main_join\<rparr> else s)"
| "plugin_do A fmt s (Main saved) = main_turn A saved (main_at s) s"
| "plugin_do A fmt s (Debounce renamed saved) = debounce_turn A renamed saved (debounce_at s) s"
| "plugin_do A fmt s (Tick n) = s\<lparr>g_now := g_now s + n\<rparr>"

definition plugin_step :: "'d obs_data_api \<Rightarrow> (string \<Rightarrow> string) \<Rightarrow> 'd plugin \<Rightarrow> 'd plugin_event \<Rightarrow> 'd plugin \<times> unit" where
  "plugin_step A fmt s e = (plugin_do A fmt s e, ())"

text \<open>
  The globals before the module is loaded, \<open>load_saved_settings\<close>, and the state once the module is
  loaded; \<open>receiver\<close> is whether the receiver object could be made.
\<close>

definition plugin_new :: "'d option \<Rightarrow> 'd plugin" where
  "plugin_new file =
     \<lparr>g_module_settings = default_settings, g_module_settings_known = False, g_server_name_error = [],
      g_save_pending = False, g_status_dirty = False, g_server_name = ''OBS AirPlay'',
      g_debounce_pending = [], g_debounce_gen = 0, g_debounce_quit = False,
      g_runtime = \<lparr>r_latency_telemetry = False, r_follow_sender_clock = False, r_allow_insecure_tls = False,
                   r_sender_only = True, r_video_policy = None, r_update_checks = True\<rparr>,
      g_file = file, g_sources = [], g_now = 0, main_at = Main_idle, debounce_at = Deb_wait,
      h_refused = None, h_edited = 0, h_bad_write = False\<rparr>"

definition load_saved_settings :: "'d obs_data_api \<Rightarrow> 'd plugin \<Rightarrow> 'd plugin" where
  "load_saved_settings A s =
     (case module_settings_load A (g_file s) of (settings, found) \<Rightarrow>
        apply_module_runtime settings
          (s\<lparr>g_module_settings := settings, g_module_settings_known := found, g_server_name := s_server_name settings\<rparr>))"

definition plugin_loaded :: "'d obs_data_api \<Rightarrow> bool \<Rightarrow> 'd option \<Rightarrow> 'd plugin" where
  "plugin_loaded A receiver file =
     (let s = load_saved_settings A (plugin_new file); settings = g_module_settings s
      in if receiver
         then s\<lparr>g_runtime := (g_runtime s)\<lparr>r_video_policy := Some (s_accept_airplay_video settings, s_media_sender_only settings)\<rparr>\<rparr>
         else s)"

end
