(* ===== verification/Airplay_Source.thy ===== *)
theory Airplay_Source
  imports Plugin_Main Uxplay_Lifecycle Airplay_Server
begin

text \<open>
  The rest of \<^verbatim>\<open>src/airplay-source.cpp\<close>: registration of a source with the server, the state lines of
  the panel, its controls, the box of advanced options and the report of the first frame. How an edit is
  handled is \<open>Plugin_Main\<close>. Translated texts are parameters; the buffers of the formatted lines are 256
  and 512 bytes. Labels and tooltips are left out.
\<close>

section \<open>Registration\<close>

text \<open>Without a server (it could not be made, or the module is unloading) nothing is registered.\<close>

definition airplay_source_new :: "('w, 'p, 'f) env \<Rightarrow> source \<Rightarrow> 'p server option \<Rightarrow> 'p server option" where
  "airplay_source_new E src = map_option (registerSource E src)"

definition airplay_source_delete :: "('w, 'p, 'f) env \<Rightarrow> 'w \<Rightarrow> source \<Rightarrow> 'p server option \<Rightarrow> 'p server option" where
  "airplay_source_delete E w src = map_option (unregisterSource E w src)"

lemma remove_added_source:
  assumes "\<forall>x \<in> set ws. f x \<noteq> Some src" and "f y = Some src"
  shows "remove_source f src (ws @ [y]) = ws"
  using assms by (induction ws) simp_all

text \<open>A source that is created and destroyed leaves the other registrations as they were.\<close>

lemma created_and_destroyed:
  assumes "e_source E w (e_weak E src) = Some src" and "\<forall>s \<in> set_option srv. src \<notin> set (live_sources E w s)"
  shows "airplay_source_delete E w src (airplay_source_new E src srv) = srv"
proof (cases srv)
  case (Some s)
  have "src \<in> set (live_sources E w s)" if "x \<in> set (m_registered_sources s)" "e_source E w x = Some src" for x
    using that by (auto simp: live_sources_def List.map_filter_def intro: image_eqI [of _ _ x])
  then have "\<forall>x \<in> set (m_registered_sources s). e_source E w x \<noteq> Some src" using assms(2) Some by auto
  then show ?thesis using Some remove_added_source [of "m_registered_sources s" "e_source E w" src "e_weak E src"] assms(1)
    by (simp add: airplay_source_new_def airplay_source_delete_def registerSource_def unregisterSource_def)
qed (simp add: airplay_source_new_def airplay_source_delete_def)

section \<open>The panel\<close>

record panel_text =
  pt_status :: "summary \<Rightarrow> int \<Rightarrow> string"
  pt_not_running :: string
  pt_see_log :: string
  pt_refused :: "string \<Rightarrow> string"

definition on_new_line :: "string \<Rightarrow> string" where
  "on_new_line t = (if t = [] then [] else CHR 0x0A # t)"

definition running_line :: "panel_text \<Rightarrow> receiver option \<Rightarrow> string" where
  "running_line T r =
     (case r of
        Some x \<Rightarrow> (if m_running x then take 255 (pt_status T (connectionState (r_session x)) (m_actual_port x)) else pt_not_running T)
      | None \<Rightarrow> pt_not_running T)"

definition error_line :: "panel_text \<Rightarrow> receiver option \<Rightarrow> string" where
  "error_line T r =
     (case r of
        Some x \<Rightarrow> (if m_last_error (r_session x) \<noteq> [] then on_new_line (m_last_error (r_session x))
                   else if m_running x then [] else CHR 0x0A # pt_see_log T)
      | None \<Rightarrow> CHR 0x0A # pt_see_log T)"

definition refusal_of :: "receiver option \<Rightarrow> string" where
  "refusal_of r = (case r of Some x \<Rightarrow> m_last_refusal (r_session x) | None \<Rightarrow> [])"

definition server_info :: "panel_text \<Rightarrow> receiver option \<Rightarrow> string \<Rightarrow> string" where
  "server_info T r refused_name =
     running_line T r @ error_line T r @ on_new_line refused_name @
     (if refusal_of r = [] then [] else CHR 0x0A # take 511 (pt_refused T (refusal_of r)))"

definition shows_warning :: "receiver option \<Rightarrow> string \<Rightarrow> bool" where
  "shows_warning r refused_name \<longleftrightarrow>
     (case r of Some x \<Rightarrow> m_last_error (r_session x) \<noteq> [] | None \<Rightarrow> False) \<or> refused_name \<noteq> [] \<or> refusal_of r \<noteq> []"

text \<open>Whatever goes wrong is in the panel, and nothing is a warning while all is well.\<close>

lemma healthy_panel:
  assumes "m_running x" and "\<not> shows_warning (Some x) refused_name"
  shows "server_info T (Some x) refused_name = take 255 (pt_status T (connectionState (r_session x)) (m_actual_port x))"
  using assms by (auto simp: server_info_def shows_warning_def running_line_def error_line_def on_new_line_def)

definition kAdvancedProperties :: "string list" where
  "kAdvancedProperties =
     [''follow_sender_clock'', ''allow_self_signed_media'', ''log_latency_telemetry'', ''check_for_updates'', ''airplay_video'']"

definition advanced_modified :: "'d obs_data_api \<Rightarrow> 'd \<Rightarrow> (string \<Rightarrow> bool) \<Rightarrow> string \<Rightarrow> bool" where
  "advanced_modified A d visible name =
     (if name \<in> set kAdvancedProperties then d_get_bool A d ''show_advanced'' else visible name)"

section \<open>The first frame\<close>

definition airplay_source_notify_frame_queued :: "u64 \<Rightarrow> u64 \<Rightarrow> u64" where
  "airplay_source_notify_frame_queued queued_ns g_first_frame_queued_ns = queued_ns"

text \<open>The delay that is logged, if any, and the new value of the global.\<close>

definition airplay_source_video_tick :: "bool \<Rightarrow> u32 \<Rightarrow> u32 \<Rightarrow> u64 \<Rightarrow> u64 \<Rightarrow> u64 option \<times> u64" where
  "airplay_source_video_tick have_source width height now queued_ns =
     (if queued_ns = 0 \<or> \<not> have_source \<or> width = 0 \<or> height = 0 then (None, queued_ns)
      else (Some (if now \<ge> queued_ns then now - queued_ns else 0), 0))"

lemma first_frame_is_reported_once:
  assumes "airplay_source_video_tick b w h now q = (Some delay, q')"
  shows "airplay_source_video_tick b' w' h' now' q' = (None, q')"
  using assms by (auto simp: airplay_source_video_tick_def split: if_splits)

section \<open>The controls of the panel\<close>

text \<open>
  The properties OBS draws, by their keys: boxes for text, ticks and choices are edited by the user, lines
  only inform (one of them as a warning), and a group can have a tick of its own, stored under its key.
\<close>

datatype control =
    Text_box string
  | Tick_box string
  | Choice string "string list"
  | Push_button string
  | Info_line string string bool
  | Box string bool "control list"

definition airplay_source_get_properties :: "panel_text \<Rightarrow> string \<Rightarrow> string \<Rightarrow> receiver option \<Rightarrow> string \<Rightarrow> control list" where
  "airplay_source_get_properties T info version r refused_name =
     [Box ''receiver'' False
        [Text_box ''server_name'', Push_button ''reset_server_name'', Info_line ''info'' info False,
         Info_line ''server_info'' (server_info T r refused_name) (shows_warning r refused_name),
         Info_line ''plugin_version'' version False],
      Box ''show_advanced'' True
        [Tick_box ''follow_sender_clock'', Tick_box ''allow_self_signed_media'', Tick_box ''log_latency_telemetry'',
         Tick_box ''check_for_updates'', Choice ''airplay_video'' [''off'', ''sender'', ''anywhere'']]]"

text \<open>What a user can do to a control, and to the panel.\<close>

datatype entry = Typed string | Ticked bool

fun edit_control :: "'d obs_data_api \<Rightarrow> string \<Rightarrow> entry \<Rightarrow> control \<Rightarrow> 'd \<Rightarrow> 'd" where
  "edit_control A key (Typed v) (Text_box k) d = (if k = key then d_set_string A k v d else d)"
| "edit_control A key (Ticked b) (Tick_box k) d = (if k = key then d_set_bool A k b d else d)"
| "edit_control A key (Typed v) (Choice k options) d = (if k = key \<and> v \<in> set options then d_set_string A k v d else d)"
| "edit_control A key e (Box k ticked cs) d =
     (if ticked \<and> k = key then (case e of Ticked b \<Rightarrow> d_set_bool A k b d | Typed v \<Rightarrow> d) else fold (edit_control A key e) cs d)"
| "edit_control A key e c d = d"

definition edit_panel :: "'d obs_data_api \<Rightarrow> control list \<Rightarrow> string \<times> entry \<Rightarrow> 'd \<Rightarrow> 'd" where
  "edit_panel A panel e = fold (edit_control A (fst e) (snd e)) panel"

text \<open>The names in the group are those the box shows and hides.\<close>

fun key_of :: "control \<Rightarrow> string" where
  "key_of (Text_box k) = k"
| "key_of (Tick_box k) = k"
| "key_of (Choice k options) = k"
| "key_of (Push_button k) = k"
| "key_of (Info_line k t warns) = k"
| "key_of (Box k ticked cs) = k"

lemma advanced_box_lists_its_controls:
  "\<exists>cs. Box ''show_advanced'' True cs \<in> set (airplay_source_get_properties T info version r refused_name) \<and>
     set (map key_of cs) = set kAdvancedProperties"
  by (auto simp: airplay_source_get_properties_def kAdvancedProperties_def)

text \<open>
  Every setting the receiver can have can be made in the panel, whatever it shows now: the settings whose
  name is not empty (and which do not say ``only from the sender'' with AirPlay video off, which is one
  choice).
\<close>

definition entries_for :: "module_settings \<Rightarrow> (string \<times> entry) list" where
  "entries_for s =
     [(''server_name'', Typed (s_server_name s)), (''follow_sender_clock'', Ticked (s_follow_sender_clock s)),
      (''log_latency_telemetry'', Ticked (s_log_latency_telemetry s)),
      (''allow_self_signed_media'', Ticked (s_allow_self_signed_media s)),
      (''airplay_video'', Typed (video_choice s)), (''check_for_updates'', Ticked (s_check_for_updates s))]"

lemma panel_makes_every_setting:
  assumes "obs_data_laws A" "s_server_name s \<noteq> []" "s_accept_airplay_video s \<or> \<not> s_media_sender_only s"
  shows "read_source_settings A (fold (edit_panel A (airplay_source_get_properties T info version r refused_name)) (entries_for s) d) = s"
proof -
  have "fold (edit_panel A (airplay_source_get_properties T info version r refused_name)) (entries_for s) d = write_module_settings A s d"
    by (simp add: entries_for_def edit_panel_def airplay_source_get_properties_def write_module_settings_def video_choice_def)
  moreover have "as_shown s = s" using assms(2,3) by (auto simp: as_shown_def)
  ultimately show ?thesis using read_written_settings [OF assms(1)] by simp
qed

end
