(* ===== verification/Plugin_Settings.thy ===== *)
theory Plugin_Settings
  imports Plugin_Main
begin

text \<open>
  What the edits of \<open>Plugin_Main\<close> keep in every interleaving of the thread of OBS and the debounce
  thread: the running switches, the newest name, the settings file and the panels of the sources
  follow the settings in force (\<open>plugin_ok\<close>), and the debounce thread comes to rest (\<open>turns_left\<close>).
\<close>

section \<open>What holds between the steps\<close>

definition runtime_of :: "module_settings \<Rightarrow> bool \<Rightarrow> runtime" where
  "runtime_of x receiver =
     \<lparr>r_latency_telemetry = s_log_latency_telemetry x, r_follow_sender_clock = s_follow_sender_clock x,
      r_allow_insecure_tls = s_allow_self_signed_media x, r_sender_only = s_media_sender_only x,
      r_video_policy = (if receiver then Some (s_accept_airplay_video x, s_media_sender_only x) else None),
      r_update_checks = s_check_for_updates x\<rparr>"

definition runtime_ok :: "bool \<Rightarrow> 'd plugin \<Rightarrow> bool" where
  "runtime_ok receiver s \<longleftrightarrow> g_runtime s = runtime_of (g_module_settings s) receiver"

fun accepted_at :: "main_place \<Rightarrow> acceptance list" where
  "accepted_at (Main_schedule a) = [a]"
| "accepted_at (Main_mark a scheduled) = [a]"
| "accepted_at (Main_save a) = [a]"
| "accepted_at _ = []"

fun scheduling :: "main_place \<Rightarrow> bool" where
  "scheduling (Main_schedule a) = True"
| "scheduling _ = False"

definition name_applied :: "string \<Rightarrow> 'd plugin \<Rightarrow> bool" where
  "name_applied name s \<longleftrightarrow> g_server_name s = name \<or> h_refused s = Some name"

fun debounce_ok :: "debounce_place \<Rightarrow> 'd plugin \<Rightarrow> bool" where
  "debounce_ok (Deb_taken g name) s \<longleftrightarrow> 0 < g \<and> (g = g_debounce_gen s \<longrightarrow> name = g_debounce_pending s)"
| "debounce_ok (Deb_pause g name since) s \<longleftrightarrow>
     0 < g \<and> (g = g_debounce_gen s \<longrightarrow> name = g_debounce_pending s \<and> h_edited s \<le> since) \<and> since \<le> g_now s"
| "debounce_ok (Deb_apply g name) s \<longleftrightarrow>
     0 < g \<and> (g = g_debounce_gen s \<longrightarrow> name = g_debounce_pending s \<and> h_edited s + kNameDebounce \<le> g_now s)"
| "debounce_ok (Deb_flag g) s \<longleftrightarrow> 0 < g \<and> (g = g_debounce_gen s \<longrightarrow> name_applied (g_debounce_pending s) s)"
| "debounce_ok (Deb_snapshot g) s \<longleftrightarrow> 0 < g \<and> (g = g_debounce_gen s \<longrightarrow> name_applied (g_debounce_pending s) s)"
| "debounce_ok (Deb_save g x) s \<longleftrightarrow> 0 < g \<and> (g = g_debounce_gen s \<longrightarrow> name_applied (g_debounce_pending s) s)"
| "debounce_ok (Deb_reset g) s \<longleftrightarrow> 0 < g \<and> (g = g_debounce_gen s \<longrightarrow> name_applied (g_debounce_pending s) s)"
| "debounce_ok _ s \<longleftrightarrow> True"

fun taken_gen :: "debounce_place \<Rightarrow> nat" where
  "taken_gen (Deb_taken g name) = g"
| "taken_gen (Deb_pause g name since) = g"
| "taken_gen (Deb_apply g name) = g"
| "taken_gen (Deb_flag g) = g"
| "taken_gen (Deb_snapshot g) = g"
| "taken_gen (Deb_save g x) = g"
| "taken_gen (Deb_reset g) = g"
| "taken_gen _ = 0"

definition names_ok :: "'d plugin \<Rightarrow> bool" where
  "names_ok s \<longleftrightarrow>
     s_server_name (g_module_settings s) \<noteq> [] \<and>
     list_all (\<lambda>a. a_settings a = g_module_settings s) (accepted_at (main_at s)) \<and>
     (0 < g_debounce_gen s \<and> \<not> scheduling (main_at s) \<longrightarrow> g_debounce_pending s = s_server_name (g_module_settings s)) \<and>
     (g_debounce_gen s = 0 \<and> \<not> scheduling (main_at s) \<longrightarrow> name_applied (s_server_name (g_module_settings s)) s) \<and>
     h_edited s \<le> g_now s \<and> taken_gen (debounce_at s) \<le> g_debounce_gen s \<and> debounce_ok (debounce_at s) s"

fun about_to_save :: "debounce_place \<Rightarrow> module_settings \<Rightarrow> bool" where
  "about_to_save (Deb_snapshot g) x \<longleftrightarrow> True"
| "about_to_save (Deb_save g y) x \<longleftrightarrow> y = x"
| "about_to_save _ x \<longleftrightarrow> False"

definition file_current :: "'d obs_data_api \<Rightarrow> 'd plugin \<Rightarrow> bool" where
  "file_current A s \<longleftrightarrow> fst (module_settings_load A (g_file s)) = g_module_settings s"

definition file_ok :: "'d obs_data_api \<Rightarrow> 'd plugin \<Rightarrow> bool" where
  "file_ok A s \<longleftrightarrow>
     (\<not> h_bad_write s \<and> accepted_at (main_at s) = [] \<longrightarrow>
        file_current A s \<or> g_save_pending s \<or> about_to_save (debounce_at s) (g_module_settings s)) \<and>
     (main_at s = Main_unloaded \<longrightarrow> debounce_at s = Deb_exit \<and> \<not> g_save_pending s)"

definition displays :: "'d obs_data_api \<Rightarrow> module_settings \<Rightarrow> 'd obs_source \<Rightarrow> bool" where
  "displays A x c \<longleftrightarrow> read_source_settings A (src_settings c) = as_shown x"

definition sources_ok :: "'d obs_data_api \<Rightarrow> 'd plugin \<Rightarrow> bool" where
  "sources_ok A s \<longleftrightarrow>
     (\<forall>c \<in> set (g_sources s). airplay c \<longrightarrow>
        g_module_settings_known s \<and>
        (list_all (\<lambda>a. Some (src_handle c) = a_origin a) (accepted_at (main_at s)) \<longrightarrow> displays A (g_module_settings s) c))"

definition plugin_ok :: "'d obs_data_api \<Rightarrow> bool \<Rightarrow> 'd plugin \<Rightarrow> bool" where
  "plugin_ok A receiver s \<longleftrightarrow> runtime_ok receiver s \<and> names_ok s \<and> file_ok A s \<and> sources_ok A s"

subsection \<open>The debounce thread\<close>

lemma debounce_turn_frame:
  "g_module_settings (debounce_turn A renamed saved p s) = g_module_settings s \<and>
   g_module_settings_known (debounce_turn A renamed saved p s) = g_module_settings_known s \<and>
   g_runtime (debounce_turn A renamed saved p s) = g_runtime s \<and>
   g_sources (debounce_turn A renamed saved p s) = g_sources s \<and>
   main_at (debounce_turn A renamed saved p s) = main_at s \<and>
   g_now (debounce_turn A renamed saved p s) = g_now s \<and>
   h_edited (debounce_turn A renamed saved p s) = h_edited s \<and>
   g_debounce_pending (debounce_turn A renamed saved p s) = g_debounce_pending s"
  by (cases p) (simp_all add: apply_server_name_def write_file_def)

lemma apply_server_name_applied: "name_applied name (apply_server_name renamed name s)"
  by (simp add: name_applied_def apply_server_name_def)

lemma apply_server_name_frame:
  "g_module_settings (apply_server_name renamed name s) = g_module_settings s"
  "main_at (apply_server_name renamed name s) = main_at s"
  "g_debounce_gen (apply_server_name renamed name s) = g_debounce_gen s"
  "g_debounce_pending (apply_server_name renamed name s) = g_debounce_pending s"
  "h_edited (apply_server_name renamed name s) = h_edited s"
  "g_now (apply_server_name renamed name s) = g_now s"
  by (simp_all add: apply_server_name_def)

lemma debounce_turn_names:
  assumes "names_ok s"
  shows "names_ok (debounce_turn A renamed saved (debounce_at s) s)"
proof (cases "debounce_at s")
  case Deb_wait
  then show ?thesis using assms by (auto simp: names_ok_def name_applied_def)
next
  case (Deb_taken g name)
  then show ?thesis using assms by (auto simp: names_ok_def name_applied_def)
next
  case (Deb_pause g name since)
  then show ?thesis using assms by (auto simp: names_ok_def name_applied_def)
next
  case (Deb_apply g name)
  let ?t = "(apply_server_name renamed name s)\<lparr>debounce_at := Deb_flag g\<rparr>"
  have "0 < g" "g \<le> g_debounce_gen s" and n: "g = g_debounce_gen s \<Longrightarrow> name = g_debounce_pending s"
    using assms Deb_apply by (simp_all add: names_ok_def)
  moreover have "name_applied x ((apply_server_name renamed x s)\<lparr>debounce_at := Deb_flag h\<rparr>)" for x h
    using apply_server_name_applied [of x renamed s] by (simp add: name_applied_def)
  ultimately have "debounce_ok (Deb_flag g) ?t" by (simp add: apply_server_name_frame)
  then show ?thesis using assms Deb_apply \<open>0 < g\<close> \<open>g \<le> g_debounce_gen s\<close>
    by (simp add: names_ok_def apply_server_name_frame del: debounce_ok.simps)
next
  case (Deb_flag g)
  then show ?thesis using assms by (auto simp: names_ok_def name_applied_def)
next
  case (Deb_snapshot g)
  then show ?thesis using assms by (auto simp: names_ok_def name_applied_def)
next
  case (Deb_save g x)
  then show ?thesis using assms by (auto simp: names_ok_def name_applied_def write_file_def)
next
  case (Deb_reset g)
  then show ?thesis using assms by (auto simp: names_ok_def name_applied_def)
next
  case Deb_exit
  then show ?thesis using assms by simp
qed

lemma debounce_turn_runtime: "runtime_ok r s \<Longrightarrow> runtime_ok r (debounce_turn A renamed saved p s)"
  using debounce_turn_frame [of A renamed saved p s] by (simp add: runtime_ok_def)

lemma debounce_turn_sources: "sources_ok A s \<Longrightarrow> sources_ok A (debounce_turn A renamed saved p s)"
  using debounce_turn_frame [of A renamed saved p s] by (simp add: sources_ok_def)

lemma file_current_write:
  assumes "obs_data_laws A" and "s_server_name x \<noteq> []"
  shows "file_current A (write_file A True x s) \<longleftrightarrow> x = g_module_settings s"
  using saved_settings_load [OF assms(1), of x] assms(2)
  by (simp add: file_current_def write_file_def module_settings_save_def)

lemma debounce_turn_file:
  assumes "obs_data_laws A" and "names_ok s" and "file_ok A s"
  shows "file_ok A (debounce_turn A renamed saved (debounce_at s) s)"
proof (cases "debounce_at s")
  case (Deb_save g x)
  have "s_server_name (g_module_settings s) \<noteq> []" using assms(2) by (simp add: names_ok_def)
  then have "saved \<Longrightarrow> x = g_module_settings s \<Longrightarrow> file_current A (write_file A saved x s)"
    using file_current_write [OF assms(1)] by simp
  then show ?thesis using assms(3) Deb_save
    by (auto simp: file_ok_def write_file_def file_current_def)
qed (use assms(3) in \<open>auto simp: file_ok_def file_current_def apply_server_name_def\<close>)

subsection \<open>The thread of OBS\<close>

lemma main_turn_frame:
  "g_module_settings (main_turn A saved p s) = g_module_settings s \<and>
   g_module_settings_known (main_turn A saved p s) = g_module_settings_known s \<and>
   g_runtime (main_turn A saved p s) = g_runtime s \<and>
   g_now (main_turn A saved p s) = g_now s \<and>
   debounce_at (main_turn A saved p s) = debounce_at s"
  by (cases p) (simp_all add: update_server_name_def Let_def write_file_def show_module_settings_in_sources_def)

lemma main_turn_runtime: "runtime_ok r s \<Longrightarrow> runtime_ok r (main_turn A saved p s)"
  using main_turn_frame [of A saved p s] by (simp add: runtime_ok_def)

lemma debounce_ok_edit:
  assumes "debounce_ok p s" and "taken_gen p \<le> g_debounce_gen s" and "g < g_debounce_gen t"
    and "g_now t = g_now s" and "g_debounce_gen s = g" 
  shows "debounce_ok p t"
  using assms by (cases p) auto

lemma debounce_ok_same:
  assumes "debounce_ok p s" and "g_debounce_gen t = g_debounce_gen s" and "g_now t = g_now s"
    and "g_debounce_pending t = g_debounce_pending s" and "h_edited t = h_edited s"
    and "g_server_name t = g_server_name s" and "h_refused t = h_refused s"
  shows "debounce_ok p t"
  using assms by (cases p) (auto simp: name_applied_def)

lemma main_turn_names:
  assumes "names_ok s"
  shows "names_ok (main_turn A saved (main_at s) s)"
proof (cases "main_at s")
  case (Main_schedule a)
  let ?n = "s_server_name (g_module_settings s)"
  have a: "a_settings a = g_module_settings s" and n: "?n \<noteq> []"
    using assms Main_schedule by (simp_all add: names_ok_def)
  show ?thesis
  proof (cases "?n = (if g_debounce_gen s \<noteq> 0 then g_debounce_pending s else g_server_name s)")
    case True
    then have "main_turn A saved (main_at s) s = s\<lparr>main_at := Main_mark a False\<rparr>"
      using Main_schedule a n by (simp add: update_server_name_def)
    moreover have "debounce_ok (debounce_at s) (s\<lparr>main_at := Main_mark a False\<rparr>)"
      by (rule debounce_ok_same [of _ s]) (use assms in \<open>simp_all add: names_ok_def\<close>)
    ultimately show ?thesis using assms Main_schedule True a n
      by (auto simp: names_ok_def name_applied_def)
  next
    case False
    let ?t = "s\<lparr>g_debounce_pending := ?n, g_debounce_gen := g_debounce_gen s + 1, h_edited := g_now s, main_at := Main_mark a True\<rparr>"
    have "main_turn A saved (main_at s) s = ?t"
      using Main_schedule a n False by (simp add: update_server_name_def)
    moreover have "debounce_ok (debounce_at s) ?t"
      by (rule debounce_ok_edit [of _ s "g_debounce_gen s"]) (use assms in \<open>simp_all add: names_ok_def\<close>)
    ultimately show ?thesis using assms Main_schedule a n
      by (auto simp: names_ok_def)
  qed
next
  case (Main_mark a scheduled)
  have "debounce_ok (debounce_at s) (main_turn A saved (main_at s) s)"
    by (rule debounce_ok_same [of _ s]) (use assms Main_mark in \<open>simp_all add: names_ok_def show_module_settings_in_sources_def\<close>)
  then show ?thesis using assms Main_mark
    by (auto simp: names_ok_def name_applied_def show_module_settings_in_sources_def)
next
  case (Main_save a)
  have "debounce_ok (debounce_at s) (main_turn A saved (main_at s) s)"
    by (rule debounce_ok_same [of _ s]) (use assms Main_save in \<open>simp_all add: names_ok_def show_module_settings_in_sources_def write_file_def\<close>)
  then show ?thesis using assms Main_save
    by (auto simp: names_ok_def name_applied_def show_module_settings_in_sources_def write_file_def)
next
  case Main_join
  have "debounce_ok (debounce_at s) (main_turn A saved (main_at s) s)"
    by (rule debounce_ok_same [of _ s]) (use assms Main_join in \<open>simp_all add: names_ok_def write_file_def\<close>)
  then show ?thesis using assms Main_join
    by (auto simp: names_ok_def name_applied_def write_file_def)
qed (use assms in simp_all)

lemma main_turn_file:
  assumes "obs_data_laws A" and "names_ok s" and "file_ok A s"
  shows "file_ok A (main_turn A saved (main_at s) s)"
proof -
  have n: "s_server_name (g_module_settings s) \<noteq> []" using assms(2) by (simp add: names_ok_def)
  have w: "saved \<Longrightarrow> file_current A (write_file A saved (g_module_settings s) s)"
    using file_current_write [OF assms(1) n] by simp
  show ?thesis
  proof (cases "main_at s")
    case (Main_save a)
    then have "a_settings a = g_module_settings s" using assms(2) by (simp add: names_ok_def)
    then show ?thesis using Main_save w assms(3)
      by (auto simp: file_ok_def file_current_def write_file_def show_module_settings_in_sources_def)
  next
    case Main_join
    then show ?thesis using w assms(3) by (auto simp: file_ok_def file_current_def write_file_def)
  qed (use assms(3) in \<open>auto simp: file_ok_def file_current_def update_server_name_def Let_def show_module_settings_in_sources_def\<close>)
qed

lemma show_in_source_airplay [simp]: "airplay (show_in_source A x except c) \<longleftrightarrow> airplay c"
  by (simp add: show_in_source_def airplay_def)

lemma show_in_source_handle [simp]: "src_handle (show_in_source A x except c) = src_handle c"
  by (simp add: show_in_source_def)

lemma show_in_source_displays:
  assumes "obs_data_laws A" and "airplay c" and "Some (src_handle c) = except \<longrightarrow> displays A x c"
  shows "displays A x (show_in_source A x except c)"
  using assms(2,3) read_written_settings [OF assms(1)] by (simp add: show_in_source_def displays_def)

lemma main_turn_sources:
  assumes "obs_data_laws A" and "names_ok s" and "sources_ok A s"
  shows "sources_ok A (main_turn A saved (main_at s) s)"
proof -
  have rest: "sources_ok A t"
    if "g_sources t = g_sources (show_module_settings_in_sources A (a_settings a) (a_origin a) s)" and "accepted_at (main_at s) = [a]"
      and "g_module_settings t = g_module_settings s" and "g_module_settings_known t = g_module_settings_known s" for t a
  proof -
    have "a_settings a = g_module_settings s" using assms(2) that(2) by (simp add: names_ok_def)
    then show ?thesis using assms(3) that show_in_source_displays [OF assms(1)]
      by (simp add: sources_ok_def show_module_settings_in_sources_def)
  qed
  show ?thesis
  proof (cases "main_at s")
    case (Main_schedule a)
    then show ?thesis using assms(3) by (simp add: sources_ok_def update_server_name_def Let_def)
  next
    case (Main_mark a scheduled)
    show ?thesis
    proof (cases "a_name_only a \<and> scheduled")
      case True
      then show ?thesis using Main_mark by (intro rest [of _ a]) (simp_all add: show_module_settings_in_sources_def)
    next
      case False
      then show ?thesis using Main_mark assms(3) by (auto simp: sources_ok_def)
    qed
  next
    case (Main_save a)
    then show ?thesis by (intro rest [of _ a]) (simp_all add: show_module_settings_in_sources_def write_file_def)
  next
    case Main_join
    then show ?thesis using assms(3) by (simp add: sources_ok_def write_file_def)
  qed (use assms(3) in simp_all)
qed

subsection \<open>Edits\<close>

lemma accepted_settings_name: "s_server_name (accepted_settings w x) \<noteq> []"
  if "s_server_name w \<noteq> []" and "s_server_name x \<noteq> []"
  using that by (simp add: accepted_settings_def)

lemma take_settings_result:
  "g_module_settings (take_settings fmt w s) = accepted_settings w (g_module_settings s)"
  by (auto simp: take_settings_def Let_def)

lemma take_settings_frame:
  "g_module_settings_known (take_settings fmt w s)" "g_save_pending (take_settings fmt w s) = g_save_pending s"
  "g_server_name (take_settings fmt w s) = g_server_name s" "g_debounce_pending (take_settings fmt w s) = g_debounce_pending s"
  "g_debounce_gen (take_settings fmt w s) = g_debounce_gen s" "g_debounce_quit (take_settings fmt w s) = g_debounce_quit s"
  "g_runtime (take_settings fmt w s) = g_runtime s" "g_file (take_settings fmt w s) = g_file s"
  "g_sources (take_settings fmt w s) = g_sources s" "g_now (take_settings fmt w s) = g_now s"
  "main_at (take_settings fmt w s) = main_at s" "debounce_at (take_settings fmt w s) = debounce_at s"
  "h_refused (take_settings fmt w s) = h_refused s" "h_edited (take_settings fmt w s) = h_edited s"
  "h_bad_write (take_settings fmt w s) = h_bad_write s"
  by (simp_all add: take_settings_def Let_def)

lemma give_back_name_frame:
  "g_module_settings (give_back_name A a s) = g_module_settings s"
  "g_module_settings_known (give_back_name A a s) = g_module_settings_known s" "g_save_pending (give_back_name A a s) = g_save_pending s"
  "g_server_name (give_back_name A a s) = g_server_name s" "g_debounce_pending (give_back_name A a s) = g_debounce_pending s"
  "g_debounce_gen (give_back_name A a s) = g_debounce_gen s" "g_debounce_quit (give_back_name A a s) = g_debounce_quit s"
  "g_runtime (give_back_name A a s) = g_runtime s" "g_file (give_back_name A a s) = g_file s"
  "g_now (give_back_name A a s) = g_now s"
  "main_at (give_back_name A a s) = main_at s" "debounce_at (give_back_name A a s) = debounce_at s"
  "h_refused (give_back_name A a s) = h_refused s" "h_edited (give_back_name A a s) = h_edited s"
  "h_bad_write (give_back_name A a s) = h_bad_write s"
  by (simp_all add: give_back_name_def)

lemma apply_module_runtime_frame:
  "g_module_settings (apply_module_runtime x s) = g_module_settings s"
  "g_module_settings_known (apply_module_runtime x s) = g_module_settings_known s" "g_save_pending (apply_module_runtime x s) = g_save_pending s"
  "g_server_name (apply_module_runtime x s) = g_server_name s" "g_debounce_pending (apply_module_runtime x s) = g_debounce_pending s"
  "g_debounce_gen (apply_module_runtime x s) = g_debounce_gen s" "g_debounce_quit (apply_module_runtime x s) = g_debounce_quit s"
  "g_file (apply_module_runtime x s) = g_file s" "g_sources (apply_module_runtime x s) = g_sources s"
  "g_now (apply_module_runtime x s) = g_now s"
  "main_at (apply_module_runtime x s) = main_at s" "debounce_at (apply_module_runtime x s) = debounce_at s"
  "h_refused (apply_module_runtime x s) = h_refused s" "h_edited (apply_module_runtime x s) = h_edited s"
  "h_bad_write (apply_module_runtime x s) = h_bad_write s"
  by (simp_all add: apply_module_runtime_def)

lemmas edit_frames = take_settings_result take_settings_frame give_back_name_frame apply_module_runtime_frame

lemma apply_module_runtime_ok: "runtime_ok r s \<Longrightarrow> g_runtime (apply_module_runtime x s) = runtime_of x r"
  if "g_runtime s = runtime_of y r"
  using that by (simp add: apply_module_runtime_def runtime_of_def)

lemma set_module_settings_runtime:
  assumes "runtime_ok r s"
  shows "runtime_ok r (set_module_settings A fmt w h s)"
proof -
  let ?x = "accepted_settings w (g_module_settings s)"
  have r: "g_runtime s = runtime_of (g_module_settings s) r" using assms by (simp add: runtime_ok_def)
  have same: "runtime_of ?x r = runtime_of (g_module_settings s) r"
    if "?x\<lparr>s_server_name := s_server_name (g_module_settings s)\<rparr> = g_module_settings s"
  proof -
    have "runtime_of (?x\<lparr>s_server_name := s_server_name (g_module_settings s)\<rparr>) r = runtime_of ?x r"
      by (simp add: runtime_of_def)
    then show ?thesis using that by simp
  qed
  have set: "g_runtime (apply_module_runtime ?x t) = runtime_of ?x r" if "g_runtime t = g_runtime s" for t :: "'a plugin"
    using that r by (simp add: apply_module_runtime_def runtime_of_def)
  show ?thesis
    using r same set
    by (simp add: runtime_ok_def set_module_settings_def acceptance_of_def Let_def edit_frames)
qed

lemma set_module_settings_names:
  assumes "names_ok s" and "main_at s = Main_idle" and "s_server_name w \<noteq> []"
  shows "names_ok (set_module_settings A fmt w h s)"
proof -
  let ?t = "set_module_settings A fmt w h s"
  have n: "s_server_name (g_module_settings s) \<noteq> []" using assms(1) by (simp add: names_ok_def)
  have t: "g_debounce_gen ?t = g_debounce_gen s" "g_now ?t = g_now s" "g_debounce_pending ?t = g_debounce_pending s"
    "h_edited ?t = h_edited s" "g_server_name ?t = g_server_name s" "h_refused ?t = h_refused s" "debounce_at ?t = debounce_at s"
    "g_module_settings ?t = accepted_settings w (g_module_settings s)"
    by (simp_all add: set_module_settings_def Let_def edit_frames)
  have "debounce_ok (debounce_at s) ?t"
    by (rule debounce_ok_same [of _ s]) (use assms(1) t in \<open>simp_all add: names_ok_def\<close>)
  moreover have "main_at ?t = Main_idle \<and> g_module_settings ?t = g_module_settings s \<or>
    (\<exists>a. main_at ?t = Main_schedule a \<and> a_settings a = g_module_settings ?t)"
    using assms(2) t(8) by (simp add: set_module_settings_def Let_def edit_frames acceptance_of_def)
  moreover have "s_server_name (g_module_settings ?t) \<noteq> []"
    using accepted_settings_name [OF assms(3) n] t(8) by simp
  ultimately show ?thesis using assms(1,2) t unfolding names_ok_def
    by (elim disjE exE conjE) (simp_all add: name_applied_def)
qed

lemma set_module_settings_file:
  assumes "file_ok A s" and "main_at s = Main_idle"
  shows "file_ok A (set_module_settings A fmt w h s)"
  using assms
  by (simp add: file_ok_def set_module_settings_def Let_def edit_frames acceptance_of_def file_current_def)

lemma read_settings_sender_only: "s_media_sender_only (read_source_settings A d) \<Longrightarrow> s_accept_airplay_video (read_source_settings A d)"
  by (simp add: read_source_settings_def Let_def)

lemma accepted_settings_shown:
  assumes "w = read_source_settings A d" and "s_server_name x \<noteq> []"
  shows "as_shown (accepted_settings w x) = accepted_settings w x"
proof -
  let ?y = "accepted_settings w x"
  have "s_media_sender_only w \<longrightarrow> s_accept_airplay_video w" "s_server_name w \<noteq> []"
    using assms(1) read_settings_sender_only [of A d] by auto
  then have "s_media_sender_only ?y \<longrightarrow> s_accept_airplay_video ?y" "s_server_name ?y \<noteq> []"
    using assms(2) by (simp_all add: accepted_settings_def)
  then show ?thesis by (cases ?y) (auto simp: as_shown_def)
qed

lemma accepted_source_displays:
  assumes "obs_data_laws A" and "read_source_settings A (src_settings c) = w" and "s_server_name (g_module_settings s) \<noteq> []"
    and "c' = (if length (s_server_name w) > kMaxServerNameBytes
               then c\<lparr>src_settings := d_set_string A ''server_name'' (s_server_name (accepted_settings w (g_module_settings s))) (src_settings c)\<rparr>
               else c)"
  shows "displays A (accepted_settings w (g_module_settings s)) c'"
proof -
  note w = assms(2) [symmetric]
  have "read_source_settings A (src_settings c') = accepted_settings w (g_module_settings s)"
    using assms read_renamed_source [OF assms(1)] by (simp add: accepted_settings_def)
  then show ?thesis using accepted_settings_shown [OF w assms(3)] by (simp add: displays_def)
qed

lemma set_module_settings_source_list:
  "g_sources (set_module_settings A fmt w h s) =
    (if length (s_server_name w) > kMaxServerNameBytes
     then set_source h (d_set_string A ''server_name'' (s_server_name (accepted_settings w (g_module_settings s)))) (g_sources s)
     else g_sources s)"
proof -
  let ?a = "acceptance_of w h s"
  have "g_sources (set_module_settings A fmt w h s) = g_sources (give_back_name A ?a (take_settings fmt w s))"
    by (simp add: set_module_settings_def Let_def edit_frames)
  moreover have "a_origin ?a = h" "a_settings ?a = accepted_settings w (g_module_settings s)"
    "a_name_refused ?a \<longleftrightarrow> length (s_server_name w) > kMaxServerNameBytes"
    by (simp_all add: acceptance_of_def Let_def)
  ultimately show ?thesis by (simp add: give_back_name_def edit_frames)
qed

lemma set_module_settings_sources:
  assumes "obs_data_laws A" and "names_ok s" and "main_at s = Main_idle" and "s_server_name w \<noteq> []"
    and "\<And>c. c \<in> set (g_sources s) \<Longrightarrow> airplay c \<Longrightarrow>
      (if src_handle c = h then read_source_settings A (src_settings c) = w
       else g_module_settings_known s \<and> displays A (g_module_settings s) c)"
  shows "sources_ok A (set_module_settings A fmt w (Some h) s)"
proof -
  let ?x = "accepted_settings w (g_module_settings s)" and ?t = "set_module_settings A fmt w (Some h) s"
  let ?refused = "length (s_server_name w) > kMaxServerNameBytes"
  define give where "give c = (if ?refused \<and> src_handle c = h
    then c\<lparr>src_settings := d_set_string A ''server_name'' (s_server_name ?x) (src_settings c)\<rparr> else c)" for c :: "'a obs_source"
  have n: "s_server_name (g_module_settings s) \<noteq> []" using assms(2) by (simp add: names_ok_def)
  have src: "g_sources ?t = map give (g_sources s)"
  proof (cases ?refused)
    case True
    then have "set_source (Some h) (d_set_string A ''server_name'' (s_server_name ?x)) cs = map give cs" for cs
      by (simp add: set_source_def give_def)
    then show ?thesis using True by (simp add: set_module_settings_source_list)
  next
    case False
    then have "map give cs = cs" for cs by (simp add: give_def map_idI)
    then show ?thesis using False by (simp add: set_module_settings_source_list)
  qed
  have give: "src_handle (give c) = src_handle c" "airplay (give c) = airplay c" for c
    by (simp_all add: give_def airplay_def)
  have set: "g_module_settings ?t = ?x" "g_module_settings_known ?t"
    by (simp_all add: set_module_settings_def Let_def edit_frames)
  have at: "main_at ?t = Main_idle \<and> ?x = g_module_settings s \<or> (\<exists>a. main_at ?t = Main_schedule a \<and> a_origin a = Some h)"
    using assms(3) by (simp add: set_module_settings_def Let_def edit_frames acceptance_of_def)
  have here: "displays A ?x (give c)" if "c \<in> set (g_sources s)" and "airplay c" and "src_handle c = h" for c
    using accepted_source_displays [OF assms(1) _ n, of c w] assms(5) [OF that(1,2)] that(3) by (simp add: give_def)
  have one: "displays A ?x (give c)"
    if "c \<in> set (g_sources s)" and "airplay c" and "src_handle c = h \<or> main_at ?t = Main_idle" for c
  proof (cases "src_handle c = h")
    case True
    then show ?thesis using here that by blast
  next
    case False
    then have "?x = g_module_settings s" using at that(3) by auto
    then show ?thesis using False assms(5) [OF that(1,2)] by (simp add: give_def)
  qed
  have "\<forall>c' \<in> set (g_sources ?t). airplay c' \<and> (src_handle c' = h \<or> main_at ?t = Main_idle) \<longrightarrow> displays A ?x c'"
    using one give by (simp add: src)
  then show ?thesis using at set unfolding sources_ok_def
    by (elim disjE exE conjE) simp_all
qed

lemma plugin_ok_source_change:
  assumes "plugin_ok A r s" and "sources_ok A (s\<lparr>g_sources := cs\<rparr>)"
  shows "plugin_ok A r (s\<lparr>g_sources := cs\<rparr>)"
proof -
  have "names_ok s" using assms(1) by (simp add: plugin_ok_def)
  moreover have "debounce_ok (debounce_at s) (s\<lparr>g_sources := cs\<rparr>)"
    by (rule debounce_ok_same [of _ s]) (use \<open>names_ok s\<close> in \<open>simp_all add: names_ok_def\<close>)
  ultimately show ?thesis using assms
    by (simp add: plugin_ok_def runtime_ok_def names_ok_def file_ok_def file_current_def name_applied_def)
qed

text \<open>An update of a source whose new settings \<open>cs\<close> already hold.\<close>

lemma update_ok:
  assumes A: "obs_data_laws A" and "plugin_ok A r s" and "main_at s = Main_idle" and "w = read_source_settings A d"
    and "\<And>c. c \<in> set cs \<Longrightarrow> airplay c \<Longrightarrow>
      (if src_handle c = h then read_source_settings A (src_settings c) = w
       else g_module_settings_known s \<and> displays A (g_module_settings s) c)"
  shows "plugin_ok A r (set_module_settings A fmt w (Some h) (s\<lparr>g_sources := cs\<rparr>))"
proof -
  let ?s = "s\<lparr>g_sources := cs\<rparr>"
  have "names_ok s" using assms(2) by (simp add: plugin_ok_def)
  moreover have "debounce_ok (debounce_at s) ?s"
    by (rule debounce_ok_same [of _ s]) (use \<open>names_ok s\<close> in \<open>simp_all add: names_ok_def\<close>)
  ultimately have "names_ok ?s" by (simp add: names_ok_def name_applied_def)
  moreover have "runtime_ok r ?s" "file_ok A ?s"
    using assms(2) by (simp_all add: plugin_ok_def runtime_ok_def file_ok_def file_current_def)
  moreover have "main_at ?s = Main_idle" "s_server_name w \<noteq> []" using assms(3,4) by simp_all
  moreover have "sources_ok A (set_module_settings A fmt w (Some h) ?s)"
    by (rule set_module_settings_sources [OF A \<open>names_ok ?s\<close>]) (use calculation assms(5) in simp_all)
  ultimately show ?thesis
    by (simp add: plugin_ok_def set_module_settings_runtime set_module_settings_names set_module_settings_file)
qed

lemma sources_displays:
  assumes "sources_ok A s" and "main_at s = Main_idle" and "c \<in> set (g_sources s)" and "airplay c"
  shows "g_module_settings_known s \<and> displays A (g_module_settings s) c"
  using assms by (simp add: sources_ok_def)

lemma create_ok:
  assumes A: "obs_data_laws A" and "plugin_ok A r s" and "main_at s = Main_idle" and "fresh h s"
  shows "plugin_ok A r (airplay_source_create A fmt h d s)"
proof -
  let ?new = "\<lparr>src_handle = h, src_id = Some ''airplay_source'', src_settings = d\<rparr>"
  let ?cs = "?new # g_sources s"
  have so: "sources_ok A s" using assms(2) by (simp add: plugin_ok_def)
  have other: "c \<in> set (g_sources s) \<Longrightarrow> src_handle c \<noteq> h" for c using assms(4) by (auto simp: fresh_def)
  show ?thesis
  proof (cases "g_module_settings_known s")
    case True
    let ?fs = "set_source (Some h) (write_module_settings A (g_module_settings s)) ?cs"
    have "?fs = ?new\<lparr>src_settings := write_module_settings A (g_module_settings s) d\<rparr> # g_sources s"
      using other by (simp add: set_source_def map_idI)
    then have "sources_ok A (s\<lparr>g_sources := ?fs\<rparr>)"
      using so True read_written_settings [OF A, of "g_module_settings s" d] assms(3) by (simp add: sources_ok_def displays_def)
    then have "plugin_ok A r (s\<lparr>g_sources := ?fs\<rparr>)" by (rule plugin_ok_source_change [OF assms(2)])
    then show ?thesis using True by (simp add: airplay_source_create_def adopt_or_show_module_settings_def)
  next
    case False
    then have "plugin_ok A r (set_module_settings A fmt (read_source_settings A d) (Some h) (s\<lparr>g_sources := ?cs\<rparr>))"
      using sources_displays [OF so assms(3)] other by (intro update_ok [OF A assms(2,3)]) auto
    then show ?thesis using False by (simp add: airplay_source_create_def adopt_or_show_module_settings_def)
  qed
qed

text \<open>Handles are told apart by the sources of the list.\<close>

definition handles_ok :: "'d plugin \<Rightarrow> bool" where
  "handles_ok s \<longleftrightarrow> distinct (map src_handle (g_sources s))"

lemma edit_ok:
  assumes A: "obs_data_laws A" and "plugin_ok A r s" and "main_at s = Main_idle" and "handles_ok s"
  shows "plugin_ok A r (edit_source A fmt h f s)"
proof (cases "filter (\<lambda>c. src_handle c = h \<and> airplay c) (g_sources s)")
  case Nil
  then show ?thesis using assms(2) by (simp add: edit_source_def)
next
  case (Cons b bs)
  then have b: "b \<in> set (g_sources s)" "src_handle b = h" "airplay b"
    using filter_eq_ConsD [OF Cons] by auto
  have so: "sources_ok A s" using assms(2) by (simp add: plugin_ok_def)
  have only: "c = b" if "c \<in> set (g_sources s)" and "src_handle c = h" for c
    using that b assms(4) by (simp add: handles_ok_def distinct_map inj_on_def)
  let ?w = "read_source_settings A (f (src_settings b))"
  have "plugin_ok A r (set_module_settings A fmt ?w (Some h) (s\<lparr>g_sources := set_source (Some h) f (g_sources s)\<rparr>))"
  proof (rule update_ok [OF A assms(2,3) refl])
    fix c assume c: "c \<in> set (set_source (Some h) f (g_sources s))" "airplay c"
    then obtain e where e: "e \<in> set (g_sources s)"
        "c = (if src_handle e = h then e\<lparr>src_settings := f (src_settings e)\<rparr> else e)"
      by (auto simp: set_source_def)
    show "if src_handle c = h then read_source_settings A (src_settings c) = ?w
          else g_module_settings_known s \<and> displays A (g_module_settings s) c"
      using e only [OF e(1)] sources_displays [OF so assms(3) e(1)] c(2) by (auto split: if_splits)
  qed
  then show ?thesis using Cons by (simp add: edit_source_def airplay_source_update_def)
qed

subsection \<open>Every step\<close>

definition quit_ok :: "'d plugin \<Rightarrow> bool" where
  "quit_ok s \<longleftrightarrow> (g_debounce_quit s \<longleftrightarrow> main_at s = Main_join \<or> main_at s = Main_unloaded) \<and>
     (debounce_at s = Deb_exit \<longrightarrow> g_debounce_quit s)"

lemma debounce_turn_quit: "quit_ok s \<Longrightarrow> quit_ok (debounce_turn A renamed saved (debounce_at s) s)"
  by (cases "debounce_at s") (auto simp: quit_ok_def apply_server_name_def write_file_def)

lemma main_turn_quit: "quit_ok s \<Longrightarrow> quit_ok (main_turn A saved (main_at s) s)"
  by (cases "main_at s")
    (auto simp: quit_ok_def update_server_name_def Let_def write_file_def show_module_settings_in_sources_def)

lemma set_module_settings_quit:
  assumes "quit_ok s" and "main_at s = Main_idle"
  shows "quit_ok (set_module_settings A fmt w h s)"
  using assms by (auto simp: quit_ok_def set_module_settings_def Let_def edit_frames)

lemma quit_ok_sources [simp]: "quit_ok (s\<lparr>g_sources := cs\<rparr>) = quit_ok s"
  by (simp add: quit_ok_def)

lemma plugin_do_quit:
  assumes "quit_ok s"
  shows "quit_ok (plugin_do A fmt s e)"
proof (cases e)
  case (Edit h f)
  then show ?thesis using assms
    by (auto simp: edit_source_def airplay_source_update_def intro!: set_module_settings_quit split: list.split)
next
  case (Reset_name h)
  then show ?thesis using assms
    by (auto simp: reset_server_name_clicked_def edit_source_def airplay_source_update_def intro!: set_module_settings_quit split: list.split)
next
  case Unload
  then show ?thesis using assms by (auto simp: quit_ok_def)
next
  case (Create h d)
  then show ?thesis using assms
    by (auto simp: airplay_source_create_def adopt_or_show_module_settings_def intro!: set_module_settings_quit)
next
  case (Tick n)
  then show ?thesis using assms by (auto simp: quit_ok_def)
qed (use assms in \<open>simp_all add: main_turn_quit debounce_turn_quit\<close>)

definition plugin_inv :: "'d obs_data_api \<Rightarrow> bool \<Rightarrow> 'd plugin \<Rightarrow> bool" where
  "plugin_inv A r s \<longleftrightarrow> (obs_data_laws A \<longrightarrow> plugin_ok A r s) \<and> handles_ok s \<and> quit_ok s"

lemma set_source_handles: "map src_handle (set_source h f cs) = map src_handle cs"
  by (induction cs) (simp_all add: set_source_def)

lemma show_in_source_handles: "map src_handle (map (show_in_source A x e) cs) = map src_handle cs"
  by simp

lemma set_module_settings_handles:
  "map src_handle (g_sources (set_module_settings A fmt w h s)) = map src_handle (g_sources s)"
  by (simp add: set_module_settings_source_list set_source_handles)

lemma main_turn_handles: "map src_handle (g_sources (main_turn A saved p s)) = map src_handle (g_sources s)"
  by (cases p) (simp_all add: update_server_name_def Let_def write_file_def show_module_settings_in_sources_def comp_def)

lemma adopt_handles:
  "map src_handle (g_sources (adopt_or_show_module_settings A fmt h d s)) = map src_handle (g_sources s)"
  by (simp add: adopt_or_show_module_settings_def set_source_handles set_module_settings_handles)

lemma edit_handles: "map src_handle (g_sources (edit_source A fmt h f s)) = map src_handle (g_sources s)"
  by (simp add: edit_source_def airplay_source_update_def set_module_settings_handles set_source_handles split: list.split)

lemma plugin_do_handles: "handles_ok s \<Longrightarrow> handles_ok (plugin_do A fmt s e)"
  by (cases e) (simp_all add: debounce_turn_frame handles_ok_def airplay_source_create_def adopt_handles fresh_def edit_handles
      reset_server_name_clicked_def main_turn_handles distinct_map_filter del: map_map)

lemma other_source_ok:
  assumes "plugin_ok A r s" and "i \<noteq> Some ''airplay_source''"
  shows "plugin_ok A r (s\<lparr>g_sources := \<lparr>src_handle = h, src_id = i, src_settings = d\<rparr> # g_sources s\<rparr>)"
  using assms by (intro plugin_ok_source_change) (simp_all add: plugin_ok_def sources_ok_def airplay_def)

lemma unload_ok:
  assumes "plugin_ok A r s" and "main_at s = Main_idle"
  shows "plugin_ok A r (s\<lparr>g_debounce_quit := True, main_at := Main_join\<rparr>)"
proof -
  have "names_ok s" using assms(1) by (simp add: plugin_ok_def)
  moreover have "debounce_ok (debounce_at s) (s\<lparr>g_debounce_quit := True, main_at := Main_join\<rparr>)"
    by (rule debounce_ok_same [of _ s]) (use \<open>names_ok s\<close> in \<open>simp_all add: names_ok_def\<close>)
  ultimately show ?thesis using assms
    by (simp add: plugin_ok_def runtime_ok_def names_ok_def file_ok_def file_current_def name_applied_def sources_ok_def)
qed

lemma tick_ok:
  assumes "plugin_ok A r s"
  shows "plugin_ok A r (s\<lparr>g_now := g_now s + n\<rparr>)"
proof -
  have "names_ok s" using assms(1) by (simp add: plugin_ok_def)
  moreover have "debounce_ok (debounce_at s) (s\<lparr>g_now := g_now s + n\<rparr>)"
    using \<open>names_ok s\<close> by (cases "debounce_at s") (auto simp: names_ok_def name_applied_def)
  ultimately show ?thesis using assms
    by (simp add: plugin_ok_def runtime_ok_def names_ok_def file_ok_def file_current_def name_applied_def sources_ok_def)
qed

lemma plugin_do_ok:
  assumes A: "obs_data_laws A" and s: "plugin_ok A r s" and "handles_ok s"
  shows "plugin_ok A r (plugin_do A fmt s e)"
proof (cases e)
  case (Destroy h)
  have "sources_ok A (s\<lparr>g_sources := filter (\<lambda>c. src_handle c \<noteq> h) (g_sources s)\<rparr>)"
    using s by (auto simp: plugin_ok_def sources_ok_def)
  then show ?thesis using Destroy s by (simp add: plugin_ok_source_change)
next
  case (Main saved)
  then show ?thesis using s main_turn_names [of s A saved] main_turn_runtime [of r s A saved] main_turn_file [OF A] main_turn_sources [OF A]
    by (simp add: plugin_ok_def)
next
  case (Debounce renamed saved)
  then show ?thesis using s debounce_turn_names [of s A renamed saved] debounce_turn_runtime [of r s A renamed saved] debounce_turn_file [OF A]
      debounce_turn_sources [of A s renamed saved]
    by (simp add: plugin_ok_def)
qed (use assms in \<open>auto simp: reset_server_name_clicked_def intro: create_ok edit_ok other_source_ok unload_ok tick_ok\<close>)

interpretation plugin: machine "plugin_step A fmt" "\<lambda>_. True" "plugin_inv A r" for A fmt r
  by unfold_locales (simp add: plugin_step_def plugin_inv_def plugin_do_ok plugin_do_handles plugin_do_quit)

lemma load_named:
  "s_server_name (fst (module_settings_load A file)) \<noteq> []"
  by (simp add: module_settings_load_def text_value_def default_settings_def split: option.split list.split)

lemma plugin_loaded_ok: "plugin_inv A r (plugin_loaded A r file)"
proof -
  obtain x found where x: "module_settings_load A file = (x, found)" by fastforce
  then have "s_server_name x \<noteq> []" using load_named [of A "file"] by simp
  then show ?thesis using x
    by (simp add: plugin_inv_def plugin_ok_def plugin_loaded_def load_saved_settings_def apply_module_runtime_def plugin_new_def
        Let_def runtime_ok_def runtime_of_def names_ok_def name_applied_def file_ok_def file_current_def sources_ok_def handles_ok_def quit_ok_def)
qed

text \<open>The state after any events of a loaded plugin.\<close>

definition plugin_after :: "'d obs_data_api \<Rightarrow> (string \<Rightarrow> string) \<Rightarrow> bool \<Rightarrow> 'd option \<Rightarrow> 'd plugin_event list \<Rightarrow> 'd plugin" where
  "plugin_after A fmt receiver file es = fst (run (plugin_step A fmt) (plugin_loaded A receiver file) es)"

lemma plugin_after_ok: "obs_data_laws A \<Longrightarrow> plugin_ok A r (plugin_after A fmt r file es)"
  using plugin.run_inv [OF plugin_loaded_ok [of A r "file"], of es fmt]
  by (simp add: plugin_after_def plugin_inv_def list_all_iff)

lemma plugin_after_quit: "quit_ok (plugin_after A fmt r file es)"
  using plugin.run_inv [OF plugin_loaded_ok [of A r "file"], of es fmt]
  by (simp add: plugin_after_def plugin_inv_def list_all_iff)

subsection \<open>The debounce thread comes to rest\<close>

definition advance :: "'d obs_data_api \<Rightarrow> 'd plugin \<Rightarrow> 'd plugin" where
  "advance A s = (let t = s\<lparr>g_now := g_now s + kNameDebounce\<rparr> in debounce_turn A True True (debounce_at t) t)"

text \<open>How many turns it may still take, of a place and of whether its generation is the latest.\<close>

fun turns_left :: "debounce_place \<Rightarrow> nat \<Rightarrow> nat" where
  "turns_left Deb_wait gen = (if gen = 0 then 0 else 8)"
| "turns_left (Deb_taken g name) gen = (if g = gen then 7 else 10)"
| "turns_left (Deb_pause g name since) gen = (if g = gen then 6 else 9)"
| "turns_left (Deb_apply g name) gen = (if g = gen then 5 else 13)"
| "turns_left (Deb_flag g) gen = (if g = gen then 4 else 12)"
| "turns_left (Deb_snapshot g) gen = (if g = gen then 3 else 11)"
| "turns_left (Deb_save g x) gen = (if g = gen then 2 else 10)"
| "turns_left (Deb_reset g) gen = (if g = gen then 1 else 9)"
| "turns_left Deb_exit gen = 0"

definition at_work :: "'d plugin \<Rightarrow> bool" where
  "at_work s \<longleftrightarrow> \<not> g_debounce_quit s \<and> debounce_at s \<noteq> Deb_exit \<and>
     (\<forall>g name since. debounce_at s = Deb_pause g name since \<longrightarrow> since \<le> g_now s)"

definition work_left :: "'d plugin \<Rightarrow> nat" where
  "work_left s = turns_left (debounce_at s) (g_debounce_gen s)"

lemma advance_works:
  assumes "at_work s"
  shows "at_work (advance A s) \<and> work_left (advance A s) \<le> work_left s - 1"
  using assms
  by (cases "debounce_at s")
    (simp_all add: at_work_def advance_def Let_def work_left_def apply_server_name_def write_file_def)

lemma advance_frame:
  "main_at (advance A s) = main_at s \<and> g_module_settings (advance A s) = g_module_settings s \<and>
   g_debounce_gen (advance A s) \<in> {0, g_debounce_gen s} \<and> h_refused (advance A s) \<in> {None, h_refused s}"
  by (cases "debounce_at s") (simp_all add: advance_def Let_def apply_server_name_def write_file_def)

lemma advances:
  assumes "at_work s"
  shows "at_work ((advance A ^^ k) s) \<and> work_left ((advance A ^^ k) s) \<le> work_left s - k \<and>
    main_at ((advance A ^^ k) s) = main_at s \<and> g_module_settings ((advance A ^^ k) s) = g_module_settings s \<and>
    h_refused ((advance A ^^ k) s) \<in> {None, h_refused s}"
proof (induction k)
  case 0
  then show ?case using assms by simp
next
  case (Suc k)
  then show ?case using advance_works [of "(advance A ^^ k) s" A] advance_frame [of A "(advance A ^^ k) s"] by auto
qed

lemma work_left_bound: "work_left s \<le> 13"
  by (cases "debounce_at s") (simp_all add: work_left_def)

lemma no_work_left: "at_work s \<Longrightarrow> work_left s = 0 \<Longrightarrow> g_debounce_gen s = 0"
  by (cases "debounce_at s") (auto simp: work_left_def at_work_def split: if_splits)

lemma at_work_idle:
  assumes "names_ok s" and "quit_ok s" and "main_at s = Main_idle"
  shows "at_work s"
proof -
  have "debounce_ok (debounce_at s) s" using assms(1) by (simp add: names_ok_def)
  then show ?thesis using assms(2,3) by (cases "debounce_at s") (auto simp: at_work_def quit_ok_def)
qed

text \<open>Turns of the debounce thread, 800 ms apart, all of them granted.\<close>

definition quiet_turns :: "nat \<Rightarrow> 'd plugin_event list" where
  "quiet_turns k = concat (replicate k [Tick kNameDebounce, Debounce True True])"

lemma plugin_run_append:
  "fst (run (plugin_step A fmt) s (es @ fs)) = fst (run (plugin_step A fmt) (fst (run (plugin_step A fmt) s es)) fs)"
  by (simp add: plugin.run_append split_beta)

lemma quiet_turns_advance: "fst (run (plugin_step A fmt) s (quiet_turns k)) = (advance A ^^ k) s"
proof (induction k arbitrary: s)
  case 0
  then show ?case by (simp add: quiet_turns_def)
next
  case (Suc k)
  have "quiet_turns (Suc k) = [Tick kNameDebounce, Debounce True True] @ (quiet_turns k :: 'a plugin_event list)"
    by (simp add: quiet_turns_def)
  moreover have "fst (run (plugin_step A fmt) s ([Tick kNameDebounce, Debounce True True] @ fs)) =
    fst (run (plugin_step A fmt) (advance A s) fs)" for fs
    by (simp add: plugin_step_def advance_def Let_def split_beta)
  ultimately show ?case by (simp only: Suc funpow_Suc_right comp_apply)
qed

lemma plugin_after_append:
  "plugin_after A fmt r file (es @ fs) = fst (run (plugin_step A fmt) (plugin_after A fmt r file es) fs)"
  by (simp add: plugin_after_def plugin_run_append)

lemma quiet_turns_settle:
  assumes "obs_data_laws A" and "main_at (plugin_after A fmt r file es) = Main_idle"
  shows "g_debounce_gen (plugin_after A fmt r file (es @ quiet_turns 13)) = 0 \<and>
    name_applied (s_server_name (g_module_settings (plugin_after A fmt r file es))) (plugin_after A fmt r file (es @ quiet_turns 13)) \<and>
    h_refused (plugin_after A fmt r file (es @ quiet_turns 13)) \<in> {None, h_refused (plugin_after A fmt r file es)}"
proof -
  let ?s = "plugin_after A fmt r file es" and ?t = "plugin_after A fmt r file (es @ quiet_turns 13)"
  have t: "?t = (advance A ^^ 13) ?s" by (simp add: plugin_after_append quiet_turns_advance)
  have "names_ok ?s" using plugin_after_ok [OF assms(1)] by (simp add: plugin_ok_def)
  then have w: "at_work ?s" using at_work_idle plugin_after_quit assms(2) by blast
  then have "work_left ?t = 0" "at_work ?t" and f: "main_at ?t = main_at ?s" "g_module_settings ?t = g_module_settings ?s"
    "h_refused ?t \<in> {None, h_refused ?s}"
    using advances [OF w, of 13 A] work_left_bound [of ?s] t by auto
  then have "g_debounce_gen ?t = 0" by (simp add: no_work_left)
  moreover have "names_ok ?t" using plugin_after_ok [OF assms(1)] by (simp add: plugin_ok_def)
  ultimately show ?thesis using f assms(2) by (auto simp: names_ok_def)
qed

section \<open>What is promised\<close>

text \<open>Two sources, a name that is too long in one and a new name with video off in the other.\<close>

definition two_sources :: "setting_lists plugin_event list" where
  "two_sources =
     (let fresh_data = airplay_source_get_defaults list_api (d_create list_api)
      in [Create 1 fresh_data, Main True, Main True, Main True, Create 2 fresh_data,
          Edit 2 (d_set_string list_api ''server_name'' (replicate 64 CHR ''x'')),
          Edit 1 (d_set_string list_api ''server_name'' ''Studio'' \<circ> d_set_string list_api ''airplay_video'' ''off''),
          Main True, Main True, Main True])"

text \<open>
  C34. After any edits, new sources and turns of the debounce thread the switches of the running
  plugin are those of the settings in force: whether media may come from elsewhere than the sender
  and whether self-signed certificates pass, the video policy of the receiver, the player's clock,
  the log and the update checks.
\<close>

theorem settings_in_force_are_running:
  assumes "obs_data_laws A"
  shows "g_runtime (plugin_after A fmt receiver file es) =
    runtime_of (g_module_settings (plugin_after A fmt receiver file es)) receiver"
  using plugin_after_ok [OF assms] by (simp add: plugin_ok_def runtime_ok_def)

theorem settings_in_force_are_running_witness:
  "r_sender_only (g_runtime (plugin_after list_api id True None
      [Create 1 (airplay_source_get_defaults list_api (d_create list_api)), Main True, Main True, Main True,
       Edit 1 (d_set_string list_api ''airplay_video'' ''anywhere'')])) = False"
  using settings_in_force_are_running [OF list_api_laws, of id True None
      "[Create 1 (airplay_source_get_defaults list_api (d_create list_api)), Main True, Main True, Main True,
        Edit 1 (d_set_string list_api ''airplay_video'' ''anywhere'')]"]
  apply (simp only: runtime_of_def runtime.simps)
  by code_simp

text \<open>
  Whenever no call of OBS is under way, every AirPlay source shows the settings of the receiver,
  the one with the refused name included.
\<close>

theorem every_panel_shows_the_receiver:
  assumes "obs_data_laws A" and "main_at (plugin_after A fmt receiver file es) = Main_idle"
    and "c \<in> set (g_sources (plugin_after A fmt receiver file es))" and "airplay c"
  shows "read_source_settings A (src_settings c) = as_shown (g_module_settings (plugin_after A fmt receiver file es))"
  using plugin_after_ok [OF assms(1)] sources_displays [OF _ assms(2-4), of A] by (simp add: plugin_ok_def displays_def)

theorem every_panel_shows_the_receiver_witness:
  "s_server_name (read_source_settings list_api (src_settings (last (g_sources (plugin_after list_api id True None two_sources))))) =
   ''Studio''"
proof -
  let ?s = "plugin_after list_api id True None two_sources"
  have "main_at ?s = Main_idle" "g_sources ?s \<noteq> []" "airplay (last (g_sources ?s))"
    and "s_server_name (as_shown (g_module_settings ?s)) = ''Studio''" by code_simp+
  then show ?thesis using every_panel_shows_the_receiver [OF list_api_laws, of id True None two_sources "last (g_sources ?s)"] by simp
qed

text \<open>
  What the panels show reaches the file: once the module is unloaded, and the last write of the
  file went well and was of the settings in force, loading the file gives those settings, a name typed
  just before included.
\<close>

theorem settings_reach_the_file:
  assumes "obs_data_laws A" and "main_at (plugin_after A fmt receiver file es) = Main_unloaded"
    and "\<not> h_bad_write (plugin_after A fmt receiver file es)"
  shows "fst (module_settings_load A (g_file (plugin_after A fmt receiver file es))) =
    g_module_settings (plugin_after A fmt receiver file es)"
proof -
  let ?s = "plugin_after A fmt receiver file es"
  have "file_ok A ?s" using plugin_after_ok [OF assms(1)] by (simp add: plugin_ok_def)
  then show ?thesis using assms(2,3) by (auto simp: file_ok_def file_current_def)
qed

theorem settings_reach_the_file_witness:
  "s_server_name (fst (module_settings_load list_api (g_file (plugin_after list_api id True None
     (two_sources @ [Unload, Debounce True True, Main True]))))) = ''Studio''"
proof -
  let ?s = "plugin_after list_api id True None (two_sources @ [Unload, Debounce True True, Main True])"
  have "main_at ?s = Main_unloaded" "\<not> h_bad_write ?s" "s_server_name (g_module_settings ?s) = ''Studio''" by code_simp+
  then show ?thesis using settings_reach_the_file [OF list_api_laws, of id True None "two_sources @ [Unload, Debounce True True, Main True]"]
    by simp
qed

text \<open>
  C35. Left alone, the debounce thread is at rest after thirteen turns 800 ms apart, and the receiver
  then advertises the name of the settings in force, unless it refused that very name before.
\<close>

theorem newest_name_is_advertised:
  assumes "obs_data_laws A" and "main_at (plugin_after A fmt receiver file es) = Main_idle"
    and "h_refused (plugin_after A fmt receiver file es) \<noteq> Some (s_server_name (g_module_settings (plugin_after A fmt receiver file es)))"
  shows "g_server_name (plugin_after A fmt receiver file (es @ quiet_turns 13)) =
    s_server_name (g_module_settings (plugin_after A fmt receiver file es))"
  using quiet_turns_settle [OF assms(1,2)] assms(3) by (auto simp: name_applied_def)

theorem newest_name_is_advertised_witness:
  "g_server_name (plugin_after list_api id True None two_sources) = ''OBS AirPlay'' \<and>
   g_server_name (plugin_after list_api id True None (two_sources @ quiet_turns 13)) = ''Studio''"
proof -
  let ?s = "plugin_after list_api id True None two_sources"
  have "main_at ?s = Main_idle" "h_refused ?s = None" "s_server_name (g_module_settings ?s) = ''Studio''"
    "g_server_name ?s = ''OBS AirPlay''" by code_simp+
  then show ?thesis using newest_name_is_advertised [OF list_api_laws, of id True None two_sources] by simp
qed

text \<open>A name is given to the receiver only if it is the newest and has been for 800 ms when the wait ends.\<close>

lemma names_settle_first:
  assumes "obs_data_laws A" and "debounce_at (plugin_after A fmt receiver file es) = Deb_apply g name"
    and "g = g_debounce_gen (plugin_after A fmt receiver file es)"
  shows "name = g_debounce_pending (plugin_after A fmt receiver file es) \<and>
    h_edited (plugin_after A fmt receiver file es) + kNameDebounce \<le> g_now (plugin_after A fmt receiver file es)"
proof -
  have "names_ok (plugin_after A fmt receiver file es)" using plugin_after_ok [OF assms(1)] by (simp add: plugin_ok_def)
  then show ?thesis using assms(2,3) by (simp add: names_ok_def)
qed

text \<open>
  The condition on the last write of the file is needed: a save of the debounce thread that has taken
  its copy of the settings can overwrite a later save.
\<close>

definition overtaken :: "setting_lists plugin_event list" where
  "overtaken =
     [Create 1 (airplay_source_get_defaults list_api (d_create list_api)), Main True, Main True, Main True,
      Edit 1 (d_set_string list_api ''server_name'' ''Studio''), Main True, Main True,
      Debounce True True, Debounce True True, Tick 800, Debounce True True, Debounce True True, Debounce True True,
      Debounce True True,
      Edit 1 (d_set_bool list_api ''allow_self_signed_media'' True), Main True, Main True, Main True,
      Debounce True True, Debounce True True, Unload, Debounce True True, Main True]"

lemma later_save_is_lost:
  "main_at (plugin_after list_api id True None overtaken) = Main_unloaded \<and>
   s_allow_self_signed_media (g_module_settings (plugin_after list_api id True None overtaken)) \<and>
   \<not> s_allow_self_signed_media (fst (module_settings_load list_api (g_file (plugin_after list_api id True None overtaken))))"
  by code_simp

end
