(* ===== verification/Plugin_Module.thy ===== *)
theory Plugin_Module
  imports Plugin_Settings Uxplay_Lifecycle
begin

text \<open>
  The rest of \<^verbatim>\<open>src/plugin-main.cpp\<close>: the receiver's identity and its file, the status thread, the
  discovery helper (\<^verbatim>\<open>src/airplay-ble-helper.cpp\<close>), the troubleshooting switches
  (\<^verbatim>\<open>src/hardware-decode-option.hpp\<close>), and loading and unloading the module, with the receiver of
  \<open>Uxplay_Lifecycle\<close> inside. What macOS and libobs answer is an argument. The exceptions the handler
  of \<open>obs_module_load\<close> is for are those of the constructors of the server, the receiver and the threads.
\<close>

section \<open>The identity of the receiver\<close>

definition hex_digit :: "nat \<Rightarrow> char" where
  "hex_digit n = (if n < 10 then char_of (48 + n) else char_of (55 + n))"

definition hex_byte :: "u8 \<Rightarrow> string" where
  "hex_byte b = [hex_digit (unat b div 16), hex_digit (unat b mod 16)]"

text \<open>\<open>generateMACAddress\<close> of the random bytes it draws.\<close>

fun generateMACAddress :: "bytes \<Rightarrow> string" where
  "generateMACAddress [] = []"
| "generateMACAddress [b] = hex_byte b"
| "generateMACAddress (b # bs) = hex_byte b @ '':'' @ generateMACAddress bs"

definition valid_mac :: "string \<Rightarrow> bool" where
  "valid_mac mac \<longleftrightarrow> length mac = 17 \<and>
     list_all (\<lambda>i. if i mod 3 = 2 then mac ! i = CHR '':'' else is_xdigit (mac ! i)) [0..<length mac]"

definition line_end :: "char \<Rightarrow> bool" where
  "line_end c \<longleftrightarrow> c = CHR 0x0A \<or> c = CHR 0x0D"

text \<open>\<open>fgets\<close> into the 32 bytes of the buffer, and the string made of them.\<close>

definition first_line :: "string \<Rightarrow> string option" where
  "first_line content =
     (if content = [] then None
      else let t = take 31 content; l = takeWhile (\<lambda>c. c \<noteq> CHR 0x0A) t
           in Some (c_str (if length l < length t then l @ [CHR 0x0A] else l)))"

definition strip_line_end :: "string \<Rightarrow> string" where
  "strip_line_end s = rev (dropWhile line_end (rev s))"

definition read_mac :: "string option \<Rightarrow> string option" where
  "read_mac file =
     (case Option.bind file first_line of None \<Rightarrow> None
      | Some line \<Rightarrow> (let mac = strip_line_end line in if valid_mac mac then Some mac else None))"

text \<open>
  \<open>path\<close> is whether there is a config path, \<open>writable\<close> whether the file can be opened for writing,
  \<open>None\<close> a file that cannot be opened for reading.
\<close>

definition load_or_persist_mac :: "bool \<Rightarrow> bool \<Rightarrow> string \<Rightarrow> string option \<Rightarrow> string \<times> string option" where
  "load_or_persist_mac path writable generated file =
     (if \<not> path then (generated, file)
      else case read_mac file of
             Some mac \<Rightarrow> (mac, file)
           | None \<Rightarrow> (generated, if writable then Some (c_str generated @ [CHR 0x0A]) else file))"

text \<open>The bytes an address with the colons at their places stands for.\<close>

lemma char_code_hex_digit: "n < 16 \<Longrightarrow> char_code (hex_digit n) = (if n < 10 then 48 + n else 55 + n)"
  by (simp add: hex_digit_def char_code_def)

lemma hex_digit_xdigit: "n < 16 \<Longrightarrow> is_xdigit (hex_digit n)"
  by (simp add: is_xdigit_def is_digit_def char_code_hex_digit)

lemma hex_value_digit: "n < 16 \<Longrightarrow> hex_value (hex_digit n) = n"
  by (simp add: hex_value_def is_digit_def char_code_hex_digit)

lemma hex_digit_not_colon: "n < 16 \<Longrightarrow> hex_digit n \<noteq> CHR '':''"
proof
  assume n: "n < 16" "hex_digit n = CHR '':''"
  have "char_code (hex_digit n) = 58" unfolding n(2) by (simp add: char_code_def)
  then show False using n(1) by (simp add: char_code_hex_digit split: if_splits)
qed

lemma u8_nibbles: "unat (b :: u8) div 16 < 16" "unat b mod 16 < 16"
  using unsigned_less [of b, where 'a = nat] by (simp_all add: less_mult_imp_div_less)

lemma hex_byte_bytes: "hex_pairs (hex_byte b @ cs) = b # hex_pairs cs"
proof -
  have "16 * (unat b div 16) + unat b mod 16 = unat b" by simp
  then show ?thesis by (simp add: hex_byte_def hex_value_digit u8_nibbles)
qed

lemma hex_byte_filter: "filter (\<lambda>c. c \<noteq> CHR '':'') (hex_byte b) = hex_byte b"
  by (simp add: hex_byte_def hex_digit_not_colon u8_nibbles)

lemma hex_byte_xdigits: "list_all is_xdigit (hex_byte b)"
  by (simp add: hex_byte_def hex_digit_xdigit u8_nibbles)

lemma generated_compact:
  "filter (\<lambda>c. c \<noteq> CHR '':'') (generateMACAddress bs) = concat (map hex_byte bs)"
  by (induction bs rule: generateMACAddress.induct) (simp_all add: hex_byte_filter)

lemma hex_pairs_concat: "hex_pairs (concat (map hex_byte bs)) = bs"
  by (induction bs) (simp_all add: hex_byte_bytes)

lemma generated_parses:
  assumes "length bs = 6"
  shows "parse_device_id (generateMACAddress bs) = Some bs"
proof -
  have "length (concat (map hex_byte bs)) = 12"
    using assms by (simp add: length_concat hex_byte_def comp_def sum_list_triv)
  moreover have "list_all is_xdigit (concat (map hex_byte bs))"
    using hex_byte_xdigits by (induction bs) simp_all
  ultimately show ?thesis by (simp add: parse_device_id_def generated_compact hex_pairs_concat Let_def)
qed

lemma generated_valid:
  assumes "length bs = 6"
  shows "valid_mac (generateMACAddress bs)"
proof -
  obtain a b c d e f where "bs = [a, b, c, d, e, f]"
    using assms by (auto simp: numeral_eq_Suc length_Suc_conv)
  then show ?thesis
    by (simp add: valid_mac_def hex_byte_def hex_digit_xdigit u8_nibbles upt_rec)
qed

lemma valid_mac_chars:
  assumes "valid_mac mac" and "c \<in> set mac"
  shows "c = CHR '':'' \<or> is_xdigit c"
proof -
  obtain i where "i < 17" "c = mac ! i" using assms by (metis in_set_conv_nth valid_mac_def)
  then show ?thesis using assms(1) by (auto simp: valid_mac_def list_all_iff split: if_splits)
qed

lemma valid_mac_plain:
  assumes "valid_mac mac" and "c \<in> set mac"
  shows "\<not> line_end c" "c \<noteq> CHR 0x00"
  using valid_mac_chars [OF assms] by (auto simp: line_end_def is_xdigit_def is_digit_def char_code_def)

lemma saved_mac_reads_back:
  assumes "valid_mac mac"
  shows "read_mac (Some (c_str mac @ [CHR 0x0A])) = Some mac"
proof -
  have l: "length mac = 17" using assms by (simp add: valid_mac_def)
  have c: "c_str mac = mac" using valid_mac_plain(2) [OF assms] by (auto simp: c_str_def takeWhile_eq_all_conv)
  have t: "takeWhile (\<lambda>c. c \<noteq> CHR 0x0A) (mac @ [CHR 0x0A]) = mac"
    using valid_mac_plain(1) [OF assms] by (subst takeWhile_append2) (auto simp: line_end_def)
  have "c_str (mac @ [CHR 0x0A]) = mac @ [CHR 0x0A]"
    using valid_mac_plain(2) [OF assms] by (auto simp: c_str_def takeWhile_append2)
  then have "first_line (mac @ [CHR 0x0A]) = Some (mac @ [CHR 0x0A])"
    using t l by (simp add: first_line_def Let_def)
  moreover have "strip_line_end (mac @ [CHR 0x0A]) = mac"
  proof -
    have "dropWhile line_end (rev mac) = rev mac"
      using valid_mac_plain(1) [OF assms] by (metis dropWhile_eq_self_iff hd_in_set set_rev)
    then show ?thesis by (simp add: strip_line_end_def line_end_def)
  qed
  ultimately show ?thesis using assms c by (simp add: read_mac_def)
qed

lemma xdigit_not_colon: "is_xdigit c \<Longrightarrow> c \<noteq> CHR '':''"
  by (auto simp: is_xdigit_def is_digit_def char_code_def)

lemma valid_mac_parses:
  assumes "valid_mac mac"
  shows "parse_device_id mac \<noteq> None"
proof -
  let ?colon = "\<lambda>c. c \<noteq> CHR '':''"
  have l: "length mac = 17" using assms by (simp add: valid_mac_def)
  then have m: "mac = map ((!) mac) [0..<17]" by (metis map_nth)
  have "mac ! i = CHR '':''" if "i < 17" "i mod 3 = 2" for i
    using assms that l by (simp add: valid_mac_def list_all_iff)
  moreover have "is_xdigit (mac ! i)" if "i < 17" "i mod 3 \<noteq> 2" for i
    using assms that l by (simp add: valid_mac_def list_all_iff)
  moreover have "[0..<17] = [0, 1, 2, 3, 4, 5, 6, 7, 8, 9, 10, 11, 12, 13, 14, 15, 16 :: nat]" by code_simp
  ultimately have "filter ?colon (map ((!) mac) [0..<17]) = map ((!) mac) [0, 1, 3, 4, 6, 7, 9, 10, 12, 13, 15, 16]"
    and x: "list_all is_xdigit (map ((!) mac) [0, 1, 3, 4, 6, 7, 9, 10, 12, 13, 15, 16])"
    by (simp_all add: xdigit_not_colon)
  then have "filter ?colon mac = map ((!) mac) [0, 1, 3, 4, 6, 7, 9, 10, 12, 13, 15, 16]" using m by metis
  then show ?thesis using x by (simp add: parse_device_id_def Let_def del: list.map)
qed

section \<open>The discovery helper\<close>

datatype launch = No_path | Not_readable | Spawn_fails | Spawned

record helper =
  g_helper_started :: bool
  g_launch_waiter :: bool

definition start_airplay_ble_helper :: "launch \<Rightarrow> helper \<Rightarrow> bool \<times> helper" where
  "start_airplay_ble_helper l h =
     (if g_helper_started h then (True, h)
      else (case l of
              Spawned \<Rightarrow> (True, h\<lparr>g_helper_started := True, g_launch_waiter := True\<rparr>)
            | _ \<Rightarrow> (False, h)))"

definition stop_airplay_ble_helper :: "helper \<Rightarrow> helper" where
  "stop_airplay_ble_helper h = h\<lparr>g_launch_waiter := False, g_helper_started := False\<rparr>"

text \<open>A string preference of at most 63 bytes; anything else reads as empty.\<close>

definition read_helper_bluetooth_state :: "string option \<Rightarrow> string" where
  "read_helper_bluetooth_state value =
     (case value of Some s \<Rightarrow> (if length s < 64 then s else []) | None \<Rightarrow> [])"

section \<open>The status thread\<close>

record status_locals =
  outputs_active :: int
  bluetooth_state :: string
  ticks :: nat

datatype status_call =
    Refresh_panel nat
  | Set_outputs_active bool
  | Log_bluetooth string

definition refresh_airplay_source_panels :: "'d obs_source list \<Rightarrow> status_call list" where
  "refresh_airplay_source_panels cs = map (Refresh_panel \<circ> src_handle) (filter airplay cs)"

definition any_output_active :: "bool list \<Rightarrow> bool" where
  "any_output_active outputs = list_ex (\<lambda>active. active) outputs"

definition report_bluetooth :: "string \<Rightarrow> status_locals \<Rightarrow> status_locals \<times> status_call list" where
  "report_bluetooth state l =
     (if (ticks l + 1) mod 5 = 0 \<and> state \<noteq> [] \<and> state \<noteq> bluetooth_state l
      then (l\<lparr>ticks := ticks l + 1, bluetooth_state := state\<rparr>, [Log_bluetooth state])
      else (l\<lparr>ticks := ticks l + 1\<rparr>, []))"

text \<open>
  A turn of \<open>status_thread_func\<close>: \<open>dirty\<close> is what the exchange of \<open>g_status_dirty\<close> gave, then the
  outputs of OBS and the state of the helper.
\<close>

definition status_turn :: "bool \<Rightarrow> 'd obs_source list \<Rightarrow> bool list \<Rightarrow> string \<Rightarrow> status_locals \<Rightarrow> status_locals \<times> status_call list" where
  "status_turn dirty cs outputs state l =
     (let active = any_output_active outputs; code = (if active then 1 else 0);
          refresh = (if dirty then refresh_airplay_source_panels cs else []);
          told = (if code \<noteq> outputs_active l then [Set_outputs_active active] else [])
      in case report_bluetooth state (l\<lparr>outputs_active := code\<rparr>) of
           (l', logged) \<Rightarrow> (l', refresh @ told @ logged))"

definition status_new :: status_locals where
  "status_new = \<lparr>outputs_active = -1, bluetooth_state = [], ticks = 0\<rparr>"

definition status_thread_func :: "(bool \<times> 'd obs_source list \<times> bool list \<times> string) list \<Rightarrow> status_call list" where
  "status_thread_func turns =
     concat (snd (run (\<lambda>l (dirty, cs, outputs, state). status_turn dirty cs outputs state l) status_new turns)) @
     [Set_outputs_active False]"

text \<open>What the helper was told last.\<close>

definition last_told :: "status_call list \<Rightarrow> bool option" where
  "last_told calls = (case filter (\<lambda>c. case c of Set_outputs_active a \<Rightarrow> True | _ \<Rightarrow> False) calls of
     [] \<Rightarrow> None | cs \<Rightarrow> (case List.last cs of Set_outputs_active a \<Rightarrow> Some a | _ \<Rightarrow> None))"

section \<open>Troubleshooting switches\<close>

definition flag_file_exists :: "(string \<Rightarrow> bool) \<Rightarrow> string \<Rightarrow> string option \<Rightarrow> string \<Rightarrow> bool" where
  "flag_file_exists stat_ok directory home name \<longleftrightarrow>
     directory \<noteq> [] \<and> stat_ok ((if List.last directory = CHR ''/'' then directory else directory @ ''/'') @ name) \<or>
     (case home of None \<Rightarrow> False
      | Some h \<Rightarrow> stat_ok (h @ ''/Library/Application Support/obs-studio/'' @ name))"

definition hardware_decode_requested :: "string option \<Rightarrow> (string \<Rightarrow> bool) \<Rightarrow> string \<Rightarrow> string option \<Rightarrow> bool" where
  "hardware_decode_requested env stat_ok directory home =
     (case env of Some v \<Rightarrow> v \<noteq> ''0''
      | None \<Rightarrow> \<not> flag_file_exists stat_ok directory home ''obs-airplay-software-decode'')"

section \<open>Loading and unloading\<close>

text \<open>
  Who exists and which thread can be joined. The server object has its decode thread from its
  constructor on; the receiver has its clear thread. \<open>le_\<close> fields say which constructors throw.
\<close>

datatype module_thread = Name_thread | Status_thread | Warmup_thread | Decode_thread

datatype module_call =
    Source_registered
  | Thread_starts module_thread
  | Thread_joined module_thread
  | Server_made
  | Receiver_made
  | Receiver_calls "uxcall list"
  | Receiver_released
  | Server_released

record 'w module =
  md_world :: 'w
  md_receiver :: "receiver option"
  md_server :: bool
  md_threads :: "module_thread list"
  md_helper :: helper

record load_env =
  le_server_throws :: bool
  le_receiver_throws :: bool
  le_status_throws :: bool
  le_warmup_throws :: bool
  le_hardware :: bool
  le_launch :: launch
  le_mac :: string
  le_name :: string
  le_accept_video :: bool
  le_sender_only :: bool

datatype flow = Goes_on | Returns | Throws

type_synonym 'w load_step = "'w module \<Rightarrow> flow \<times> 'w module \<times> module_call list"

fun load_steps :: "'w load_step list \<Rightarrow> 'w load_step" where
  "load_steps [] m = (Goes_on, m, [])"
| "load_steps (a # as) m =
     (case a m of
        (Goes_on, m', calls) \<Rightarrow> (case load_steps as m' of (f, m'', later) \<Rightarrow> (f, m'', calls @ later))
      | (f, m', calls) \<Rightarrow> (f, m', calls))"

definition start_thread :: "module_thread \<Rightarrow> bool \<Rightarrow> 'w load_step" where
  "start_thread t throws m =
     (if throws then (Throws, m, []) else (Goes_on, m\<lparr>md_threads := t # md_threads m\<rparr>, [Thread_starts t]))"

definition make_server :: "load_env \<Rightarrow> 'w load_step" where
  "make_server E m =
     (if le_server_throws E then (Throws, m, [])
      else (Goes_on, m\<lparr>md_server := True, md_threads := Decode_thread # md_threads m\<rparr>, [Server_made, Thread_starts Decode_thread]))"

text \<open>The callbacks of \<open>connect_receiver\<close> that UxPlay's threads and the decode thread use.\<close>

definition connect_receiver :: "airplay_session \<Rightarrow> airplay_session" where
  "connect_receiver s =
     s\<lparr>m_video_callback := True, m_audio_format_callback := True, m_audio_callback := True, m_reset_callback := True\<rparr>"

definition configured_receiver :: "load_env \<Rightarrow> receiver \<Rightarrow> receiver" where
  "configured_receiver E r =
     (let r1 = fst (setVideoPolicy (le_accept_video E) (le_sender_only E)
                      (r\<lparr>r_session := (r_session r)\<lparr>m_state_changed := True\<rparr>\<rparr>))
      in r1\<lparr>r_session := connect_receiver (r_session r1)\<rparr>)"

definition make_receiver :: "load_env \<Rightarrow> policy \<Rightarrow> 'w load_step" where
  "make_receiver E g m =
     (if le_receiver_throws E then (Throws, m, [])
      else (Goes_on, m\<lparr>md_receiver := Some (configured_receiver E (receiver_new airplay_session_new g))\<rparr>, [Receiver_made]))"

definition start_step :: "'w uxlib \<Rightarrow> load_env \<Rightarrow> 'w load_step" where
  "start_step X E m =
     (case md_receiver m of
        None \<Rightarrow> (Throws, m, [])
      | Some r \<Rightarrow>
          (case start_receiver X (le_mac E) kDefaultPort (le_name E) (r, md_world m) of
             (ok, (r', w), calls) \<Rightarrow>
               (if ok then Goes_on else Returns, m\<lparr>md_receiver := Some r', md_world := w\<rparr>, [Receiver_calls calls])))"

definition warmup_step :: "load_env \<Rightarrow> 'w load_step" where
  "warmup_step E m = (if le_hardware E then start_thread Warmup_thread (le_warmup_throws E) m else (Goes_on, m, []))"

definition helper_step :: "load_env \<Rightarrow> 'w load_step" where
  "helper_step E m = (Goes_on, m\<lparr>md_helper := snd (start_airplay_ble_helper (le_launch E) (md_helper m))\<rparr>, [])"

definition stop_module_receiver :: "'w module \<Rightarrow> 'w module \<times> module_call list" where
  "stop_module_receiver m =
     (case md_receiver m of
        None \<Rightarrow> (m, [])
      | Some r \<Rightarrow> (case stop_receiver r of (r', calls) \<Rightarrow> (m\<lparr>md_receiver := Some r'\<rparr>, [Receiver_calls calls])))"

definition guarded_steps :: "'w uxlib \<Rightarrow> load_env \<Rightarrow> policy \<Rightarrow> 'w load_step list" where
  "guarded_steps X E g =
     [\<lambda>m. (Goes_on, m, [Source_registered]), make_server E, make_receiver E g,
      start_thread Status_thread (le_status_throws E), start_step X E, warmup_step E, helper_step E]"

definition module_new :: "'w \<Rightarrow> 'w module" where
  "module_new w = \<lparr>md_world = w, md_receiver = None, md_server = False, md_threads = [],
     md_helper = \<lparr>g_helper_started = False, g_launch_waiter = False\<rparr>\<rparr>"

text \<open>The name thread is started outside the \<open>try\<close>; the handler stops a receiver that exists.\<close>

definition obs_module_load :: "'w uxlib \<Rightarrow> load_env \<Rightarrow> policy \<Rightarrow> 'w \<Rightarrow> 'w module \<times> module_call list" where
  "obs_module_load X E g w =
     (case load_steps (guarded_steps X E g) ((module_new w)\<lparr>md_threads := [Name_thread]\<rparr>) of
        (f, m, calls) \<Rightarrow>
          (case (if f = Throws then stop_module_receiver m else (m, [])) of
             (m', handled) \<Rightarrow> (m', Thread_starts Name_thread # calls @ handled)))"

definition join_thread :: "module_thread \<Rightarrow> 'w module \<Rightarrow> 'w module \<times> module_call list" where
  "join_thread t m =
     (if t \<in> set (md_threads m) then (m\<lparr>md_threads := removeAll t (md_threads m)\<rparr>, [Thread_joined t]) else (m, []))"

definition stop_module_server :: "'w module \<Rightarrow> 'w module \<times> module_call list" where
  "stop_module_server m = (if md_server m then join_thread Decode_thread m else (m, []))"

definition release_receiver :: "'w module \<Rightarrow> 'w module \<times> module_call list" where
  "release_receiver m = (if md_receiver m = None then (m, []) else (m\<lparr>md_receiver := None\<rparr>, [Receiver_released]))"

definition release_server :: "'w module \<Rightarrow> 'w module \<times> module_call list" where
  "release_server m = (if md_server m then (m\<lparr>md_server := False\<rparr>, [Server_released]) else (m, []))"

fun module_steps :: "('w module \<Rightarrow> 'w module \<times> module_call list) list \<Rightarrow> 'w module \<Rightarrow> 'w module \<times> module_call list" where
  "module_steps [] m = (m, [])"
| "module_steps (a # as) m = (case a m of (m', calls) \<Rightarrow> (case module_steps as m' of (m'', later) \<Rightarrow> (m'', calls @ later)))"

definition obs_module_unload :: "'w module \<Rightarrow> 'w module \<times> module_call list" where
  "obs_module_unload =
     module_steps [\<lambda>m. (m\<lparr>md_helper := stop_airplay_ble_helper (md_helper m)\<rparr>, []),
               join_thread Warmup_thread, join_thread Status_thread, join_thread Name_thread,
               stop_module_receiver, stop_module_server, release_receiver, release_server]"

subsection \<open>What the helper is told\<close>

lemma status_turn_tells:
  assumes "outputs_active l = (case told of None \<Rightarrow> -1 | Some a \<Rightarrow> if a then 1 else 0)"
    and "status_turn dirty cs outputs state l = (l', calls)"
  shows "outputs_active l' = (if any_output_active outputs then 1 else 0) \<and>
    (last_told calls = None \<longrightarrow> told = Some (any_output_active outputs)) \<and>
    (\<forall>a. last_told calls = Some a \<longrightarrow> a = any_output_active outputs \<and> told \<noteq> Some a)"
proof -
  have f: "filter (\<lambda>c. case c of Set_outputs_active a \<Rightarrow> True | _ \<Rightarrow> False) (refresh_airplay_source_panels cs) = []"
    by (auto simp: refresh_airplay_source_panels_def filter_empty_conv)
  show ?thesis using assms f
    by (auto simp: status_turn_def report_bluetooth_def last_told_def Let_def split: if_splits option.splits)
qed

subsection \<open>Nothing outlives the module\<close>

text \<open>
  Who is alive. A call is refused that starts a running thread, joins one that does not run, releases
  the receiver while the decode thread that calls into it runs, or the server while the receiver that
  feeds it has contexts or its decode thread runs.
\<close>

type_synonym living = "module_thread set \<times> bool \<times> bool \<times> ledger"

fun follow :: "module_call \<Rightarrow> living \<Rightarrow> living option" where
  "follow Source_registered l = Some l"
| "follow (Thread_starts t) (T, r, s, led) = (if t \<in> T then None else Some (insert t T, r, s, led))"
| "follow (Thread_joined t) (T, r, s, led) = (if t \<in> T then Some (T - {t}, r, s, led) else None)"
| "follow Server_made (T, r, s, led) = (if s then None else Some (T, r, True, led))"
| "follow Receiver_made (T, r, s, led) = (if r \<or> \<not> s then None else Some (T, True, s, led))"
| "follow (Receiver_calls calls) (T, r, s, led) =
     (if r \<and> s then map_option (\<lambda>led'. (T, r, s, led')) (book_all calls led) else None)"
| "follow Receiver_released (T, r, s, led) =
     (if r \<and> Decode_thread \<notin> T \<and> led = ({}, {}, None) then Some (T, False, s, led) else None)"
| "follow Server_released (T, r, s, led) = (if s \<and> \<not> r \<and> Decode_thread \<notin> T then Some (T, r, False, led) else None)"

fun follow_all :: "module_call list \<Rightarrow> living \<Rightarrow> living option" where
  "follow_all [] l = Some l"
| "follow_all (c # cs) l = Option.bind (follow c l) (follow_all cs)"

lemma follow_all_append: "follow_all (cs @ ds) l = Option.bind (follow_all cs l) (follow_all ds)"
proof (induction cs arbitrary: l)
  case (Cons c cs)
  then show ?case by (cases "follow c l") simp_all
qed simp

definition living_of :: "'w module \<Rightarrow> living" where
  "living_of m =
     (set (md_threads m), md_receiver m \<noteq> None, md_server m,
      case md_receiver m of None \<Rightarrow> ({}, {}, None) | Some r \<Rightarrow> ledger_of r)"

definition module_ok :: "'w module \<Rightarrow> bool" where
  "module_ok m \<longleftrightarrow> (\<forall>r \<in> set_option (md_receiver m). receiver_ok r \<and> md_server m) \<and>
     (Decode_thread \<in> set (md_threads m) \<longleftrightarrow> md_server m)"

text \<open>A step that keeps the books.\<close>

definition booked_step :: "'w module \<Rightarrow> 'w module \<Rightarrow> module_call list \<Rightarrow> bool" where
  "booked_step m m' calls \<longleftrightarrow> module_ok m' \<and> follow_all calls (living_of m) = Some (living_of m')"

lemma booked_step_trans:
  "booked_step m m' calls \<Longrightarrow> booked_step m' m'' later \<Longrightarrow> booked_step m m'' (calls @ later)"
  by (simp add: booked_step_def follow_all_append)

lemma booked_step_refl: "module_ok m \<Longrightarrow> booked_step m m []"
  by (simp add: booked_step_def)

lemma start_thread_kept:
  assumes "module_ok m" and "t \<noteq> Decode_thread" and "t \<notin> set (md_threads m)" and "start_thread t throws m = (f, m', calls)"
  shows "booked_step m m' calls"
  using assms by (auto simp: start_thread_def booked_step_def module_ok_def living_of_def split: if_splits)

lemma make_server_kept:
  assumes "module_ok m" and "\<not> md_server m" and "make_server E m = (f, m', calls)"
  shows "booked_step m m' calls"
  using assms by (auto simp: make_server_def booked_step_def module_ok_def living_of_def split: if_splits option.splits)

lemma configured_receiver_ok:
  "receiver_ok (configured_receiver E (receiver_new s g)) \<and> ledger_of (configured_receiver E (receiver_new s g)) = ({}, {}, None)"
  by (simp add: configured_receiver_def setVideoPolicy_def receiver_new_def receiver_ok_def ledger_of_def Let_def)

lemma make_receiver_kept:
  assumes "module_ok m" and "md_server m" and "md_receiver m = None" and "make_receiver E g m = (f, m', calls)"
  shows "booked_step m m' calls"
  using assms configured_receiver_ok
  by (auto simp: make_receiver_def booked_step_def module_ok_def living_of_def split: if_splits)

lemma start_step_kept:
  assumes "module_ok m" and "start_step X E m = (f, m', calls)"
  shows "booked_step m m' calls"
proof (cases "md_receiver m")
  case None
  then show ?thesis using assms by (simp add: start_step_def booked_step_refl)
next
  case (Some r)
  obtain ok r' w ux where s: "start_receiver X (le_mac E) kDefaultPort (le_name E) (r, md_world m) = (ok, (r', w), ux)"
    by (metis prod.exhaust)
  have "receiver_ok r" "md_server m" using assms(1) Some by (simp_all add: module_ok_def)
  then show ?thesis using start_ok [OF _ s] assms Some s
    by (auto simp: start_step_def booked_step_def module_ok_def living_of_def)
qed

lemma stop_module_receiver_kept:
  assumes "module_ok m" and "stop_module_receiver m = (m', calls)"
  shows "booked_step m m' calls \<and> md_threads m' = md_threads m \<and> md_server m' = md_server m \<and>
    md_helper m' = md_helper m \<and> (md_receiver m' = None \<longleftrightarrow> md_receiver m = None) \<and>
    (\<forall>r \<in> set_option (md_receiver m'). \<not> m_running r)"
proof (cases "md_receiver m")
  case None
  then show ?thesis using assms by (simp add: stop_module_receiver_def booked_step_refl)
next
  case (Some r)
  obtain r' ux where s: "stop_receiver r = (r', ux)" by (metis prod.exhaust)
  have "receiver_ok r" "md_server m" using assms(1) Some by (simp_all add: module_ok_def)
  then show ?thesis using stop_ok [OF _ s] assms Some s
    by (auto simp: stop_module_receiver_def booked_step_def module_ok_def living_of_def)
qed

lemma helper_step_kept:
  "module_ok m \<Longrightarrow> booked_step m (m\<lparr>md_helper := h\<rparr>) []"
  by (simp add: booked_step_def module_ok_def living_of_def)

lemma join_thread_kept:
  assumes "module_ok m" and "t \<noteq> Decode_thread" and "join_thread t m = (m', calls)"
  shows "booked_step m m' calls"
  using assms by (auto simp: join_thread_def booked_step_def module_ok_def living_of_def split: if_splits)

lemma join_thread_set: "join_thread t m = (m', calls) \<Longrightarrow> set (md_threads m') = set (md_threads m) - {t}"
  by (auto simp: join_thread_def split: if_splits)

text \<open>Steps of the load: what holds before, and after it if the load goes on.\<close>

definition at_stage :: "bool \<Rightarrow> bool \<Rightarrow> module_thread set \<Rightarrow> 'w module \<Rightarrow> bool" where
  "at_stage srv rec T m \<longleftrightarrow> module_ok m \<and> md_server m = srv \<and> (md_receiver m \<noteq> None) = rec \<and> set (md_threads m) = T"

definition load_ok :: "('w module \<Rightarrow> bool) \<Rightarrow> 'w load_step \<Rightarrow> ('w module \<Rightarrow> bool) \<Rightarrow> bool" where
  "load_ok P a Q \<longleftrightarrow> (\<forall>m f m' calls. P m \<longrightarrow> a m = (f, m', calls) \<longrightarrow> booked_step m m' calls \<and> (f = Goes_on \<longrightarrow> Q m'))"

lemma load_ok_Nil: "load_ok module_ok (load_steps []) module_ok"
  by (simp add: load_ok_def booked_step_refl)

lemma load_ok_Cons:
  assumes "load_ok P a Q" and "load_ok Q (load_steps as) R"
  shows "load_ok P (load_steps (a # as)) R"
  unfolding load_ok_def
proof (intro allI impI)
  fix m f m' calls
  assume P: "P m" and run: "load_steps (a # as) m = (f, m', calls)"
  obtain f1 m1 calls1 where 1: "a m = (f1, m1, calls1)" by (metis prod.exhaust)
  have k: "booked_step m m1 calls1" "f1 = Goes_on \<Longrightarrow> Q m1"
    using assms(1) P 1 unfolding load_ok_def by metis+
  show "booked_step m m' calls \<and> (f = Goes_on \<longrightarrow> R m')"
  proof (cases "f1 = Goes_on")
    case True
    obtain f2 m2 calls2 where 2: "load_steps as m1 = (f2, m2, calls2)" by (metis prod.exhaust)
    then have "booked_step m1 m2 calls2 \<and> (f2 = Goes_on \<longrightarrow> R m2)"
      using assms(2) k(2) [OF True] unfolding load_ok_def by metis
    moreover have "m' = m2" "calls = calls1 @ calls2" "f = f2" using run 1 2 True by simp_all
    ultimately show ?thesis using booked_step_trans [OF k(1)] by blast
  next
    case False
    then show ?thesis using run 1 k(1) by (cases f1) auto
  qed
qed

lemma load_okI:
  assumes "\<And>m f m' calls. P m \<Longrightarrow> a m = (f, m', calls) \<Longrightarrow> booked_step m m' calls"
    and "\<And>m m' calls. P m \<Longrightarrow> a m = (Goes_on, m', calls) \<Longrightarrow> Q m'"
  shows "load_ok P a Q"
  using assms unfolding load_ok_def by blast

lemma guarded_steps_ok:
  "load_ok (at_stage False False {Name_thread}) (load_steps (guarded_steps X E g)) module_ok"
proof -
  let ?T = "{Name_thread, Decode_thread}"
  have 1: "load_ok (at_stage False False {Name_thread}) (\<lambda>m. (Goes_on, m, [Source_registered])) (at_stage False False {Name_thread})"
    by (rule load_okI) (auto simp: booked_step_def at_stage_def)
  have 2: "load_ok (at_stage False False {Name_thread}) (make_server E) (at_stage True False ?T)"
  proof (rule load_okI)
    fix m f m' calls assume "at_stage False False {Name_thread} m" "make_server E m = (f, m', calls)"
    then show "booked_step m m' calls" by (intro make_server_kept) (auto simp: at_stage_def)
  next
    fix m m' calls assume "at_stage False False {Name_thread} m" "make_server E m = (Goes_on, m', calls)"
    then show "at_stage True False ?T m'"
      by (cases "le_server_throws E"; clarsimp simp: at_stage_def make_server_def module_ok_def insert_commute)
  qed
  have 3: "load_ok (at_stage True False ?T) (make_receiver E g) (at_stage True True ?T)"
  proof (rule load_okI)
    fix m f m' calls assume "at_stage True False ?T m" "make_receiver E g m = (f, m', calls)"
    then show "booked_step m m' calls" by (intro make_receiver_kept) (auto simp: at_stage_def)
  next
    fix m m' calls assume "at_stage True False ?T m" "make_receiver E g m = (Goes_on, m', calls)"
    then show "at_stage True True ?T m'"
      using configured_receiver_ok
      by (cases "le_receiver_throws E"; clarsimp simp: at_stage_def make_receiver_def module_ok_def)
  qed
  have 4: "load_ok (at_stage True True ?T) (start_thread Status_thread (le_status_throws E)) (\<lambda>m. module_ok m \<and> Warmup_thread \<notin> set (md_threads m))"
  proof (rule load_okI)
    fix m f m' calls assume "at_stage True True ?T m" "start_thread Status_thread (le_status_throws E) m = (f, m', calls)"
    then show "booked_step m m' calls" by (intro start_thread_kept) (auto simp: at_stage_def)
  next
    fix m m' calls assume "at_stage True True ?T m" "start_thread Status_thread (le_status_throws E) m = (Goes_on, m', calls)"
    then show "module_ok m' \<and> Warmup_thread \<notin> set (md_threads m')"
      by (cases "le_status_throws E"; clarsimp simp: at_stage_def start_thread_def module_ok_def)
  qed
  have 5: "load_ok (\<lambda>m. module_ok m \<and> Warmup_thread \<notin> set (md_threads m)) (start_step X E) (\<lambda>m. module_ok m \<and> Warmup_thread \<notin> set (md_threads m))"
  proof (rule load_okI)
    fix m f m' calls assume m: "module_ok m \<and> Warmup_thread \<notin> set (md_threads m)" "start_step X E m = (f, m', calls)"
    then show "booked_step m m' calls" by (intro start_step_kept) auto
  next
    fix m m' calls assume m: "module_ok m \<and> Warmup_thread \<notin> set (md_threads m)" "start_step X E m = (Goes_on, m', calls)"
    have "md_threads m' = md_threads m" using m(2) by (auto simp: start_step_def split: option.splits prod.splits if_splits)
    moreover have "booked_step m m' calls" using start_step_kept m by blast
    ultimately show "module_ok m' \<and> Warmup_thread \<notin> set (md_threads m')" using m by (auto simp: booked_step_def)
  qed
  have 6: "load_ok (\<lambda>m. module_ok m \<and> Warmup_thread \<notin> set (md_threads m)) (warmup_step E) module_ok"
  proof (rule load_okI)
    fix m f m' calls assume m: "module_ok m \<and> Warmup_thread \<notin> set (md_threads m)" "warmup_step E m = (f, m', calls)"
    then show "booked_step m m' calls"
      using start_thread_kept [of m Warmup_thread "le_warmup_throws E" f m' calls]
      by (cases "le_hardware E") (auto simp: warmup_step_def booked_step_refl)
  next
    fix m m' calls assume m: "module_ok m \<and> Warmup_thread \<notin> set (md_threads m)" "warmup_step E m = (Goes_on, m', calls)"
    then show "module_ok m'"
      by (cases "le_hardware E"; cases "le_warmup_throws E"; clarsimp simp: warmup_step_def start_thread_def module_ok_def)
  qed
  have 7: "load_ok module_ok (helper_step E) module_ok"
    by (rule load_okI) (auto simp: helper_step_def helper_step_kept module_ok_def)
  show ?thesis unfolding guarded_steps_def
    by (intro load_ok_Cons [OF 1] load_ok_Cons [OF 2] load_ok_Cons [OF 3] load_ok_Cons [OF 4] load_ok_Cons [OF 5]
        load_ok_Cons [OF 6] load_ok_Cons [OF 7] load_ok_Nil)
qed

definition nobody :: living where "nobody = ({}, False, False, ({}, {}, None))"

lemma load_kept:
  assumes "obs_module_load X E g w = (m, calls)"
  shows "module_ok m \<and> follow_all calls nobody = Some (living_of m)"
proof -
  let ?m = "(module_new w)\<lparr>md_threads := [Name_thread]\<rparr>"
  obtain f m1 calls1 where 1: "load_steps (guarded_steps X E g) ?m = (f, m1, calls1)" by (metis prod.exhaust)
  have "at_stage False False {Name_thread} ?m" by (simp add: at_stage_def module_new_def module_ok_def)
  then have k: "booked_step ?m m1 calls1" using guarded_steps_ok 1 unfolding load_ok_def by blast
  obtain m2 calls2 where 2: "(if f = Throws then stop_module_receiver m1 else (m1, [])) = (m2, calls2)" by (metis prod.exhaust)
  have "booked_step m1 m2 calls2"
  proof (cases "f = Throws")
    case True
    then show ?thesis using stop_module_receiver_kept [of m1 m2 calls2] k 2 by (simp add: booked_step_def)
  next
    case False
    then show ?thesis using k 2 by (simp add: booked_step_def)
  qed
  with k have "booked_step ?m m2 (calls1 @ calls2)" by (rule booked_step_trans)
  moreover have "m = m2" "calls = Thread_starts Name_thread # calls1 @ calls2"
    using assms 1 2 by (simp_all add: obs_module_load_def)
  moreover have "follow (Thread_starts Name_thread) nobody = Some (living_of ?m)"
    by (simp add: nobody_def living_of_def module_new_def)
  ultimately show ?thesis by (simp add: booked_step_def)
qed

text \<open>The steps of the unload: the threads that use nobody else first.\<close>

lemma unload_end:
  assumes "module_ok m" and "set (md_threads m) \<subseteq> {Decode_thread}" and "\<forall>r \<in> set_option (md_receiver m). \<not> m_running r"
    and "module_steps [stop_module_server, release_receiver, release_server] m = (t, calls)"
  shows "follow_all calls (living_of m) = Some nobody \<and> md_threads t = [] \<and> md_receiver t = None \<and> \<not> md_server t \<and>
    md_helper t = md_helper m"
proof -
  have led: "ledger_of r = ({}, {}, None)" if "md_receiver m = Some r" for r
    using that assms(1,3) by (simp add: idle_ledger module_ok_def)
  show ?thesis
  proof (cases "md_server m")
    case True
    then have d: "Decode_thread \<in> set (md_threads m)" using assms(1) by (simp add: module_ok_def)
    then have none: "removeAll Decode_thread (md_threads m) = []" using assms(2) by (auto simp: removeAll_filter_not_eq filter_empty_conv)
    have T: "set (md_threads m) = {Decode_thread}" using d assms(2) by auto
    show ?thesis
    proof (cases "md_receiver m")
      case None
      then have "calls = [Thread_joined Decode_thread, Server_released]" "t = m\<lparr>md_threads := [], md_server := False\<rparr>"
        using assms(4) True d none
        by (simp_all add: stop_module_server_def join_thread_def release_receiver_def release_server_def)
      then show ?thesis using None True T by (simp add: living_of_def nobody_def)
    next
      case (Some r)
      then have "calls = [Thread_joined Decode_thread, Receiver_released, Server_released]"
        "t = m\<lparr>md_threads := [], md_receiver := None, md_server := False\<rparr>"
        using assms(4) True d none
        by (simp_all add: stop_module_server_def join_thread_def release_receiver_def release_server_def)
      then show ?thesis using Some True T led [OF Some] by (simp add: living_of_def nobody_def)
    qed
  next
    case False
    then have "md_receiver m = None" "Decode_thread \<notin> set (md_threads m)" using assms(1) by (auto simp: module_ok_def)
    moreover have "set (md_threads m) = {}" using subset_singletonD [OF assms(2)] \<open>Decode_thread \<notin> set (md_threads m)\<close> by (elim disjE) simp_all
    ultimately have "md_receiver m = None" "md_threads m = []" by simp_all
    then show ?thesis using assms(4) False
      by (auto simp: stop_module_server_def release_receiver_def release_server_def living_of_def nobody_def)
  qed
qed

lemma unload_kept:
  assumes "module_ok m" and "obs_module_unload m = (t, calls)"
  shows "follow_all calls (living_of m) = Some nobody \<and> md_threads t = [] \<and> md_receiver t = None \<and> \<not> md_server t \<and>
    md_helper t = stop_airplay_ble_helper (md_helper m)"
proof -
  let ?m0 = "m\<lparr>md_helper := stop_airplay_ble_helper (md_helper m)\<rparr>"
  obtain m1 c1 where 1: "join_thread Warmup_thread ?m0 = (m1, c1)" by (metis prod.exhaust)
  obtain m2 c2 where 2: "join_thread Status_thread m1 = (m2, c2)" by (metis prod.exhaust)
  obtain m3 c3 where 3: "join_thread Name_thread m2 = (m3, c3)" by (metis prod.exhaust)
  obtain m4 c4 where 4: "stop_module_receiver m3 = (m4, c4)" by (metis prod.exhaust)
  obtain c5 where 5: "module_steps [stop_module_server, release_receiver, release_server] m4 = (t, c5)"
    and calls: "calls = c1 @ c2 @ c3 @ c4 @ c5"
    using assms(2) 1 2 3 4 by (auto simp: obs_module_unload_def split: prod.splits)
  have k0: "booked_step m ?m0 []" using helper_step_kept [OF assms(1)] .
  have k1: "booked_step ?m0 m1 c1" using k0 by (intro join_thread_kept [OF _ _ 1]) (simp_all add: booked_step_def)
  have k2: "booked_step m1 m2 c2" using k1 by (intro join_thread_kept [OF _ _ 2]) (simp_all add: booked_step_def)
  have k3: "booked_step m2 m3 c3" using k2 by (intro join_thread_kept [OF _ _ 3]) (simp_all add: booked_step_def)
  have s: "booked_step m3 m4 c4 \<and> md_threads m4 = md_threads m3 \<and> md_helper m4 = md_helper m3 \<and>
      (\<forall>r \<in> set_option (md_receiver m4). \<not> m_running r)"
    using stop_module_receiver_kept [OF _ 4] k3 by (simp add: booked_step_def)
  have h: "md_helper m3 = md_helper ?m0" using 1 2 3 by (auto simp: join_thread_def split: if_splits)
  have "set (md_threads m3) \<subseteq> UNIV - {Warmup_thread} - {Status_thread} - {Name_thread}"
    unfolding join_thread_set [OF 3] join_thread_set [OF 2] join_thread_set [OF 1] by blast
  moreover have "x \<in> {Decode_thread}" if "x \<notin> {Warmup_thread, Status_thread, Name_thread}" for x
    using that by (cases x) simp_all
  ultimately have "set (md_threads m3) \<subseteq> {Decode_thread}" by blast
  then have e: "follow_all c5 (living_of m4) = Some nobody \<and> md_threads t = [] \<and> md_receiver t = None \<and> \<not> md_server t \<and>
      md_helper t = md_helper m4"
    using unload_end [OF _ _ _ 5] s by (simp add: booked_step_def)
  have "booked_step m m4 ([] @ c1 @ c2 @ c3 @ c4)"
    using booked_step_trans [OF k0 booked_step_trans [OF k1 booked_step_trans [OF k2 booked_step_trans [OF k3]]]] s by blast
  then have "follow_all (c1 @ c2 @ c3 @ c4) (living_of m) = Some (living_of m4)" by (simp add: booked_step_def)
  then have "follow_all ((c1 @ c2 @ c3 @ c4) @ c5) (living_of m) = Some nobody"
    using e by (simp only: follow_all_append [of "c1 @ c2 @ c3 @ c4"]) simp
  then show ?thesis using e calls s h by simp
qed

section \<open>What is promised\<close>

text \<open>
  C17. However the load of the module ends (a constructor that throws, a receiver that does not start, a
  helper that cannot be launched), unloading it joins every thread that was started, frees every UxPlay
  context, and releases the receiver and the server only when nothing that uses them is left.
\<close>

theorem nothing_outlives_the_module:
  assumes "obs_module_load X E g w = (m, calls)" and "obs_module_unload m = (t, later)"
  shows "follow_all (calls @ later) nobody = Some nobody \<and> md_threads t = [] \<and> md_receiver t = None \<and> \<not> md_server t \<and>
    \<not> g_helper_started (md_helper t) \<and> \<not> g_launch_waiter (md_helper t)"
  using load_kept [OF assms(1)] unload_kept [OF _ assms(2)] by (simp add: follow_all_append stop_airplay_ble_helper_def)

definition witness_load_env :: load_env where
  "witness_load_env = \<lparr>le_server_throws = False, le_receiver_throws = False, le_status_throws = False, le_warmup_throws = False,
     le_hardware = True, le_launch = Spawned, le_mac = generateMACAddress [1, 2, 3, 4, 5, 6], le_name = ''x'',
     le_accept_video = True, le_sender_only = False\<rparr>"

theorem nothing_outlives_the_module_witness:
  "follow_all (snd (obs_module_load witness_uxlib witness_load_env policy_initial 0) @
     snd (obs_module_unload (fst (obs_module_load witness_uxlib witness_load_env policy_initial 0)))) nobody = Some nobody"
proof -
  obtain m calls where l: "obs_module_load witness_uxlib witness_load_env policy_initial 0 = (m, calls)" by (metis prod.exhaust)
  obtain t later where u: "obs_module_unload m = (t, later)" by (metis prod.exhaust)
  show ?thesis using nothing_outlives_the_module [OF l u] by (simp add: l u)
qed

text \<open>
  The identity the receiver starts with can be parsed by it, and once it could be saved (or was
  read) every later load gives the same one, whatever address is generated then.
\<close>

theorem identity_survives_restarts:
  assumes "length bs = 6" and "load_or_persist_mac path writable (generateMACAddress bs) file = (mac, file')"
  shows "parse_device_id mac \<noteq> None \<and>
    (path \<and> (writable \<or> read_mac file \<noteq> None) \<longrightarrow> load_or_persist_mac path writable' other file' = (mac, file'))"
proof -
  have v: "valid_mac mac"
    using assms generated_valid [OF assms(1)]
    by (auto simp: load_or_persist_mac_def read_mac_def Let_def split: if_splits option.splits)
  then show ?thesis using valid_mac_parses [OF v] saved_mac_reads_back [OF v] assms(2)
    by (auto simp: load_or_persist_mac_def split: if_splits option.splits)
qed

theorem identity_survives_restarts_witness:
  "load_or_persist_mac True False ''zz'' (snd (load_or_persist_mac True True (generateMACAddress [1, 2, 3, 4, 5, 171]) (Some ''broken''))) =
   load_or_persist_mac True True ''01:02:03:04:05:AB'' (Some ''broken'')"
proof -
  obtain mac f where l: "load_or_persist_mac True True (generateMACAddress [1, 2, 3, 4, 5, 171]) (Some ''broken'') = (mac, f)"
    by (metis prod.exhaust)
  have g: "generateMACAddress [1, 2, 3, 4, 5, 171] = ''01:02:03:04:05:AB''" by code_simp
  show ?thesis using identity_survives_restarts [OF _ l, of False "''zz''"] l unfolding g by simp
qed

end
