(* ===== verification/Update_Release.thy ===== *)
theory Update_Release
  imports Hls_Playlist
begin

text \<open>
  \<^verbatim>\<open>src/plugin-updater.mm\<close>, the part that decides on a release: which versions are newer, which file of
  a release can be installed, what an update signature signs and whether it is one of the project.
  URLs, base64, UTF-8, SHA-256 and Ed25519 are parameters; characters are bytes (a tag with other
  digits than the ASCII ones, which Foundation would take, is not modelled).
\<close>

section \<open>Versions\<close>

definition trim_space :: "string \<Rightarrow> string" where
  "trim_space s = rev (dropWhile is_space (rev (dropWhile is_space s)))"

fun version_part :: "string \<Rightarrow> nat option" where
  "version_part part =
     (if part = [] \<or> length part > 6 \<or> \<not> list_all is_digit part then None else Some (nat (digits_value part)))"

fun parse_parts :: "string list \<Rightarrow> nat list option" where
  "parse_parts [] = Some []"
| "parse_parts (part # parts) =
     (case version_part part of
        None \<Rightarrow> None
      | Some n \<Rightarrow> map_option (\<lambda>ns. n # ns) (parse_parts parts))"

definition without_v :: "string \<Rightarrow> string" where
  "without_v s = (if starts_with s ''v'' \<or> starts_with s ''V'' then drop 1 s else s)"

text \<open>\<open>None\<close> is \<open>nil\<close>, what is not a string at all.\<close>

definition parseVersion :: "string option \<Rightarrow> nat list option" where
  "parseVersion version =
     (case version of
        None \<Rightarrow> None
      | Some v \<Rightarrow>
          (let parts = split_on (CHR ''.'') (without_v (trim_space v))
           in if length parts \<noteq> 3 then None else parse_parts parts))"

definition plainVersion :: "string option \<Rightarrow> string option" where
  "plainVersion version = map_option (\<lambda>ns. join_with (CHR ''.'') (map nat_string ns)) (parseVersion version)"

fun later_parts :: "nat list \<Rightarrow> nat list \<Rightarrow> bool" where
  "later_parts (a # as) (b # bs) = (if a \<noteq> b then b < a else later_parts as bs)"
| "later_parts _ _ = False"

definition isNewerVersion :: "string option \<Rightarrow> string option \<Rightarrow> bool" where
  "isNewerVersion candidate current =
     (case (parseVersion candidate, parseVersion current) of
        (Some a, Some b) \<Rightarrow> later_parts a b
      | _ \<Rightarrow> False)"

section \<open>The file of a release\<close>

text \<open>A JSON value as the code looks at it; a number is its \<open>unsignedLongLongValue\<close>.\<close>

datatype json = J_string string | J_number nat | J_list "json list" | J_object "(string \<times> json) list" | J_other

fun member :: "json \<Rightarrow> string \<Rightarrow> json option" where
  "member (J_object ms) key = map_of ms key"
| "member _ key = None"

fun json_string :: "json option \<Rightarrow> string option" where
  "json_string (Some (J_string s)) = Some s"
| "json_string _ = None"

fun json_number :: "json option \<Rightarrow> nat option" where
  "json_number (Some (J_number n)) = Some n"
| "json_number _ = None"

record address_view =
  uv_scheme :: "string option"
  uv_host :: "string option"
  uv_path :: "string option"
  uv_query :: "string option"
  uv_user :: "string option"

definition kDownloadPathPrefix :: string where
  "kDownloadPathPrefix = ''/LZlamian/OBS-AirPlay-Plugin/releases/download/''"

definition kMaxUpdateSize :: nat where "kMaxUpdateSize = 200 * 1024 * 1024"
definition kMaxSignatureSize :: nat where "kMaxSignatureSize = 4096"

definition isProjectDownloadURL :: "address_view option \<Rightarrow> bool" where
  "isProjectDownloadURL u =
     (case u of
        None \<Rightarrow> False
      | Some v \<Rightarrow> uv_scheme v = Some ''https'' \<and> uv_host v = Some ''github.com'' \<and>
          (case uv_path v of None \<Rightarrow> False | Some p \<Rightarrow> starts_with p kDownloadPathPrefix) \<and>
          uv_query v = None \<and> uv_user v = None)"

record asset =
  as_version :: string
  as_url :: string
  as_sha256 :: string
  as_size :: nat
  as_name :: string
  as_signature_url :: string
  as_signature :: "bytes option"

text \<open>The address of the signature of \<open>name\<close>: the last entry that has one.\<close>

definition signature_entry :: "(string \<Rightarrow> address_view option) \<Rightarrow> string \<Rightarrow> json \<Rightarrow> string option" where
  "signature_entry urls name entry =
     (case (json_string (member entry ''name''), json_string (member entry ''browser_download_url''),
            json_number (member entry ''size'')) of
        (Some n, Some address, Some bytes) \<Rightarrow>
          if n = name \<and> isProjectDownloadURL (urls address) \<and> bytes > 0 \<and> bytes \<le> kMaxSignatureSize
          then Some address else None
      | _ \<Rightarrow> None)"

fun signature_url :: "(string \<Rightarrow> address_view option) \<Rightarrow> string \<Rightarrow> json list \<Rightarrow> string option \<Rightarrow> string option" where
  "signature_url urls name [] found = found"
| "signature_url urls name (entry # entries) found =
     signature_url urls name entries
       (case signature_entry urls name entry of None \<Rightarrow> found | Some address \<Rightarrow> Some address)"

definition digest_prefix :: string where "digest_prefix = ''sha256:''"

text \<open>What an entry of the expected name is good for.\<close>

definition entry_asset :: "(string \<Rightarrow> address_view option) \<Rightarrow> string \<Rightarrow> string \<Rightarrow> string \<Rightarrow> json \<Rightarrow> asset option" where
  "entry_asset urls version name sig entry =
     (case (json_string (member entry ''browser_download_url''), json_string (member entry ''digest''),
            json_number (member entry ''size'')) of
        (Some address, Some digest, Some bytes) \<Rightarrow>
          if \<not> isProjectDownloadURL (urls address) then None
          else if \<not> starts_with digest digest_prefix \<or> length digest \<noteq> length digest_prefix + 64 then None
          else if bytes = 0 \<or> bytes > kMaxUpdateSize then None
          else Some \<lparr>as_version = version, as_url = address, as_sha256 = map to_lower (drop (length digest_prefix) digest),
            as_size = bytes, as_name = name, as_signature_url = sig, as_signature = None\<rparr>
      | _ \<Rightarrow> None)"

definition expected_name :: "string \<Rightarrow> string \<Rightarrow> string" where
  "expected_name version architecture = ''obs-airplay-v'' @ version @ ''-macos-'' @ architecture @ ''.zip''"

definition installableAsset :: "(string \<Rightarrow> address_view option) \<Rightarrow> json \<Rightarrow> string \<Rightarrow> asset option" where
  "installableAsset urls release architecture =
     (case (plainVersion (json_string (member release ''tag_name'')), member release ''assets'') of
        (Some version, Some (J_list entries)) \<Rightarrow>
          (let name = expected_name version architecture
           in case signature_url urls (name @ ''.sig'') entries None of
                None \<Rightarrow> None
              | Some sig \<Rightarrow>
                  (case find (\<lambda>e. json_string (member e ''name'') = Some name) entries of
                     None \<Rightarrow> None
                   | Some entry \<Rightarrow> entry_asset urls version name sig entry))
      | _ \<Rightarrow> None)"

section \<open>Signatures\<close>

record crypto =
  cr_text :: "bytes \<Rightarrow> string option"
  cr_base64 :: "string \<Rightarrow> bytes option"
  cr_verify :: "bytes \<Rightarrow> string \<Rightarrow> bytes \<Rightarrow> bool"
  cr_sha256 :: "bytes \<Rightarrow> string"

definition updateSignedMessage :: "asset \<Rightarrow> string" where
  "updateSignedMessage a =
     ''obs-airplay-update-v1'' @ [CHR 0x0A] @ ''name='' @ as_name a @ [CHR 0x0A] @ ''version='' @ as_version a @ [CHR 0x0A] @
     ''size='' @ nat_string (as_size a) @ [CHR 0x0A] @ ''sha256='' @ as_sha256 a @ [CHR 0x0A]"

definition line_break :: "char \<Rightarrow> bool" where
  "line_break c \<longleftrightarrow> c \<in> {CHR 0x0A, CHR 0x0B, CHR 0x0C, CHR 0x0D}"

fun split_lines :: "string \<Rightarrow> string list" where
  "split_lines [] = [[]]"
| "split_lines (c # cs) =
     (if line_break c then [] # split_lines cs
      else (case split_lines cs of l # ls \<Rightarrow> (c # l) # ls | [] \<Rightarrow> [[c]]))"

text \<open>The bytes of the signature in a \<^verbatim>\<open>.sig\<close> file.\<close>

definition signature_bytes :: "crypto \<Rightarrow> bytes \<Rightarrow> bytes option" where
  "signature_bytes C file =
     (case map_option split_lines (cr_text C file) of
        Some (first # second # rest) \<Rightarrow>
          if first \<noteq> ''obs-airplay-update-signature-v1'' \<or> \<not> starts_with second ''sig: '' then None
          else (case cr_base64 C (drop 5 second) of
                  Some bs \<Rightarrow> if length bs = 64 then Some bs else None
                | None \<Rightarrow> None)
      | _ \<Rightarrow> None)"

definition verifyUpdateSignature :: "crypto \<Rightarrow> bytes list \<Rightarrow> asset \<Rightarrow> bool" where
  "verifyUpdateSignature C keys a =
     (case as_signature a of
        None \<Rightarrow> False
      | Some file \<Rightarrow>
          if length file > kMaxSignatureSize then False
          else (case signature_bytes C file of
                  None \<Rightarrow> False
                | Some sig \<Rightarrow> list_ex (\<lambda>key. cr_verify C key (updateSignedMessage a) sig) keys))"

text \<open>
  \<open>dataFromHex\<close> and the keys that are built in. \<open>scanHexInt\<close> reads two characters here; it is only
  used on the keys, which are hexadecimal digits.
\<close>

definition hex_digit_value :: "char \<Rightarrow> nat" where
  "hex_digit_value c = (if is_digit c then char_code c - 48 else char_code (to_lower c) - 87)"

fun dataFromHex :: "string \<Rightarrow> bytes option" where
  "dataFromHex [] = Some []"
| "dataFromHex [c] = None"
| "dataFromHex (c # d # cs) =
     (if is_xdigit c \<and> is_xdigit d
      then map_option (\<lambda>bs. word_of_nat (16 * hex_digit_value c + hex_digit_value d) # bs) (dataFromHex cs)
      else None)"

definition kTrustedUpdateKeys :: "string list" where
  "kTrustedUpdateKeys = [''ca4d3512515ca43033f9994d36fe58c0dac5da39ede4f645a375f740310372af'']"

definition trustedKeys :: "bytes list option \<Rightarrow> bytes list" where
  "trustedKeys testing =
     (case testing of
        Some keys \<Rightarrow> keys
      | None \<Rightarrow> filter (\<lambda>key. length key = 32) (List.map_filter dataFromHex kTrustedUpdateKeys))"

lemma the_built_in_key: "map length (trustedKeys None) = [32]"
  by code_simp

section \<open>Versions as a linear order\<close>

text \<open>
  What a version is to the reader: three numbers, ordered by the first in which they differ. The
  comparison of the code is this order, so of two releases one is newer or they are the same, and
  what is newer than a newer one is newer.
\<close>

datatype release_number = Release_number nat nat nat

instantiation release_number :: linorder
begin

fun less_release_number :: "release_number \<Rightarrow> release_number \<Rightarrow> bool" where
  "less_release_number (Release_number a b c) (Release_number x y z) \<longleftrightarrow> a < x \<or> a = x \<and> (b < y \<or> b = y \<and> c < z)"

definition less_eq_release_number :: "release_number \<Rightarrow> release_number \<Rightarrow> bool" where
  "less_eq_release_number v w \<longleftrightarrow> v < w \<or> v = w"

instance
proof
  fix u v w :: release_number
  obtain a b c where u: "u = Release_number a b c" by (cases u)
  obtain x y z where v: "v = Release_number x y z" by (cases v)
  obtain p q r where w: "w = Release_number p q r" by (cases w)
  show "u < v \<longleftrightarrow> u \<le> v \<and> \<not> v \<le> u" by (auto simp: u v less_eq_release_number_def)
  show "u \<le> u" by (simp add: less_eq_release_number_def)
  show "u \<le> v \<Longrightarrow> v \<le> w \<Longrightarrow> u \<le> w" by (auto simp: u v w less_eq_release_number_def)
  show "u \<le> v \<Longrightarrow> v \<le> u \<Longrightarrow> u = v" by (auto simp: u v less_eq_release_number_def)
  show "u \<le> v \<or> v \<le> u" by (auto simp: u v less_eq_release_number_def)
qed

end

fun release_number_of :: "nat list \<Rightarrow> release_number option" where
  "release_number_of [a, b, c] = Some (Release_number a b c)"
| "release_number_of ns = None"

definition release_of :: "string option \<Rightarrow> release_number option" where
  "release_of version = Option.bind (parseVersion version) release_number_of"

lemma parse_parts_length: "parse_parts parts = Some ns \<Longrightarrow> length ns = length parts"
  by (induction parts arbitrary: ns) (auto split: option.splits)

lemma parsed_release: "parseVersion version = Some ns \<Longrightarrow> \<exists>a b c. ns = [a, b, c]"
  using parse_parts_length
  by (fastforce simp: parseVersion_def Let_def numeral_3_eq_3 length_Suc_conv split: option.splits if_splits)

lemma versions_are_compared_linearly:
  "isNewerVersion candidate current \<longleftrightarrow>
     (\<exists>v w. release_of candidate = Some v \<and> release_of current = Some w \<and> w < v)"
proof (cases "parseVersion candidate = None \<or> parseVersion current = None")
  case False
  then obtain ns ms where n: "parseVersion candidate = Some ns" "parseVersion current = Some ms" by auto
  obtain a b c x y z where "ns = [a, b, c]" "ms = [x, y, z]" using parsed_release [OF n(1)] parsed_release [OF n(2)] by blast
  with n have p: "parseVersion candidate = Some [a, b, c]" "parseVersion current = Some [x, y, z]" by simp_all
  show ?thesis by (auto simp: isNewerVersion_def release_of_def p)
qed (auto simp: isNewerVersion_def release_of_def split: option.split)

lemma newer_trans: "isNewerVersion a b \<Longrightarrow> isNewerVersion b c \<Longrightarrow> isNewerVersion a c"
  by (auto simp: versions_are_compared_linearly)

lemma newer_irrefl: "\<not> isNewerVersion a a"
  by (auto simp: versions_are_compared_linearly)

section \<open>Versions and their text\<close>

lemma digits_value_bound: "list_all is_digit ds \<Longrightarrow> 0 \<le> digits_value ds \<and> digits_value ds < 10 ^ length ds"
proof (induction ds rule: rev_induct)
  case (snoc d ds)
  then have "0 \<le> digit_value d" "digit_value d \<le> 9" by (auto simp: digit_value_def is_digit_def)
  then show ?case using snoc by (simp add: digits_value_snoc)
qed (simp add: digits_value_def)

lemma nat_string_length: "n < 10 ^ Suc k \<Longrightarrow> length (nat_string n) \<le> Suc k"
proof (induction k arbitrary: n)
  case 0
  then show ?case by (subst nat_string.simps) simp
next
  case (Suc k)
  then have "length (nat_string (n div 10)) \<le> Suc k" by (intro Suc.IH) (simp add: div_less_iff_less_mult)
  then show ?case by (subst nat_string.simps) simp
qed

lemma version_part_text: "version_part part = Some n \<Longrightarrow> version_part (nat_string n) = Some n"
proof -
  assume v: "version_part part = Some n"
  then have p: "part \<noteq> []" "length part \<le> 6" "list_all is_digit part" "n = nat (digits_value part)" by (auto split: if_splits)
  have "(10::int) ^ length part \<le> 10 ^ 6" using p(2) by (intro power_increasing) simp_all
  with digits_value_bound [OF p(3)] p(4) have "n < 10 ^ Suc 5" by auto
  from nat_string_length [OF this] show ?thesis
    by (simp add: nat_string_nonempty nat_string_digits digits_value_nat_string)
qed

lemma parse_parts_text: "parse_parts parts = Some ns \<Longrightarrow> parse_parts (map nat_string ns) = Some ns \<and> length ns = length parts"
proof (induction parts arbitrary: ns)
  case (Cons part parts)
  then obtain n ms where n: "version_part part = Some n" "parse_parts parts = Some ms" "ns = n # ms" by (auto split: option.splits)
  show ?case using Cons.IH [OF n(2)] version_part_text [OF n(1)] n(3) by (simp del: version_part.simps)
qed simp

lemma trim_space_digits:
  assumes "s \<noteq> []" "is_digit (hd s)" "is_digit (last s)"
  shows "trim_space s = s"
proof -
  have "dropWhile is_space s = s" using assms is_digit_not(4) [of "hd s"] by (cases s) auto
  moreover have "dropWhile is_space (rev s) = rev s"
    using assms is_digit_not(4) [of "last s"] by (cases s rule: rev_cases) auto
  ultimately show ?thesis by (simp add: trim_space_def)
qed

lemma nat_string_ends: "is_digit (hd (nat_string n))" "is_digit (last (nat_string n))"
  using nat_string_digits [of n] nat_string_nonempty [of n] by (simp_all add: list_all_iff)

lemma version_text_parses:
  assumes "parse_parts parts = Some ns" "length parts = 3"
  shows "parseVersion (Some (join_with (CHR ''.'') (map nat_string ns))) = Some ns"
proof -
  obtain a b c where ns: "ns = [a, b, c]"
    using parse_parts_text [OF assms(1)] assms(2) by (auto simp: length_Suc_conv numeral_3_eq_3)
  let ?t = "join_with (CHR ''.'') (map nat_string ns)"
  have ends: "?t \<noteq> []" "is_digit (hd ?t)" "is_digit (last ?t)"
    using nat_string_ends nat_string_nonempty by (simp_all add: ns)
  have no_dot: "CHR ''.'' \<notin> set (nat_string k)" for k
    using nat_string_digits [of k] by (auto simp: list_all_iff is_digit_def char_code_def)
  have "split_on (CHR ''.'') ?t = map nat_string ns"
    by (rule split_on_join) (simp_all add: ns no_dot)
  moreover have "without_v ?t = ?t" using ends(1,2)
    by (cases ?t) (auto simp: without_v_def starts_with_def is_digit_def char_code_def)
  moreover have "parse_parts (map nat_string ns) = Some ns" using parse_parts_text [OF assms(1)] by simp
  ultimately show ?thesis using trim_space_digits [OF ends] by (simp add: parseVersion_def ns)
qed

text \<open>The plain text of a version says the same version.\<close>

lemma plainVersion_parses:
  assumes "plainVersion v = Some p"
  shows "parseVersion (Some p) = parseVersion v"
proof -
  obtain s ns where s: "v = Some s" "parseVersion v = Some ns" "p = join_with (CHR ''.'') (map nat_string ns)"
    using assms by (cases v) (auto simp: plainVersion_def parseVersion_def)
  then have "parse_parts (split_on (CHR ''.'') (without_v (trim_space s))) = Some ns"
    "length (split_on (CHR ''.'') (without_v (trim_space s))) = 3" by (auto simp: parseVersion_def Let_def split: if_splits)
  from version_text_parses [OF this] s show ?thesis by simp
qed

lemma plainVersion_newer: "plainVersion v = Some p \<Longrightarrow> isNewerVersion (Some p) w = isNewerVersion v w"
  by (simp add: isNewerVersion_def plainVersion_parses)

section \<open>What a signature binds\<close>

lemma line_ends:
  assumes "a @ CHR 0x0A # x = b @ CHR 0x0A # y" "CHR 0x0A \<notin> set a" "CHR 0x0A \<notin> set b"
  shows "a = b \<and> x = y"
proof -
  have "takeWhile (\<lambda>c. c \<noteq> CHR 0x0A) (u @ CHR 0x0A # v) = u" if "CHR 0x0A \<notin> set u" for u v
    using that by (induction u) auto
  with assms have "a = b" by metis
  with assms(1) show ?thesis by simp
qed

text \<open>The signed text determines the file it is about.\<close>

lemma signed_message_binds:
  assumes "updateSignedMessage a = updateSignedMessage b"
    and "\<forall>x\<in>{a, b}. CHR 0x0A \<notin> set (as_name x) \<and> CHR 0x0A \<notin> set (as_version x)"
  shows "as_name a = as_name b \<and> as_version a = as_version b \<and> as_size a = as_size b \<and> as_sha256 a = as_sha256 b"
proof -
  have n: "CHR 0x0A \<notin> set (nat_string k)" for k
    using nat_string_digits [of k] by (auto simp: list_all_iff is_digit_def char_code_def)
  from assms(1) have "as_name a @ CHR 0x0A # ''version='' @ as_version a @ CHR 0x0A # ''size='' @ nat_string (as_size a) @ CHR 0x0A # ''sha256='' @ as_sha256 a @ [CHR 0x0A]
      = as_name b @ CHR 0x0A # ''version='' @ as_version b @ CHR 0x0A # ''size='' @ nat_string (as_size b) @ CHR 0x0A # ''sha256='' @ as_sha256 b @ [CHR 0x0A]"
    by (simp add: updateSignedMessage_def)
  from line_ends [OF this] assms(2) have 1: "as_name a = as_name b"
    and "as_version a @ CHR 0x0A # ''size='' @ nat_string (as_size a) @ CHR 0x0A # ''sha256='' @ as_sha256 a @ [CHR 0x0A]
      = as_version b @ CHR 0x0A # ''size='' @ nat_string (as_size b) @ CHR 0x0A # ''sha256='' @ as_sha256 b @ [CHR 0x0A]" by simp_all
  from line_ends [OF this(2)] assms(2) have 2: "as_version a = as_version b"
    and "nat_string (as_size a) @ CHR 0x0A # ''sha256='' @ as_sha256 a @ [CHR 0x0A]
      = nat_string (as_size b) @ CHR 0x0A # ''sha256='' @ as_sha256 b @ [CHR 0x0A]" by simp_all
  from line_ends [OF this(2) n n] have "nat_string (as_size a) = nat_string (as_size b)" "as_sha256 a = as_sha256 b" by simp_all
  then have "as_size a = as_size b" by (metis digits_value_nat_string of_nat_eq_iff)
  with 1 2 \<open>as_sha256 a = as_sha256 b\<close> show ?thesis by simp
qed

text \<open>What an installable file of a release has.\<close>

lemma installableAsset_has:
  assumes "installableAsset urls release architecture = Some a"
  shows "0 < as_size a \<and> as_size a \<le> kMaxUpdateSize \<and> length (as_sha256 a) = 64 \<and> as_signature a = None \<and>
    isProjectDownloadURL (urls (as_url a)) \<and> as_name a = expected_name (as_version a) architecture \<and>
    plainVersion (json_string (member release ''tag_name'')) = Some (as_version a)"
  using assms by (auto simp: installableAsset_def entry_asset_def Let_def digest_prefix_def split: option.splits json.splits if_splits)

text \<open>A path that leaves the project's downloads by dot segments passes the check of the address.\<close>

lemma dot_segments_pass:
  "isProjectDownloadURL (Some \<lparr>uv_scheme = Some ''https'', uv_host = Some ''github.com'',
     uv_path = Some ''/LZlamian/OBS-AirPlay-Plugin/releases/download/../../../../other/project/x.zip'', uv_query = None, uv_user = None\<rparr>)"
  by code_simp

end
