(* ===== verification/Update_Install.thy ===== *)
theory Update_Install
  imports Update_Release
begin

text \<open>
  \<^verbatim>\<open>src/plugin-updater.mm\<close>, the part that changes the disk: a downloaded update is checked, unpacked and
  put beside the plugin (\<open>OBSAirPlayStageUpdate\<close>), and swapped in once OBS has quit
  (\<open>OBSAirPlayInstallStagedUpdate\<close>). Every file operation can go well, fail, be done in part, or be the
  last one because the process dies; before each of them another helper, that takes no lock for that,
  can discard what is staged. Whatever holds the lock does so alone (\<open>Update_Lock\<close>).
\<close>

section \<open>The disk\<close>

text \<open>
  A bundle by what the code reads of it: \<^verbatim>\<open>Info.plist\<close>, and whether all its files are as they were when
  it was packaged.
\<close>

record plugin_bundle =
  bd_identifier :: "string option"
  bd_version :: "string option"
  bd_minimum :: "string option"
  bd_architectures :: "string list"
  bd_build :: nat
  bd_intact :: bool

datatype zip_entry = Bundle plugin_bundle | Plain_entry

text \<open>The staging folder: who can use it, what was unpacked in it, and the bundle that waits.\<close>

record staging =
  sg_private :: bool
  sg_incoming :: "(string \<times> zip_entry) list option"
  sg_staged :: "plugin_bundle option"

record disk =
  dk_plugin :: "plugin_bundle option"
  dk_staging :: "staging option"
  dk_previous :: "plugin_bundle option option"

text \<open>What the updater is given: cryptography, the keys, the tools and the system.\<close>

record updater =
  up_crypto :: crypto
  up_keys :: "bytes list"
  up_unpack :: "bytes \<Rightarrow> (string \<times> zip_entry) list"
  up_codesign :: "plugin_bundle \<Rightarrow> bool"
  up_system :: "int list \<Rightarrow> bool"
  up_architecture :: string

datatype outcome = Goes | Fails | Partly | Dies_before | Dies_partly

record file_answer =
  fa_discarded :: bool
  fa_outcome :: outcome
  fa_left :: plugin_bundle

text \<open>A helper at work; once it is dead nothing it does has an effect.\<close>

record working =
  wg_disk :: disk
  wg_answers :: "file_answer list"
  wg_dead :: bool

definition discard_staged :: "disk \<Rightarrow> disk" where
  "discard_staged d = d\<lparr>dk_staging := None\<rparr>"

text \<open>
  One file operation: what it does when it goes well (\<open>None\<close> when it cannot), and what it leaves when
  only a part of it is done.
\<close>

definition file_op :: "(disk \<Rightarrow> disk option) \<Rightarrow> (plugin_bundle \<Rightarrow> disk \<Rightarrow> disk) \<Rightarrow> working \<Rightarrow> bool \<times> working" where
  "file_op whole part g =
     (if wg_dead g then (False, g)
      else
        (case wg_answers g of
           [] \<Rightarrow> (case whole (wg_disk g) of None \<Rightarrow> (False, g) | Some d \<Rightarrow> (True, g\<lparr>wg_disk := d\<rparr>))
         | a # as \<Rightarrow>
             (let d0 = (if fa_discarded a then discard_staged (wg_disk g) else wg_disk g); g' = g\<lparr>wg_disk := d0, wg_answers := as\<rparr>
              in case fa_outcome a of
                   Goes \<Rightarrow> (case whole d0 of None \<Rightarrow> (False, g') | Some d \<Rightarrow> (True, g'\<lparr>wg_disk := d\<rparr>))
                 | Fails \<Rightarrow> (False, g')
                 | Partly \<Rightarrow> (False, g'\<lparr>wg_disk := part (fa_left a) d0\<rparr>)
                 | Dies_before \<Rightarrow> (False, g'\<lparr>wg_dead := True\<rparr>)
                 | Dies_partly \<Rightarrow> (False, g'\<lparr>wg_disk := part (fa_left a) d0, wg_dead := True\<rparr>))))"

section \<open>File operations\<close>

definition damaged :: "plugin_bundle \<Rightarrow> plugin_bundle option \<Rightarrow> plugin_bundle option" where
  "damaged left b = map_option (\<lambda>x. left\<lparr>bd_intact := False\<rparr>) b"

definition at_once :: "plugin_bundle \<Rightarrow> disk \<Rightarrow> disk" where
  "at_once left d = d"

text \<open>\<open>removeItemAtURL\<close> of the staging folder, of what was unpacked, and of the previous version.\<close>

definition remove_staging :: "working \<Rightarrow> bool \<times> working" where
  "remove_staging =
     file_op (\<lambda>d. if dk_staging d = None then None else Some (discard_staged d))
       (\<lambda>left d. d\<lparr>dk_staging := map_option (\<lambda>s. s\<lparr>sg_staged := damaged left (sg_staged s)\<rparr>) (dk_staging d)\<rparr>)"

definition remove_incoming :: "working \<Rightarrow> bool \<times> working" where
  "remove_incoming =
     file_op (\<lambda>d. map_option (\<lambda>s. d\<lparr>dk_staging := Some (s\<lparr>sg_incoming := None\<rparr>)\<rparr>) (dk_staging d)) at_once"

definition remove_previous :: "working \<Rightarrow> bool \<times> working" where
  "remove_previous =
     file_op (\<lambda>d. if dk_previous d = None then None else Some (d\<lparr>dk_previous := None\<rparr>))
       (\<lambda>left d. d\<lparr>dk_previous := map_option (damaged left) (dk_previous d)\<rparr>)"

text \<open>
  \<open>createDirectoryAtURL\<close>, which fails when there is one. The staging folder may come out readable for
  others (\<open>Partly\<close> is that, and the call goes well then).
\<close>

definition create_staging :: "bool \<Rightarrow> working \<Rightarrow> bool \<times> working" where
  "create_staging private =
     file_op (\<lambda>d. if dk_staging d \<noteq> None then None
                  else Some (d\<lparr>dk_staging := Some \<lparr>sg_private = private, sg_incoming = None, sg_staged = None\<rparr>\<rparr>)) at_once"

definition create_incoming :: "working \<Rightarrow> bool \<times> working" where
  "create_incoming =
     file_op (\<lambda>d. case dk_staging d of
         Some s \<Rightarrow> (if sg_incoming s = None then Some (d\<lparr>dk_staging := Some (s\<lparr>sg_incoming := Some []\<rparr>)\<rparr>) else None)
       | None \<Rightarrow> None) at_once"

definition create_previous :: "working \<Rightarrow> bool \<times> working" where
  "create_previous = file_op (\<lambda>d. if dk_previous d \<noteq> None then None else Some (d\<lparr>dk_previous := Some None\<rparr>)) at_once"

text \<open>\<^verbatim>\<open>ditto\<close> unpacks into the incoming folder; in part when it fails.\<close>

definition unpack_zip :: "updater \<Rightarrow> bytes \<Rightarrow> working \<Rightarrow> bool \<times> working" where
  "unpack_zip U archive =
     file_op (\<lambda>d. case dk_staging d of
         Some s \<Rightarrow> (if sg_incoming s = None then None else Some (d\<lparr>dk_staging := Some (s\<lparr>sg_incoming := Some (up_unpack U archive)\<rparr>)\<rparr>))
       | None \<Rightarrow> None)
       (\<lambda>left d. d\<lparr>dk_staging := map_option (\<lambda>s. s\<lparr>sg_incoming := Some [(''part'', Plain_entry)]\<rparr>) (dk_staging d)\<rparr>)"

text \<open>\<open>moveItemAtURL\<close> is a rename: at once, and not over something that is there.\<close>

definition kPluginBundleName :: string where "kPluginBundleName = ''obs-airplay.plugin''"

definition incoming_bundle :: "disk \<Rightarrow> plugin_bundle option" where
  "incoming_bundle d =
     (case dk_staging d of
        Some s \<Rightarrow> (case sg_incoming s of
            Some es \<Rightarrow> (case map_of es kPluginBundleName of Some (Bundle b) \<Rightarrow> Some b | _ \<Rightarrow> None)
          | None \<Rightarrow> None)
      | None \<Rightarrow> None)"

definition move_unpacked :: "working \<Rightarrow> bool \<times> working" where
  "move_unpacked =
     file_op (\<lambda>d. case (dk_staging d, incoming_bundle d) of
         (Some s, Some b) \<Rightarrow>
           (if sg_staged s \<noteq> None then None
            else Some (d\<lparr>dk_staging := Some (s\<lparr>sg_incoming := Some [], sg_staged := Some b\<rparr>)\<rparr>))
       | _ \<Rightarrow> None) at_once"

definition staged_bundle :: "disk \<Rightarrow> plugin_bundle option" where
  "staged_bundle d = Option.bind (dk_staging d) sg_staged"

definition put_aside :: "disk \<Rightarrow> disk option" where
  "put_aside d =
     (case (dk_plugin d, dk_previous d) of
        (Some b, Some None) \<Rightarrow> Some (d\<lparr>dk_plugin := None, dk_previous := Some (Some b)\<rparr>)
      | _ \<Rightarrow> None)"

definition put_in_place :: "disk \<Rightarrow> disk option" where
  "put_in_place d =
     (case (dk_staging d, staged_bundle d, dk_plugin d) of
        (Some s, Some b, None) \<Rightarrow> Some (d\<lparr>dk_plugin := Some b, dk_staging := Some (s\<lparr>sg_staged := None\<rparr>)\<rparr>)
      | _ \<Rightarrow> None)"

definition put_back :: "disk \<Rightarrow> disk option" where
  "put_back d =
     (case (dk_plugin d, dk_previous d) of
        (None, Some (Some b)) \<Rightarrow> Some (d\<lparr>dk_plugin := Some b, dk_previous := Some None\<rparr>)
      | _ \<Rightarrow> None)"

definition move_plugin_away :: "working \<Rightarrow> bool \<times> working" where
  "move_plugin_away = file_op put_aside at_once"

definition move_staged :: "working \<Rightarrow> bool \<times> working" where
  "move_staged = file_op put_in_place at_once"

definition move_plugin_back :: "working \<Rightarrow> bool \<times> working" where
  "move_plugin_back = file_op put_back at_once"

section \<open>Checking a bundle\<close>

definition required_system :: "string \<Rightarrow> int list" where
  "required_system minimum =
     (let parts = split_on (CHR ''.'') minimum
      in map (\<lambda>i. if i < length parts then strtoll (parts ! i) else 0) [0, 1, 2])"

text \<open>\<open>checkStagedBundle\<close>; the result is empty or says what is wrong.\<close>

definition checkStagedBundle :: "updater \<Rightarrow> plugin_bundle option \<Rightarrow> string \<Rightarrow> plugin_bundle option \<Rightarrow> string" where
  "checkStagedBundle U staged expected plugin =
     (let identifier = Option.bind staged bd_identifier
      in if identifier = None \<or> identifier \<noteq> Option.bind plugin bd_identifier then ''The download is not the OBS AirPlay plugin.''
         else if plainVersion (Option.bind staged bd_version) \<noteq> Some expected then ''The download is not the announced version.''
         else (case staged of
             None \<Rightarrow> ''The download is not the OBS AirPlay plugin.''
           | Some b \<Rightarrow>
               if (case bd_minimum b of None \<Rightarrow> False | Some m \<Rightarrow> \<not> up_system U (required_system m))
               then ''The update needs macOS '' @ the (bd_minimum b) @ '' or later.''
               else if up_architecture U \<notin> set (bd_architectures b) then ''The update is not built for this Mac.''
               else if \<not> up_codesign U b then ''The update is damaged.''
               else []))"

section \<open>Staging\<close>

definition holds_only_the_bundle :: "disk \<Rightarrow> bool" where
  "holds_only_the_bundle d \<longleftrightarrow>
     (case dk_staging d of
        Some s \<Rightarrow> (case sg_incoming s of Some [(name, Bundle b)] \<Rightarrow> name = kPluginBundleName | _ \<Rightarrow> False)
      | None \<Rightarrow> False)"

definition is_private :: "disk \<Rightarrow> bool" where
  "is_private d \<longleftrightarrow> (case dk_staging d of Some s \<Rightarrow> sg_private s | None \<Rightarrow> False)"

text \<open>Unpacking and checking under another name first.\<close>

definition unpack_and_check :: "updater \<Rightarrow> bytes \<Rightarrow> asset \<Rightarrow> working \<Rightarrow> string \<times> working" where
  "unpack_and_check U archive a g =
     (case create_incoming g of
        (False, g1) \<Rightarrow> (''The update could not be unpacked.'', g1)
      | (True, g1) \<Rightarrow>
          (case unpack_zip U archive g1 of
             (False, g2) \<Rightarrow> (''The update could not be unpacked.'', g2)
           | (True, g2) \<Rightarrow>
               if \<not> holds_only_the_bundle (wg_disk g2) then (''The download is not the OBS AirPlay plugin.'', g2)
               else
                 (let e = checkStagedBundle U (incoming_bundle (wg_disk g2)) (as_version a) (dk_plugin (wg_disk g2))
                  in if e \<noteq> [] then (e, g2)
                     else (case move_unpacked g2 of
                             (False, g3) \<Rightarrow> (''The update could not be prepared.'', g3)
                           | (True, g3) \<Rightarrow> ([], g3)))))"

definition stage_locked :: "updater \<Rightarrow> bool \<Rightarrow> bytes \<Rightarrow> asset \<Rightarrow> working \<Rightarrow> string \<times> working" where
  "stage_locked U private archive a g =
     (case create_staging private (snd (remove_staging g)) of
        (False, g1) \<Rightarrow> (''The folder could not be made.'', g1)
      | (True, g1) \<Rightarrow>
          if \<not> is_private (wg_disk g1) then (''The update folder could not be made private.'', snd (remove_staging g1))
          else
            (case unpack_and_check U archive a g1 of
               (e, g2) \<Rightarrow> if e \<noteq> [] then (e, snd (remove_staging g2)) else ([], snd (remove_incoming g2))))"

text \<open>\<open>locked\<close>: the lock was taken. The zip and the asset are what was downloaded.\<close>

definition stageUpdate :: "updater \<Rightarrow> bool \<Rightarrow> bool \<Rightarrow> bytes \<Rightarrow> asset \<Rightarrow> working \<Rightarrow> string \<times> working" where
  "stageUpdate U locked private archive a g =
     (if length archive \<noteq> as_size a \<or> cr_sha256 (up_crypto U) archive \<noteq> as_sha256 a
      then (''The download does not match the published release.'', g)
      else if \<not> verifyUpdateSignature (up_crypto U) (up_keys U) a
      then (''The download is not signed by the OBS AirPlay project.'', g)
      else if \<not> locked then (''Another update is being prepared or installed.'', g)
      else stage_locked U private archive a g)"

section \<open>Installing\<close>

definition stagedUpdateVersion :: "disk \<Rightarrow> string option" where
  "stagedUpdateVersion d = plainVersion (Option.bind (staged_bundle d) bd_version)"

definition plugin_version :: "disk \<Rightarrow> string option" where
  "plugin_version d = Option.bind (dk_plugin d) bd_version"

text \<open>Whether the waiting update can be put in place; \<open>can\<close> is \<open>OBSAirPlayCanReplacePlugin\<close>.\<close>

definition may_install :: "updater \<Rightarrow> bool \<Rightarrow> string \<Rightarrow> disk \<Rightarrow> bool" where
  "may_install U can version d \<longleftrightarrow>
     is_private d \<and> can \<and> isNewerVersion (Some version) (plugin_version d) \<and>
     checkStagedBundle U (staged_bundle d) version (dk_plugin d) = []"

text \<open>The swap: the plugin is put aside, the update put in its place, and the plugin back if that fails.\<close>

definition swap_plugin :: "working \<Rightarrow> bool \<times> working" where
  "swap_plugin g =
     (case create_previous (snd (remove_previous g)) of
        (False, g1) \<Rightarrow> (False, snd (remove_previous g1))
      | (True, g1) \<Rightarrow>
          (case move_plugin_away g1 of
             (False, g2) \<Rightarrow> (False, snd (remove_previous g2))
           | (True, g2) \<Rightarrow>
               (case move_staged g2 of
                  (False, g3) \<Rightarrow> (False, snd (remove_previous (snd (move_plugin_back g3))))
                | (True, g3) \<Rightarrow> (True, snd (remove_staging g3)))))"

definition installStagedUpdate :: "updater \<Rightarrow> bool \<Rightarrow> bool \<Rightarrow> working \<Rightarrow> bool \<times> working" where
  "installStagedUpdate U locked can g =
     (if \<not> locked then (False, g)
      else (case stagedUpdateVersion (wg_disk g) of
              None \<Rightarrow> (False, g)
            | Some version \<Rightarrow>
                if \<not> may_install U can version (wg_disk g) then (False, snd (remove_staging g)) else swap_plugin g))"

section \<open>Tidying up\<close>

text \<open>
  \<open>tidyStagedUpdate\<close> and \<open>OBSAirPlayForgetPreviousVersion\<close>, at the start of a helper of version
  \<open>current\<close>, and \<open>installStagedUpdateAfterOBS\<close>.
\<close>

definition tidyStagedUpdate :: "string option \<Rightarrow> working \<Rightarrow> working" where
  "tidyStagedUpdate current g =
     (if isNewerVersion (stagedUpdateVersion (wg_disk g)) current then g else snd (remove_staging g))"

definition previousVersion :: "disk \<Rightarrow> string option" where
  "previousVersion d = plainVersion (Option.bind (Option.bind (dk_previous d) id) bd_version)"

definition forgetPreviousVersion :: "working \<Rightarrow> working" where
  "forgetPreviousVersion g =
     (let p = previousVersion (wg_disk g)
      in if p \<noteq> None \<and> isNewerVersion (plugin_version (wg_disk g)) p then snd (remove_previous g) else g)"

definition installStagedUpdateAfterOBS :: "updater \<Rightarrow> bool \<Rightarrow> bool \<Rightarrow> string option \<Rightarrow> working \<Rightarrow> working" where
  "installStagedUpdateAfterOBS U locked can current g =
     (if isNewerVersion (stagedUpdateVersion (wg_disk g)) current then snd (installStagedUpdate U locked can g) else g)"

section \<open>What every file operation keeps\<close>

lemma file_op_keeps:
  assumes "P (wg_disk g)" "\<And>d d'. P d \<Longrightarrow> whole d = Some d' \<Longrightarrow> P d'" "\<And>left d. P d \<Longrightarrow> P (part left d)"
    and "\<And>d. P d \<Longrightarrow> P (discard_staged d)"
  shows "P (wg_disk (snd (file_op whole part g)))"
  using assms(1,4) assms(2,3)
  by (auto simp: file_op_def Let_def split: list.split option.split outcome.split)

lemma file_op_done:
  assumes "fst (file_op whole part g)" "P (wg_disk g)" "\<And>d. P d \<Longrightarrow> P (discard_staged d)" "\<And>d d'. P d \<Longrightarrow> whole d = Some d' \<Longrightarrow> Q d'"
  shows "Q (wg_disk (snd (file_op whole part g)))"
  using assms by (auto simp: file_op_def Let_def split: list.splits option.splits outcome.splits if_splits)

lemmas disk_ops = remove_staging_def remove_incoming_def remove_previous_def create_staging_def create_incoming_def
  create_previous_def unpack_zip_def move_unpacked_def move_plugin_away_def move_staged_def move_plugin_back_def
  put_aside_def put_in_place_def put_back_def

text \<open>A bundle that came in an archive with a signature of the project for its size and digest.\<close>

definition released :: "updater \<Rightarrow> bytes \<Rightarrow> asset \<Rightarrow> bool" where
  "released U archive a \<longleftrightarrow> length archive = as_size a \<and> cr_sha256 (up_crypto U) archive = as_sha256 a \<and>
     verifyUpdateSignature (up_crypto U) (up_keys U) a"

definition trusted_update :: "updater \<Rightarrow> plugin_bundle \<Rightarrow> bool" where
  "trusted_update U b \<longleftrightarrow> (\<exists>archive a. released U archive a \<and> up_unpack U archive = [(kPluginBundleName, Bundle b)])"

text \<open>What may be in place of the plugin \<open>p\<close>.\<close>

definition good_plugin :: "updater \<Rightarrow> plugin_bundle \<Rightarrow> plugin_bundle \<Rightarrow> bool" where
  "good_plugin U p b \<longleftrightarrow> b = p \<or>
     trusted_update U b \<and> bd_intact b \<and> bd_identifier b = bd_identifier p \<and> isNewerVersion (bd_version b) (bd_version p)"

definition staging_ok :: "updater \<Rightarrow> staging \<Rightarrow> bool" where
  "staging_ok U s \<longleftrightarrow> sg_private s \<longrightarrow>
     (\<forall>b. sg_staged s = Some b \<and> bd_intact b \<longrightarrow> trusted_update U b) \<and>
     (\<forall>b. sg_incoming s = Some [(kPluginBundleName, Bundle b)] \<longrightarrow> trusted_update U b)"

definition disk_ok :: "updater \<Rightarrow> plugin_bundle \<Rightarrow> disk \<Rightarrow> bool" where
  "disk_ok U p d \<longleftrightarrow> (\<forall>b. dk_plugin d = Some b \<longrightarrow> good_plugin U p b) \<and> (\<forall>s. dk_staging d = Some s \<longrightarrow> staging_ok U s)"

lemma disk_ok_discard: "disk_ok U p d \<Longrightarrow> disk_ok U p (discard_staged d)"
  by (simp add: disk_ok_def discard_staged_def)

lemma trusted_updateI:
  "released U archive a \<Longrightarrow> up_unpack U archive = [(kPluginBundleName, Bundle b)] \<Longrightarrow> trusted_update U b"
  by (auto simp: trusted_update_def)

lemma disk_ok_ops:
  assumes "disk_ok U p (wg_disk g)"
  shows "disk_ok U p (wg_disk (snd (remove_staging g)))" "disk_ok U p (wg_disk (snd (remove_incoming g)))"
    "disk_ok U p (wg_disk (snd (remove_previous g)))" "disk_ok U p (wg_disk (snd (create_staging private g)))"
    "disk_ok U p (wg_disk (snd (create_incoming g)))" "disk_ok U p (wg_disk (snd (create_previous g)))"
    "disk_ok U p (wg_disk (snd (move_plugin_away g)))"
  unfolding disk_ops
  by (rule file_op_keeps, rule assms;
      auto simp: disk_ok_def staging_ok_def discard_staged_def damaged_def at_once_def split: option.splits if_splits)+

lemma unpack_zip_ok:
  assumes "disk_ok U p (wg_disk g)" "released U archive a"
  shows "disk_ok U p (wg_disk (snd (unpack_zip U archive g)))"
proof -
  have part: "[(''part'', Plain_entry)] \<noteq> [(kPluginBundleName, Bundle b)]" for b by (simp add: kPluginBundleName_def)
  note t = trusted_updateI [OF assms(2)]
  show ?thesis unfolding unpack_zip_def
    by (rule file_op_keeps, rule assms(1))
      (auto simp: disk_ok_def staging_ok_def discard_staged_def part t split: option.splits if_splits)
qed

text \<open>An operation that is done at once or not: it was refused, or it is done.\<close>

lemma file_op_at_once:
  assumes "P (wg_disk g)" "\<And>d. P d \<Longrightarrow> P (discard_staged d)" "\<And>d. P d \<Longrightarrow> Q d" "\<And>d d'. P d \<Longrightarrow> whole d = Some d' \<Longrightarrow> Q d'"
  shows "Q (wg_disk (snd (file_op whole at_once g)))"
  using assms by (auto simp: file_op_def Let_def at_once_def split: list.split option.split outcome.split)

lemma move_unpacked_ok:
  assumes "disk_ok U p (wg_disk g)" "holds_only_the_bundle (wg_disk g)"
  shows "disk_ok U p (wg_disk (snd (move_unpacked g)))"
  unfolding move_unpacked_def
proof (rule file_op_at_once [where P = "\<lambda>d. disk_ok U p d \<and> (holds_only_the_bundle d \<or> dk_staging d = None)"])
  fix d d'
  assume d: "disk_ok U p d \<and> (holds_only_the_bundle d \<or> dk_staging d = None)"
    and d': "(case (dk_staging d, incoming_bundle d) of
         (Some s, Some b) \<Rightarrow>
           (if sg_staged s \<noteq> None then None
            else Some (d\<lparr>dk_staging := Some (s\<lparr>sg_incoming := Some [], sg_staged := Some b\<rparr>)\<rparr>))
       | _ \<Rightarrow> None) = Some d'"
  then obtain s b where s: "dk_staging d = Some s" "incoming_bundle d = Some b"
    "d' = d\<lparr>dk_staging := Some (s\<lparr>sg_incoming := Some [], sg_staged := Some b\<rparr>)\<rparr>"
    by (auto split: option.splits if_splits)
  with d have "sg_incoming s = Some [(kPluginBundleName, Bundle b)]"
    by (auto simp: holds_only_the_bundle_def incoming_bundle_def split: option.splits list.splits prod.splits zip_entry.splits)
  then show "disk_ok U p d'" using d s(1) unfolding s(3) by (auto simp: disk_ok_def staging_ok_def)
qed (use assms disk_ok_discard in \<open>auto simp: discard_staged_def\<close>)

lemma unpack_and_check_ok:
  assumes "disk_ok U p (wg_disk g)" "released U archive a"
  shows "disk_ok U p (wg_disk (snd (unpack_and_check U archive a g)))"
proof -
  obtain b1 g1 where 1: "create_incoming g = (b1, g1)" by (cases "create_incoming g")
  obtain b2 g2 where 2: "unpack_zip U archive g1 = (b2, g2)" by (cases "unpack_zip U archive g1")
  obtain b3 g3 where 3: "move_unpacked g2 = (b3, g3)" by (cases "move_unpacked g2")
  have d1: "disk_ok U p (wg_disk g1)" using disk_ok_ops(5) [OF assms(1)] 1 by simp
  have d2: "disk_ok U p (wg_disk g2)" using unpack_zip_ok [OF d1 assms(2)] 2 by simp
  have "holds_only_the_bundle (wg_disk g2) \<Longrightarrow> disk_ok U p (wg_disk g3)" using move_unpacked_ok [OF d2] 3 by simp
  then show ?thesis using d1 d2 by (simp add: unpack_and_check_def 1 2 3 Let_def split: bool.split)
qed

lemma stageUpdate_ok:
  assumes "disk_ok U p (wg_disk g)"
  shows "disk_ok U p (wg_disk (snd (stageUpdate U locked private archive a g)))"
proof (cases "released U archive a \<and> locked")
  case True
  obtain b1 g1 where 1: "create_staging private (snd (remove_staging g)) = (b1, g1)"
    by (cases "create_staging private (snd (remove_staging g))")
  have d1: "disk_ok U p (wg_disk g1)" using disk_ok_ops(4) [OF disk_ok_ops(1) [OF assms], of "private"] 1 by simp
  obtain e g2 where 2: "unpack_and_check U archive a g1 = (e, g2)" by (cases "unpack_and_check U archive a g1")
  have d2: "disk_ok U p (wg_disk g2)" using unpack_and_check_ok [OF d1] True 2 by (metis snd_conv)
  have "disk_ok U p (wg_disk (snd (stage_locked U private archive a g)))"
    using d1 d2 disk_ok_ops(1,2) by (simp add: stage_locked_def 1 2 split: bool.split)
  then show ?thesis using True by (simp add: stageUpdate_def released_def)
next
  case False
  then show ?thesis using assms by (auto simp: stageUpdate_def released_def)
qed

section \<open>The swap\<close>

text \<open>Until the update is in place, what is staged can be put there.\<close>

definition ready :: "updater \<Rightarrow> plugin_bundle \<Rightarrow> disk \<Rightarrow> bool" where
  "ready U p d \<longleftrightarrow> disk_ok U p d \<and> (\<forall>b. staged_bundle d = Some b \<longrightarrow> good_plugin U p b)"

definition aside :: "updater \<Rightarrow> plugin_bundle \<Rightarrow> disk \<Rightarrow> bool" where
  "aside U p d \<longleftrightarrow> (\<exists>b. dk_previous d = Some (Some b) \<and> good_plugin U p b)"

lemma ready_discard: "ready U p d \<Longrightarrow> ready U p (discard_staged d)"
  by (simp add: ready_def disk_ok_discard) (simp add: discard_staged_def staged_bundle_def)

lemma ready_ops:
  assumes "ready U p (wg_disk g)"
  shows "ready U p (wg_disk (snd (remove_previous g)))" "ready U p (wg_disk (snd (create_previous g)))"
    "ready U p (wg_disk (snd (move_plugin_away g)))"
  unfolding disk_ops
  by (rule file_op_keeps, rule assms;
      auto simp: ready_def disk_ok_def discard_staged_def damaged_def at_once_def staged_bundle_def split: option.splits if_splits)+

lemma move_plugin_away_done:
  assumes "fst (move_plugin_away g)" "ready U p (wg_disk g)"
  shows "aside U p (wg_disk (snd (move_plugin_away g)))"
  unfolding move_plugin_away_def put_aside_def
  by (rule file_op_done [where P = "ready U p", OF assms(1) [unfolded move_plugin_away_def put_aside_def] assms(2)])
    (auto simp: ready_discard, auto simp: ready_def disk_ok_def aside_def split: option.splits)

lemma move_staged_ok:
  assumes "ready U p (wg_disk g)"
  shows "disk_ok U p (wg_disk (snd (move_staged g)))"
  unfolding move_staged_def put_in_place_def
  by (rule file_op_at_once [where P = "ready U p"], rule assms)
    (auto simp: ready_discard, auto simp: ready_def disk_ok_def staging_ok_def split: option.splits if_splits)

lemma move_staged_keeps: "aside U p (wg_disk g) \<Longrightarrow> aside U p (wg_disk (snd (move_staged g)))"
  unfolding move_staged_def put_in_place_def
  by (rule file_op_keeps) (auto simp: aside_def discard_staged_def at_once_def split: option.splits)

lemma move_plugin_back_ok:
  assumes "disk_ok U p (wg_disk g)" "aside U p (wg_disk g)"
  shows "disk_ok U p (wg_disk (snd (move_plugin_back g)))"
  unfolding move_plugin_back_def put_back_def
  by (rule file_op_at_once [where P = "\<lambda>d. disk_ok U p d \<and> aside U p d"])
    (use assms in \<open>auto simp: disk_ok_def aside_def discard_staged_def split: option.splits\<close>)

lemma swap_plugin_ok:
  assumes "ready U p (wg_disk g)"
  shows "disk_ok U p (wg_disk (snd (swap_plugin g)))"
proof -
  obtain b1 g1 where 1: "create_previous (snd (remove_previous g)) = (b1, g1)"
    by (cases "create_previous (snd (remove_previous g))")
  obtain b2 g2 where 2: "move_plugin_away g1 = (b2, g2)" by (cases "move_plugin_away g1")
  obtain b3 g3 where 3: "move_staged g2 = (b3, g3)" by (cases "move_staged g2")
  have r1: "ready U p (wg_disk g1)" using ready_ops(2) [OF ready_ops(1) [OF assms]] 1 by simp
  have r2: "ready U p (wg_disk g2)" using ready_ops(3) [OF r1] 2 by simp
  have d3: "disk_ok U p (wg_disk g3)" using move_staged_ok [OF r2] 3 by simp
  have p3: "aside U p (wg_disk g3)" if b2
    using move_staged_keeps [OF move_plugin_away_done [OF _ r1, unfolded 2, simplified]] that 3 by simp
  have "disk_ok U p (wg_disk g1)" "disk_ok U p (wg_disk g2)" using r1 r2 by (simp_all add: ready_def)
  then show ?thesis using d3 disk_ok_ops(1,3) move_plugin_back_ok [OF d3 p3]
    by (simp add: swap_plugin_def 1 2 3 split: bool.split)
qed

text \<open>What passes the checks can be put in place.\<close>

lemma checkStagedBundle_good:
  assumes "checkStagedBundle U (Some b) expected plugin = []"
  shows "bd_identifier b = Option.bind plugin bd_identifier \<and> bd_identifier b \<noteq> None \<and>
    plainVersion (bd_version b) = Some expected \<and> up_codesign U b"
  using assms by (auto simp: checkStagedBundle_def Let_def simp del: not_None_eq split: if_splits)

lemma may_install_ready:
  assumes "disk_ok U p d" "may_install U can version d" "\<forall>b. up_codesign U b \<longrightarrow> bd_intact b"
  shows "ready U p d"
  unfolding ready_def
proof (intro conjI allI impI)
  fix b
  assume b: "staged_bundle d = Some b"
  obtain s where s: "dk_staging d = Some s" "sg_staged s = Some b" using b by (auto simp: staged_bundle_def bind_eq_Some_conv)
  have c: "checkStagedBundle U (Some b) version (dk_plugin d) = []" "sg_private s" "isNewerVersion (Some version) (plugin_version d)"
    using assms(2) b s by (simp_all add: may_install_def is_private_def)
  note g = checkStagedBundle_good [OF c(1)]
  then obtain q where q: "dk_plugin d = Some q" "bd_identifier q = bd_identifier b" by (cases "dk_plugin d") auto
  have "isNewerVersion (bd_version b) (bd_version q)"
    using c(3) plainVersion_newer [of "bd_version b" version] g q(1) by (simp add: plugin_version_def)
  moreover have "trusted_update U b" "bd_intact b" using assms(1,3) s c(2) g by (auto simp: disk_ok_def staging_ok_def)
  moreover have "good_plugin U p q" using assms(1) q(1) by (simp add: disk_ok_def)
  ultimately show "good_plugin U p b" using q(2) newer_trans by (auto simp: good_plugin_def)
qed (use assms(1) in simp)

lemma installStagedUpdate_ok:
  assumes "disk_ok U p (wg_disk g)" "\<forall>b. up_codesign U b \<longrightarrow> bd_intact b"
  shows "disk_ok U p (wg_disk (snd (installStagedUpdate U locked can g)))"
  using assms swap_plugin_ok may_install_ready [OF assms(1) _ assms(2)] disk_ok_ops(1) [OF assms(1)]
  by (auto simp: installStagedUpdate_def split: option.split)

section \<open>Helpers over time\<close>

text \<open>
  A helper starts (with a plugin it can replace), stages an update it downloaded, or finds OBS gone; and
  somebody else puts a staging folder there that is not private, which only matters when there is none.
\<close>

datatype update_event =
    Helper_starts "string option" "file_answer list"
  | Helper_stages bool bool bytes asset "file_answer list"
  | OBS_quits bool bool "string option" "file_answer list"
  | Somebody_plants staging

definition begin_work :: "disk \<Rightarrow> file_answer list \<Rightarrow> working" where
  "begin_work d as = \<lparr>wg_disk = d, wg_answers = as, wg_dead = False\<rparr>"

fun update_step :: "updater \<Rightarrow> disk \<Rightarrow> update_event \<Rightarrow> disk \<times> unit" where
  "update_step U d (Helper_starts current as) = (wg_disk (forgetPreviousVersion (tidyStagedUpdate current (begin_work d as))), ())"
| "update_step U d (Helper_stages locked private archive a as) =
     (wg_disk (snd (stageUpdate U locked private archive a (begin_work d as))), ())"
| "update_step U d (OBS_quits locked can current as) =
     (wg_disk (installStagedUpdateAfterOBS U locked can current (begin_work d as)), ())"
| "update_step U d (Somebody_plants s) =
     (if dk_staging d = None \<and> \<not> sg_private s then d\<lparr>dk_staging := Some s\<rparr> else d, ())"

lemma tidy_ok: "disk_ok U p (wg_disk g) \<Longrightarrow> disk_ok U p (wg_disk (forgetPreviousVersion (tidyStagedUpdate current g)))"
  by (simp add: forgetPreviousVersion_def tidyStagedUpdate_def Let_def disk_ok_ops)

lemma update_step_ok:
  assumes "disk_ok U p d" "\<forall>b. up_codesign U b \<longrightarrow> bd_intact b"
  shows "disk_ok U p (fst (update_step U d e))"
proof (cases e)
  case (Helper_starts current as)
  then show ?thesis using tidy_ok assms(1) by (simp add: begin_work_def)
next
  case (Helper_stages locked pr archive a as)
  then show ?thesis using stageUpdate_ok assms(1) by (simp add: begin_work_def)
next
  case (OBS_quits locked can current as)
  then show ?thesis using installStagedUpdate_ok [OF _ assms(2)] assms(1)
    by (simp add: begin_work_def installStagedUpdateAfterOBS_def)
next
  case (Somebody_plants s)
  then show ?thesis using assms(1) by (auto simp: disk_ok_def staging_ok_def)
qed

interpretation updating: machine "update_step U" "\<lambda>_. True" "\<lambda>d. (\<forall>b. up_codesign U b \<longrightarrow> bd_intact b) \<longrightarrow> disk_ok U p d" for U p
  by unfold_locales (auto intro: update_step_ok)

text \<open>
  C8. Only what the project released gets in place of the plugin, and never something older: whatever
  helpers start, stage and install, wherever they fail or die, whatever they are given to stage and
  whatever others put at the staging folder, the bundle in place is the first one, or an intact bundle
  with the plugin's identifier and a later version that came alone in an archive of the size and digest
  that a trusted key signed. (\<open>codesign\<close> is taken to notice a bundle that is not as it was packaged.)
\<close>

theorem updates_are_trusted:
  assumes "\<forall>b. up_codesign U b \<longrightarrow> bd_intact b" and "dk_plugin d = Some p" and "\<forall>s. dk_staging d = Some s \<longrightarrow> \<not> sg_private s"
    and "dk_plugin (fst (run (update_step U) d es)) = Some b"
  shows "b = p \<or> trusted_update U b \<and> bd_intact b \<and> bd_identifier b = bd_identifier p \<and> isNewerVersion (bd_version b) (bd_version p)"
proof -
  have "disk_ok U p d" using assms(2,3) by (auto simp: disk_ok_def good_plugin_def staging_ok_def)
  then have "disk_ok U p (fst (run (update_step U) d es))" using updating.run_inv [of U p d es] assms(1) by (simp add: list_all_iff)
  then show ?thesis using assms(4) by (simp add: disk_ok_def good_plugin_def)
qed

section \<open>One thing going wrong\<close>

definition trouble :: "file_answer \<Rightarrow> bool" where
  "trouble a \<longleftrightarrow> fa_discarded a \<or> fa_outcome a \<noteq> Goes"

definition troubles :: "working \<Rightarrow> nat" where
  "troubles g = length (filter trouble (wg_answers g))"

text \<open>An operation without trouble does what it can; with trouble there is less to come.\<close>

lemma file_op_trouble:
  obtains (calm) "troubles (snd (file_op whole part g)) = troubles g" "wg_dead g \<or> whole (wg_disk g) = None"
      "snd (file_op whole part g) = g\<lparr>wg_answers := wg_answers (snd (file_op whole part g))\<rparr>" "\<not> fst (file_op whole part g)"
  | (calm_done) d where "troubles (snd (file_op whole part g)) = troubles g" "\<not> wg_dead g" "whole (wg_disk g) = Some d"
      "fst (file_op whole part g)" "wg_disk (snd (file_op whole part g)) = d" "\<not> wg_dead (snd (file_op whole part g))"
  | (bad) "troubles (snd (file_op whole part g)) < troubles g" "\<not> wg_dead g"
proof (cases "wg_dead g")
  case True
  then show thesis by (intro calm) (simp_all add: file_op_def)
next
  case alive: False
  show thesis
  proof (cases "wg_answers g")
    case Nil
    show thesis
    proof (cases "whole (wg_disk g)")
      case None
      then show thesis by (intro calm) (simp_all add: file_op_def alive Nil)
    next
      case (Some d)
      then show thesis by (intro calm_done [of d]) (simp_all add: file_op_def alive Nil troubles_def)
    qed
  next
    case (Cons a as)
    show thesis
    proof (cases "trouble a")
      case True
      then have "troubles (snd (file_op whole part g)) < troubles g" using alive Cons
        by (auto simp: file_op_def Let_def troubles_def split: option.split outcome.split)
      then show thesis using alive bad by blast
    next
      case False
      then have a: "\<not> fa_discarded a" "fa_outcome a = Goes" by (auto simp: trouble_def)
      then show thesis using alive Cons False
        by (cases "whole (wg_disk g)") (auto simp: file_op_def troubles_def intro: calm calm_done)
    qed
  qed
qed

lemma file_op_refused:
  "\<not> fst (file_op whole at_once g) \<Longrightarrow>
     wg_disk (snd (file_op whole at_once g)) = wg_disk g \<or> wg_disk (snd (file_op whole at_once g)) = discard_staged (wg_disk g)"
  by (auto simp: file_op_def Let_def at_once_def split: list.split option.split outcome.split)

lemma plugin_stays:
  assumes "dk_plugin (wg_disk g) = Some b"
  shows "dk_plugin (wg_disk (snd (remove_staging g))) = Some b" "dk_plugin (wg_disk (snd (remove_previous g))) = Some b"
    "dk_plugin (wg_disk (snd (create_previous g))) = Some b"
  unfolding disk_ops
  by (rule file_op_keeps [where P = "\<lambda>d. dk_plugin d = Some b"], rule assms;
      auto simp: discard_staged_def at_once_def split: if_splits)+

text \<open>There is a bundle to put in place, or what could go wrong has.\<close>

definition set_to_go :: "working \<Rightarrow> bool" where
  "set_to_go g \<longleftrightarrow> troubles g \<le> 1 \<and> (staged_bundle (wg_disk g) \<noteq> None \<or> troubles g = 0 \<or> wg_dead g)"

lemma set_to_go_op:
  assumes "set_to_go g" "\<And>d d'. whole d = Some d' \<Longrightarrow> dk_staging d' = dk_staging d"
  shows "set_to_go (snd (file_op whole part g))"
proof (cases rule: file_op_trouble [of whole part g])
  case calm
  then show ?thesis using assms(1) by (metis set_to_go_def working.ext_inject working.surjective working.update_convs(2))
next
  case (calm_done d)
  then show ?thesis using assms by (simp add: set_to_go_def staged_bundle_def)
next
  case bad
  then show ?thesis using assms(1) by (simp add: set_to_go_def)
qed

lemma set_to_go_ops:
  assumes "set_to_go g"
  shows "set_to_go (snd (remove_previous g))" "set_to_go (snd (create_previous g))" "set_to_go (snd (move_plugin_away g))"
  unfolding disk_ops by (rule set_to_go_op, rule assms; auto split: if_splits option.splits)+

lemma move_plugin_away_or_not:
  assumes "dk_plugin (wg_disk g) = Some b"
  shows "if fst (move_plugin_away g) then dk_plugin (wg_disk (snd (move_plugin_away g))) = None \<and>
      dk_previous (wg_disk (snd (move_plugin_away g))) = Some (Some b) \<and> \<not> wg_dead (snd (move_plugin_away g))
    else dk_plugin (wg_disk (snd (move_plugin_away g))) = Some b"
  using assms
  by (auto simp: move_plugin_away_def put_aside_def file_op_def Let_def discard_staged_def at_once_def
      split: list.split option.split outcome.split)

text \<open>
  What an installation of \<open>new\<close> over \<open>b\<close> leaves. A process that lives has the update in place when it says so,
  and the plugin as it was when it does not; one that died may leave the plugin aside.
\<close>

definition replaced_or_kept :: "plugin_bundle \<Rightarrow> plugin_bundle option \<Rightarrow> bool \<times> working \<Rightarrow> bool" where
  "replaced_or_kept b new r \<longleftrightarrow>
     (case r of (installed, g) \<Rightarrow>
        (let now = dk_plugin (wg_disk g)
         in if wg_dead g
            then now \<noteq> None \<and> (now = Some b \<or> now = new) \<or> now = None \<and> dk_previous (wg_disk g) = Some (Some b)
            else now \<noteq> None \<and> now = (if installed then new else Some b)))"

lemma plugin_kept: "dk_plugin (wg_disk g) = Some b \<Longrightarrow> replaced_or_kept b new (False, g)"
  by (simp add: replaced_or_kept_def)

lemma replaced_or_kept_op:
  assumes "replaced_or_kept b new (installed, g)" "\<And>d d'. whole d = Some d' \<Longrightarrow> dk_plugin d' = dk_plugin d"
    and "\<And>l d. dk_plugin (part l d) = dk_plugin d"
  shows "replaced_or_kept b new (installed, snd (file_op whole part g))"
proof (cases "wg_dead g")
  case True
  then show ?thesis using assms(1) by (simp add: file_op_def)
next
  case False
  have same: "dk_plugin (wg_disk (snd (file_op whole part g))) = dk_plugin (wg_disk g)"
    by (rule file_op_keeps [where P = "\<lambda>d. dk_plugin d = dk_plugin (wg_disk g)"])
      (use assms(2,3) in \<open>auto simp: discard_staged_def\<close>)
  show ?thesis using assms(1) False
    unfolding replaced_or_kept_def Let_def prod.case same by (auto split: if_splits)
qed

lemma replaced_or_kept_ops:
  assumes "replaced_or_kept b new (installed, g)"
  shows "replaced_or_kept b new (installed, snd (remove_staging g))" "replaced_or_kept b new (installed, snd (remove_previous g))"
  unfolding disk_ops by (rule replaced_or_kept_op, rule assms; auto simp: discard_staged_def split: if_splits)+

text \<open>The bundle that waits is the one that was checked, until it is discarded.\<close>

definition waits :: "plugin_bundle option \<Rightarrow> working \<Rightarrow> bool" where
  "waits new g \<longleftrightarrow> staged_bundle (wg_disk g) = new \<or> staged_bundle (wg_disk g) = None"

lemma waits_ops:
  assumes "waits new g"
  shows "waits new (snd (remove_previous g))" "waits new (snd (create_previous g))" "waits new (snd (move_plugin_away g))"
  using assms unfolding waits_def disk_ops
  by (rule file_op_keeps [where P = "\<lambda>d. staged_bundle d = new \<or> staged_bundle d = None"];
      auto simp: staged_bundle_def discard_staged_def at_once_def split: if_splits option.splits)+

text \<open>The two moves that are left once the plugin is aside.\<close>

lemma moves_keep:
  assumes "dk_plugin (wg_disk g) = None" "dk_previous (wg_disk g) = Some (Some b)" "\<not> wg_dead g" "set_to_go g" "waits new g"
  shows "replaced_or_kept b new (if fst (move_staged g) then (True, snd (move_staged g))
    else (False, snd (move_plugin_back (snd (move_staged g)))))"
proof (cases "fst (move_staged g)")
  case True
  have "dk_plugin (wg_disk (snd (move_staged g))) = new \<and> new \<noteq> None"
    using True unfolding move_staged_def
    by (rule file_op_done [where P = "\<lambda>d. staged_bundle d = new \<or> staged_bundle d = None"])
      (use assms(5) in \<open>auto simp: waits_def put_in_place_def staged_bundle_def discard_staged_def split: option.splits\<close>)
  then show ?thesis using True by (auto simp: replaced_or_kept_def)
next
  case False
  let ?m = "snd (move_staged g)"
  have same: "dk_plugin (wg_disk ?m) = None \<and> dk_previous (wg_disk ?m) = Some (Some b)"
    using False assms(1,2) file_op_refused [of put_in_place g] by (auto simp: move_staged_def discard_staged_def)
  have less: "wg_dead ?m \<or> troubles ?m = 0"
  proof (cases rule: file_op_trouble [of put_in_place at_once g])
    case calm
    then have "staged_bundle (wg_disk g) = None" using assms(1,3)
      by (auto simp: put_in_place_def staged_bundle_def split: option.splits)
    then show ?thesis using assms(3,4) calm(1) by (simp add: set_to_go_def move_staged_def)
  qed (use False assms(4) in \<open>simp_all add: move_staged_def set_to_go_def\<close>)
  show ?thesis
  proof (cases "wg_dead ?m")
    case True
    then show ?thesis using same False by (simp add: replaced_or_kept_def move_plugin_back_def file_op_def)
  next
    case alive: False
    then have "dk_plugin (wg_disk (snd (move_plugin_back ?m))) = Some b" using same less
      unfolding move_plugin_back_def
      by (cases rule: file_op_trouble [of put_back at_once ?m]) (auto simp: put_back_def alive)
    then show ?thesis using False by (simp add: plugin_kept)
  qed
qed

lemma swap_keeps:
  assumes "dk_plugin (wg_disk g) = Some b" "set_to_go g" "waits new g"
  shows "replaced_or_kept b new (swap_plugin g)"
proof -
  obtain b1 g1 where 1: "create_previous (snd (remove_previous g)) = (b1, g1)"
    by (cases "create_previous (snd (remove_previous g))")
  obtain b2 g2 where 2: "move_plugin_away g1 = (b2, g2)" by (cases "move_plugin_away g1")
  obtain b3 g3 where 3: "move_staged g2 = (b3, g3)" by (cases "move_staged g2")
  have p1: "dk_plugin (wg_disk g1) = Some b" using plugin_stays(3) [OF plugin_stays(2) [OF assms(1)]] 1 by simp
  have s1: "set_to_go g1" "waits new g1"
    using set_to_go_ops(2) [OF set_to_go_ops(1) [OF assms(2)]] waits_ops(2) [OF waits_ops(1) [OF assms(3)]] 1 by simp_all
  note away = move_plugin_away_or_not [OF p1, unfolded 2]
  have s2: "set_to_go g2" "waits new g2" using set_to_go_ops(3) [OF s1(1)] waits_ops(3) [OF s1(2)] 2 by simp_all
  have k2: "replaced_or_kept b new (False, g2)" if "\<not> b2" using away that by (simp add: plugin_kept)
  have k3: "replaced_or_kept b new (if b3 then (True, g3) else (False, snd (move_plugin_back g3)))" if b2
    using moves_keep [of g2 b new, unfolded 3 fst_conv snd_conv] away that s2 by simp
  show ?thesis using plugin_kept [OF p1] k2 k3 replaced_or_kept_ops
    by (auto simp: swap_plugin_def 1 2 3 split: bool.split if_splits)
qed

text \<open>
  C38. An update never costs OBS the plugin because one thing goes wrong. When at most one file operation of
  the installation fails, is done in part, is the last one of a dying process, or finds the staged update
  discarded, then an installation that runs to its end has put the bundle that was staged in place, if it
  says so, and otherwise left the plugin as it was. Only when the process died may the plugin be out of its
  place, and then it is complete in the folder of the previous version.
\<close>

theorem one_failure_keeps_the_plugin:
  assumes "dk_plugin d = Some b" and "length (filter trouble as) \<le> 1"
  shows "replaced_or_kept b (staged_bundle d) (installStagedUpdate U locked can (begin_work d as))"
proof (cases "locked \<and> (\<exists>v. stagedUpdateVersion d = Some v \<and> may_install U can v d)")
  case True
  then have "staged_bundle d \<noteq> None" by (cases "staged_bundle d") (auto simp: stagedUpdateVersion_def plainVersion_def parseVersion_def)
  then have "set_to_go (begin_work d as)" "waits (staged_bundle d) (begin_work d as)"
    using assms(2) by (simp_all add: set_to_go_def waits_def begin_work_def troubles_def)
  then show ?thesis using swap_keeps [of "begin_work d as" b] True assms(1)
    by (auto simp: installStagedUpdate_def begin_work_def)
next
  case False
  have k: "replaced_or_kept b (staged_bundle d) (False, begin_work d as)"
    using assms(1) by (simp add: plugin_kept begin_work_def)
  then show ?thesis using False replaced_or_kept_ops(1) [OF k]
    by (auto simp: installStagedUpdate_def begin_work_def split: option.split)
qed

section \<open>When all goes well\<close>

lemma stage_arrives:
  assumes "released U archive a" "up_unpack U archive = [(kPluginBundleName, Bundle b)]" "dk_plugin d = Some p"
    and "checkStagedBundle U (Some b) (as_version a) (Some p) = []"
  shows "stageUpdate U True True archive a (begin_work d []) =
    ([], begin_work (d\<lparr>dk_staging := Some \<lparr>sg_private = True, sg_incoming = None, sg_staged = Some b\<rparr>\<rparr>) [])"
proof -
  let ?d = "\<lambda>i s. d\<lparr>dk_staging := Some \<lparr>sg_private = True, sg_incoming = i, sg_staged = s\<rparr>\<rparr>"
  have 0: "snd (remove_staging (begin_work d [])) = begin_work (d\<lparr>dk_staging := None\<rparr>) []"
    by (cases d) (simp add: remove_staging_def file_op_def begin_work_def discard_staged_def)
  have 1: "create_staging True (begin_work (d\<lparr>dk_staging := None\<rparr>) []) = (True, begin_work (?d None None) [])"
    by (simp add: create_staging_def file_op_def begin_work_def)
  have 2: "create_incoming (begin_work (?d None None) []) = (True, begin_work (?d (Some []) None) [])"
    by (simp add: create_incoming_def file_op_def begin_work_def)
  have 3: "unpack_zip U archive (begin_work (?d (Some []) None) []) =
      (True, begin_work (?d (Some [(kPluginBundleName, Bundle b)]) None) [])"
    by (simp add: unpack_zip_def file_op_def begin_work_def assms(2))
  have b: "incoming_bundle (?d (Some [(kPluginBundleName, Bundle b)]) None) = Some b" by (simp add: incoming_bundle_def)
  have 4: "move_unpacked (begin_work (?d (Some [(kPluginBundleName, Bundle b)]) None) []) = (True, begin_work (?d (Some []) (Some b)) [])"
    by (simp add: move_unpacked_def file_op_def begin_work_def b)
  have 5: "snd (remove_incoming (begin_work (?d (Some []) (Some b)) [])) = begin_work (?d None (Some b)) []"
    by (simp add: remove_incoming_def file_op_def begin_work_def)
  have w: "wg_disk (begin_work x as) = x" for x as by (simp add: begin_work_def)
  have "unpack_and_check U archive a (begin_work (?d None None) []) = ([], begin_work (?d (Some []) (Some b)) [])"
    unfolding unpack_and_check_def 2 prod.case bool.case 3 w b
    by (simp add: holds_only_the_bundle_def assms(3,4) 4)
  then have "stage_locked U True archive a (begin_work d []) = ([], begin_work (?d None (Some b)) [])"
    unfolding stage_locked_def 0 1 prod.case bool.case w by (simp add: is_private_def 5)
  then show ?thesis using assms(1) by (simp add: stageUpdate_def released_def)
qed

lemma install_arrives:
  assumes "dk_staging d = Some \<lparr>sg_private = True, sg_incoming = None, sg_staged = Some b\<rparr>" "dk_plugin d = Some p"
    and "checkStagedBundle U (Some b) version (Some p) = []" "isNewerVersion (Some version) (bd_version p)"
  shows "installStagedUpdate U True True (begin_work d []) =
    (True, begin_work \<lparr>dk_plugin = Some b, dk_staging = None, dk_previous = Some (Some p)\<rparr> [])"
proof -
  let ?d = "\<lambda>q v s. \<lparr>dk_plugin = q, dk_staging = Some \<lparr>sg_private = True, sg_incoming = None, sg_staged = s\<rparr>, dk_previous = v\<rparr>"
  have v: "stagedUpdateVersion d = Some version" using assms(1) checkStagedBundle_good [OF assms(3)]
    by (simp add: stagedUpdateVersion_def staged_bundle_def)
  have m: "may_install U True version d" using assms by (simp add: may_install_def is_private_def plugin_version_def staged_bundle_def)
  have d: "d = ?d (Some p) (dk_previous d) (Some b)" using assms(1,2) by (cases d) simp
  have 0: "snd (remove_previous (begin_work d [])) = begin_work (?d (Some p) None (Some b)) []"
    by (subst d) (cases d, simp add: remove_previous_def file_op_def begin_work_def)
  have 1: "create_previous (begin_work (?d (Some p) None (Some b)) []) = (True, begin_work (?d (Some p) (Some None) (Some b)) [])"
    by (simp add: create_previous_def file_op_def begin_work_def)
  have 2: "move_plugin_away (begin_work (?d (Some p) (Some None) (Some b)) []) = (True, begin_work (?d None (Some (Some p)) (Some b)) [])"
    by (simp add: move_plugin_away_def put_aside_def file_op_def begin_work_def)
  have 3: "move_staged (begin_work (?d None (Some (Some p)) (Some b)) []) = (True, begin_work (?d (Some b) (Some (Some p)) None) [])"
    by (simp add: move_staged_def put_in_place_def staged_bundle_def file_op_def begin_work_def)
  have 4: "snd (remove_staging (begin_work (?d (Some b) (Some (Some p)) None) [])) =
      begin_work \<lparr>dk_plugin = Some b, dk_staging = None, dk_previous = Some (Some p)\<rparr> []"
    by (simp add: remove_staging_def file_op_def begin_work_def discard_staged_def)
  have "swap_plugin (begin_work d []) = (True, begin_work \<lparr>dk_plugin = Some b, dk_staging = None, dk_previous = Some (Some p)\<rparr> [])"
    unfolding swap_plugin_def 0 1 2 3 prod.case bool.case 4 by simp
  moreover have "wg_disk (begin_work d []) = d" by (simp add: begin_work_def)
  ultimately show ?thesis using v m by (simp add: installStagedUpdate_def)
qed

text \<open>
  C39. A good update arrives: an archive of the size and digest that a trusted key signed, holding only
  the bundle of this plugin at a later version for this Mac, is in place once OBS has quit, whatever was
  staged before, and the version it replaced is kept beside it until the new one has started.
\<close>

theorem good_updates_arrive:
  assumes "released U archive a" and "up_unpack U archive = [(kPluginBundleName, Bundle b)]" and "dk_plugin d = Some p"
    and "checkStagedBundle U (Some b) (as_version a) (Some p) = []" and "isNewerVersion (Some (as_version a)) (bd_version p)"
  shows "fst (run (update_step U) d [Helper_stages True True archive a [], OBS_quits True True (bd_version p) []]) =
    \<lparr>dk_plugin = Some b, dk_staging = None, dk_previous = Some (Some p)\<rparr>"
proof -
  let ?d = "d\<lparr>dk_staging := Some \<lparr>sg_private = True, sg_incoming = None, sg_staged = Some b\<rparr>\<rparr>"
  have "stagedUpdateVersion ?d = Some (as_version a)" using checkStagedBundle_good [OF assms(4)]
    by (simp add: stagedUpdateVersion_def staged_bundle_def)
  moreover have "installStagedUpdate U True True (begin_work ?d []) =
      (True, begin_work \<lparr>dk_plugin = Some b, dk_staging = None, dk_previous = Some (Some p)\<rparr> [])"
    by (rule install_arrives [where version = "as_version a"]) (use assms in simp_all)
  moreover have "wg_disk (begin_work x as) = x" for x as by (simp add: begin_work_def)
  ultimately show ?thesis using assms(5) by (simp add: stage_arrives [OF assms(1-4)] installStagedUpdateAfterOBS_def)
qed

section \<open>A release of this plugin\<close>

definition small_bundle :: "string \<Rightarrow> nat \<Rightarrow> plugin_bundle" where
  "small_bundle version build = \<lparr>bd_identifier = Some ''com.lzlamian.obs-airplay'', bd_version = Some version, bd_minimum = Some ''13.0'',
     bd_architectures = [''arm64''], bd_build = build, bd_intact = True\<rparr>"

text \<open>An archive of one byte is a bundle with that build; the digest of any archive is 64 zeros, and the one key signs everything.\<close>

definition small_updater :: updater where
  "small_updater = \<lparr>up_crypto = \<lparr>cr_text = (\<lambda>f. Some (''obs-airplay-update-signature-v1'' @ [CHR 0x0A] @ ''sig: x'')),
       cr_base64 = (\<lambda>s. Some (replicate 64 0)), cr_verify = (\<lambda>key message sig. key = [1]), cr_sha256 = (\<lambda>f. replicate 64 (CHR ''0''))\<rparr>,
     up_keys = [[1]], up_unpack = (\<lambda>z. [(kPluginBundleName, Bundle (small_bundle ''2.7.0'' (unat (hd z))))]), up_codesign = bd_intact,
     up_system = (\<lambda>v. v ! 0 \<le> 14), up_architecture = ''arm64''\<rparr>"

definition small_asset :: asset where
  "small_asset = \<lparr>as_version = ''2.7.0'', as_url = ''https://x'', as_sha256 = replicate 64 (CHR ''0''), as_size = 1,
     as_name = expected_name ''2.7.0'' ''arm64'', as_signature_url = ''https://x.sig'', as_signature = Some [0]\<rparr>"

definition old_disk :: disk where
  "old_disk = \<lparr>dk_plugin = Some (small_bundle ''2.6.1'' 0), dk_staging = Some \<lparr>sg_private = False, sg_incoming = None,
     sg_staged = Some (small_bundle ''9.9.9'' 66)\<rparr>, dk_previous = None\<rparr>"

definition answer_of :: "outcome \<Rightarrow> file_answer" where
  "answer_of x = \<lparr>fa_discarded = False, fa_outcome = x, fa_left = small_bundle [] 0\<rparr>"

theorem good_updates_arrive_witness:
  "fst (run (update_step small_updater) old_disk
      [Helper_stages True True [7] small_asset [], OBS_quits True True (Some ''2.6.1'') []]) =
    \<lparr>dk_plugin = Some (small_bundle ''2.7.0'' 7), dk_staging = None, dk_previous = Some (Some (small_bundle ''2.6.1'' 0))\<rparr>"
proof -
  have e: "released small_updater [7] small_asset" unfolding released_def by code_simp
  have n: "up_unpack small_updater [7] = [(kPluginBundleName, Bundle (small_bundle ''2.7.0'' 7))]" by (simp add: small_updater_def)
  have c: "checkStagedBundle small_updater (Some (small_bundle ''2.7.0'' 7)) (as_version small_asset) (Some (small_bundle ''2.6.1'' 0)) = []"
    by code_simp
  have v: "isNewerVersion (Some (as_version small_asset)) (bd_version (small_bundle ''2.6.1'' 0))" by code_simp
  have "dk_plugin old_disk = Some (small_bundle ''2.6.1'' 0)" by (simp add: old_disk_def)
  from good_updates_arrive [OF e n this c v] show ?thesis by (simp add: small_bundle_def)
qed

text \<open>The planted bundle is refused, a first attempt to stage dies halfway, a second one is installed.\<close>

definition trusted_run :: "update_event list" where
  "trusted_run = [OBS_quits True True (Some ''2.6.1'') [], Somebody_plants \<lparr>sg_private = False, sg_incoming = None, sg_staged = Some (small_bundle ''9.9.9'' 67)\<rparr>,
     Helper_stages True True [5] small_asset (map answer_of [Goes, Goes, Goes, Goes, Dies_partly]), Helper_starts (Some ''2.6.1'') [],
     Helper_stages True True [7] small_asset [], OBS_quits True True (Some ''2.6.1'') []]"

lemma trusted_run_installs: "dk_plugin (fst (run (update_step small_updater) old_disk trusted_run)) = Some (small_bundle ''2.7.0'' 7)"
  by code_simp

theorem updates_are_trusted_witness: "trusted_update small_updater (small_bundle ''2.7.0'' 7)"
proof -
  have 1: "\<forall>b. up_codesign small_updater b \<longrightarrow> bd_intact b" by (simp add: small_updater_def)
  have 2: "dk_plugin old_disk = Some (small_bundle ''2.6.1'' 0)" "\<forall>s. dk_staging old_disk = Some s \<longrightarrow> \<not> sg_private s"
    by (simp_all add: old_disk_def)
  have "small_bundle ''2.7.0'' 7 \<noteq> small_bundle ''2.6.1'' 0" by (simp add: small_bundle_def)
  with updates_are_trusted [OF 1 2 trusted_run_installs] show ?thesis by simp
qed

definition staged_disk :: disk where
  "staged_disk = \<lparr>dk_plugin = Some (small_bundle ''2.6.1'' 0), dk_staging = Some \<lparr>sg_private = True, sg_incoming = None,
     sg_staged = Some (small_bundle ''2.7.0'' 7)\<rparr>, dk_previous = Some (Some (small_bundle ''2.6.0'' 1))\<rparr>"

definition staged_gone :: "file_answer list" where
  "staged_gone = [answer_of Goes, answer_of Goes, answer_of Goes, (answer_of Goes)\<lparr>fa_discarded := True\<rparr>, answer_of Goes, answer_of Goes]"

theorem one_failure_keeps_the_plugin_witness:
  "(\<lambda>(installed, g). \<not> installed \<and> dk_plugin (wg_disk g) = Some (small_bundle ''2.6.1'' 0))
     (installStagedUpdate small_updater True True (begin_work staged_disk staged_gone))"
proof -
  let ?r = "installStagedUpdate small_updater True True (begin_work staged_disk staged_gone)"
  have "dk_plugin staged_disk = Some (small_bundle ''2.6.1'' 0)" by (simp add: staged_disk_def)
  moreover have "length (filter trouble staged_gone) \<le> 1" by code_simp
  ultimately have "replaced_or_kept (small_bundle ''2.6.1'' 0) (staged_bundle staged_disk) ?r"
    by (rule one_failure_keeps_the_plugin)
  moreover have "\<not> fst ?r \<and> \<not> wg_dead (snd ?r)" by code_simp
  ultimately show ?thesis by (cases ?r) (simp add: replaced_or_kept_def Let_def)
qed

text \<open>
  Two things going wrong lose it: when the update cannot be moved into place and the plugin cannot be
  moved back, the folder that holds the plugin is removed.
\<close>

lemma two_failures_lose_the_plugin:
  "(\<lambda>d. dk_plugin d = None \<and> dk_previous d = None)
     (wg_disk (snd (installStagedUpdate small_updater True True
        (begin_work staged_disk (map answer_of [Goes, Goes, Goes, Fails, Fails])))))"
  by code_simp

text \<open>
  A helper that starts discards what another one is unpacking: it finds no staged version, and takes no
  lock. The other one's update is given up.
\<close>

lemma tidying_spoils_staging:
  "stagedUpdateVersion (wg_disk (snd (unpack_zip small_updater [7] (snd (create_incoming (snd (create_staging True
       (begin_work (old_disk\<lparr>dk_staging := None\<rparr>) [])))))))) = None \<and>
   fst (stageUpdate small_updater True True [7] small_asset (begin_work old_disk
       (map answer_of [Goes, Goes, Goes, Goes] @ [(answer_of Goes)\<lparr>fa_discarded := True\<rparr>]))) \<noteq> []"
  by code_simp

end
