(* ===== verification/Update_Lock.thy ===== *)
theory Update_Lock
  imports Prelude
begin

text \<open>
  \<^verbatim>\<open>src/plugin-updater.mm\<close>, class \<open>UpdateLock\<close>: the lock file beside the plugin that keeps two helpers
  (two instances of OBS, or one that was started again after a crash) from staging and installing at
  the same time. Any number of processes run the constructor and the destructor; a step is one
  system call, and they interleave freely. A process can die at any step, which closes its files.
\<close>

section \<open>Files and processes\<close>

text \<open>
  What an inode is: a regular file of this user, one of somebody else, or something that is not a
  regular file. A symbolic link at the path is not followed.
\<close>

datatype lock_file = Own_file | Foreign_file | Not_a_file

datatype at_path = Nothing_there | Link_there | File_there nat

datatype lock_place =
    Without
  | Trying nat
  | Opened nat nat
  | Locked nat nat
  | Holding nat
  | Unlinked nat
  | Without_luck

record lock_world =
  lw_path :: at_path
  lw_files :: "lock_file list"
  lw_locker :: "nat \<Rightarrow> nat option"
  lw_at :: "nat \<Rightarrow> lock_place"

definition lock_world_new :: lock_world where
  "lock_world_new = \<lparr>lw_path = Nothing_there, lw_files = [], lw_locker = (\<lambda>i. None), lw_at = (\<lambda>p. Without)\<rparr>"

definition kLockAttempts :: nat where "kLockAttempts = 3"

section \<open>The steps\<close>

definition move_to :: "nat \<Rightarrow> lock_place \<Rightarrow> lock_world \<Rightarrow> lock_world" where
  "move_to p x s = s\<lparr>lw_at := (lw_at s)(p := x)\<rparr>"

text \<open>\<open>open\<close> with \<open>O_CREAT\<close> and \<open>O_NOFOLLOW\<close>; it can fail for other reasons.\<close>

definition open_lock :: "nat \<Rightarrow> nat \<Rightarrow> bool \<Rightarrow> lock_world \<Rightarrow> lock_world" where
  "open_lock p n ok s =
     (if \<not> ok then move_to p Without_luck s
      else (case lw_path s of
              Link_there \<Rightarrow> move_to p Without_luck s
            | File_there i \<Rightarrow> move_to p (Opened n i) s
            | Nothing_there \<Rightarrow>
                (let i = length (lw_files s)
                 in move_to p (Opened n i) (s\<lparr>lw_path := File_there i, lw_files := lw_files s @ [Own_file]\<rparr>))))"

text \<open>
  \<open>flock\<close>, without waiting; when another process has it, or it fails for another reason, the file is
  closed.
\<close>

definition flock_it :: "nat \<Rightarrow> nat \<Rightarrow> nat \<Rightarrow> bool \<Rightarrow> lock_world \<Rightarrow> lock_world" where
  "flock_it p n i ok s =
     (if ok \<and> lw_locker s i = None then move_to p (Locked n i) (s\<lparr>lw_locker := (lw_locker s)(i := Some p)\<rparr>)
      else move_to p Without_luck s)"

definition close_file :: "nat \<Rightarrow> lock_world \<Rightarrow> lock_world" where
  "close_file i s = s\<lparr>lw_locker := (lw_locker s)(i := None)\<rparr>"

text \<open>
  The file that was locked must be this user's and still be the one at the path. \<open>fstat\<close> and \<open>lstat\<close> can
  fail; a file of which \<open>fstat\<close> says nothing counts as no regular file.
\<close>

definition check_lock :: "nat \<Rightarrow> nat \<Rightarrow> nat \<Rightarrow> bool \<Rightarrow> bool \<Rightarrow> lock_world \<Rightarrow> lock_world" where
  "check_lock p n i fstat_ok lstat_ok s =
     (if fstat_ok \<and> lw_files s ! i = Own_file \<and> lstat_ok \<and> lw_path s = File_there i then move_to p (Holding i) s
      else move_to p
        (if fstat_ok \<and> lw_files s ! i = Foreign_file then Without_luck
         else if n + 1 < kLockAttempts then Trying (n + 1) else Without_luck) (close_file i s))"

fun file_of :: "lock_place \<Rightarrow> nat option" where
  "file_of (Locked n i) = Some i"
| "file_of (Holding i) = Some i"
| "file_of (Unlinked i) = Some i"
| "file_of _ = None"

datatype lock_event =
    Start nat
  | Open_file nat bool
  | Flock_file nat bool
  | Check_file nat bool bool
  | Unlink_file nat
  | Close_file nat
  | Give_up_lock nat
  | Dies nat
  | Others_put at_path lock_file

text \<open>
  A step of a process that is at that place; none when it is not. Others can put a file or a link where
  nothing is; they do not remove this user's file.
\<close>

fun lock_step :: "lock_world \<Rightarrow> lock_event \<Rightarrow> lock_world option" where
  "lock_step s (Start p) = (if lw_at s p = Without then Some (move_to p (Trying 0) s) else None)"
| "lock_step s (Open_file p ok) = (case lw_at s p of Trying n \<Rightarrow> Some (open_lock p n ok s) | _ \<Rightarrow> None)"
| "lock_step s (Flock_file p ok) = (case lw_at s p of Opened n i \<Rightarrow> Some (flock_it p n i ok s) | _ \<Rightarrow> None)"
| "lock_step s (Check_file p a b) = (case lw_at s p of Locked n i \<Rightarrow> Some (check_lock p n i a b s) | _ \<Rightarrow> None)"
| "lock_step s (Unlink_file p) =
     (case lw_at s p of Holding i \<Rightarrow> Some (move_to p (Unlinked i) (s\<lparr>lw_path := Nothing_there\<rparr>)) | _ \<Rightarrow> None)"
| "lock_step s (Close_file p) =
     (case lw_at s p of Unlinked i \<Rightarrow> Some (move_to p Without (close_file i s)) | _ \<Rightarrow> None)"
| "lock_step s (Give_up_lock p) = (if lw_at s p = Without_luck then Some (move_to p Without s) else None)"
| "lock_step s (Dies p) =
     Some (move_to p Without (case file_of (lw_at s p) of None \<Rightarrow> s | Some i \<Rightarrow> close_file i s))"
| "lock_step s (Others_put there kind) =
     (if lw_path s = Nothing_there \<and> kind \<noteq> Own_file \<and> (there = Link_there \<or> there = File_there (length (lw_files s)))
      then Some (s\<lparr>lw_path := there, lw_files := lw_files s @ [kind]\<rparr>) else None)"

text \<open>A process has the lock from the end of the constructor to the start of the destructor.\<close>

definition has_lock :: "lock_world \<Rightarrow> nat \<Rightarrow> bool" where
  "has_lock s p \<longleftrightarrow> (case lw_at s p of Holding i \<Rightarrow> True | _ \<Rightarrow> False)"

inductive lock_reach :: "lock_world \<Rightarrow> bool" where
  start: "lock_reach lock_world_new"
| step: "lock_reach s \<Longrightarrow> lock_step s e = Some s' \<Longrightarrow> lock_reach s'"

fun lock_run :: "lock_world \<Rightarrow> lock_event list \<Rightarrow> lock_world option" where
  "lock_run s [] = Some s"
| "lock_run s (e # es) = (case lock_step s e of None \<Rightarrow> None | Some s' \<Rightarrow> lock_run s' es)"

lemma lock_run_reach: "lock_run s es = Some u \<Longrightarrow> lock_reach s \<Longrightarrow> lock_reach u"
  by (induction es arbitrary: s) (auto split: option.splits intro: lock_reach.step)

section \<open>The invariant\<close>

text \<open>
  A file's lock is with the process that has the file open beyond \<open>flock\<close>, and what a holder has is the
  file at the path.
\<close>

definition lock_ok :: "lock_world \<Rightarrow> bool" where
  "lock_ok s \<longleftrightarrow>
     (\<forall>p i. file_of (lw_at s p) = Some i \<longrightarrow> lw_locker s i = Some p) \<and>
     (\<forall>p i. lw_at s p = Holding i \<longrightarrow> lw_path s = File_there i)"

lemma lock_ok_new: "lock_ok lock_world_new"
  by (simp add: lock_ok_def lock_world_new_def)

lemma lock_ok_one: "lock_ok s \<Longrightarrow> file_of (lw_at s p) = Some i \<Longrightarrow> file_of (lw_at s q) = Some i \<Longrightarrow> p = q"
  by (metis lock_ok_def option.inject)

text \<open>One process moves; what the others have must not change.\<close>

lemma lock_ok_move:
  assumes "lock_ok s" "lw_at s' = (lw_at s)(p := x)"
    and "\<And>i. file_of x = Some i \<Longrightarrow> lw_locker s' i = Some p" "\<And>i. x = Holding i \<Longrightarrow> lw_path s' = File_there i"
    and "\<And>q i. q \<noteq> p \<Longrightarrow> lw_locker s i = Some q \<Longrightarrow> lw_locker s' i = Some q"
    and "\<And>q i. q \<noteq> p \<Longrightarrow> lw_at s q = Holding i \<Longrightarrow> lw_path s = File_there i \<Longrightarrow> lw_path s' = File_there i"
  shows "lock_ok s'"
  using assms unfolding lock_ok_def by (metis fun_upd_apply)

lemma close_keeps_others:
  assumes "lock_ok s" "file_of (lw_at s p) = Some i" "q \<noteq> p" "lw_locker s j = Some q"
  shows "lw_locker (close_file i s) j = Some q"
  using assms by (auto simp: close_file_def lock_ok_def)

lemma holding_alone:
  assumes "lock_ok s" "lw_at s p = Holding i" "lw_at s q = Holding j"
  shows "q = p"
proof -
  have "i = j" using assms by (metis at_path.inject lock_ok_def)
  then show ?thesis using lock_ok_one [OF assms(1), of q i p] assms(2,3) by simp
qed

lemma move_to_simps [simp]:
  "lw_at (move_to p x s) = (lw_at s)(p := x)" "lw_path (move_to p x s) = lw_path s" "lw_locker (move_to p x s) = lw_locker s"
  "lw_files (move_to p x s) = lw_files s" "lw_at (close_file i s) = lw_at s" "lw_path (close_file i s) = lw_path s"
  by (simp_all add: move_to_def close_file_def)

lemma move_to_locker [simp]: "lw_locker (move_to p x s\<lparr>lw_locker := L\<rparr>) = L" "lw_files (s\<lparr>lw_locker := L\<rparr>) = lw_files s"
  by (simp_all add: move_to_def)

lemma lock_step_ok:
  assumes ok: "lock_ok s" and "lock_step s e = Some s'"
  shows "lock_ok s'"
proof (cases e)
  case (Start p)
  then show ?thesis using assms by (auto split: if_splits intro: lock_ok_move [OF ok, where p = p])
next
  case (Open_file p b)
  then obtain n where n: "lw_at s p = Trying n" "s' = open_lock p n b s" using assms(2) by (auto split: lock_place.splits)
  show ?thesis unfolding n(2) open_lock_def Let_def
    by (auto split: at_path.split intro!: lock_ok_move [OF ok, where p = p])
next
  case (Flock_file p b)
  then obtain n i where n: "lw_at s p = Opened n i" "s' = flock_it p n i b s" using assms(2) by (auto split: lock_place.splits)
  show ?thesis unfolding n(2) flock_it_def
    by (cases "lw_locker s i") (auto intro!: lock_ok_move [OF ok, where p = p])
next
  case (Check_file p a b)
  then obtain n i where n: "lw_at s p = Locked n i" "s' = check_lock p n i a b s" using assms(2) by (auto split: lock_place.splits)
  have "lw_locker s i = Some p" using ok n(1) by (simp add: lock_ok_def)
  then show ?thesis unfolding n(2) check_lock_def using close_keeps_others [OF ok, of p i] n(1)
    by (auto intro!: lock_ok_move [OF ok, where p = p])
next
  case (Unlink_file p)
  then obtain i where i: "lw_at s p = Holding i" "s' = move_to p (Unlinked i) (s\<lparr>lw_path := Nothing_there\<rparr>)"
    using assms(2) by (auto split: lock_place.splits)
  have "lw_locker s i = Some p" using ok i(1) by (simp add: lock_ok_def)
  then show ?thesis unfolding i(2) using holding_alone [OF ok i(1)] by (auto intro!: lock_ok_move [OF ok, where p = p])
next
  case (Close_file p)
  then obtain i where i: "lw_at s p = Unlinked i" "s' = move_to p Without (close_file i s)"
    using assms(2) by (auto split: lock_place.splits)
  then show ?thesis using close_keeps_others [OF ok, of p i] by (auto intro!: lock_ok_move [OF ok, where p = p])
next
  case (Give_up_lock p)
  then show ?thesis using assms by (auto split: if_splits intro: lock_ok_move [OF ok, where p = p])
next
  case (Dies p)
  then show ?thesis using assms(2) close_keeps_others [OF ok, of p]
    by (auto split: option.splits intro!: lock_ok_move [OF ok, where p = p])
next
  case (Others_put there kind)
  then show ?thesis using assms by (auto simp: lock_ok_def split: if_splits)
qed

lemma lock_reach_ok: "lock_reach s \<Longrightarrow> lock_ok s"
  by (induction rule: lock_reach.induct) (auto intro: lock_ok_new lock_step_ok)

section \<open>What the holders may rely on\<close>

text \<open>
  The contract of a lock: at most one process has it, and who has it keeps it until it lets go or dies.
  Then what is done with the lock is not mixed with what another process does with it.
\<close>

text \<open>Steps of the lock, and work a process does while it has it.\<close>

fun with_work :: "('s \<Rightarrow> 'e \<Rightarrow> 's option) \<Rightarrow> ('s \<Rightarrow> 'p \<Rightarrow> bool) \<Rightarrow> 's \<Rightarrow> ('e + 'p) list \<Rightarrow> bool" where
  "with_work steps holds s [] \<longleftrightarrow> True"
| "with_work steps holds s (Inl e # es) \<longleftrightarrow> (case steps s e of None \<Rightarrow> False | Some s' \<Rightarrow> with_work steps holds s' es)"
| "with_work steps holds s (Inr p # es) \<longleftrightarrow> holds s p \<and> with_work steps holds s es"

locale exclusive =
  fixes reach :: "'s \<Rightarrow> bool" and steps :: "'s \<Rightarrow> 'e \<Rightarrow> 's option" and holds :: "'s \<Rightarrow> 'p \<Rightarrow> bool" and lets_go :: "'p \<Rightarrow> 'e \<Rightarrow> bool"
  assumes at_most_one: "reach s \<Longrightarrow> holds s p \<Longrightarrow> holds s q \<Longrightarrow> p = q"
    and reach_steps: "reach s \<Longrightarrow> steps s e = Some s' \<Longrightarrow> reach s'"
    and keeps: "reach s \<Longrightarrow> holds s p \<Longrightarrow> steps s e = Some s' \<Longrightarrow> \<not> lets_go p e \<Longrightarrow> holds s' p"
begin

lemma work_undisturbed:
  assumes "reach s" "holds s p" "with_work steps holds s es" "\<forall>e. Inl e \<in> set es \<longrightarrow> \<not> lets_go p e" "Inr q \<in> set es"
  shows "q = p"
  using assms
proof (induction es arbitrary: s)
  case (Cons x es)
  show ?case
  proof (cases x)
    case (Inl e)
    then obtain s' where s': "steps s e = Some s'" "with_work steps holds s' es" using Cons.prems(3) by (auto split: option.splits)
    have "\<not> lets_go p e" using Cons.prems(4) Inl by simp
    with Cons.IH [OF reach_steps [OF Cons.prems(1) s'(1)] keeps [OF Cons.prems(1,2) s'(1)] s'(2)] Cons.prems(4,5) Inl
    show ?thesis by simp
  next
    case (Inr r)
    then have r: "holds s r" "with_work steps holds s es" using Cons.prems(3) by simp_all
    have "r = p" using at_most_one [OF Cons.prems(1) r(1) Cons.prems(2)] .
    with Cons.IH [OF Cons.prems(1,2) r(2)] Cons.prems(4,5) Inr show ?thesis by auto
  qed
qed simp

end

fun lets_go_of :: "nat \<Rightarrow> lock_event \<Rightarrow> bool" where
  "lets_go_of p (Unlink_file q) \<longleftrightarrow> p = q"
| "lets_go_of p (Dies q) \<longleftrightarrow> p = q"
| "lets_go_of p _ \<longleftrightarrow> False"

lemma has_lock_iff: "has_lock s p \<longleftrightarrow> (\<exists>i. lw_at s p = Holding i)"
  by (simp add: has_lock_def split: lock_place.split)

lemma others_stay:
  assumes "q \<noteq> p"
  shows "lw_at (open_lock q n ok s) p = lw_at s p" "lw_at (flock_it q n i ok s) p = lw_at s p" "lw_at (check_lock q n i a b s) p = lw_at s p"
  using assms by (simp_all add: open_lock_def flock_it_def check_lock_def Let_def split: at_path.split)

lemma has_lock_keeps:
  assumes "has_lock s p" "lock_step s e = Some s'" "\<not> lets_go_of p e"
  shows "has_lock s' p"
proof -
  obtain i where i: "lw_at s p = Holding i" using assms(1) by (auto simp: has_lock_iff)
  have "lw_at s' p = lw_at s p"
  proof (cases e)
    case (Start q)
    then show ?thesis using assms(2) i by (cases "q = p") (auto split: if_splits)
  next
    case (Open_file q ok)
    then show ?thesis using assms(2) i by (cases "q = p"; cases "lw_at s q") (auto simp: others_stay)
  next
    case (Flock_file q ok)
    then show ?thesis using assms(2) i by (cases "q = p"; cases "lw_at s q") (auto simp: others_stay)
  next
    case (Check_file q a b)
    then show ?thesis using assms(2) i by (cases "q = p"; cases "lw_at s q") (auto simp: others_stay)
  next
    case (Unlink_file q)
    then show ?thesis using assms(2,3) i by (cases "q = p"; cases "lw_at s q") auto
  next
    case (Close_file q)
    then show ?thesis using assms(2) i by (cases "q = p"; cases "lw_at s q") auto
  next
    case (Give_up_lock q)
    then show ?thesis using assms(2) i by (cases "q = p") (auto split: if_splits)
  next
    case (Dies q)
    then show ?thesis using assms(2,3) i by (cases "q = p") (auto split: option.splits)
  next
    case (Others_put there kind)
    then show ?thesis using assms(2) by (auto split: if_splits)
  qed
  with i show ?thesis by (simp add: has_lock_iff)
qed

interpretation update_lock: exclusive lock_reach lock_step has_lock lets_go_of
proof
  show "lock_reach s \<Longrightarrow> has_lock s p \<Longrightarrow> has_lock s q \<Longrightarrow> p = q" for s p q
    using holding_alone [OF lock_reach_ok] by (metis has_lock_iff)
qed (auto intro: lock_reach.step has_lock_keeps)

section \<open>What is promised\<close>

text \<open>
  C16. Helpers never stage or install at the same time: from the end of the lock's constructor to the
  start of its destructor nobody else has the lock, so whatever is done with the lock meanwhile is done
  by its holder; with any number of processes, steps in any order, processes that die anywhere, files
  of a dead process left behind, files or links that others put at the path, and system calls that fail.
\<close>

theorem one_installer_at_a_time:
  assumes "lock_reach s" "has_lock s p" "with_work lock_step has_lock s es" "\<forall>e. Inl e \<in> set es \<longrightarrow> \<not> lets_go_of p e" "Inr q \<in> set es"
  shows "q = p"
  using assms by (rule update_lock.work_undisturbed)

text \<open>
  A process takes the lock while another one, that opened the removed file, is still on its way; the
  other one starts over and finds the lock taken.
\<close>

definition lock_scene :: "lock_event list" where
  "lock_scene = [Start 0, Open_file 0 True, Flock_file 0 True, Check_file 0 True True, Start 1, Open_file 1 True, Unlink_file 0,
     Close_file 0, Flock_file 1 True, Start 2, Open_file 2 True, Flock_file 2 True, Check_file 2 True True, Check_file 1 True True]"

definition lock_rest :: "(lock_event + nat) list" where
  "lock_rest = [Inr 2, Inl (Open_file 1 True), Inl (Flock_file 1 True), Inr 2]"

theorem one_installer_at_a_time_witness:
  "case lock_run lock_world_new lock_scene of
     None \<Rightarrow> False
   | Some s \<Rightarrow> lw_at s 1 = Trying 1 \<and> (\<forall>q. Inr q \<in> set lock_rest \<longrightarrow> q = 2)"
proof -
  have "case lock_run lock_world_new lock_scene of
      None \<Rightarrow> False | Some s \<Rightarrow> lw_at s 1 = Trying 1 \<and> has_lock s 2 \<and> with_work lock_step has_lock s lock_rest" by code_simp
  then obtain s where s: "lock_run lock_world_new lock_scene = Some s" "lw_at s 1 = Trying 1" "has_lock s 2"
    "with_work lock_step has_lock s lock_rest" by (auto split: option.splits)
  have "lock_reach s" using lock_run_reach [OF s(1) lock_reach.start] .
  from one_installer_at_a_time [OF this s(3,4)] have "Inr q \<in> set lock_rest \<longrightarrow> q = 2" for q
    by (auto simp: lock_rest_def)
  then show ?thesis using s(1,2) by simp
qed

text \<open>A lock that a dead process left behind does not keep anyone out.\<close>

lemma abandoned_lock_is_taken:
  assumes "lock_ok s" "\<forall>q. file_of (lw_at s q) = None" "\<forall>i. lw_locker s i \<noteq> None \<longrightarrow> (\<exists>q. file_of (lw_at s q) = Some i)"
    and "lw_at s p = Without" "lw_path s = File_there i" "lw_files s ! i = Own_file"
  shows "\<exists>u. lock_run s [Start p, Open_file p True, Flock_file p True, Check_file p True True] = Some u \<and> has_lock u p"
proof -
  have "lw_locker s i = None" using assms(2,3) by fastforce
  then show ?thesis using assms(4-6) by (simp add: open_lock_def flock_it_def check_lock_def has_lock_iff)
qed

end
