(* ===== verification/Update_Helper.thy ===== *)
theory Update_Helper
  imports Complex_Main Update_Install Update_Lock
begin

text \<open>
  \<^verbatim>\<open>src/airplay-ble-discovery.mm\<close>, the application that runs beside OBS: it advertises the receiver over
  Bluetooth, looks for updates, asks the user, and installs what is staged once OBS has gone; with the
  downloads of \<^verbatim>\<open>src/plugin-updater.mm\<close>. Preferences, clocks, processes and the answers of servers and of
  the user are given to each step. Times are seconds.
\<close>

section \<open>Downloads with a limit\<close>

record limited_fetch =
  fx_limit :: nat
  fx_data :: bytes
  fx_too_large :: bool

definition fetch_new :: "nat \<Rightarrow> limited_fetch" where
  "fetch_new limit = \<lparr>fx_limit = limit, fx_data = [], fx_too_large = False\<rparr>"

definition did_receive :: "limited_fetch \<Rightarrow> bytes \<Rightarrow> limited_fetch" where
  "did_receive f chunk =
     (if length (fx_data f) + length chunk > fx_limit f then f\<lparr>fx_too_large := True\<rparr>
      else f\<lparr>fx_data := fx_data f @ chunk\<rparr>)"

text \<open>A body, or what went wrong.\<close>

definition fetched :: "limited_fetch \<Rightarrow> string option \<Rightarrow> string + bytes" where
  "fetched f error =
     (if fx_too_large f then Inl ''The response is larger than expected.''
      else (case error of Some e \<Rightarrow> Inl e | None \<Rightarrow> Inr (fx_data f)))"

definition fetch_limited :: "nat \<Rightarrow> bytes list \<Rightarrow> string option \<Rightarrow> string + bytes" where
  "fetch_limited limit chunks error = fetched (foldl did_receive (fetch_new limit) chunks) error"

text \<open>A download to a file: what was written so far, after each write.\<close>

definition download_too_large :: "nat \<Rightarrow> nat list \<Rightarrow> bool" where
  "download_too_large limit totals = list_ex (\<lambda>total. total > limit) totals"

text \<open>What the servers send for the signature and for the archive.\<close>

record downloads =
  dl_signature :: "bytes list"
  dl_signature_error :: "string option"
  dl_signature_status :: nat
  dl_totals :: "nat list"
  dl_archive :: "bytes option"
  dl_archive_error :: "string option"
  dl_archive_status :: nat

text \<open>\<open>downloadAndStage\<close>: the file is staged while it exists, an error of the transfer comes first.\<close>

definition downloadAndStage :: "updater \<Rightarrow> bool \<Rightarrow> bool \<Rightarrow> asset \<Rightarrow> downloads \<Rightarrow> working \<Rightarrow> string \<times> working" where
  "downloadAndStage U locked private a dl g =
     (case (case dl_archive dl of
              None \<Rightarrow> ([], g)
            | Some archive \<Rightarrow>
                if dl_archive_status dl \<noteq> 200 then (''The download failed.'', g)
                else stageUpdate U locked private archive a g) of
        (e, g') \<Rightarrow>
          (if download_too_large (as_size a) (dl_totals dl) then ''The response is larger than expected.''
           else (case dl_archive_error dl of Some t \<Rightarrow> t | None \<Rightarrow> e), g'))"

definition downloadAndStageUpdate :: "updater \<Rightarrow> bool \<Rightarrow> bool \<Rightarrow> asset \<Rightarrow> downloads \<Rightarrow> working \<Rightarrow> string \<times> working" where
  "downloadAndStageUpdate U locked private a dl g =
     (case fetch_limited kMaxSignatureSize (dl_signature dl) (dl_signature_error dl) of
        Inl e \<Rightarrow> (e, g)
      | Inr data \<Rightarrow>
          if dl_signature_status dl \<noteq> 200 then (''The release signature could not be downloaded.'', g)
          else
            (let a' = a\<lparr>as_signature := Some data\<rparr>
             in if \<not> verifyUpdateSignature (up_crypto U) (up_keys U) a'
                then (''The release is not signed by the OBS AirPlay project.'', g)
                else downloadAndStage U locked private a' dl g))"

section \<open>Where the plugin is\<close>

text \<open>\<open>OBSAirPlayPluginURLForHelper\<close>, on the components of the path of the helper.\<close>

definition pluginURLForHelper :: "(string list \<Rightarrow> bool) \<Rightarrow> string list \<Rightarrow> string list option" where
  "pluginURLForHelper identified path =
     (let plugin = butlast (butlast (butlast path))
      in if plugin = [] \<or> last plugin \<noteq> kPluginBundleName \<or> \<not> identified plugin then None else Some plugin)"

record places =
  pc_resolve :: "string \<Rightarrow> string"
  pc_owned :: "string \<Rightarrow> bool"
  pc_writable :: "string \<Rightarrow> bool"

definition path_text :: "string list \<Rightarrow> string" where
  "path_text ps = concat (map (\<lambda>p. CHR ''/'' # p) ps)"

definition canReplacePlugin :: "places \<Rightarrow> string \<Rightarrow> string list \<Rightarrow> bool" where
  "canReplacePlugin P home plugin \<longleftrightarrow>
     starts_with (pc_resolve P (path_text plugin)) (pc_resolve P home @ ''/'') \<and>
     pc_owned P (path_text plugin) \<and> pc_owned P (path_text (butlast plugin)) \<and>
     pc_writable P (path_text plugin) \<and> pc_writable P (path_text (butlast plugin))"

section \<open>Looking for updates\<close>

record preferences =
  pf_check :: "bool option"
  pf_output_active :: "bool option"
  pf_last_check :: "rat option"
  pf_snoozed_until :: "rat option"
  pf_skipped :: "string option"

definition helperPreference :: "bool option \<Rightarrow> bool \<Rightarrow> bool" where
  "helperPreference value fallback = (case value of Some b \<Rightarrow> b | None \<Rightarrow> fallback)"

definition updateChecksEnabled :: "preferences \<Rightarrow> bool" where
  "updateChecksEnabled f = helperPreference (pf_check f) True"

definition obsOutputActive :: "preferences \<Rightarrow> bool" where
  "obsOutputActive f = helperPreference (pf_output_active f) False"

definition kSnoozeInterval :: rat where "kSnoozeInterval = 7 * 24 * 60 * 60"
definition kUpdateCheckInterval :: rat where "kUpdateCheckInterval = 24 * 60 * 60"
definition kMaxReleaseSize :: nat where "kMaxReleaseSize = 1024 * 1024"

text \<open>The start of \<open>checkForUpdates\<close>: whether a request is made, which is noted before.\<close>

definition check_due :: "rat \<Rightarrow> preferences \<Rightarrow> bool" where
  "check_due now f \<longleftrightarrow> updateChecksEnabled f \<and>
     (case pf_snoozed_until f of Some t \<Rightarrow> \<not> t - now > 0 | None \<Rightarrow> True) \<and>
     (case pf_last_check f of Some t \<Rightarrow> \<not> now - t < kUpdateCheckInterval | None \<Rightarrow> True)"

text \<open>What is to be shown: the version, and the file when it can be installed.\<close>

type_synonym prompt = "string \<times> asset option"

text \<open>
  The answer of the server (as JSON, when it is), and what is made of it. \<open>plugin\<close> is whether there is
  a plugin that can be replaced.
\<close>

definition read_release ::
    "updater \<Rightarrow> (string \<Rightarrow> address_view option) \<Rightarrow> bool \<Rightarrow> string option \<Rightarrow> disk \<Rightarrow> preferences \<Rightarrow> nat \<Rightarrow> json option \<Rightarrow> prompt option" where
  "read_release U urls plugin current d f status release =
     (if status \<noteq> 200 then None
      else (case release of
              None \<Rightarrow> None
            | Some r \<Rightarrow>
                (case json_string (member r ''tag_name'') of
                   None \<Rightarrow> None
                 | Some latest \<Rightarrow>
                     if \<not> isNewerVersion (Some latest) current then None
                     else if pf_skipped f = Some latest then None
                     else if \<not> plugin then Some (latest, None)
                     else (case installableAsset urls r (up_architecture U) of
                             None \<Rightarrow> Some (latest, None)
                           | Some a \<Rightarrow> if stagedUpdateVersion d = Some (as_version a) then None else Some (latest, Some a)))))"

section \<open>The user's answer\<close>

datatype choice = Install_update | View_release | Later | Skip_version

text \<open>The buttons in the order they were added; the first one only with a file.\<close>

definition choice_of :: "bool \<Rightarrow> nat \<Rightarrow> choice option" where
  "choice_of installable button =
     (let n = (if installable then button else button + 1)
      in if n < 4 then Some ([Install_update, View_release, Later, Skip_version] ! n) else None)"

section \<open>The helper\<close>

text \<open>\<open>parentIsAlive\<close>: the process is there, and was started when OBS was.\<close>

definition parentIsAlive :: "bool \<Rightarrow> nat \<Rightarrow> nat \<Rightarrow> bool" where
  "parentIsAlive there started now_started \<longleftrightarrow> there \<and> (started = 0 \<or> now_started = started)"

text \<open>What happened, newest first: requests, prompts that were shown, and answers that are remembered.\<close>

datatype app_note = Requested rat | Prompted string | Put_off rat | Skipped string | Opened_page

record helper_app =
  ha_prefs :: preferences
  ha_disk :: disk
  ha_plugin :: bool
  ha_current :: "string option"
  ha_requested :: bool
  ha_prompt :: "prompt option"
  ha_checked :: bool
  ha_runs :: bool
  ha_notes :: "app_note list"

definition helper_app_new :: "preferences \<Rightarrow> disk \<Rightarrow> helper_app" where
  "helper_app_new f d = \<lparr>ha_prefs = f, ha_disk = d, ha_plugin = False, ha_current = None, ha_requested = False, ha_prompt = None,
     ha_checked = False, ha_runs = False, ha_notes = []\<rparr>"

text \<open>
  The steps: \<open>main\<close> with \<open>tidyStagedUpdate\<close> and \<open>OBSAirPlayForgetPreviousVersion\<close>, the check three
  seconds later, the server's answer, a turn of \<open>whenOBSIsIdle\<close>, a tick of the timer that watches OBS,
  and what others change: the plugin writes its switches.
\<close>

datatype app_event =
    App_starts "string option" bool "file_answer list"
  | App_checks bool rat
  | App_answered "updater" "string \<Rightarrow> address_view option" nat "bytes list" "string option" "bytes \<Rightarrow> json option"
  | App_idle_turn bool rat nat "updater" bool bool downloads "file_answer list"
  | App_watches bool "updater" bool bool "file_answer list"
  | Switches_written "bool option" "bool option"

definition app_start :: "string option \<Rightarrow> bool \<Rightarrow> file_answer list \<Rightarrow> helper_app \<Rightarrow> helper_app" where
  "app_start current can as h =
     h\<lparr>ha_plugin := can, ha_current := current, ha_requested := False, ha_prompt := None, ha_checked := False, ha_runs := True,
       ha_disk := (if can then wg_disk (forgetPreviousVersion (tidyStagedUpdate current (begin_work (ha_disk h) as))) else ha_disk h)\<rparr>"

definition app_check :: "bool \<Rightarrow> rat \<Rightarrow> helper_app \<Rightarrow> helper_app" where
  "app_check parent now h =
     (if \<not> ha_runs h \<or> ha_checked h then h
      else if \<not> parent \<or> \<not> check_due now (ha_prefs h) then h\<lparr>ha_checked := True\<rparr>
      else h\<lparr>ha_checked := True, ha_requested := True, ha_prefs := (ha_prefs h)\<lparr>pf_last_check := Some now\<rparr>,
             ha_notes := Requested now # ha_notes h\<rparr>)"

definition app_answer ::
    "updater \<Rightarrow> (string \<Rightarrow> address_view option) \<Rightarrow> nat \<Rightarrow> bytes list \<Rightarrow> string option \<Rightarrow> (bytes \<Rightarrow> json option) \<Rightarrow> helper_app \<Rightarrow> helper_app" where
  "app_answer U urls status chunks error parse h =
     (if \<not> ha_runs h \<or> \<not> ha_requested h then h
      else h\<lparr>ha_requested := False,
        ha_prompt := (case fetch_limited kMaxReleaseSize chunks error of
            Inl e \<Rightarrow> None
          | Inr data \<Rightarrow> read_release U urls (ha_plugin h) (ha_current h) (ha_disk h) (ha_prefs h) status (parse data))\<rparr>)"

text \<open>\<open>showUpdatePrompt\<close> with the button that was pressed.\<close>

definition show_prompt ::
    "rat \<Rightarrow> nat \<Rightarrow> updater \<Rightarrow> bool \<Rightarrow> bool \<Rightarrow> downloads \<Rightarrow> file_answer list \<Rightarrow> prompt \<Rightarrow> helper_app \<Rightarrow> helper_app" where
  "show_prompt now button U locked private dl as p h =
     (let h1 = h\<lparr>ha_prompt := None, ha_notes := Prompted (fst p) # ha_notes h\<rparr>
      in case choice_of (snd p \<noteq> None) button of
           Some Install_update \<Rightarrow>
             h1\<lparr>ha_disk := wg_disk (snd (downloadAndStageUpdate U locked private (the (snd p)) dl (begin_work (ha_disk h) as)))\<rparr>
         | Some View_release \<Rightarrow> h1\<lparr>ha_notes := Opened_page # ha_notes h1\<rparr>
         | Some Later \<Rightarrow>
             h1\<lparr>ha_prefs := (ha_prefs h)\<lparr>pf_snoozed_until := Some (now + kSnoozeInterval)\<rparr>, ha_notes := Put_off now # ha_notes h1\<rparr>
         | Some Skip_version \<Rightarrow>
             h1\<lparr>ha_prefs := (ha_prefs h)\<lparr>pf_skipped := Some (fst p)\<rparr>, ha_notes := Skipped (fst p) # ha_notes h1\<rparr>
         | None \<Rightarrow> h1)"

definition app_idle_turn ::
    "bool \<Rightarrow> rat \<Rightarrow> nat \<Rightarrow> updater \<Rightarrow> bool \<Rightarrow> bool \<Rightarrow> downloads \<Rightarrow> file_answer list \<Rightarrow> helper_app \<Rightarrow> helper_app" where
  "app_idle_turn parent now button U locked private dl as h =
     (case ha_prompt h of
        None \<Rightarrow> h
      | Some p \<Rightarrow>
          if \<not> ha_runs h then h
          else if \<not> parent then h\<lparr>ha_prompt := None\<rparr>
          else if obsOutputActive (ha_prefs h) then h
          else if \<not> updateChecksEnabled (ha_prefs h) then h\<lparr>ha_prompt := None\<rparr>
          else show_prompt now button U locked private dl as p h)"

definition app_watch :: "bool \<Rightarrow> updater \<Rightarrow> bool \<Rightarrow> bool \<Rightarrow> file_answer list \<Rightarrow> helper_app \<Rightarrow> helper_app" where
  "app_watch parent U locked can as h =
     (if \<not> ha_runs h \<or> parent then h
      else h\<lparr>ha_runs := False, ha_prompt := None, ha_requested := False,
        ha_disk := (if ha_plugin h then wg_disk (installStagedUpdateAfterOBS U locked can (ha_current h) (begin_work (ha_disk h) as))
                    else ha_disk h)\<rparr>)"

fun app_step :: "helper_app \<Rightarrow> app_event \<Rightarrow> helper_app \<times> unit" where
  "app_step h (App_starts current can as) = (app_start current can as h, ())"
| "app_step h (App_checks parent now) = (app_check parent now h, ())"
| "app_step h (App_answered U urls status chunks error parse) = (app_answer U urls status chunks error parse h, ())"
| "app_step h (App_idle_turn parent now button U locked private dl as) =
     (app_idle_turn parent now button U locked private dl as h, ())"
| "app_step h (App_watches parent U locked can as) = (app_watch parent U locked can as h, ())"
| "app_step h (Switches_written check active) =
     (h\<lparr>ha_prefs := (ha_prefs h)\<lparr>pf_check := check, pf_output_active := active\<rparr>\<rparr>, ())"

section \<open>Discovery over Bluetooth\<close>

datatype bluetooth_state = Powered_on | Unauthorized | Powered_off | Unavailable int

record advertiser =
  ad_requested :: bool
  ad_starts :: nat
  ad_reported :: string

definition advertiser_new :: advertiser where
  "advertiser_new = \<lparr>ad_requested = False, ad_starts = 0, ad_reported = []\<rparr>"

text \<open>\<open>peripheralManagerDidUpdateState\<close>; \<open>advertising\<close> is what the system says. What is reported is for the log of OBS.\<close>

fun did_update_state :: "advertiser \<Rightarrow> bluetooth_state \<times> bool \<Rightarrow> advertiser" where
  "did_update_state m (Powered_on, advertising) =
     (if \<not> ad_requested m \<or> \<not> advertising then m\<lparr>ad_requested := True, ad_starts := ad_starts m + 1, ad_reported := ''on''\<rparr>
      else m\<lparr>ad_reported := ''on''\<rparr>)"
| "did_update_state m (Unauthorized, advertising) = m\<lparr>ad_requested := False, ad_reported := ''unauthorized''\<rparr>"
| "did_update_state m (Powered_off, advertising) = m\<lparr>ad_requested := False, ad_reported := ''off''\<rparr>"
| "did_update_state m (Unavailable n, advertising) = m\<lparr>ad_reported := ''unavailable ('' @ to_string n @ '')''\<rparr>"

text \<open>Each time Bluetooth comes on after it was off, or without an advertisement, one is requested.\<close>

lemma advertised_again:
  assumes "advertising \<longrightarrow> s = Powered_off \<or> s = Unauthorized"
  shows "ad_starts (did_update_state (did_update_state m (s, b)) (Powered_on, advertising)) > ad_starts m"
  using assms by (cases s) auto

section \<open>What a download can give\<close>

lemma did_receive_limit: "length (fx_data f) \<le> fx_limit f \<Longrightarrow>
    length (fx_data (did_receive f c)) \<le> fx_limit (did_receive f c) \<and> fx_limit (did_receive f c) = fx_limit f"
  by (simp add: did_receive_def)

lemma receive_all_limit:
  assumes "length (fx_data f) \<le> fx_limit f"
  shows "length (fx_data (foldl did_receive f cs)) \<le> fx_limit f \<and> fx_limit (foldl did_receive f cs) = fx_limit f"
  using assms
proof (induction cs arbitrary: f)
  case (Cons c cs)
  then show ?case using did_receive_limit [of f c] Cons.IH [of "did_receive f c"] by simp
qed simp

lemma receive_all_data:
  "\<not> fx_too_large (foldl did_receive f cs) \<Longrightarrow> \<not> fx_too_large f \<and> fx_data (foldl did_receive f cs) = fx_data f @ concat cs"
proof (induction cs arbitrary: f)
  case (Cons c cs)
  then have "\<not> fx_too_large (did_receive f c)" "fx_data (foldl did_receive (did_receive f c) cs) = fx_data (did_receive f c) @ concat cs"
    using Cons.IH [of "did_receive f c"] by simp_all
  moreover have "\<not> fx_too_large f \<and> fx_data (did_receive f c) = fx_data f @ c"
    using calculation(1) by (auto simp: did_receive_def split: if_splits)
  ultimately show ?case by simp
qed simp

text \<open>A body that is handed on is all that was sent, and within the limit.\<close>

lemma fetch_limited_body:
  "fetch_limited limit chunks error = Inr data \<longleftrightarrow> error = None \<and> data = concat chunks \<and> length (concat chunks) \<le> limit"
proof -
  let ?f = "foldl did_receive (fetch_new limit) chunks"
  have l: "length (fx_data ?f) \<le> limit" using receive_all_limit [of "fetch_new limit" chunks] by (simp add: fetch_new_def)
  have d: "\<not> fx_too_large ?f \<Longrightarrow> fx_data ?f = concat chunks" using receive_all_data [of "fetch_new limit" chunks] by (simp add: fetch_new_def)
  have small: "length (fx_data f) + length (concat cs) \<le> fx_limit f \<Longrightarrow> \<not> fx_too_large f \<Longrightarrow> \<not> fx_too_large (foldl did_receive f cs)" for f cs
    by (induction cs arbitrary: f) (simp_all add: did_receive_def)
  have s: "length (concat chunks) \<le> limit \<Longrightarrow> \<not> fx_too_large ?f" using small [of "fetch_new limit" chunks] by (simp add: fetch_new_def)
  show ?thesis using l d s by (auto simp: fetch_limited_def fetched_def split: option.splits)
qed

lemma downloadAndStageUpdate_ok:
  assumes "disk_ok U p (wg_disk g)"
  shows "disk_ok U p (wg_disk (snd (downloadAndStageUpdate U locked private a dl g)))"
  using assms stageUpdate_ok [OF assms]
  by (auto simp: downloadAndStageUpdate_def downloadAndStage_def Let_def split_beta split: sum.split option.split)

section \<open>Requests and answers\<close>

fun last_request :: "app_note list \<Rightarrow> rat option" where
  "last_request [] = None"
| "last_request (Requested t # ns) = Some t"
| "last_request (_ # ns) = last_request ns"

fun last_put_off :: "app_note list \<Rightarrow> rat option" where
  "last_put_off [] = None"
| "last_put_off (Put_off t # ns) = Some t"
| "last_put_off (_ # ns) = last_put_off ns"

fun last_skipped :: "app_note list \<Rightarrow> string option" where
  "last_skipped [] = None"
| "last_skipped (Skipped v # ns) = Some v"
| "last_skipped (_ # ns) = last_skipped ns"

text \<open>Requests are a day apart, none comes in the week after \<open>Later\<close>, and a skipped version is not shown.\<close>

fun notes_respected :: "app_note list \<Rightarrow> bool" where
  "notes_respected [] \<longleftrightarrow> True"
| "notes_respected (Requested t # ns) \<longleftrightarrow>
     (\<forall>s. last_request ns = Some s \<longrightarrow> s + kUpdateCheckInterval \<le> t) \<and>
     (\<forall>s. last_put_off ns = Some s \<longrightarrow> s + kSnoozeInterval \<le> t) \<and> notes_respected ns"
| "notes_respected (Prompted v # ns) \<longleftrightarrow> last_skipped ns \<noteq> Some v \<and> notes_respected ns"
| "notes_respected (_ # ns) \<longleftrightarrow> notes_respected ns"

definition app_ok :: "helper_app \<Rightarrow> bool" where
  "app_ok h \<longleftrightarrow> notes_respected (ha_notes h) \<and>
     (\<forall>t. last_request (ha_notes h) = Some t \<longrightarrow> pf_last_check (ha_prefs h) = Some t) \<and>
     (\<forall>t. last_put_off (ha_notes h) = Some t \<longrightarrow> pf_snoozed_until (ha_prefs h) = Some (t + kSnoozeInterval)) \<and>
     (\<forall>v. last_skipped (ha_notes h) = Some v \<longrightarrow> pf_skipped (ha_prefs h) = Some v) \<and>
     (\<forall>p. ha_prompt h = Some p \<longrightarrow> pf_skipped (ha_prefs h) \<noteq> Some (fst p))"

lemma read_release_prompt:
  "read_release U urls plugin current d f status release = Some p \<Longrightarrow> pf_skipped f \<noteq> Some (fst p)"
  by (auto simp: read_release_def split: if_splits option.splits)

lemma show_prompt_ok:
  assumes "app_ok h" "ha_prompt h = Some p"
  shows "app_ok (show_prompt now button U locked private dl as p h)"
  using assms by (auto simp: show_prompt_def Let_def app_ok_def split: option.split choice.split)

lemma app_check_ok: "app_ok h \<Longrightarrow> app_ok (app_check parent now h)"
  by (auto simp: app_check_def app_ok_def check_due_def)

lemma app_step_ok:
  assumes "app_ok h"
  shows "app_ok (fst (app_step h e))"
proof (cases e)
  case (App_starts current can as)
  then show ?thesis using assms by (simp add: app_start_def app_ok_def)
next
  case (App_checks parent now)
  then show ?thesis using app_check_ok [OF assms] by simp
next
  case (App_answered U urls status chunks error parse)
  then show ?thesis using assms by (auto simp: app_answer_def app_ok_def dest: read_release_prompt split: sum.splits)
next
  case (App_idle_turn parent now button U locked pr dl as)
  then show ?thesis using assms show_prompt_ok [OF assms] by (auto simp: app_idle_turn_def app_ok_def split: option.split)
next
  case (App_watches parent U locked can as)
  then show ?thesis using assms by (simp add: app_watch_def app_ok_def)
next
  case (Switches_written check active)
  then show ?thesis using assms by (simp add: app_ok_def)
qed

interpretation helper: machine app_step "\<lambda>_. True" app_ok
  by unfold_locales (rule app_step_ok)

text \<open>
  C40. The helper leaves the user and the server alone: over any number of starts of the helper, clocks
  that go back included, two requests are at least a day apart, none comes within a week after the last
  "Later", and the version that was last skipped is not shown again.
\<close>

theorem answers_are_respected:
  "notes_respected (ha_notes (fst (run app_step (helper_app_new f d) es)))"
proof -
  have "app_ok (helper_app_new f d)" by (simp add: app_ok_def helper_app_new_def)
  from helper.run_inv [OF this, of es] show ?thesis by (simp add: app_ok_def list_all_iff)
qed

text \<open>Everything the helper does to the disk keeps what \<open>Update_Install\<close> promises of it.\<close>

definition tools_of :: "app_event \<Rightarrow> updater option" where
  "tools_of e =
     (case e of App_idle_turn parent now button U locked pr dl as \<Rightarrow> Some U | App_watches parent U locked can as \<Rightarrow> Some U | _ \<Rightarrow> None)"

lemma show_prompt_disk:
  assumes "disk_ok U p (ha_disk h)"
  shows "disk_ok U p (ha_disk (show_prompt now button U locked pr dl as q h))"
  using assms downloadAndStageUpdate_ok [of U p "begin_work (ha_disk h) as"]
  by (auto simp: show_prompt_def Let_def begin_work_def split: option.split choice.split)

lemma app_step_disk:
  assumes "disk_ok U p (ha_disk h)" "\<forall>b. up_codesign U b \<longrightarrow> bd_intact b" "\<forall>V. tools_of e = Some V \<longrightarrow> V = U"
  shows "disk_ok U p (ha_disk (fst (app_step h e)))"
proof (cases e)
  case (App_starts current can as)
  then show ?thesis using assms(1) tidy_ok [of U p "begin_work (ha_disk h) as"] by (simp add: app_start_def begin_work_def)
next
  case (App_checks parent now)
  then show ?thesis using assms(1) by (simp add: app_check_def)
next
  case (App_answered V urls status chunks error parse)
  then show ?thesis using assms(1) by (simp add: app_answer_def)
next
  case (App_idle_turn parent now button V locked pr dl as)
  then have "V = U" using assms(3) by (simp add: tools_of_def)
  then show ?thesis using App_idle_turn assms(1) show_prompt_disk [OF assms(1)] by (simp add: app_idle_turn_def split: option.split)
next
  case (App_watches parent V locked can as)
  then have "V = U" using assms(3) by (simp add: tools_of_def)
  then show ?thesis using App_watches assms(1) installStagedUpdate_ok [OF _ assms(2), of p "begin_work (ha_disk h) as"]
    by (simp add: app_watch_def installStagedUpdateAfterOBS_def begin_work_def)
next
  case (Switches_written check active)
  then show ?thesis using assms(1) by simp
qed

text \<open>
  With two instances of OBS, the helper of the one that quits installs while the other one still uses
  the plugin: it watches its own parent only.
\<close>

lemma installs_for_its_own_parent:
  "dk_plugin (ha_disk (app_watch False small_updater True True []
     ((helper_app_new \<lparr>pf_check = None, pf_output_active = Some True, pf_last_check = None, pf_snoozed_until = None, pf_skipped = None\<rparr> staged_disk)
        \<lparr>ha_runs := True, ha_plugin := True, ha_current := Some ''2.6.1''\<rparr>))) = Some (small_bundle ''2.7.0'' 7)"
  by code_simp

end
