(* ===== verification/Spec2Isabelle.thy ===== *)
theory Spec2Isabelle
  imports Media_Fetch Airplay_Server Uxplay_Lifecycle Resilient_Io Player_Threads Player_Reading Player_Item Player_Worker Player_Memory Receiver_Player Airplay_Source Plugin_Module Update_Helper
begin

text \<open>
  A verification development for the OBS AirPlay plugin: an AirPlay receiver inside OBS Studio. The
  sources are the C++ and Objective-C++ files under \<^verbatim>\<open>src/\<close>, which the theories name in their
  opening texts. A definition has the name of the function, struct or constant it models where
  Isabelle allows it.

  The program. UxPlay (a library, not in the tree) speaks the AirPlay protocol and calls the
  plugin back. Mirrored video and sound go to \<open>AirPlayServer\<close>, which decodes them, moves the sender's time
  stamps to the clock of OBS and hands pictures and sound to the registered sources. An AirPlay video
  item is a URL: \<open>MediaPlayer\<close> fetches, demuxes, decodes and presents it itself, under a policy that
  says which URLs may be fetched. \<open>UxPlayIntegration\<close> keeps the state of the receiver: connections, the
  item that is active, the deferred clear of the picture. The module code loads and saves the settings,
  follows the panels of the sources, and starts and stops everything. A helper application runs
  beside OBS, advertises the receiver over Bluetooth and installs updates.

  Which theory models what.

  \<^item> \<open>Prelude\<close>: word types and lemmas, \<open>run\<close> for a list of events, and the locale \<open>machine\<close> (a step keeps an
    invariant) with \<open>accounting_machine\<close> (a counter grows by what each step answers). \<open>Guarded_Machine\<close>: the
    same for steps that are not always possible. Every component with an invariant over events
    interprets one of them on its own step function. \<open>Cpp_Strings\<close>, \<open>Av_Errors\<close>: what the code uses of
    \<open>std::string\<close>, of the C library and of FFmpeg's error numbers.

  \<^item> Mirroring: \<open>Audio_Retimer\<close> (\<^verbatim>\<open>audio-retimer.hpp\<close>), \<open>Audio_Decoder\<close> (\<^verbatim>\<open>audio-decoder\<close>), \<open>Video_Decoder\<close>
    (\<^verbatim>\<open>h264-decoder\<close>), \<open>Airplay_Server\<close> (\<^verbatim>\<open>airplay-server\<close>). The members of a class are a record; what is done under one
    lock is one operation, so the interleavings of the threads are lists of operations. The retimer's
    output is never late for OBS, and sound without gaps that comes in time is moved by one and the same
    shift from its first packet on; a packet goes to the decoder that was opened for the format
    negotiated last; the access units of a payload are those of a reference grouping of its
    NAL units; after a reset or an overflow (60 queued payloads) decoding resumes at a key frame.

  \<^item> The URL policy and the fetches: \<open>Url_Policy\<close> (\<^verbatim>\<open>media-url-policy\<close>), \<open>Media_Fetch\<close> (\<^verbatim>\<open>media-fetch\<close>), \<open>Hls_Playlist\<close>
    (\<^verbatim>\<open>hls-playlist\<close>), \<open>Hls_Program\<close> (\<^verbatim>\<open>media-player.cpp\<close>). What an item may lead to is at a public address or
    with the sender, every URL that is opened was checked and pinned to the address that was checked,
    also over redirects, and playlists are read back as they were written. \<open>stable_resolver\<close> is the locale
    between the policy and its name lookups; the session's cache interprets it.

  \<^item> The player (\<^verbatim>\<open>media-player.cpp\<close>): \<open>Media_Info\<close> and \<open>Player_Control\<close> are the state under \<open>m_state_mutex\<close> and its
    operations; \<open>Player_Threads\<close> the threads and the queue of pictures, in every interleaving; \<open>Player_Worker\<close> the
    order of \<open>playItem\<close>, which refines them; \<open>Player_Item\<close> how an item is checked and opened; \<open>Player_Reading\<close> how
    often an early end is asked for again; \<open>Resilient_Io\<close> the byte-exact HTTP input; \<open>Player_Sound\<close>,
    \<open>Picture_Rotation\<close> and \<open>Picture_Output\<close> what becomes of decoded frames; \<open>Player_Memory\<close> what an item allocates
    and frees. The time stamps of the media may go back and forth: what is shown is of the last seek, and
    not before its target unless a frame behind it was decoded before, and not before its time. What
    ended stays ended, the input is the file (also where a seek that failed leaves it, and whole, when the
    server keeps answering), only checked items are played, a stop ends the worker, and an item leaves
    the heap as it found it.

  \<^item> The receiver: \<open>Uxplay_Session\<close> (the callbacks, the deferred clear, the panel state) and \<open>Uxplay_Lifecycle\<close> (start,
    rename, stop) model \<^verbatim>\<open>uxplay-integration\<close>. An item that plays is not blanked by the session that ends beside
    it, and UxPlay's contexts are neither leaked nor freed twice (locale \<open>booked_machine\<close>). \<open>Receiver_Player\<close>
    composes the session with the player: the calls the handlers make are carried out on the player's
    threads. It shows that the composed system drives the player only as \<open>Player_Threads\<close> allows, that nothing
    is shown when no item is active, that a device that has gone leaves no picture, and that no call is
    stuck: what is left of the calls is carried out by steps that nothing but a stop or the calls
    themselves prompt. A scrub is not asked whether there is an item (\<open>scrub_reopens_stopped_item\<close>); the first
    two hold as long as no scrub has come without one, which is part of their statements.

  \<^item> Settings and module: \<open>Module_Settings\<close>, \<open>Plugin_Main\<close>, \<open>Plugin_Settings\<close>, \<open>Airplay_Source\<close>, \<open>Plugin_Module\<close> model
    \<^verbatim>\<open>module-settings\<close>, \<^verbatim>\<open>plugin-main.cpp\<close>, \<^verbatim>\<open>airplay-source\<close>, \<^verbatim>\<open>airplay-ble-helper.cpp\<close> and
    \<^verbatim>\<open>hardware-decode-option.hpp\<close>. In every interleaving of OBS's thread with the debounce thread the running
    switches, the panels and the file follow the settings in force, the newest name comes to be
    advertised, and unloading leaves no thread, receiver or server behind.

  \<^item> Updates: \<open>Update_Release\<close>, \<open>Update_Lock\<close>, \<open>Update_Install\<close> model \<^verbatim>\<open>plugin-updater.mm\<close>, \<open>Update_Helper\<close> with it
    \<^verbatim>\<open>airplay-ble-discovery.mm\<close>. A new plugin is signed by the project and newer than the old one, at most one
    process holds the lock (locale \<open>exclusive\<close>), after a single failure of a file operation the update is in place or the plugin as it was (in the
    folder of the previous version when the process died), and downloads and prompts keep to their limits.

  The properties of the development are the theorems whose text has a claim id; each is followed by a
  witness, the property at a concrete input. Lemmas ending in \<open>_ok\<close> say that an operation keeps an
  invariant, lemmas ending in \<open>_owns\<close> what it owns of the heap; lemmas that show what a component does
  not do (\<open>seek_at_the_end_is_lost\<close>, \<open>two_failures_lose_the_plugin\<close>, \<open>tidying_spoils_staging\<close>, \<open>later_save_is_lost\<close>)
  are runs evaluated in the model.

  Bounds. A loop of the code is a recursion that ends; where it is driven from outside there is a
  bound that is proved enough: the HTTP input tries five times (\<open>kMaxAttempts\<close>), an early end of the input is
  asked for again at most three times, six more for each second the output moves forward and three more
  for each new position of the sender, the debounce thread is at rest after thirteen
  turns, the worker after sixteen turns of both threads once a stop is requested, the update lock is tried three times.
  Queues have the code's sizes: three pictures, 60 payloads.

  Assumptions. FFmpeg, libswresample, swscale, VideoToolbox, UxPlay, Bonjour, libobs, the system calls, JSON, URL
  and signature libraries are parameters: records of functions on a world \<open>'w\<close>, or the answers that are
  given to a step, with what the code relies on as named hypotheses. Doubles are rational numbers,
  those of a sender can be infinite or not a number; rounding is not modelled. 64-bit time stamps are words
  where they can wrap. OBS calls the plugin on one thread at a time. A handler of the receiver is one
  step (two that run at the same time on different threads follow each other), and its calls on the player
  are carried out in the order they were made. In \<open>Update_Helper\<close> there is one helper; other helpers are
  steps of \<open>Update_Lock\<close> and \<open>Update_Install\<close>, where another helper's \<open>forgetPreviousVersion\<close> during a swap is
  left out.

  Not modelled. UxPlay is a submodule that is not in the tree, the headers of libobs and SIMDe under
  \<^verbatim>\<open>obs-headers\<close> are vendored, \<^verbatim>\<open>video-warmup-data.h\<close> is a constant, \<^verbatim>\<open>scope-exit.hpp\<close> is a guard whose effect is
  written out where it is used, the tests, scripts and translations are no part of the plugin. Of the
  files that are modelled, log lines and the statistics taken only for them, labels and tooltips of
  panels, alerts and notifications, delays for testing, thread priorities, and wrappers and setters
  that hand on a call are left out; so are C++ exceptions, except where a thread cannot be made (in \<open>play\<close>
  and in the policy's lookup) and those that \<open>obs_module_load\<close> catches.
\<close>

end
